(* ===== verification/Liric_Prelude.thy ===== *)
theory Liric_Prelude
  imports Main "HOL-Library.Word"
begin

text \<open>
  The shared vocabulary of the development: the machine integers of the C sources as words
  of their width, byte buffers, the alignment idiom
  \<^verbatim>\<open>(v + a - 1) & ~(a - 1)\<close> that \<^verbatim>\<open>src/src/arena.c\<close> and \<^verbatim>\<open>src/src/ir.c\<close> write out
  in several places, little-endian byte sequences, and the generic lemmas on lists and
  words that the component theories use.  The collection \<open>word_nat\<close> carries the facts
  that move a goal on words to the naturals; \<open>le_bytes\<close> those that take a byte sequence
  apart or put it together.
\<close>

unbundle bit_operations_syntax

named_theorems word_nat \<open>facts that move word goals to the naturals\<close>
named_theorems le_bytes \<open>facts on byte sequences of fixed length\<close>

section \<open>Machine types\<close>

type_synonym u8 = "8 word"
type_synonym u16 = "16 word"
type_synonym u32 = "32 word"
type_synonym u64 = "64 word"
type_synonym bytes = "u8 list"

abbreviation UINT32_MAX :: u32 where
  "UINT32_MAX \<equiv> - 1"

section \<open>Lists\<close>

text \<open>Overwriting a stretch of a buffer, the effect of \<^verbatim>\<open>memcpy\<close> and \<^verbatim>\<open>memset\<close>.\<close>

definition overwrite :: "'a list \<Rightarrow> nat \<Rightarrow> 'a list \<Rightarrow> 'a list" where
  "overwrite buf off xs = take off buf @ xs @ drop (off + length xs) buf"

lemma length_overwrite [simp]:
  "off + length xs \<le> length buf \<Longrightarrow> length (overwrite buf off xs) = length buf"
  by (simp add: overwrite_def)

lemma overwrite_Nil [simp]: "overwrite buf off [] = buf"
  by (simp add: overwrite_def)

lemma nth_overwrite:
  assumes "off + length xs \<le> length buf" and "i < length buf"
  shows "overwrite buf off xs ! i =
    (if off \<le> i \<and> i < off + length xs then xs ! (i - off) else buf ! i)"
  using assms by (auto simp: overwrite_def nth_append)

lemma overwrite_inside:
  "off + length xs \<le> length buf \<Longrightarrow> take (length xs) (drop off (overwrite buf off xs)) = xs"
  by (simp add: overwrite_def)

lemma overwrite_outside:
  assumes "off + length xs \<le> length buf" and "i + n \<le> off \<or> off + length xs \<le> i"
    and "i + n \<le> length buf"
  shows "take n (drop i (overwrite buf off xs)) = take n (drop i buf)"
  using assms by (intro nth_equalityI) (auto simp: nth_overwrite)

section \<open>Words and naturals\<close>

lemma unat_add_nowrap [word_nat]:
  "unat a + unat b < 2 ^ LENGTH('a) \<Longrightarrow> unat (a + b :: 'a::len word) = unat a + unat b"
  by (simp add: unat_word_ariths)

lemma unat_sub_nowrap [word_nat]:
  "unat b \<le> unat a \<Longrightarrow> unat (a - b :: 'a::len word) = unat a - unat b"
  by (simp add: word_le_nat_alt unat_sub)

lemma unat_of_nat_small [word_nat]:
  "n < 2 ^ LENGTH('a) \<Longrightarrow> unat (of_nat n :: 'a::len word) = n"
  by (simp add: unat_of_nat)

lemma unat_UINT32_MAX [simp]: "unat UINT32_MAX = 4294967295"
  by (simp add: unsigned_minus_1_eq_mask mask_eq_exp_minus_1)

lemma unat_add_le: "unat (a + b :: 'a::len word) \<le> unat a + unat b"
  by (simp add: unat_word_ariths)

lemma unat_exp: "k < LENGTH('a) \<Longrightarrow> unat (2 ^ k :: 'a::len word) = 2 ^ k"
  using unat_of_nat [of "2 ^ k", where 'a = 'a] by simp

lemma unat_ucast_up [simp]:
  "LENGTH('a) \<le> LENGTH('b) \<Longrightarrow> unat (ucast (x :: 'a::len word) :: 'b::len word) = unat x"
proof -
  assume "LENGTH('a) \<le> LENGTH('b)"
  then have "(2::nat) ^ LENGTH('a) \<le> 2 ^ LENGTH('b)" by simp
  moreover have "unat x < 2 ^ LENGTH('a)" by (rule unsigned_less)
  ultimately have "unat x < 2 ^ LENGTH('b)" by linarith
  then show ?thesis by (simp add: unsigned_ucast_eq take_bit_nat_eq_self)
qed

lemma and_not_mask_eq: "x AND NOT (mask k) = push_bit k (drop_bit k (x :: 'a::len word))"
  by (rule bit_eqI) (auto simp: bit_simps)

lemma unat_and_not_mask:
  "unat (x AND NOT (mask k) :: 'a::len word) = unat x div 2 ^ k * 2 ^ k"
proof -
  have le: "unat x div 2 ^ k * 2 ^ k \<le> unat x" by simp
  have "unat x < 2 ^ LENGTH('a)" by simp
  with le have "unat x div 2 ^ k * 2 ^ k < 2 ^ LENGTH('a)" by linarith
  then show ?thesis
    unfolding and_not_mask_eq
    unfolding unsigned_push_bit_eq
    unfolding unsigned_drop_bit_eq
    unfolding push_bit_eq_mult drop_bit_eq_div
    by (simp add: take_bit_nat_eq_self)
qed

lemma unat_mask: "k \<le> LENGTH('a) \<Longrightarrow> unat (mask k :: 'a::len word) = 2 ^ k - 1"
proof -
  assume k: "k \<le> LENGTH('a)"
  have "unat (mask k :: 'a word) = nat (uint (mask k :: 'a word))" by simp
  also have "\<dots> = nat (mask k)" using k by (simp only: uint_mask_eq min_absorb2)
  also have "\<dots> = 2 ^ k - 1" by (simp only: nat_mask_eq) (simp add: mask_eq_exp_minus_1)
  finally show ?thesis .
qed

lemma unat_and_not_ge: "unat x \<le> unat (x AND NOT y) + unat (y :: 'a::len word)"
proof -
  have "x = (x AND NOT y) OR (x AND y)"
    by (rule bit_eqI) (auto simp: bit_simps)
  also have "\<dots> = (x AND NOT y) + (x AND y)"
    by (rule disjunctive_add_eq_or [symmetric]) (auto intro!: bit_eqI simp: bit_simps)
  finally have "unat x \<le> unat (x AND NOT y) + unat (x AND y)"
    by (metis unat_add_le)
  moreover have "unat (x AND y) \<le> unat y"
    by (rule word_and_le1 [THEN word_le_nat_alt [THEN iffD1]])
  ultimately show ?thesis by linarith
qed

section \<open>Alignment\<close>

text \<open>
  \<open>align_up_size\<close> is the static helper of \<^verbatim>\<open>src/src/ir.c\<close>; the same expression is
  written out in \<^verbatim>\<open>arena_alloc_impl\<close>, \<^verbatim>\<open>lr_type_size\<close> and \<^verbatim>\<open>lr_struct_field_offset\<close>.
  For a power of two it is the least multiple at or above the value, as long as the
  intermediate sum does not wrap; for any other alignment it only stays at or above the value.
\<close>

definition align_up_size :: "u64 \<Rightarrow> u64 \<Rightarrow> u64" where
  "align_up_size v a = (v + a - 1) AND NOT (a - 1)"

lemma unat_align_up_pow2:
  assumes "k < 64" and "unat v + (2 ^ k - 1) < 2 ^ 64"
  shows "unat (align_up_size v (2 ^ k)) = (unat v + (2 ^ k - 1)) div 2 ^ k * 2 ^ k"
proof -
  have "unat (mask k :: u64) = 2 ^ k - 1" using assms(1) by (simp add: unat_mask)
  moreover have "v + 2 ^ k - 1 = v + (mask k :: u64)"
    by (simp add: mask_eq_exp_minus_1 algebra_simps)
  ultimately have "unat (v + 2 ^ k - 1) = unat v + (2 ^ k - 1)"
    using assms(2) by (simp only: unat_word_ariths) simp
  then show ?thesis
    using unat_and_not_mask [of "v + 2 ^ k - 1" k]
    by (simp add: align_up_size_def mask_eq_exp_minus_1)
qed

lemma align_up_ge:
  assumes "a \<noteq> 0" and "unat v + (unat a - 1) < 2 ^ 64"
  shows "unat v \<le> unat (align_up_size v a)"
proof -
  have a1: "unat (a - 1) = unat a - 1"
    using assms(1) by (simp add: unat_minus_one)
  have "v + a - 1 = v + (a - 1)" by simp
  then have "unat (v + a - 1) = unat v + (unat a - 1)"
    using assms(2) a1 by (simp only: unat_word_ariths) simp
  with unat_and_not_ge [of "v + a - 1" "a - 1"] a1 show ?thesis
    by (simp add: align_up_size_def)
qed

lemma align_up_le:
  assumes "a \<noteq> 0" and "unat v + (unat a - 1) < 2 ^ 64"
  shows "unat (align_up_size v a) \<le> unat v + unat a"
proof -
  have "unat (align_up_size v a) \<le> unat (v + a - 1)"
    unfolding align_up_size_def by (rule word_and_le2 [THEN word_le_nat_alt [THEN iffD1]])
  also have "\<dots> = unat (v + (a - 1))" by (simp add: algebra_simps)
  also have "\<dots> \<le> unat v + unat (a - 1)" by (rule unat_add_le)
  also have "\<dots> \<le> unat v + unat a" using assms(1) by (simp add: unat_minus_one)
  finally show ?thesis .
qed

lemma align_up_pow2_props:
  assumes "k < 64" and "unat v + (2 ^ k - 1) < 2 ^ 64"
  shows "2 ^ k dvd unat (align_up_size v (2 ^ k))"
    and "unat v \<le> unat (align_up_size v (2 ^ k))"
    and "unat (align_up_size v (2 ^ k)) < unat v + 2 ^ k"
proof -
  let ?m = "unat v + (2 ^ k - 1)"
  have eq: "unat (align_up_size v (2 ^ k)) = ?m div 2 ^ k * 2 ^ k"
    using assms by (rule unat_align_up_pow2)
  then show "2 ^ k dvd unat (align_up_size v (2 ^ k))" by simp
  have "?m = ?m div 2 ^ k * 2 ^ k + ?m mod 2 ^ k"
    by (rule div_mult_mod_eq [symmetric])
  moreover have "?m mod 2 ^ k < 2 ^ k" by simp
  moreover have "?m div 2 ^ k * 2 ^ k \<le> ?m" by simp
  moreover have "(1::nat) \<le> 2 ^ k" by simp
  ultimately show "unat v \<le> unat (align_up_size v (2 ^ k))"
    and "unat (align_up_size v (2 ^ k)) < unat v + 2 ^ k"
    unfolding eq by linarith+
qed

lemma align_up_zero: "align_up_size 0 a = 0"
  by (simp add: align_up_size_def)

section \<open>Little-endian byte sequences\<close>

fun le_join :: "bytes \<Rightarrow> 'a::len word" where
  "le_join [] = 0"
| "le_join (b # bs) = ucast b OR push_bit 8 (le_join bs)"

fun le_split :: "nat \<Rightarrow> 'a::len word \<Rightarrow> bytes" where
  "le_split 0 v = []"
| "le_split (Suc n) v = ucast v # le_split n (drop_bit 8 v)"

lemma length_le_split [simp]: "length (le_split n v) = n"
  by (induction n arbitrary: v) auto

lemma le_join_split [le_bytes]:
  "8 \<le> LENGTH('a) \<Longrightarrow> le_join (le_split n (v::'a::len word)) = take_bit (8 * n) v"
proof (induction n arbitrary: v)
  case (Suc n)
  have "ucast (ucast v :: u8) OR push_bit 8 (take_bit (8 * n) (drop_bit 8 v)) = take_bit (8 * Suc n) v"
    using Suc.prems by (intro bit_eqI) (auto simp: bit_simps)
  then show ?case using Suc by simp
qed simp

lemma bit_le_join: "bit (le_join bs :: 'a::len word) n \<Longrightarrow> n < 8 * length bs"
proof (induction bs arbitrary: n)
  case (Cons b bs)
  then show ?case by (force simp: bit_simps dest: bit_imp_le_length)
qed simp

lemma le_split_join [le_bytes]:
  "8 * length bs \<le> LENGTH('a) \<Longrightarrow> le_split (length bs) (le_join bs :: 'a::len word) = bs"
proof (induction bs)
  case (Cons b bs)
  have "ucast (ucast b OR push_bit 8 (le_join bs :: 'a word)) = b"
    using Cons.prems by (intro bit_eqI) (auto simp: bit_simps dest: bit_imp_le_length)
  moreover have "drop_bit 8 (ucast b OR push_bit 8 (le_join bs :: 'a word)) = le_join bs"
    using Cons.prems
    by (intro bit_eqI) (auto simp: bit_simps dest: bit_imp_le_length bit_le_join)
  ultimately show ?case using Cons by simp
qed simp

end
