(* ===== verification/Arena.thy ===== *)
theory Arena
  imports Liric_Prelude
begin

text \<open>
  The arena of \<^verbatim>\<open>src/src/arena.c\<close>: a list of chunks, the head first, each a block the C
  library's \<^verbatim>\<open>malloc\<close> returned, with a header of \<open>sizeof_chunk\<close> bytes and a
  bump pointer \<open>chunk_used\<close> into the bytes after it.  Sizes, offsets and addresses are
  64-bit words, so every sum of the source wraps where the source's \<^verbatim>\<open>size_t\<close> does.
  \<^verbatim>\<open>malloc\<close> is an argument: \<open>malloc n\<close> is \<open>None\<close> for \<^verbatim>\<open>NULL\<close>, else the address and the
  indeterminate contents of the new block.  A pointer is an absolute address, \<open>None\<close> the
  null pointer.

  The laws an allocator owes its clients (a new region overlaps nothing handed out before,
  nothing handed out before is lost) are the locale \<open>region_allocator\<close>; the arena is its
  interpretation, and the pairwise disjointness of all regions of a run is proved once there.
\<close>

section \<open>Definitions\<close>

type_synonym malloc_fn = "u64 \<Rightarrow> (u64 \<times> bytes) option"

record lr_arena_chunk =
  chunk_addr :: u64
  chunk_size :: u64
  chunk_used :: u64
  chunk_data :: bytes

record lr_arena =
  arena_addr :: u64
  head :: lr_arena_chunk
  next_chunks :: "lr_arena_chunk list"
  default_chunk_size :: u64

definition sizeof_chunk :: u64 where
  "sizeof_chunk = 24"

definition sizeof_arena :: u64 where
  "sizeof_arena = 16"

definition data_addr :: "lr_arena_chunk \<Rightarrow> u64" where
  "data_addr c = chunk_addr c + sizeof_chunk"

definition chunk_create :: "malloc_fn \<Rightarrow> u64 \<Rightarrow> lr_arena_chunk option" where
  "chunk_create malloc data_size =
     (case malloc (sizeof_chunk + data_size) of
        None \<Rightarrow> None
      | Some (p, mem) \<Rightarrow>
          Some \<lparr>chunk_addr = p, chunk_size = data_size, chunk_used = 0,
                chunk_data = drop (unat sizeof_chunk) mem\<rparr>)"

definition memset_if :: "bool \<Rightarrow> bytes \<Rightarrow> u64 \<Rightarrow> u64 \<Rightarrow> bytes" where
  "memset_if zero_init buf off n =
     (if zero_init then overwrite buf (unat off) (replicate (unat n) 0) else buf)"

definition arena_alloc_impl ::
  "malloc_fn \<Rightarrow> lr_arena option \<Rightarrow> u64 \<Rightarrow> u64 \<Rightarrow> bool \<Rightarrow> u64 option \<times> lr_arena option" where
  "arena_alloc_impl malloc ao sz align0 zero_init =
     (case ao of
        None \<Rightarrow> (None, None)
      | Some a \<Rightarrow>
          let align = (if align0 = 0 then 1 else align0);
              c = head a;
              offset = align_up_size (chunk_used c) align
          in if offset + sz \<le> chunk_size c
             then (Some (data_addr c + offset),
                   Some (a\<lparr>head := c\<lparr>chunk_used := offset + sz,
                                    chunk_data := memset_if zero_init (chunk_data c) offset sz\<rparr>\<rparr>))
             else
               let need = sz + align;
                   csize = (if default_chunk_size a < need then need else default_chunk_size a)
               in (case chunk_create malloc csize of
                     None \<Rightarrow> (None, Some a)
                   | Some nc \<Rightarrow>
                       let off2 = align_up_size (chunk_used nc) align
                       in (Some (data_addr nc + off2),
                           Some (a\<lparr>head := nc\<lparr>chunk_used := off2 + sz,
                                             chunk_data := memset_if zero_init (chunk_data nc) off2 sz\<rparr>,
                                   next_chunks := head a # next_chunks a\<rparr>))))"

definition lr_arena_create :: "malloc_fn \<Rightarrow> u64 \<Rightarrow> lr_arena option" where
  "lr_arena_create malloc dcs0 =
     (let dcs = (if dcs0 = 0 then 64 * 1024 else dcs0)
      in case malloc sizeof_arena of
           None \<Rightarrow> None
         | Some (p, _) \<Rightarrow>
             (case chunk_create malloc dcs of
                None \<Rightarrow> None
              | Some c \<Rightarrow> Some \<lparr>arena_addr = p, head = c, next_chunks = [], default_chunk_size = dcs\<rparr>))"

definition lr_arena_alloc ::
  "malloc_fn \<Rightarrow> lr_arena option \<Rightarrow> u64 \<Rightarrow> u64 \<Rightarrow> u64 option \<times> lr_arena option" where
  "lr_arena_alloc malloc a sz align = arena_alloc_impl malloc a sz align True"

definition lr_arena_alloc_uninit ::
  "malloc_fn \<Rightarrow> lr_arena option \<Rightarrow> u64 \<Rightarrow> u64 \<Rightarrow> u64 option \<times> lr_arena option" where
  "lr_arena_alloc_uninit malloc a sz align = arena_alloc_impl malloc a sz align False"

text \<open>
  \<^verbatim>\<open>lr_arena_strdup\<close> writes through the pointer it got, which lies in the chunk that is
  the head after the allocation.
\<close>

definition lr_arena_strdup ::
  "malloc_fn \<Rightarrow> lr_arena option \<Rightarrow> bytes \<Rightarrow> u64 \<Rightarrow> u64 option \<times> lr_arena option" where
  "lr_arena_strdup malloc a s len =
     (case lr_arena_alloc_uninit malloc a (len + 1) 1 of
        (Some p, Some a') \<Rightarrow>
          let c = head a'; off = unat (p - data_addr c)
          in (Some p, Some (a'\<lparr>head := c\<lparr>chunk_data :=
                  overwrite (chunk_data c) off (take (unat len) s @ [0])\<rparr>\<rparr>))
      | (_, a') \<Rightarrow> (None, a'))"

text \<open>The addresses \<^verbatim>\<open>lr_arena_destroy\<close> passes to \<^verbatim>\<open>free\<close>, in order.\<close>

fun free_chunks :: "lr_arena_chunk list \<Rightarrow> u64 list" where
  "free_chunks [] = []"
| "free_chunks (c # cs) = chunk_addr c # free_chunks cs"

definition lr_arena_destroy :: "lr_arena option \<Rightarrow> u64 list" where
  "lr_arena_destroy ao =
     (case ao of None \<Rightarrow> [] | Some a \<Rightarrow> free_chunks (head a # next_chunks a) @ [arena_addr a])"

section \<open>Address ranges and the invariant\<close>

definition region :: "u64 \<Rightarrow> nat \<Rightarrow> nat set" where
  "region p n = {unat p ..< unat p + n}"

definition chunk_span :: "lr_arena_chunk \<Rightarrow> nat set" where
  "chunk_span c = {unat (chunk_addr c) + 24 ..< unat (chunk_addr c) + 24 + unat (chunk_size c)}"

definition used_span :: "lr_arena_chunk \<Rightarrow> nat set" where
  "used_span c = {unat (chunk_addr c) + 24 ..< unat (chunk_addr c) + 24 + unat (chunk_used c)}"

definition all_chunks :: "lr_arena \<Rightarrow> lr_arena_chunk list" where
  "all_chunks a = head a # next_chunks a"

definition used_space :: "lr_arena \<Rightarrow> nat set" where
  "used_space a = (\<Union>c \<in> set (all_chunks a). used_span c)"

definition chunk_wf :: "lr_arena_chunk \<Rightarrow> bool" where
  "chunk_wf c \<longleftrightarrow> chunk_used c \<le> chunk_size c \<and> length (chunk_data c) = unat (chunk_size c) \<and>
     unat (chunk_addr c) + 24 + unat (chunk_size c) < 2 ^ 64 \<and> 16 dvd unat (chunk_addr c)"

definition spans_disjoint :: "lr_arena_chunk list \<Rightarrow> bool" where
  "spans_disjoint cs = sorted_wrt (\<lambda>c d. chunk_span c \<inter> chunk_span d = {}) cs"

definition arena_inv :: "lr_arena \<Rightarrow> bool" where
  "arena_inv a \<longleftrightarrow> (\<forall>c \<in> set (all_chunks a). chunk_wf c) \<and> spans_disjoint (all_chunks a)"

text \<open>The byte stored at an absolute address.\<close>

definition chunk_byte :: "lr_arena_chunk \<Rightarrow> nat \<Rightarrow> u8 option" where
  "chunk_byte c x =
     (if unat (chunk_addr c) + 24 \<le> x \<and> x < unat (chunk_addr c) + 24 + unat (chunk_size c)
      then Some (chunk_data c ! (x - (unat (chunk_addr c) + 24))) else None)"

fun chunks_byte :: "lr_arena_chunk list \<Rightarrow> nat \<Rightarrow> u8 option" where
  "chunks_byte [] x = None"
| "chunks_byte (c # cs) x =
     (case chunk_byte c x of Some b \<Rightarrow> Some b | None \<Rightarrow> chunks_byte cs x)"

definition arena_byte :: "lr_arena \<Rightarrow> nat \<Rightarrow> u8 option" where
  "arena_byte a = chunks_byte (all_chunks a)"

text \<open>What the C library documents of \<^verbatim>\<open>malloc\<close>: a block of the size asked for, inside the
  address space, overlapping no block still in use, aligned to 16 bytes.\<close>

definition malloc_ok :: "malloc_fn \<Rightarrow> lr_arena_chunk list \<Rightarrow> bool" where
  "malloc_ok malloc cs \<longleftrightarrow>
     (\<forall>n p mem. malloc n = Some (p, mem) \<longrightarrow>
        length mem = unat n \<and> unat p + unat n < 2 ^ 64 \<and> 16 dvd unat p \<and>
        (\<forall>c \<in> set cs. {unat p ..< unat p + unat n} \<inter> chunk_span c = {}))"

text \<open>A request whose size arithmetic stays inside \<^verbatim>\<open>size_t\<close>.\<close>

definition request_ok :: "lr_arena \<Rightarrow> u64 \<Rightarrow> u64 \<Rightarrow> bool" where
  "request_ok a sz align \<longleftrightarrow>
     unat (chunk_size (head a)) + unat sz + unat align + 32 < 2 ^ 64 \<and>
     unat (default_chunk_size a) + 24 < 2 ^ 64"

section \<open>One allocation\<close>

lemma unat_sizeof_chunk [simp]: "unat sizeof_chunk = 24"
  by (simp add: sizeof_chunk_def)

lemma malloc_okD:
  assumes "malloc_ok malloc cs" and "malloc n = Some (p, mem)"
  shows "length mem = unat n" and "unat p + unat n < 2 ^ 64" and "16 dvd unat p"
    and "\<forall>c \<in> set cs. {unat p ..< unat p + unat n} \<inter> chunk_span c = {}"
  using assms unfolding malloc_ok_def by blast+

lemma chunk_create_wf:
  assumes "chunk_create malloc n = Some c" and "malloc_ok malloc cs" and "unat n + 24 < 2 ^ 64"
  shows "chunk_wf c" and "chunk_used c = 0" and "chunk_size c = n"
    and "\<forall>d \<in> set cs. chunk_span c \<inter> chunk_span d = {}" and "16 dvd unat (chunk_addr c)"
proof -
  obtain p mem where m: "malloc (sizeof_chunk + n) = Some (p, mem)"
    and c: "c = \<lparr>chunk_addr = p, chunk_size = n, chunk_used = 0, chunk_data = drop 24 mem\<rparr>"
    using assms(1) by (auto simp: chunk_create_def split: option.splits)
  have n24: "unat (sizeof_chunk + n) = 24 + unat n"
    using assms(3) by (subst unat_add_nowrap) auto
  note ok = malloc_okD [OF assms(2) m, unfolded n24]
  then show "chunk_wf c" "chunk_used c = 0" "chunk_size c = n" "16 dvd unat (chunk_addr c)"
    by (auto simp: c chunk_wf_def)
  have "chunk_span c \<subseteq> {unat p ..< unat p + (24 + unat n)}"
    by (auto simp: c chunk_span_def)
  with ok(4) show "\<forall>d \<in> set cs. chunk_span c \<inter> chunk_span d = {}" by blast
qed

lemma unat_data_addr:
  "chunk_wf c \<Longrightarrow> unat (data_addr c) = unat (chunk_addr c) + 24"
  unfolding data_addr_def by (subst unat_add_nowrap) (auto simp: chunk_wf_def)

text \<open>
  The two ways an allocation succeeds: the head chunk has room after rounding up, or a
  fresh chunk is pushed and the request sits at its start.
\<close>

lemma alloc_success_cases:
  assumes res: "arena_alloc_impl malloc (Some a) sz al z = (Some p, Some a')"
    and inv: "arena_inv a" and req: "request_ok a sz al" and mok: "malloc_ok malloc (all_chunks a)"
  obtains (bump) off where
      "unat (chunk_used (head a)) \<le> unat off" and "unat off + unat sz \<le> unat (chunk_size (head a))"
      and "unat p = unat (chunk_addr (head a)) + 24 + unat off"
      and "off = align_up_size (chunk_used (head a)) (if al = 0 then 1 else al)"
      and "a' = a\<lparr>head := (head a)\<lparr>chunk_used := off + sz,
                     chunk_data := memset_if z (chunk_data (head a)) off sz\<rparr>\<rparr>"
      and "unat (off + sz) = unat off + unat sz"
    | (fresh) nc where
      "chunk_wf nc" and "unat sz \<le> unat (chunk_size nc)" and "16 dvd unat (chunk_addr nc)"
      and "\<forall>d \<in> set (all_chunks a). chunk_span nc \<inter> chunk_span d = {}"
      and "unat p = unat (chunk_addr nc) + 24"
      and "a' = a\<lparr>head := nc\<lparr>chunk_used := sz, chunk_data := memset_if z (chunk_data nc) 0 sz\<rparr>,
                  next_chunks := head a # next_chunks a\<rparr>"
proof -
  define c where "c = head a"
  define al' where "al' = (if al = 0 then 1 else al)"
  define off where "off = align_up_size (chunk_used c) al'"
  have wf: "chunk_wf c" using inv by (simp add: arena_inv_def all_chunks_def c_def)
  have al': "al' \<noteq> 0" "unat al' \<le> unat al + 1" by (auto simp: al'_def)
  have usz: "unat (chunk_used c) \<le> unat (chunk_size c)"
    using wf by (simp add: chunk_wf_def word_le_nat_alt)
  have bnd: "unat (chunk_size c) + unat sz + unat al + 32 < 2 ^ 64" "unat (default_chunk_size a) + 24 < 2 ^ 64"
    using req by (simp_all add: request_ok_def c_def)
  have lo: "unat (chunk_used c) \<le> unat off"
    unfolding off_def using al' usz bnd(1) by (intro align_up_ge) auto
  have hi: "unat off \<le> unat (chunk_used c) + unat al'"
    unfolding off_def by (rule align_up_le) (use al' usz bnd(1) in auto)
  have off_sz: "unat (off + sz) = unat off + unat sz"
    using hi al' usz bnd(1) by (intro unat_add_nowrap) simp
  show thesis
  proof (cases "off + sz \<le> chunk_size c")
    case True
    then have fit: "unat off + unat sz \<le> unat (chunk_size c)" by (simp add: word_le_nat_alt off_sz)
    have p: "p = data_addr c + off"
      and a': "a' = a\<lparr>head := c\<lparr>chunk_used := off + sz, chunk_data := memset_if z (chunk_data c) off sz\<rparr>\<rparr>"
      using res True by (auto simp: arena_alloc_impl_def Let_def c_def al'_def off_def)
    have "unat p = unat (data_addr c) + unat off"
      unfolding p using fit wf
      by (intro unat_add_nowrap) (simp add: unat_data_addr chunk_wf_def)
    then show thesis
      using bump [of off] lo fit a' off_sz by (simp add: c_def unat_data_addr [OF wf, unfolded c_def] off_def al'_def)
  next
    case False
    define cs where "cs = (if default_chunk_size a < sz + al' then sz + al' else default_chunk_size a)"
    note res' = res [unfolded arena_alloc_impl_def Let_def option.case, folded c_def al'_def,
        folded off_def cs_def]
    obtain nc where nc: "chunk_create malloc cs = Some nc"
      using res' False by (cases "chunk_create malloc cs") auto
    have need: "unat (sz + al') = unat sz + unat al'"
      using al' bnd(1) by (intro unat_add_nowrap) simp
    have cs: "unat cs + 24 < 2 ^ 64" "unat sz \<le> unat cs"
      using al' bnd need by (auto simp: cs_def word_less_nat_alt)
    note ncw = chunk_create_wf [OF nc mok cs(1)]
    have p: "p = data_addr nc"
      and a': "a' = a\<lparr>head := nc\<lparr>chunk_used := sz, chunk_data := memset_if z (chunk_data nc) 0 sz\<rparr>,
                  next_chunks := head a # next_chunks a\<rparr>"
      using res' False nc ncw(2) by (auto simp: align_up_zero c_def)
    show thesis
      using fresh [of nc] ncw cs(2) a' by (simp add: p unat_data_addr)
  qed
qed

lemma length_memset_if:
  "unat off + unat n \<le> length buf \<Longrightarrow> length (memset_if z buf off n) = length buf"
  by (simp add: memset_if_def)

lemma used_subset_span: "chunk_wf c \<Longrightarrow> used_span c \<subseteq> chunk_span c"
  by (auto simp: used_span_def chunk_span_def chunk_wf_def word_le_nat_alt)

lemma arena_alloc_inv:
  assumes "arena_alloc_impl malloc (Some a) sz al z = (Some p, Some a')"
    and inv: "arena_inv a" and "request_ok a sz al" and "malloc_ok malloc (all_chunks a)"
  shows "arena_inv a'"
  using assms
proof (cases rule: alloc_success_cases)
  case (bump off)
  let ?c = "head a" and ?c' = "head a'"
  have "chunk_wf ?c" using inv by (simp add: arena_inv_def all_chunks_def)
  with bump have "chunk_wf ?c'"
    by (simp add: chunk_wf_def word_le_nat_alt length_memset_if)
  moreover have "chunk_span ?c' = chunk_span ?c" by (simp add: bump(5) chunk_span_def)
  ultimately show ?thesis using inv by (auto simp: arena_inv_def all_chunks_def spans_disjoint_def bump(5))
next
  case (fresh nc)
  let ?c' = "head a'"
  have "chunk_wf ?c'" using fresh
    by (simp add: chunk_wf_def word_le_nat_alt length_memset_if)
  moreover have "chunk_span ?c' = chunk_span nc" by (simp add: fresh(6) chunk_span_def)
  ultimately show ?thesis using inv fresh(4)
    by (auto simp: arena_inv_def all_chunks_def spans_disjoint_def fresh(6))
qed

lemma used_space_split:
  "used_space a = used_span (head a) \<union> (\<Union>c \<in> set (next_chunks a). used_span c)"
  by (simp add: used_space_def all_chunks_def)

lemma arena_alloc_fresh:
  assumes "arena_alloc_impl malloc (Some a) sz al z = (Some p, Some a')"
    and inv: "arena_inv a" and "request_ok a sz al" and "malloc_ok malloc (all_chunks a)"
  shows "region p (unat sz) \<inter> used_space a = {}"
    and "region p (unat sz) \<subseteq> used_space a'" and "used_space a \<subseteq> used_space a'"
proof -
  have wf: "\<forall>c \<in> set (all_chunks a). chunk_wf c" and dj: "spans_disjoint (all_chunks a)"
    using inv by (auto simp: arena_inv_def)
  have us: "\<forall>c \<in> set (all_chunks a). used_span c \<subseteq> chunk_span c"
    using wf used_subset_span by blast
  from assms have "region p (unat sz) \<inter> used_space a = {} \<and> region p (unat sz) \<subseteq> used_space a' \<and>
     used_space a \<subseteq> used_space a'"
  proof (cases rule: alloc_success_cases)
    case (bump off)
    have used': "unat (chunk_used (head a')) = unat off + unat sz" and "chunk_addr (head a') = chunk_addr (head a)"
      using bump(6) by (simp_all add: bump(5))
    then have r: "region p (unat sz) \<inter> used_span (head a) = {}" "region p (unat sz) \<subseteq> chunk_span (head a)"
      "region p (unat sz) \<subseteq> used_span (head a')" "used_span (head a) \<subseteq> used_span (head a')"
      using bump(1-3) by (auto simp: region_def used_span_def chunk_span_def)
    have rest: "region p (unat sz) \<inter> used_span d = {}" if "d \<in> set (next_chunks a)" for d
    proof -
      have "chunk_span (head a) \<inter> chunk_span d = {}"
        using dj that by (simp add: spans_disjoint_def all_chunks_def)
      moreover have "used_span d \<subseteq> chunk_span d" using us that by (simp add: all_chunks_def)
      ultimately show ?thesis using r(2) by blast
    qed
    have next': "next_chunks a' = next_chunks a" by (simp add: bump(5))
    have "region p (unat sz) \<inter> used_space a = {}"
      using r(1) rest by (auto simp: used_space_split)
    moreover have "used_space a' = used_span (head a') \<union> used_space a"
      unfolding used_space_split next' using r(4) by auto
    ultimately show ?thesis using r(3) by blast
  next
    case (fresh nc)
    have "chunk_used (head a') = sz" "chunk_addr (head a') = chunk_addr nc"
      by (simp_all add: fresh(6))
    then have "region p (unat sz) \<subseteq> chunk_span nc" "region p (unat sz) \<subseteq> used_span (head a')"
      using fresh(2,5) by (auto simp: region_def used_span_def chunk_span_def)
    moreover have "region p (unat sz) \<inter> used_span d = {}" if "d \<in> set (all_chunks a)" for d
      using calculation(1) bspec [OF us that] bspec [OF fresh(4) that] by blast
    moreover have "used_space a' = used_span (head a') \<union> used_space a"
      by (simp add: used_space_def all_chunks_def fresh(6))
    ultimately show ?thesis by (auto simp: used_space_def)
  qed
  then show "region p (unat sz) \<inter> used_space a = {}"
    and "region p (unat sz) \<subseteq> used_space a'" and "used_space a \<subseteq> used_space a'" by auto
qed

text \<open>A failed allocation leaves the arena as it was.\<close>

lemma arena_alloc_fail:
  "arena_alloc_impl malloc (Some a) sz al z = (None, ao) \<Longrightarrow> ao = Some a"
  by (auto simp: arena_alloc_impl_def Let_def split: if_splits option.splits)

lemma arena_alloc_total:
  "\<exists>a'. snd (arena_alloc_impl malloc (Some a) sz al z) = Some a'"
  by (auto simp: arena_alloc_impl_def Let_def split: option.splits)

section \<open>The allocator interface\<close>

text \<open>
  What a client of an allocator relies on, for a state \<open>'s\<close> and requests \<open>'r\<close>:
  \<open>live s\<close> are the addresses handed out so far.
\<close>

primrec run_alloc :: "('s \<Rightarrow> 'r \<Rightarrow> 's \<times> nat set option) \<Rightarrow> 's \<Rightarrow> 'r list \<Rightarrow> nat set list" where
  "run_alloc alloc s [] = []"
| "run_alloc alloc s (r # rs) =
     (case alloc s r of
        (s', None) \<Rightarrow> run_alloc alloc s' rs
      | (s', Some R) \<Rightarrow> R # run_alloc alloc s' rs)"

primrec run_ok :: "('s \<Rightarrow> 'r \<Rightarrow> 's \<times> nat set option) \<Rightarrow> ('s \<Rightarrow> 'r \<Rightarrow> bool) \<Rightarrow> 's \<Rightarrow> 'r list \<Rightarrow> bool" where
  "run_ok alloc ok s [] = True"
| "run_ok alloc ok s (r # rs) = (ok s r \<and> run_ok alloc ok (fst (alloc s r)) rs)"

locale region_allocator =
  fixes alloc :: "'s \<Rightarrow> 'r \<Rightarrow> 's \<times> nat set option"
    and live :: "'s \<Rightarrow> nat set"
    and inv :: "'s \<Rightarrow> bool"
    and ok :: "'s \<Rightarrow> 'r \<Rightarrow> bool"
  assumes inv_alloc: "inv s \<Longrightarrow> ok s r \<Longrightarrow> alloc s r = (s', res) \<Longrightarrow> inv s'"
    and live_mono: "inv s \<Longrightarrow> ok s r \<Longrightarrow> alloc s r = (s', res) \<Longrightarrow> live s \<subseteq> live s'"
    and alloc_fresh: "inv s \<Longrightarrow> ok s r \<Longrightarrow> alloc s r = (s', Some R) \<Longrightarrow> R \<inter> live s = {}"
    and alloc_live: "inv s \<Longrightarrow> ok s r \<Longrightarrow> alloc s r = (s', Some R) \<Longrightarrow> R \<subseteq> live s'"
begin

lemma run_outside_live:
  "inv s \<Longrightarrow> run_ok alloc ok s rs \<Longrightarrow> R \<in> set (run_alloc alloc s rs) \<Longrightarrow> R \<inter> live s = {}"
proof (induction rs arbitrary: s)
  case (Cons r rs)
  obtain s' res where al: "alloc s r = (s', res)" by fastforce
  have ok: "ok s r" using Cons.prems by simp
  have s': "inv s'" "run_ok alloc ok s' rs" "live s \<subseteq> live s'"
    using Cons.prems al inv_alloc [OF _ ok al] live_mono [OF _ ok al] by auto
  have "R \<in> set (run_alloc alloc s' rs) \<Longrightarrow> R \<inter> live s = {}"
    using Cons.IH [OF s'(1,2)] s'(3) by blast
  then show ?case
    using Cons.prems al alloc_fresh [of s r s' R] ok by (cases res) auto
qed simp

lemma run_pairwise_disjoint:
  "inv s \<Longrightarrow> run_ok alloc ok s rs \<Longrightarrow> sorted_wrt (\<lambda>R S. R \<inter> S = {}) (run_alloc alloc s rs)"
proof (induction rs arbitrary: s)
  case (Cons r rs)
  obtain s' res where al: "alloc s r = (s', res)" by fastforce
  have s': "inv s'" "run_ok alloc ok s' rs"
    using Cons.prems al inv_alloc by auto
  have "R \<inter> S = {}" if "res = Some R" and "S \<in> set (run_alloc alloc s' rs)" for R S
    using alloc_live [of s r s' R] run_outside_live [OF s' that(2)] Cons.prems al that(1) by auto
  then show ?case using Cons.IH [OF s'] al by (cases res) auto
qed simp

end

text \<open>The arena as such an allocator: a request is the \<^verbatim>\<open>malloc\<close> in force, size, alignment and
  whether to zero the bytes.\<close>

type_synonym arena_request = "malloc_fn \<times> u64 \<times> u64 \<times> bool"

definition arena_step :: "lr_arena \<Rightarrow> arena_request \<Rightarrow> lr_arena \<times> nat set option" where
  "arena_step a r =
     (case r of (malloc, sz, al, z) \<Rightarrow>
        (case arena_alloc_impl malloc (Some a) sz al z of
           (po, ao) \<Rightarrow> (the ao, map_option (\<lambda>p. region p (unat sz)) po)))"

definition arena_request_ok :: "lr_arena \<Rightarrow> arena_request \<Rightarrow> bool" where
  "arena_request_ok a r =
     (case r of (malloc, sz, al, z) \<Rightarrow> request_ok a sz al \<and> malloc_ok malloc (all_chunks a))"

lemma arena_step_cases:
  assumes "arena_step a (malloc, sz, al, z) = (a', res)"
  obtains (None) "res = None" and "a' = a"
    | (Some) p where "res = Some (region p (unat sz))"
      and "arena_alloc_impl malloc (Some a) sz al z = (Some p, Some a')"
proof -
  obtain po ao where al: "arena_alloc_impl malloc (Some a) sz al z = (po, ao)" by fastforce
  obtain a2 where "ao = Some a2" using arena_alloc_total [of malloc a sz al z] al by auto
  then show thesis
    using assms al None Some arena_alloc_fail [of malloc a sz al z ao]
    by (cases po) (auto simp: arena_step_def)
qed

interpretation arena_alloc: region_allocator arena_step used_space arena_inv arena_request_ok
proof
  fix a r a' res
  assume inv: "arena_inv a" and ok: "arena_request_ok a r" and st: "arena_step a r = (a', res)"
  obtain malloc sz al z where r: "r = (malloc, sz, al, z)" by (cases r) auto
  note okr = ok [unfolded r arena_request_ok_def, simplified]
  show "arena_inv a'" and "used_space a \<subseteq> used_space a'"
    using st [unfolded r] inv okr
    by (auto elim!: arena_step_cases intro: arena_alloc_inv dest: arena_alloc_fresh)
next
  fix a r a' R
  assume inv: "arena_inv a" and ok: "arena_request_ok a r" and st: "arena_step a r = (a', Some R)"
  obtain malloc sz al z where r: "r = (malloc, sz, al, z)" by (cases r) auto
  note okr = ok [unfolded r arena_request_ok_def, simplified]
  show "R \<inter> used_space a = {}" and "R \<subseteq> used_space a'"
    using st [unfolded r] inv okr
    by (auto elim!: arena_step_cases dest: arena_alloc_fresh)
qed

section \<open>Contents\<close>

lemma chunk_byte_None: "x \<notin> chunk_span c \<Longrightarrow> chunk_byte c x = None"
  by (auto simp: chunk_byte_def chunk_span_def)

lemma arena_byte_head:
  "x \<in> chunk_span (head a) \<Longrightarrow>
   arena_byte a x = Some (chunk_data (head a) ! (x - (unat (chunk_addr (head a)) + 24)))"
  by (auto simp: arena_byte_def all_chunks_def chunk_byte_def chunk_span_def)

lemma arena_byte_next:
  "x \<notin> chunk_span (head a) \<Longrightarrow> arena_byte a x = chunks_byte (next_chunks a) x"
  by (simp add: arena_byte_def all_chunks_def chunk_byte_None)

lemma nth_memset_if:
  "unat off + unat n \<le> length buf \<Longrightarrow> i < length buf \<Longrightarrow>
   memset_if z buf off n ! i = (if z \<and> unat off \<le> i \<and> i < unat off + unat n then 0 else buf ! i)"
  by (auto simp: memset_if_def nth_overwrite)

lemma arena_alloc_frame:
  assumes "arena_alloc_impl malloc (Some a) sz al z = (Some p, Some a')"
    and inv: "arena_inv a" and "request_ok a sz al" and "malloc_ok malloc (all_chunks a)"
    and x: "x \<in> used_space a"
  shows "arena_byte a' x = arena_byte a x"
  using assms(1-4)
proof (cases rule: alloc_success_cases)
  case (bump off)
  have wf: "chunk_wf (head a)" using inv by (simp add: arena_inv_def all_chunks_def)
  have span: "chunk_span (head a') = chunk_span (head a)" by (simp add: bump(5) chunk_span_def)
  show ?thesis
  proof (cases "x \<in> chunk_span (head a)")
    case False
    then show ?thesis using span by (simp add: arena_byte_next bump(5))
  next
    case True
    have "x \<in> used_span (head a)"
    proof (rule ccontr)
      assume "x \<notin> used_span (head a)"
      then obtain d where d: "d \<in> set (next_chunks a)" "x \<in> used_span d"
        using x by (auto simp: used_space_split)
      then have "x \<in> chunk_span d" "chunk_span (head a) \<inter> chunk_span d = {}"
        using inv used_subset_span by (auto simp: arena_inv_def all_chunks_def spans_disjoint_def)
      with True show False by blast
    qed
    then have i: "x - (unat (chunk_addr (head a)) + 24) < unat off"
      using bump(1) by (auto simp: used_span_def)
    have len: "unat off + unat sz \<le> length (chunk_data (head a))"
      using bump(2) wf by (simp add: chunk_wf_def)
    have "memset_if z (chunk_data (head a)) off sz ! (x - (unat (chunk_addr (head a)) + 24))
        = chunk_data (head a) ! (x - (unat (chunk_addr (head a)) + 24))"
      using i len by (subst nth_memset_if) auto
    moreover have "x \<in> chunk_span (head a')" using True span by simp
    ultimately show ?thesis using True by (simp add: arena_byte_head) (simp add: bump(5))
  qed
next
  case (fresh nc)
  obtain d where d: "d \<in> set (all_chunks a)" "x \<in> used_span d" using x by (auto simp: used_space_def)
  then have "x \<in> chunk_span d" using inv used_subset_span by (auto simp: arena_inv_def)
  then have "x \<notin> chunk_span nc" using fresh(4) d by blast
  then have "x \<notin> chunk_span (head a')" by (simp add: fresh(6) chunk_span_def)
  then show ?thesis by (simp add: arena_byte_next) (simp add: fresh(6) arena_byte_def all_chunks_def)
qed

lemma arena_alloc_zero:
  assumes "arena_alloc_impl malloc (Some a) sz al True = (Some p, Some a')"
    and inv: "arena_inv a" and "request_ok a sz al" and "malloc_ok malloc (all_chunks a)"
    and x: "x \<in> region p (unat sz)"
  shows "arena_byte a' x = Some 0"
  using assms(1-4)
proof (cases rule: alloc_success_cases)
  case (bump off)
  have "chunk_wf (head a)" using inv by (simp add: arena_inv_def all_chunks_def)
  then have len: "length (chunk_data (head a)) = unat (chunk_size (head a))" by (simp add: chunk_wf_def)
  have "x \<in> chunk_span (head a')" using bump(2,3) x by (auto simp: region_def chunk_span_def bump(5))
  moreover have "memset_if True (chunk_data (head a)) off sz ! (x - (unat (chunk_addr (head a)) + 24)) = 0"
    using bump(2,3) x len by (subst nth_memset_if) (auto simp: region_def)
  ultimately show ?thesis by (simp add: arena_byte_head) (simp add: bump(5))
next
  case (fresh nc)
  have len: "length (chunk_data nc) = unat (chunk_size nc)" using fresh(1) by (simp add: chunk_wf_def)
  have "x \<in> chunk_span (head a')" using fresh(2,5) x by (auto simp: region_def chunk_span_def fresh(6))
  moreover have "memset_if True (chunk_data nc) 0 sz ! (x - (unat (chunk_addr nc) + 24)) = 0"
    using fresh(2,5) x len by (subst nth_memset_if) (auto simp: region_def)
  ultimately show ?thesis by (simp add: arena_byte_head) (simp add: fresh(6))
qed

lemma free_chunks_eq: "free_chunks cs = map chunk_addr cs"
  by (induction cs) auto

section \<open>Properties of the arena\<close>

lemma option_pair_cases:
  obtains (NoneX) y where "x = (None, y)" | (SomeNone) p where "x = (Some p, None)"
    | (SomeSome) p q where "x = (Some p, Some q)"
  by (cases x; cases "fst x"; cases "snd x") auto

text \<open>C10: the regions that a run of arena allocations returns, through any number of chunks
  and with any alignments, are pairwise disjoint: no two live objects of the compiler share
  a byte.\<close>

theorem arena_run_disjoint:
  assumes "arena_inv a" and "run_ok arena_step arena_request_ok a rs"
  shows "sorted_wrt (\<lambda>R S. R \<inter> S = {}) (run_alloc arena_step a rs)"
  using assms by (rule arena_alloc.run_pairwise_disjoint)

definition demo_arena :: lr_arena where
  "demo_arena = \<lparr>arena_addr = 16,
     head = \<lparr>chunk_addr = 1024, chunk_size = 32, chunk_used = 5, chunk_data = replicate 32 7\<rparr>,
     next_chunks = [], default_chunk_size = 32\<rparr>"

lemma demo_arena_inv: "arena_inv demo_arena"
  by (simp add: demo_arena_def arena_inv_def all_chunks_def chunk_wf_def spans_disjoint_def)

lemma demo_malloc_ok: "malloc_ok (\<lambda>_. None) cs"
  by (simp add: malloc_ok_def)

theorem arena_run_disjoint_witness:
  "sorted_wrt (\<lambda>R S. R \<inter> S = {})
     (run_alloc arena_step demo_arena [(\<lambda>_. None, 4, 8, True), (\<lambda>_. None, 8, 4, False)]) \<and>
   run_alloc arena_step demo_arena [(\<lambda>_. None, 4, 8, True), (\<lambda>_. None, 8, 4, False)]
     = [{1056 ..< 1060}, {1060 ..< 1068}]"
proof -
  let ?rs = "[(\<lambda>_. None, 4, 8, True), (\<lambda>_. None, 8, 4, False)] :: arena_request list"
  have ok: "run_ok arena_step arena_request_ok demo_arena ?rs"
    by (simp add: arena_step_def arena_request_ok_def request_ok_def demo_malloc_ok demo_arena_def
        arena_alloc_impl_def Let_def align_up_size_def memset_if_def)
  have "run_alloc arena_step demo_arena ?rs = [{1056 ..< 1060}, {1060 ..< 1068}]"
    by (simp add: arena_step_def demo_arena_def arena_alloc_impl_def Let_def align_up_size_def
        memset_if_def region_def data_addr_def sizeof_chunk_def)
  with arena_run_disjoint [OF demo_arena_inv ok] show ?thesis by simp
qed

text \<open>the bytes of a zero-initialised allocation are zero, and no byte handed out before
  changes.\<close>

theorem arena_alloc_contents:
  assumes "lr_arena_alloc malloc (Some a) sz al = (Some p, Some a')"
    and "arena_inv a" and "request_ok a sz al" and "malloc_ok malloc (all_chunks a)"
  shows "(\<forall>x \<in> region p (unat sz). arena_byte a' x = Some 0) \<and>
    (\<forall>x \<in> used_space a. arena_byte a' x = arena_byte a x)"
  using assms arena_alloc_zero arena_alloc_frame unfolding lr_arena_alloc_def by blast

theorem arena_alloc_contents_witness:
  "arena_byte (the (snd (lr_arena_alloc (\<lambda>_. None) (Some demo_arena) 4 8))) 1059 = Some 0 \<and>
   arena_byte (the (snd (lr_arena_alloc (\<lambda>_. None) (Some demo_arena) 4 8))) 1050 = Some 7"
proof -
  have alloc: "lr_arena_alloc (\<lambda>_. None) (Some demo_arena) 4 8 =
      (Some 1056, Some (the (snd (lr_arena_alloc (\<lambda>_. None) (Some demo_arena) 4 8))))"
    by (simp add: lr_arena_alloc_def demo_arena_def arena_alloc_impl_def Let_def align_up_size_def
        data_addr_def sizeof_chunk_def)
  have "request_ok demo_arena 4 8" by (simp add: request_ok_def demo_arena_def)
  note th = arena_alloc_contents [OF alloc demo_arena_inv this demo_malloc_ok]
  have "1059 \<in> region 1056 (unat (4 :: u64))" by (simp add: region_def)
  moreover have "1050 \<in> used_space demo_arena"
    by (simp add: used_space_def all_chunks_def used_span_def demo_arena_def)
  moreover have "arena_byte demo_arena 1050 = Some 7"
    by (simp add: arena_byte_def all_chunks_def chunk_byte_def demo_arena_def)
  ultimately show ?thesis using th by auto
qed

lemma alloc_chunk_offset:
  assumes "arena_alloc_impl malloc (Some a) sz al z = (Some p, Some a')"
    and inv: "arena_inv a" and req: "request_ok a sz al" and "malloc_ok malloc (all_chunks a)"
    and pow: "al = 2 ^ k" "k < 64"
  obtains off where "unat p = unat (chunk_addr (head a')) + 24 + off" and "2 ^ k dvd off"
    and "off + unat sz \<le> unat (chunk_size (head a'))"
    and "length (chunk_data (head a')) = unat (chunk_size (head a'))"
proof -
  have inv': "arena_inv a'" using assms(1-4) by (rule arena_alloc_inv)
  then have len: "length (chunk_data (head a')) = unat (chunk_size (head a'))"
    by (simp add: arena_inv_def all_chunks_def chunk_wf_def)
  have pos: "unat al = 2 ^ k" "al \<noteq> 0"
    using pow by (simp_all add: unat_exp flip: unat_eq_zero)
  from assms(1-4) show thesis
  proof (cases rule: alloc_success_cases)
    case (bump off)
    have "chunk_used (head a) \<le> chunk_size (head a)"
      using inv by (simp add: arena_inv_def all_chunks_def chunk_wf_def)
    then have "unat (chunk_used (head a)) + (2 ^ k - 1) < 2 ^ 64"
      using req pos unfolding request_ok_def word_le_nat_alt by linarith
    then have "2 ^ k dvd unat off" using bump(4) pos pow by (simp add: align_up_pow2_props(1))
    then show thesis using that [of "unat off"] bump(2,3) len by (simp add: bump(5))
  next
    case (fresh nc)
    then show thesis using that [of 0] len by simp
  qed
qed

text \<open>a request with a power-of-two alignment up to 8 gets a pointer aligned to it, but a
  request for 16-byte alignment never does: offsets are aligned relative to the byte after the
  24-byte chunk header, which sits 8 bytes off a 16-byte boundary.\<close>

theorem arena_alloc_alignment:
  assumes "arena_alloc_impl malloc (Some a) sz (2 ^ k) z = (Some p, Some a')"
    and "arena_inv a" and "request_ok a sz (2 ^ k)" and "malloc_ok malloc (all_chunks a)"
  shows "(k \<le> 3 \<longrightarrow> 2 ^ k dvd unat p) \<and> (k = 4 \<longrightarrow> unat p mod 16 = 8)"
proof (cases "k \<le> 4")
  case True
  then have k: "k < 64" by simp
  obtain off where off: "unat p = unat (chunk_addr (head a')) + 24 + off" "2 ^ k dvd off"
    using alloc_chunk_offset [OF assms refl k] by blast
  have base: "16 dvd unat (chunk_addr (head a'))"
    using arena_alloc_inv [OF assms] by (simp add: arena_inv_def all_chunks_def chunk_wf_def)
  show ?thesis
  proof (intro conjI impI)
    assume k3: "k \<le> 3"
    then have "(2 ^ k :: nat) dvd 8" "(2 ^ k :: nat) dvd 16"
      using le_imp_power_dvd [of k 3 "2 :: nat"] le_imp_power_dvd [of k 4 "2 :: nat"] by simp_all
    then have "2 ^ k dvd (24 :: nat)" "2 ^ k dvd unat (chunk_addr (head a'))"
      using base by (auto intro: dvd_trans [of "2 ^ k" 8 24] dvd_trans [of "2 ^ k" 16])
    with off show "2 ^ k dvd unat p" by simp
  next
    assume "k = 4"
    with off base show "unat p mod 16 = 8" by (auto elim!: dvdE)
  qed
qed simp

theorem arena_alloc_alignment_witness:
  "(unat (1064 :: u64) mod 16 = 8) \<and>
   arena_alloc_impl (\<lambda>_. None) (Some demo_arena) 4 (2 ^ 4) True =
     (Some 1064, Some (the (snd (arena_alloc_impl (\<lambda>_. None) (Some demo_arena) 4 (2 ^ 4) True))))"
proof -
  have alloc: "arena_alloc_impl (\<lambda>_. None) (Some demo_arena) 4 (2 ^ 4) True =
      (Some 1064, Some (the (snd (arena_alloc_impl (\<lambda>_. None) (Some demo_arena) 4 (2 ^ 4) True))))"
    by (simp add: demo_arena_def arena_alloc_impl_def Let_def align_up_size_def data_addr_def sizeof_chunk_def)
  have "request_ok demo_arena 4 (2 ^ 4)" by (simp add: request_ok_def demo_arena_def)
  from arena_alloc_alignment [OF alloc demo_arena_inv this demo_malloc_ok] alloc show ?thesis by blast
qed

text \<open>\<^verbatim>\<open>lr_arena_strdup\<close> stores the bytes of its argument followed by a NUL at the pointer
  it returns.\<close>

theorem lr_arena_strdup_copies:
  assumes res: "lr_arena_strdup malloc (Some a) s len = (Some p, Some a')"
    and inv: "arena_inv a" and req: "request_ok a (len + 1) 1" and mok: "malloc_ok malloc (all_chunks a)"
    and s: "unat len \<le> length s" and nowrap: "unat len + 1 < 2 ^ 64"
  shows "\<forall>i \<le> unat len. arena_byte a' (unat p + i) = Some (if i < unat len then s ! i else 0)"
proof (intro allI impI)
  fix i assume i: "i \<le> unat len"
  have len1: "unat (len + 1) = unat len + 1" using nowrap by (subst unat_add_nowrap) auto
  obtain a0 where al: "arena_alloc_impl malloc (Some a) (len + 1) (2 ^ 0) False = (Some p, Some a0)"
    and a': "a' = a0\<lparr>head := (head a0)\<lparr>chunk_data :=
       overwrite (chunk_data (head a0)) (unat (p - data_addr (head a0))) (take (unat len) s @ [0])\<rparr>\<rparr>"
    using res
    by (cases "arena_alloc_impl malloc (Some a) (len + 1) 1 False" rule: option_pair_cases)
       (auto simp: lr_arena_strdup_def lr_arena_alloc_uninit_def Let_def)
  have req0: "request_ok a (len + 1) (2 ^ 0)" using req by simp
  have inv0: "arena_inv a0" by (rule arena_alloc_inv [OF al inv req0 mok])
  obtain off where off: "unat p = unat (chunk_addr (head a0)) + 24 + off"
     "off + unat (len + 1) \<le> unat (chunk_size (head a0))"
     "length (chunk_data (head a0)) = unat (chunk_size (head a0))"
    by (rule alloc_chunk_offset [OF al inv req0 mok refl]) simp
  note off = off [unfolded len1]
  have da: "unat (data_addr (head a0)) = unat (chunk_addr (head a0)) + 24"
    using inv0 by (intro unat_data_addr) (simp add: arena_inv_def all_chunks_def)
  have offeq: "unat (p - data_addr (head a0)) = off"
    using off(1) da by (subst unat_sub_nowrap) auto
  have "unat p + i \<in> chunk_span (head a')"
    using off i by (auto simp: a' chunk_span_def)
  then have "arena_byte a' (unat p + i) = Some (chunk_data (head a') ! (off + i))"
    using off(1) by (simp add: arena_byte_head) (simp add: a')
  also have "chunk_data (head a') ! (off + i) = (take (unat len) s @ [0]) ! i"
    using off(2,3) i s by (simp add: a' offeq nth_overwrite)
  finally show "arena_byte a' (unat p + i) = Some (if i < unat len then s ! i else 0)"
    using i s by (simp add: nth_append)
qed

theorem lr_arena_strdup_copies_witness:
  "arena_byte (the (snd (lr_arena_strdup (\<lambda>_. None) (Some demo_arena) [104, 105] 2))) 1054 = Some 105 \<and>
   arena_byte (the (snd (lr_arena_strdup (\<lambda>_. None) (Some demo_arena) [104, 105] 2))) 1055 = Some 0"
proof -
  let ?r = "lr_arena_strdup (\<lambda>_. None) (Some demo_arena) [104, 105] 2"
  have "?r = (Some 1053, Some (the (snd ?r)))"
    by (simp add: lr_arena_strdup_def lr_arena_alloc_uninit_def demo_arena_def arena_alloc_impl_def Let_def
        align_up_size_def data_addr_def sizeof_chunk_def)
  then have "\<forall>i \<le> unat (2 :: u64). arena_byte (the (snd ?r)) (unat (1053 :: u64) + i) =
      Some (if i < unat (2 :: u64) then [104, 105] ! i else 0)"
    by (rule lr_arena_strdup_copies [OF _ demo_arena_inv _ demo_malloc_ok])
       (simp_all add: request_ok_def demo_arena_def)
  from this [rule_format, of 1] this [rule_format, of 2] show ?thesis by simp
qed

end
