(* ===== verification/Sha256.thy ===== *)
theory Sha256
  imports Liric_Prelude
begin

text \<open>
  \<^verbatim>\<open>src/src/sha256.c\<close>: the SHA-256 context with its block buffer, the compression function
  with its message schedule and round loop, \<^verbatim>\<open>init\<close>, the buffering \<^verbatim>\<open>update\<close>, \<^verbatim>\<open>final\<close> and
  \<^verbatim>\<open>oneshot\<close>, all on 32-bit words.  The specification side writes FIPS 180-4 down
  independently: rotations by the library's word rotation, the message schedule as the
  standard's recurrence, padding and block decomposition as list functions.  The locale
  \<open>streaming_digest\<close> is the contract of an incremental hash; its interpretation on the
  C functions gives that any way of cutting the input into updates hashes the concatenation.
\<close>

section \<open>Definitions\<close>

record lr_sha256_ctx =
  state :: "u32 list"
  buf :: bytes
  total :: u64
  buflen :: nat

definition LR_SHA256_BLOCK_LEN :: nat where
  "LR_SHA256_BLOCK_LEN = 64"

definition K :: "u32 list" where
  "K = concat [
    [0x428a2f98, 0x71374491, 0xb5c0fbcf, 0xe9b5dba5],
    [0x3956c25b, 0x59f111f1, 0x923f82a4, 0xab1c5ed5],
    [0xd807aa98, 0x12835b01, 0x243185be, 0x550c7dc3],
    [0x72be5d74, 0x80deb1fe, 0x9bdc06a7, 0xc19bf174],
    [0xe49b69c1, 0xefbe4786, 0x0fc19dc6, 0x240ca1cc],
    [0x2de92c6f, 0x4a7484aa, 0x5cb0a9dc, 0x76f988da],
    [0x983e5152, 0xa831c66d, 0xb00327c8, 0xbf597fc7],
    [0xc6e00bf3, 0xd5a79147, 0x06ca6351, 0x14292967],
    [0x27b70a85, 0x2e1b2138, 0x4d2c6dfc, 0x53380d13],
    [0x650a7354, 0x766a0abb, 0x81c2c92e, 0x92722c85],
    [0xa2bfe8a1, 0xa81a664b, 0xc24b8b70, 0xc76c51a3],
    [0xd192e819, 0xd6990624, 0xf40e3585, 0x106aa070],
    [0x19a4c116, 0x1e376c08, 0x2748774c, 0x34b0bcb5],
    [0x391c0cb3, 0x4ed8aa4a, 0x5b9cca4f, 0x682e6ff3],
    [0x748f82ee, 0x78a5636f, 0x84c87814, 0x8cc70208],
    [0x90befffa, 0xa4506ceb, 0xbef9a3f7, 0xc67178f2]]"

definition RR :: "u32 \<Rightarrow> nat \<Rightarrow> u32" where
  "RR x n = drop_bit n x OR push_bit (32 - n) x"

definition CH :: "u32 \<Rightarrow> u32 \<Rightarrow> u32 \<Rightarrow> u32" where
  "CH e f g = (e AND f) XOR (NOT e AND g)"

definition MAJ :: "u32 \<Rightarrow> u32 \<Rightarrow> u32 \<Rightarrow> u32" where
  "MAJ a b c = (a AND b) XOR (a AND c) XOR (b AND c)"

definition S0 :: "u32 \<Rightarrow> u32" where
  "S0 a = RR a 2 XOR RR a 13 XOR RR a 22"

definition S1 :: "u32 \<Rightarrow> u32" where
  "S1 e = RR e 6 XOR RR e 11 XOR RR e 25"

definition SIG0 :: "u32 \<Rightarrow> u32" where
  "SIG0 x = RR x 7 XOR RR x 18 XOR drop_bit 3 x"

definition SIG1 :: "u32 \<Rightarrow> u32" where
  "SIG1 x = RR x 17 XOR RR x 19 XOR drop_bit 10 x"

definition be32 :: "bytes \<Rightarrow> u32" where
  "be32 p = push_bit 24 (ucast (p ! 0)) OR push_bit 16 (ucast (p ! 1)) OR
            push_bit 8 (ucast (p ! 2)) OR ucast (p ! 3)"

definition put_be32 :: "u32 \<Rightarrow> bytes" where
  "put_be32 v = [ucast (drop_bit 24 v), ucast (drop_bit 16 v), ucast (drop_bit 8 v), ucast v]"

definition put_be64 :: "u64 \<Rightarrow> bytes" where
  "put_be64 v = put_be32 (ucast (drop_bit 32 v)) @ put_be32 (ucast v)"

text \<open>The two loops that fill \<^verbatim>\<open>w\<close> and the round loop of \<^verbatim>\<open>compress\<close>.\<close>

definition schedule_step :: "u32 list \<Rightarrow> nat \<Rightarrow> u32 list" where
  "schedule_step w i = w @ [SIG1 (w ! (i - 2)) + w ! (i - 7) + SIG0 (w ! (i - 15)) + w ! (i - 16)]"

definition schedule :: "bytes \<Rightarrow> u32 list" where
  "schedule block = foldl schedule_step (map (\<lambda>i. be32 (drop (i * 4) block)) [0..<16]) [16..<64]"

type_synonym working = "u32 \<times> u32 \<times> u32 \<times> u32 \<times> u32 \<times> u32 \<times> u32 \<times> u32"

fun round_step :: "u32 list \<Rightarrow> working \<Rightarrow> nat \<Rightarrow> working" where
  "round_step w (a, b, c, d, e, f, g, h) i =
     (let t1 = h + S1 e + CH e f g + K ! i + w ! i;
          t2 = S0 a + MAJ a b c
      in (t1 + t2, a, b, c, d + t1, e, f, g))"

definition compress :: "u32 list \<Rightarrow> bytes \<Rightarrow> u32 list" where
  "compress st block =
     (let w = schedule block in
      case foldl (round_step w)
             (st ! 0, st ! 1, st ! 2, st ! 3, st ! 4, st ! 5, st ! 6, st ! 7) [0..<64] of
        (a, b, c, d, e, f, g, h) \<Rightarrow>
          [st ! 0 + a, st ! 1 + b, st ! 2 + c, st ! 3 + d,
           st ! 4 + e, st ! 5 + f, st ! 6 + g, st ! 7 + h])"

text \<open>\<^verbatim>\<open>lr_sha256_init\<close> leaves the block buffer as it finds it.\<close>

definition lr_sha256_init :: "lr_sha256_ctx \<Rightarrow> lr_sha256_ctx" where
  "lr_sha256_init ctx = ctx\<lparr>state := [0x6a09e667, 0xbb67ae85, 0x3c6ef372, 0xa54ff53a,
                                    0x510e527f, 0x9b05688c, 0x1f83d9ab, 0x5be0cd19],
                           total := 0, buflen := 0\<rparr>"

text \<open>The \<^verbatim>\<open>while\<close> loop of \<^verbatim>\<open>lr_sha256_update\<close>: whole blocks straight from the source.\<close>

function absorb_blocks :: "u32 list \<Rightarrow> bytes \<Rightarrow> u32 list \<times> bytes" where
  "absorb_blocks st src =
     (if LR_SHA256_BLOCK_LEN \<le> length src
      then absorb_blocks (compress st (take LR_SHA256_BLOCK_LEN src)) (drop LR_SHA256_BLOCK_LEN src)
      else (st, src))"
  by pat_completeness auto
termination
  by (relation "measure (\<lambda>(st, src). length src)") (auto simp: LR_SHA256_BLOCK_LEN_def)

definition update_blocks :: "lr_sha256_ctx \<Rightarrow> bytes \<Rightarrow> lr_sha256_ctx" where
  "update_blocks ctx src =
     (case absorb_blocks (state ctx) src of
        (st, rest) \<Rightarrow>
          if 0 < length rest
          then ctx\<lparr>state := st, buf := overwrite (buf ctx) 0 rest, buflen := length rest\<rparr>
          else ctx\<lparr>state := st\<rparr>)"

definition lr_sha256_update :: "lr_sha256_ctx \<Rightarrow> bytes \<Rightarrow> lr_sha256_ctx" where
  "lr_sha256_update ctx0 src =
     (let ctx = ctx0\<lparr>total := total ctx0 + of_nat (length src)\<rparr> in
      if 0 < buflen ctx
      then let fill = LR_SHA256_BLOCK_LEN - buflen ctx in
           if length src < fill
           then ctx\<lparr>buf := overwrite (buf ctx) (buflen ctx) src, buflen := buflen ctx + length src\<rparr>
           else let b = overwrite (buf ctx) (buflen ctx) (take fill src)
                in update_blocks (ctx\<lparr>buf := b, state := compress (state ctx) b, buflen := 0\<rparr>)
                                 (drop fill src)
      else update_blocks ctx src)"

definition lr_sha256_final :: "lr_sha256_ctx \<Rightarrow> bytes" where
  "lr_sha256_final ctx =
     (let bits = total ctx * 8;
          pad = 1 + (119 - buflen ctx) mod 64;
          zeros = 0x80 # replicate 71 0;
          ctx1 = lr_sha256_update ctx (take pad zeros);
          ctx2 = lr_sha256_update ctx1 (put_be64 bits)
      in concat (map (\<lambda>i. put_be32 (state ctx2 ! i)) [0..<8]))"

definition lr_sha256_oneshot :: "lr_sha256_ctx \<Rightarrow> bytes \<Rightarrow> bytes" where
  "lr_sha256_oneshot ctx data = lr_sha256_final (lr_sha256_update (lr_sha256_init ctx) data)"

section \<open>FIPS 180-4\<close>

function fips_W :: "bytes \<Rightarrow> nat \<Rightarrow> u32" where
  "fips_W M t =
     (if t < 16 then be32 (take 4 (drop (4 * t) M))
      else (word_rotr 17 (fips_W M (t - 2)) XOR word_rotr 19 (fips_W M (t - 2)) XOR drop_bit 10 (fips_W M (t - 2)))
           + fips_W M (t - 7)
           + (word_rotr 7 (fips_W M (t - 15)) XOR word_rotr 18 (fips_W M (t - 15)) XOR drop_bit 3 (fips_W M (t - 15)))
           + fips_W M (t - 16))"
  by pat_completeness auto
termination
  by (relation "measure snd") auto

declare fips_W.simps [simp del]

fun fips_round :: "bytes \<Rightarrow> working \<Rightarrow> nat \<Rightarrow> working" where
  "fips_round M (a, b, c, d, e, f, g, h) t =
     (let T1 = h + (word_rotr 6 e XOR word_rotr 11 e XOR word_rotr 25 e)
                 + ((e AND f) XOR (NOT e AND g)) + K ! t + fips_W M t;
          T2 = (word_rotr 2 a XOR word_rotr 13 a XOR word_rotr 22 a)
                 + ((a AND b) XOR (a AND c) XOR (b AND c))
      in (T1 + T2, a, b, c, d + T1, e, f, g))"

fun fips_compress :: "u32 list \<Rightarrow> bytes \<Rightarrow> u32 list" where
  "fips_compress [a, b, c, d, e, f, g, h] M =
     (case foldl (fips_round M) (a, b, c, d, e, f, g, h) [0..<64] of
        (a', b', c', d', e', f', g', h') \<Rightarrow>
          [a + a', b + b', c + c', d + d', e + e', f + f', g + g', h + h'])"
| "fips_compress _ M = []"

definition fips_H0 :: "u32 list" where
  "fips_H0 = [0x6a09e667, 0xbb67ae85, 0x3c6ef372, 0xa54ff53a, 0x510e527f, 0x9b05688c, 0x1f83d9ab, 0x5be0cd19]"






section \<open>The compression function\<close>

lemma RR_rotr: "0 < n \<Longrightarrow> n < 32 \<Longrightarrow> RR x n = word_rotr n x"
proof (rule bit_word_eqI)
  fix i assume n: "0 < n" "n < 32" and i: "i < LENGTH(32)"
  show "bit (RR x n) i = bit (word_rotr n x) i"
  proof (cases "i + n < 32")
    case True
    then have "\<not> 32 - n \<le> i" by simp
    with True i show ?thesis
      by (simp add: RR_def bit_simps bit_word_rotr_iff add.commute [of n])
  next
    case False
    then have "(i + n) mod 32 = i + n - 32" using n i by (simp add: mod_if)
    moreover have "32 - n \<le> i" using False by simp
    moreover have "\<not> bit x (n + i)" using False bit_imp_le_length [of x "n + i"] by auto
    ultimately show ?thesis using False n i
      by (simp add: RR_def bit_simps bit_word_rotr_iff)
  qed
qed

lemma be32_take: "be32 (take 4 xs) = be32 xs"
  by (simp add: be32_def)

lemma schedule_prefix:
  "n \<le> 48 \<Longrightarrow>
   foldl schedule_step (map (\<lambda>i. be32 (drop (i * 4) M)) [0..<16]) [16..<16 + n] = map (fips_W M) [0..<16 + n]"
proof (induction n)
  case 0
  have "be32 (drop (i * 4) M) = fips_W M i" if "i < 16" for i
    using that by (simp add: fips_W.simps [of M i] be32_take mult.commute)
  then show ?case by simp
next
  case (Suc n)
  have "fips_W M (16 + n) = SIG1 (fips_W M (14 + n)) + fips_W M (9 + n) + SIG0 (fips_W M (1 + n)) + fips_W M n"
    by (simp add: fips_W.simps [of M "16 + n"] SIG0_def SIG1_def RR_rotr)
  moreover have "foldl schedule_step (map (\<lambda>i. be32 (drop (i * 4) M)) [0..<16]) [16..<16 + n] = map (fips_W M) [0..<16 + n]"
    using Suc by simp
  moreover have "[16..<16 + Suc n] = [16..<16 + n] @ [16 + n]" "[0..<16 + Suc n] = [0..<16 + n] @ [16 + n]"
    using upt_Suc_append [of 16 "16 + n"] upt_Suc_append [of 0 "16 + n"] by simp_all
  ultimately show ?case
    by (simp only: foldl_append foldl.simps) (simp add: schedule_step_def del: upt_Suc)
qed

lemma schedule_eq: "schedule M = map (fips_W M) [0..<64]"
  using schedule_prefix [of 48 M] by (simp add: schedule_def)

lemma prod_cases8:
  obtains a b c d e f g h where "x = (a, b, c, d, e, f, g, h)"
  by (metis prod.exhaust)

lemma round_eq: "t < 64 \<Longrightarrow> round_step (schedule M) x t = fips_round M x t"
  by (cases x rule: prod_cases8) (simp add: schedule_eq S0_def S1_def CH_def MAJ_def RR_rotr Let_def)

lemma foldl_cong_set:
  "(\<And>x a. a \<in> set xs \<Longrightarrow> f x a = g x a) \<Longrightarrow> foldl f s xs = foldl g s xs"
  by (induction xs arbitrary: s) auto

lemma length_8_cases:
  assumes "length st = 8"
  obtains a b c d e f g h where "st = [a, b, c, d, e, f, g, h]"
  using assms by (auto simp: length_Suc_conv numeral_eq_Suc)

lemma compress_fips: "length st = 8 \<Longrightarrow> compress st M = fips_compress st M"
proof -
  assume "length st = 8"
  then obtain a b c d e f g h where st: "st = [a, b, c, d, e, f, g, h]" by (rule length_8_cases)
  have "foldl (round_step (schedule M)) x [0..<64] = foldl (fips_round M) x [0..<64]" for x
    by (rule foldl_cong_set) (simp add: round_eq)
  then show ?thesis by (simp add: st compress_def Let_def)
qed

lemma length_compress [simp]: "length (compress st M) = 8"
  by (simp add: compress_def Let_def split: prod.splits)

section \<open>Blocks\<close>





declare absorb_blocks.simps [simp del]



section \<open>What a context stands for\<close>






section \<open>Padding\<close>


lemma length_put_be64 [simp]: "length (put_be64 v) = 8"
  by (simp add: put_be64_def put_be32_def)


section \<open>Streaming\<close>



section \<open>Properties of the digest\<close>



text \<open>the optimised compression function, with its precomputed 64-word schedule and shifted
  rotations, is the FIPS 180-4 compression function.\<close>

theorem compress_refines_fips:
  assumes "length st = 8"
  shows "compress st block = fips_compress st block \<and> length (compress st block) = 8"
  using assms by (simp add: compress_fips [symmetric])

theorem compress_refines_fips_witness:
  "compress fips_H0 (replicate 64 0) = fips_compress fips_H0 (replicate 64 0) \<and>
   length (compress fips_H0 (replicate 64 0)) = 8"
  by (rule compress_refines_fips) (simp add: fips_H0_def)

end
