(* ===== verification/Runtime_Archive.thy ===== *)
theory Runtime_Archive
  imports Liric_Prelude
begin

text \<open>
  \<^verbatim>\<open>src/src/runtime_archive.c\<close>: the container that carries a target name, IR text and a blob
  package.  A read pointer \<^verbatim>\<open>p\<close> with its \<^verbatim>\<open>end\<close> is the list of bytes between them, and a
  reader returns \<open>None\<close> where the C code returns -1.  The output stream is a sink that
  accepts at most \<open>sink_capacity\<close> bytes, so that a short \<^verbatim>\<open>fwrite\<close> is a branch of the model.
  The locale \<open>byte_codec\<close> is what a fixed-width writer and its reader owe each other; it is
  interpreted for the 32-bit and the 64-bit pair.
\<close>

section \<open>Definitions\<close>

definition k_runtime_archive_magic :: bytes where
  "k_runtime_archive_magic = [0x4C, 0x52, 0x41, 0x52, 0x43, 0x48, 0x31, 0]"

definition runtime_archive_w32 :: "u32 \<Rightarrow> bytes" where
  "runtime_archive_w32 v =
     [ucast v, ucast (drop_bit 8 v), ucast (drop_bit 16 v), ucast (drop_bit 24 v)]"

definition runtime_archive_w64 :: "u64 \<Rightarrow> bytes" where
  "runtime_archive_w64 v = map (\<lambda>i. ucast (drop_bit (i * 8) v)) [0..<8]"

definition runtime_archive_r32 :: "bytes \<Rightarrow> (u32 \<times> bytes) option" where
  "runtime_archive_r32 p =
     (if length p < 4 then None
      else Some (ucast (p ! 0) OR push_bit 8 (ucast (p ! 1)) OR push_bit 16 (ucast (p ! 2)) OR
                 push_bit 24 (ucast (p ! 3)), drop 4 p))"

definition runtime_archive_r64 :: "bytes \<Rightarrow> (u64 \<times> bytes) option" where
  "runtime_archive_r64 p =
     (if length p < 8 then None
      else Some (foldl (\<lambda>v i. v OR push_bit (i * 8) (ucast (p ! i))) 0 [0..<8], drop 8 p))"

record file_sink =
  sink_written :: bytes
  sink_capacity :: nat

definition fwrite :: "bytes \<Rightarrow> file_sink \<Rightarrow> nat \<times> file_sink" where
  "fwrite xs f =
     (let n = min (length xs) (sink_capacity f - length (sink_written f))
      in (n, f\<lparr>sink_written := sink_written f @ take n xs\<rparr>))"

text \<open>The four \<^verbatim>\<open>fwrite\<close> calls, each checked, stopping at the first short one.\<close>

fun fwrite_all :: "bytes list \<Rightarrow> file_sink \<Rightarrow> int \<times> file_sink" where
  "fwrite_all [] f = (0, f)"
| "fwrite_all (xs # xss) f =
     (case fwrite xs f of (n, f') \<Rightarrow> if n \<noteq> length xs then (- 1, f') else fwrite_all xss f')"

definition lr_runtime_archive_write ::
  "file_sink option \<Rightarrow> bytes option \<Rightarrow> u32 \<Rightarrow> bytes option \<Rightarrow> bytes option \<Rightarrow> int \<times> file_sink option" where
  "lr_runtime_archive_write out target_name backend ir_text blob_pkg =
     (case (out, target_name, ir_text, blob_pkg) of
        (Some f, Some name, Some ir, Some blob) \<Rightarrow>
          if name = [] \<or> backend = 0 \<or> length ir = 0 \<or> length blob = 0 then (- 1, out)
          else if length name = 0 \<or> length name > unat UINT32_MAX then (- 1, out)
          else
            let header = k_runtime_archive_magic @ runtime_archive_w32 2 @ runtime_archive_w32 backend @
                         runtime_archive_w32 (of_nat (length name)) @
                         runtime_archive_w64 (of_nat (length ir)) @
                         runtime_archive_w64 (of_nat (length blob))
            in (case fwrite_all [header, name, ir, blob] f of (rc, f') \<Rightarrow> (rc, Some f'))
      | _ \<Rightarrow> (- 1, out))"

record lr_runtime_archive_info =
  info_version :: u32
  info_backend :: u32
  info_target_name :: bytes
  info_ir_text :: bytes
  info_blob_pkg :: bytes

definition lr_runtime_archive_parse :: "bytes option \<Rightarrow> lr_runtime_archive_info option" where
  "lr_runtime_archive_parse data0 =
     (case data0 of None \<Rightarrow> None | Some data \<Rightarrow>
      if length data < 32 then None
      else if take 8 data \<noteq> k_runtime_archive_magic then None
      else case runtime_archive_r32 (drop 8 data) of None \<Rightarrow> None | Some (version, p1) \<Rightarrow>
      if version \<noteq> 2 then None
      else case runtime_archive_r32 p1 of None \<Rightarrow> None | Some (backend, p2) \<Rightarrow>
      if backend = 0 then None
      else case runtime_archive_r32 p2 of None \<Rightarrow> None | Some (name_len, p3) \<Rightarrow>
      if name_len = 0 then None
      else case runtime_archive_r64 p3 of None \<Rightarrow> None | Some (ir_len, p4) \<Rightarrow>
      case runtime_archive_r64 p4 of None \<Rightarrow> None | Some (blob_len, p5) \<Rightarrow>
      if ir_len = 0 \<or> blob_len = 0 then None
      else if unat name_len > length p5 then None
      else let p6 = drop (unat name_len) p5 in
      if unat ir_len > length p6 then None
      else let p7 = drop (unat ir_len) p6 in
      if unat blob_len > length p7 then None
      else let p8 = drop (unat blob_len) p7 in
      if p8 \<noteq> [] then None
      else Some \<lparr>info_version = version, info_backend = backend,
                 info_target_name = take (unat name_len) p5,
                 info_ir_text = take (unat ir_len) p6,
                 info_blob_pkg = take (unat blob_len) p7\<rparr>)"

section \<open>Fixed-width codecs\<close>

locale byte_codec =
  fixes enc :: "'v \<Rightarrow> bytes"
    and dec :: "bytes \<Rightarrow> ('v \<times> bytes) option"
    and width :: nat
  assumes length_enc: "length (enc v) = width"
    and dec_enc: "dec (enc v @ rest) = Some (v, rest)"
    and dec_short: "length p < width \<Longrightarrow> dec p = None"
    and enc_dec: "dec p = Some (v, rest) \<Longrightarrow> p = enc v @ rest"
begin

lemma dec_iff: "dec p = Some (v, rest) \<longleftrightarrow> p = enc v @ rest"
  using dec_enc enc_dec by blast

lemma enc_inj: "enc v = enc w \<Longrightarrow> v = w"
  using dec_enc [of v "[]"] dec_enc [of w "[]"] by simp

end

lemma w32_split: "runtime_archive_w32 v = le_split 4 v"
  by (simp add: runtime_archive_w32_def numeral_eq_Suc)

lemma w64_split: "runtime_archive_w64 v = le_split 8 v"
  by (simp add: runtime_archive_w64_def upt_rec numeral_eq_Suc)

lemma length_4_cases:
  assumes "4 \<le> length p"
  obtains a b c d rest where "p = [a, b, c, d] @ rest"
  using assms by (auto simp: Suc_le_length_iff numeral_eq_Suc)

lemma length_8_bytes:
  assumes "8 \<le> length p"
  obtains a b c d e f g h rest where "p = [a, b, c, d, e, f, g, h] @ rest"
  using assms by (auto simp: Suc_le_length_iff numeral_eq_Suc)

lemma r32_join: "4 \<le> length p \<Longrightarrow> runtime_archive_r32 p = Some (le_join (take 4 p), drop 4 p)"
  by (erule length_4_cases) (simp add: runtime_archive_r32_def push_bit_or or.assoc)

lemma r64_join: "8 \<le> length p \<Longrightarrow> runtime_archive_r64 p = Some (le_join (take 8 p), drop 8 p)"
  by (erule length_8_bytes) (simp add: runtime_archive_r64_def upt_rec push_bit_or or.assoc)

interpretation codec32: byte_codec runtime_archive_w32 runtime_archive_r32 4
proof
  fix v :: u32 and rest p :: bytes
  show "length (runtime_archive_w32 v) = 4" by (simp add: w32_split)
  show "runtime_archive_r32 (runtime_archive_w32 v @ rest) = Some (v, rest)"
    by (simp add: w32_split r32_join le_bytes take_bit_word_eq_self)
  show "length p < 4 \<Longrightarrow> runtime_archive_r32 p = None" by (simp add: runtime_archive_r32_def)
  assume dec: "runtime_archive_r32 p = Some (v, rest)"
  then have "4 \<le> length p" by (simp add: runtime_archive_r32_def split: if_splits)
  with dec have "v = le_join (take 4 p)" "rest = drop 4 p" "length (take 4 p) = 4"
    by (simp_all add: r32_join)
  then show "p = runtime_archive_w32 v @ rest"
    using le_split_join [of "take 4 p", where 'a = 32] by (simp add: w32_split)
qed

interpretation codec64: byte_codec runtime_archive_w64 runtime_archive_r64 8
proof
  fix v :: u64 and rest p :: bytes
  show "length (runtime_archive_w64 v) = 8" by (simp add: w64_split)
  show "runtime_archive_r64 (runtime_archive_w64 v @ rest) = Some (v, rest)"
    by (simp add: w64_split r64_join le_bytes take_bit_word_eq_self)
  show "length p < 8 \<Longrightarrow> runtime_archive_r64 p = None" by (simp add: runtime_archive_r64_def)
  assume dec: "runtime_archive_r64 p = Some (v, rest)"
  then have "8 \<le> length p" by (simp add: runtime_archive_r64_def split: if_splits)
  with dec have "v = le_join (take 8 p)" "rest = drop 8 p" "length (take 8 p) = 8"
    by (simp_all add: r64_join)
  then show "p = runtime_archive_w64 v @ rest"
    using le_split_join [of "take 8 p", where 'a = 64] by (simp add: w64_split)
qed

lemmas codec_simps = codec32.dec_enc codec64.dec_enc codec32.length_enc codec64.length_enc

section \<open>The archive format\<close>

definition archive_bytes :: "lr_runtime_archive_info \<Rightarrow> bytes" where
  "archive_bytes i =
     k_runtime_archive_magic @ runtime_archive_w32 (info_version i) @ runtime_archive_w32 (info_backend i) @
     runtime_archive_w32 (of_nat (length (info_target_name i))) @
     runtime_archive_w64 (of_nat (length (info_ir_text i))) @
     runtime_archive_w64 (of_nat (length (info_blob_pkg i))) @
     info_target_name i @ info_ir_text i @ info_blob_pkg i"

definition archive_valid :: "lr_runtime_archive_info \<Rightarrow> bool" where
  "archive_valid i \<longleftrightarrow>
     info_version i = 2 \<and> info_backend i \<noteq> 0 \<and>
     info_target_name i \<noteq> [] \<and> length (info_target_name i) < 2 ^ 32 \<and>
     info_ir_text i \<noteq> [] \<and> length (info_ir_text i) < 2 ^ 64 \<and>
     info_blob_pkg i \<noteq> [] \<and> length (info_blob_pkg i) < 2 ^ 64"

lemma length_magic [simp]: "length k_runtime_archive_magic = 8"
  by (simp add: k_runtime_archive_magic_def)

lemma of_nat_length_nz:
  "xs \<noteq> [] \<Longrightarrow> length xs < 2 ^ LENGTH('a) \<Longrightarrow>
   (of_nat (length xs) :: 'a::len word) \<noteq> 0 \<and> unat (of_nat (length xs) :: 'a word) = length xs"
  using unat_of_nat [of "length xs", where 'a = 'a] by (auto simp flip: unat_eq_zero)

lemma parse_archive_bytes:
  assumes "archive_valid i"
  shows "lr_runtime_archive_parse (Some (archive_bytes i)) = Some i"
proof -
  note v = assms [unfolded archive_valid_def]
  have n: "(of_nat (length (info_target_name i)) :: u32) \<noteq> 0"
    "unat (of_nat (length (info_target_name i)) :: u32) = length (info_target_name i)"
    using of_nat_length_nz [of "info_target_name i", where 'a = 32] v by simp_all
  have ir: "(of_nat (length (info_ir_text i)) :: u64) \<noteq> 0"
    "unat (of_nat (length (info_ir_text i)) :: u64) = length (info_ir_text i)"
    using of_nat_length_nz [of "info_ir_text i", where 'a = 64] v by simp_all
  have bl: "(of_nat (length (info_blob_pkg i)) :: u64) \<noteq> 0"
    "unat (of_nat (length (info_blob_pkg i)) :: u64) = length (info_blob_pkg i)"
    using of_nat_length_nz [of "info_blob_pkg i", where 'a = 64] v by simp_all
  show ?thesis
    using v n ir bl by (simp add: lr_runtime_archive_parse_def archive_bytes_def codec_simps Let_def)
qed

lemma parse_sound:
  assumes "lr_runtime_archive_parse (Some data) = Some i"
  shows "archive_valid i \<and> data = archive_bytes i"
proof -
  from assms obtain version p1 backend p2 name_len p3 ir_len p4 blob_len p5 where
    magic: "take 8 data = k_runtime_archive_magic"
    and d: "runtime_archive_r32 (drop 8 data) = Some (version, p1)" "runtime_archive_r32 p1 = Some (backend, p2)"
      "runtime_archive_r32 p2 = Some (name_len, p3)" "runtime_archive_r64 p3 = Some (ir_len, p4)"
      "runtime_archive_r64 p4 = Some (blob_len, p5)"
    and nz: "version = 2" "backend \<noteq> 0" "name_len \<noteq> 0" "ir_len \<noteq> 0" "blob_len \<noteq> 0"
    and fit: "unat name_len \<le> length p5" "unat ir_len \<le> length p5 - unat name_len"
      "unat blob_len \<le> length p5 - unat name_len - unat ir_len"
      "length p5 \<le> unat name_len + unat ir_len + unat blob_len"
    and i: "i = \<lparr>info_version = version, info_backend = backend,
                 info_target_name = take (unat name_len) p5,
                 info_ir_text = take (unat ir_len) (drop (unat name_len) p5),
                 info_blob_pkg = take (unat blob_len) (drop (unat ir_len) (drop (unat name_len) p5))\<rparr>"
    by (auto simp: lr_runtime_archive_parse_def Let_def split: option.splits prod.splits if_splits)
  define n r b where "n = info_target_name i" and "r = info_ir_text i" and "b = info_blob_pkg i"
  have len: "length n = unat name_len" "length r = unat ir_len" "length b = unat blob_len"
    using fit by (simp_all add: n_def r_def b_def i)
  have b_eq: "b = drop (unat ir_len) (drop (unat name_len) p5)"
    using fit by (simp add: b_def i)
  have p5: "p5 = n @ r @ b"
    unfolding b_eq n_def r_def i by (simp del: drop_drop)
  have data: "data = k_runtime_archive_magic @ runtime_archive_w32 version @ runtime_archive_w32 backend @
      runtime_archive_w32 name_len @ runtime_archive_w64 ir_len @ runtime_archive_w64 blob_len @ p5"
    using d magic by (metis append_take_drop_id codec32.enc_dec codec64.enc_dec)
  have nr: "name_len = of_nat (length n)" "ir_len = of_nat (length r)" "blob_len = of_nat (length b)"
    by (simp_all add: len)
  have ne: "n \<noteq> []" "r \<noteq> []" "b \<noteq> []"
    using len nz by (metis length_0_conv unat_eq_zero)+
  have fields: "info_version i = version" "info_backend i = backend" by (simp_all add: i)
  have bounds: "length n < 2 ^ 32" "length r < 2 ^ 64" "length b < 2 ^ 64"
    unfolding len using unsigned_less [of name_len] unsigned_less [of ir_len] unsigned_less [of blob_len]
    by simp_all
  show ?thesis
    unfolding archive_valid_def archive_bytes_def fields
      n_def [symmetric] r_def [symmetric] b_def [symmetric] nr [symmetric]
    using ne bounds nz(1,2) data p5 by blast
qed

section \<open>Properties of the archive\<close>

lemma fwrite_all_fits:
  "length (sink_written f) + length (concat xss) \<le> sink_capacity f \<Longrightarrow>
   fwrite_all xss f = (0, f\<lparr>sink_written := sink_written f @ concat xss\<rparr>)"
  by (induction xss arbitrary: f) (auto simp: fwrite_def Let_def min_def)

lemma fwrite_all_short:
  "sink_capacity f < length (sink_written f) + length (concat xss) \<Longrightarrow> length (sink_written f) \<le> sink_capacity f \<Longrightarrow>
   fst (fwrite_all xss f) = - 1 \<and>
   (\<exists>k. sink_written (snd (fwrite_all xss f)) = sink_written f @ take k (concat xss))"
proof (induction xss arbitrary: f)
  case (Cons xs xss)
  show ?case
  proof (cases "length xs \<le> sink_capacity f - length (sink_written f)")
    case True
    then have fw: "fwrite xs f = (length xs, f\<lparr>sink_written := sink_written f @ xs\<rparr>)"
      by (simp add: fwrite_def Let_def min_def)
    obtain k where k: "sink_written (snd (fwrite_all xss (f\<lparr>sink_written := sink_written f @ xs\<rparr>)))
        = (sink_written f @ xs) @ take k (concat xss)"
      and rc: "fst (fwrite_all xss (f\<lparr>sink_written := sink_written f @ xs\<rparr>)) = - 1"
      using Cons.IH [of "f\<lparr>sink_written := sink_written f @ xs\<rparr>"] Cons.prems True
      by (auto simp: le_diff_conv2 add.commute)
    then show ?thesis
      using fw by (intro conjI exI [of _ "length xs + k"]) simp_all
  next
    case False
    define n where "n = sink_capacity f - length (sink_written f)"
    have "fwrite xs f = (n, f\<lparr>sink_written := sink_written f @ take n xs\<rparr>)" and "n \<noteq> length xs" "n \<le> length xs"
      using False by (simp_all add: fwrite_def Let_def min_def n_def)
    then show ?thesis by (intro conjI exI [of _ n]) simp_all
  qed
qed simp

text \<open>The four pieces the writer emits for a valid description.\<close>

definition archive_parts :: "lr_runtime_archive_info \<Rightarrow> bytes list" where
  "archive_parts i =
     [k_runtime_archive_magic @ runtime_archive_w32 2 @ runtime_archive_w32 (info_backend i) @
      runtime_archive_w32 (of_nat (length (info_target_name i))) @
      runtime_archive_w64 (of_nat (length (info_ir_text i))) @
      runtime_archive_w64 (of_nat (length (info_blob_pkg i))),
      info_target_name i, info_ir_text i, info_blob_pkg i]"

lemma concat_archive_parts: "archive_valid i \<Longrightarrow> concat (archive_parts i) = archive_bytes i"
  by (simp add: archive_bytes_def archive_parts_def archive_valid_def)

lemma write_archive_parts:
  assumes "archive_valid i"
  shows "lr_runtime_archive_write (Some f) (Some (info_target_name i)) (info_backend i)
      (Some (info_ir_text i)) (Some (info_blob_pkg i)) = map_prod id Some (fwrite_all (archive_parts i) f)"
proof -
  have "length (info_target_name i) \<le> unat UINT32_MAX"
    using assms by (simp add: archive_valid_def unsigned_minus_1_eq_mask mask_eq_exp_minus_1)
  then show ?thesis
    using assms
    by (simp add: lr_runtime_archive_write_def archive_valid_def Let_def archive_parts_def
        split: prod.split del: fwrite_all.simps)
qed

text \<open>parsing inverts writing.  An archive written with valid fields into a stream with room
  for it is accepted by \<^verbatim>\<open>lr_runtime_archive_parse\<close>, which returns exactly the name, IR text,
  blob and backend that were written.\<close>

theorem runtime_archive_roundtrip:
  assumes "archive_valid i" and "length (archive_bytes i) \<le> cap"
  shows "\<exists>f. lr_runtime_archive_write (Some \<lparr>sink_written = [], sink_capacity = cap\<rparr>)
        (Some (info_target_name i)) (info_backend i) (Some (info_ir_text i)) (Some (info_blob_pkg i))
      = (0, Some f) \<and> lr_runtime_archive_parse (Some (sink_written f)) = Some i"
proof -
  let ?f = "\<lparr>sink_written = [], sink_capacity = cap\<rparr>"
  have "fwrite_all (archive_parts i) ?f = (0, ?f\<lparr>sink_written := archive_bytes i\<rparr>)"
    using fwrite_all_fits [of ?f "archive_parts i"] assms(2) by (simp add: concat_archive_parts [OF assms(1)])
  then show ?thesis
    using parse_archive_bytes [OF assms(1)] by (simp add: write_archive_parts [OF assms(1)])
qed

theorem runtime_archive_roundtrip_witness:
  "\<exists>f. lr_runtime_archive_write (Some \<lparr>sink_written = [], sink_capacity = 100\<rparr>)
        (Some [120, 56, 54]) 1 (Some [59]) (Some [1, 2]) = (0, Some f) \<and>
     lr_runtime_archive_parse (Some (sink_written f)) =
       Some \<lparr>info_version = 2, info_backend = 1, info_target_name = [120, 56, 54],
             info_ir_text = [59], info_blob_pkg = [1, 2]\<rparr>"
  using runtime_archive_roundtrip [of "\<lparr>info_version = 2, info_backend = 1,
      info_target_name = [120, 56, 54], info_ir_text = [59], info_blob_pkg = [1, 2]\<rparr>" 100]
  by (simp add: archive_valid_def archive_bytes_def codec_simps)

text \<open>C20: the parser accepts nothing else: whatever it returns is a valid description and the
  input is byte for byte the canonical encoding of it, so no trailing bytes, no overlapping
  fields and no out-of-range lengths get through.\<close>

theorem runtime_archive_parse_exact:
  "lr_runtime_archive_parse (Some data) = Some i \<longleftrightarrow> archive_valid i \<and> data = archive_bytes i"
  using parse_sound parse_archive_bytes by blast

text \<open>when the output stream runs out of space the writer reports failure, having written a
  proper prefix of the archive only.\<close>

theorem runtime_archive_short_write:
  assumes "archive_valid i" and "cap < length (archive_bytes i)"
  shows "\<exists>f k. lr_runtime_archive_write (Some \<lparr>sink_written = [], sink_capacity = cap\<rparr>)
        (Some (info_target_name i)) (info_backend i) (Some (info_ir_text i)) (Some (info_blob_pkg i))
      = (- 1, Some f) \<and> sink_written f = take k (archive_bytes i)"
proof -
  let ?f = "\<lparr>sink_written = [], sink_capacity = cap\<rparr>"
  have "fst (fwrite_all (archive_parts i) ?f) = - 1 \<and>
      (\<exists>k. sink_written (snd (fwrite_all (archive_parts i) ?f)) = take k (archive_bytes i))"
    using fwrite_all_short [of ?f "archive_parts i"] assms(2) by (simp add: concat_archive_parts [OF assms(1)])
  then show ?thesis
    by (cases "fwrite_all (archive_parts i) ?f") (auto simp: write_archive_parts [OF assms(1)])
qed

theorem runtime_archive_short_write_witness:
  "\<exists>f k. lr_runtime_archive_write (Some \<lparr>sink_written = [], sink_capacity = 38\<rparr>)
        (Some [120, 56, 54]) 1 (Some [59]) (Some [1, 2]) = (- 1, Some f) \<and>
     sink_written f = take k (archive_bytes \<lparr>info_version = 2, info_backend = 1,
       info_target_name = [120, 56, 54], info_ir_text = [59], info_blob_pkg = [1, 2]\<rparr>)"
  using runtime_archive_short_write [of "\<lparr>info_version = 2, info_backend = 1,
      info_target_name = [120, 56, 54], info_ir_text = [59], info_blob_pkg = [1, 2]\<rparr>" 38]
  by (simp add: archive_valid_def archive_bytes_def codec_simps)

end
