(* ===== verification/Ir_Types.thy ===== *)
theory Ir_Types
  imports Liric_Prelude
begin

text \<open>
  The data of the IR (\<^verbatim>\<open>src/src/ir.h\<close>, \<^verbatim>\<open>src/include/liric/liric_ir_shared.h\<close>) and the layout
  functions of \<^verbatim>\<open>src/src/ir.c\<close>: sizes, alignments, field offsets, aggregate paths and the
  analysis of one GEP index.

  A type node carries its own address, so that the pointer comparisons of the source are
  comparisons of \<open>ty_addr\<close>.  A possibly null \<^verbatim>\<open>lr_type_t *\<close> is an \<open>option\<close>; element and
  field types of aggregates are never null.  The payload union of an operand is one 64-bit
  word that the accessors read at their width, as the little-endian targets of the compiler
  do.  Size arithmetic is on 64-bit words; the mathematical layout on the naturals is
  \<open>nsize\<close> and \<open>nalign\<close>, and the word functions are proved to compute it as long as the
  layout is smaller than the address space.
\<close>

section \<open>Types\<close>

datatype lr_type_kind =
  LR_TYPE_VOID | LR_TYPE_I1 | LR_TYPE_I8 | LR_TYPE_I16 | LR_TYPE_I32 | LR_TYPE_I64
| LR_TYPE_FLOAT | LR_TYPE_DOUBLE | LR_TYPE_X86_FP80 | LR_TYPE_FP128
| LR_TYPE_PTR | LR_TYPE_ARRAY | LR_TYPE_VECTOR | LR_TYPE_STRUCT | LR_TYPE_FUNC

datatype lr_scalar = SVoid | SI1 | SI8 | SI16 | SI32 | SI64 | SFloat | SDouble | SX86Fp80 | SFp128

datatype lr_type =
  TScalar (ty_addr: nat) lr_scalar
| TPtr (ty_addr: nat) "lr_type option"
| TArray (ty_addr: nat) lr_type u64
| TVector (ty_addr: nat) lr_type u64
| TStruct (ty_addr: nat) "lr_type list" bool "string option"
| TFunc (ty_addr: nat) lr_type "lr_type list" bool

fun scalar_kind :: "lr_scalar \<Rightarrow> lr_type_kind" where
  "scalar_kind SVoid = LR_TYPE_VOID"
| "scalar_kind SI1 = LR_TYPE_I1"
| "scalar_kind SI8 = LR_TYPE_I8"
| "scalar_kind SI16 = LR_TYPE_I16"
| "scalar_kind SI32 = LR_TYPE_I32"
| "scalar_kind SI64 = LR_TYPE_I64"
| "scalar_kind SFloat = LR_TYPE_FLOAT"
| "scalar_kind SDouble = LR_TYPE_DOUBLE"
| "scalar_kind SX86Fp80 = LR_TYPE_X86_FP80"
| "scalar_kind SFp128 = LR_TYPE_FP128"

fun ty_kind :: "lr_type \<Rightarrow> lr_type_kind" where
  "ty_kind (TScalar _ s) = scalar_kind s"
| "ty_kind (TPtr _ _) = LR_TYPE_PTR"
| "ty_kind (TArray _ _ _) = LR_TYPE_ARRAY"
| "ty_kind (TVector _ _ _) = LR_TYPE_VECTOR"
| "ty_kind (TStruct _ _ _ _) = LR_TYPE_STRUCT"
| "ty_kind (TFunc _ _ _ _) = LR_TYPE_FUNC"

text \<open>Equality of two type pointers.\<close>

definition ty_ptr_eq :: "lr_type option \<Rightarrow> lr_type option \<Rightarrow> bool" where
  "ty_ptr_eq a b \<longleftrightarrow> map_option ty_addr a = map_option ty_addr b"

section \<open>Size and alignment\<close>

fun scalar_size :: "lr_scalar \<Rightarrow> u64" where
  "scalar_size SVoid = 0"
| "scalar_size SI1 = 1"
| "scalar_size SI8 = 1"
| "scalar_size SI16 = 2"
| "scalar_size SI32 = 4"
| "scalar_size SI64 = 8"
| "scalar_size SFloat = 4"
| "scalar_size SDouble = 8"
| "scalar_size SX86Fp80 = 16"
| "scalar_size SFp128 = 16"

fun scalar_align :: "lr_scalar \<Rightarrow> u64" where
  "scalar_align SVoid = 1"
| "scalar_align SI1 = 1"
| "scalar_align SI8 = 1"
| "scalar_align SI16 = 2"
| "scalar_align SI32 = 4"
| "scalar_align SI64 = 8"
| "scalar_align SFloat = 4"
| "scalar_align SDouble = 8"
| "scalar_align SX86Fp80 = 16"
| "scalar_align SFp128 = 16"

text \<open>
  \<open>type_size\<close> and \<open>type_align\<close> are \<^verbatim>\<open>lr_type_size\<close> and \<^verbatim>\<open>lr_type_align\<close> on a non-null
  type; \<open>fields_end\<close> and \<open>fields_align\<close> are their loops over the fields of a struct, with
  the accumulator of the loop as first argument.
\<close>

function (sequential)
  type_size :: "lr_type \<Rightarrow> u64" and
  type_align :: "lr_type \<Rightarrow> u64" and
  fields_end :: "bool \<Rightarrow> u64 \<Rightarrow> lr_type list \<Rightarrow> u64" and
  fields_align :: "u64 \<Rightarrow> lr_type list \<Rightarrow> u64"
where
  "type_size (TScalar _ s) = scalar_size s"
| "type_size (TPtr _ _) = 8"
| "type_size (TArray _ elem count) = type_size elem * count"
| "type_size (TVector _ elem count) = type_size elem * count"
| "type_size (TStruct _ fs packed _) =
     (let sz = fields_end packed 0 fs
      in if \<not> packed \<and> fs \<noteq> [] then align_up_size sz (fields_align 1 fs) else sz)"
| "type_size (TFunc _ _ _ _) = 0"
| "type_align (TScalar _ s) = scalar_align s"
| "type_align (TPtr _ _) = 8"
| "type_align (TArray _ elem _) = type_align elem"
| "type_align (TVector _ elem count) =
     (let sz = type_size elem * count; ea = type_align elem;
          sz2 = (if sz < ea then ea else sz)
      in if 0 < sz2 then sz2 else 1)"
| "type_align (TStruct _ fs packed _) = (if packed then 1 else fields_align 1 fs)"
| "type_align (TFunc _ _ _ _) = 1"
| "fields_end packed sz [] = sz"
| "fields_end packed sz (f # fs) =
     fields_end packed ((if packed then sz else align_up_size sz (type_align f)) + type_size f) fs"
| "fields_align m [] = m"
| "fields_align m (f # fs) = fields_align (if m < type_align f then type_align f else m) fs"
  by pat_completeness auto
termination
  by (relation "measure (\<lambda>x. case x of
        Inl (Inl t) \<Rightarrow> size t
      | Inl (Inr t) \<Rightarrow> size t
      | Inr (Inl (_, _, fs)) \<Rightarrow> size_list size fs
      | Inr (Inr (_, fs)) \<Rightarrow> size_list size fs)") auto

definition lr_type_size :: "lr_type option \<Rightarrow> u64" where
  "lr_type_size t = (case t of None \<Rightarrow> 0 | Some t' \<Rightarrow> type_size t')"

definition lr_type_align :: "lr_type option \<Rightarrow> u64" where
  "lr_type_align t = (case t of None \<Rightarrow> 1 | Some t' \<Rightarrow> type_align t')"

definition ir_type_abi_align :: "lr_type option \<Rightarrow> u64" where
  "ir_type_abi_align t =
     (case t of None \<Rightarrow> 1 | Some t' \<Rightarrow> if ty_kind t' = LR_TYPE_I64 then 4 else lr_type_align t)"

definition ir_type_alloca_align :: "lr_type option \<Rightarrow> u64" where
  "ir_type_alloca_align t =
     (case t of None \<Rightarrow> 1
      | Some t' \<Rightarrow> let align = lr_type_align t
                  in if ty_kind t' = LR_TYPE_STRUCT \<and> align < 8 then 8 else align)"

text \<open>The loop of \<^verbatim>\<open>lr_struct_field_offset\<close> stops at the field asked for or at the last one.\<close>

definition lr_struct_field_offset :: "lr_type option \<Rightarrow> nat \<Rightarrow> u64" where
  "lr_struct_field_offset st field_idx =
     (case st of
        Some (TStruct _ fs packed _) \<Rightarrow>
          let off = fields_end packed 0 (take field_idx fs)
          in if field_idx < length fs \<and> \<not> packed
             then align_up_size off (type_align (fs ! field_idx)) else off
      | _ \<Rightarrow> 0)"

text \<open>\<^verbatim>\<open>lr_aggregate_index_path\<close>: the byte offset and the leaf type, \<open>None\<close> for false.\<close>

fun index_path :: "u64 \<Rightarrow> lr_type \<Rightarrow> u32 list \<Rightarrow> (u64 \<times> lr_type) option" where
  "index_path off cur [] = Some (off, cur)"
| "index_path off cur (idx # idxs) =
     (case cur of
        TStruct _ fs _ _ \<Rightarrow>
          if length fs \<le> unat idx then None
          else index_path (off + lr_struct_field_offset (Some cur) (unat idx)) (fs ! unat idx) idxs
      | TArray _ elem count \<Rightarrow>
          if count \<le> ucast idx then None
          else index_path (off + ucast idx * type_size elem) elem idxs
      | TVector _ elem count \<Rightarrow>
          if count \<le> ucast idx then None
          else index_path (off + ucast idx * type_size elem) elem idxs
      | _ \<Rightarrow> None)"

definition lr_aggregate_index_path :: "lr_type option \<Rightarrow> u32 list \<Rightarrow> (u64 \<times> lr_type) option" where
  "lr_aggregate_index_path base indices =
     (case base of None \<Rightarrow> None | Some t \<Rightarrow> index_path 0 t indices)"

section \<open>Opcodes, predicates and operands\<close>

datatype lr_opcode =
  LR_OP_RET | LR_OP_RET_VOID | LR_OP_BR | LR_OP_CONDBR | LR_OP_UNREACHABLE
| LR_OP_ADD | LR_OP_SUB | LR_OP_MUL | LR_OP_SDIV | LR_OP_SREM | LR_OP_UDIV | LR_OP_UREM
| LR_OP_AND | LR_OP_OR | LR_OP_XOR | LR_OP_SHL | LR_OP_LSHR | LR_OP_ASHR
| LR_OP_FADD | LR_OP_FSUB | LR_OP_FMUL | LR_OP_FDIV | LR_OP_FREM | LR_OP_FNEG
| LR_OP_ICMP | LR_OP_FCMP | LR_OP_ALLOCA | LR_OP_LOAD | LR_OP_STORE | LR_OP_GEP
| LR_OP_CALL | LR_OP_PHI | LR_OP_SELECT | LR_OP_SEXT | LR_OP_ZEXT | LR_OP_TRUNC
| LR_OP_BITCAST | LR_OP_PTRTOINT | LR_OP_INTTOPTR | LR_OP_SITOFP | LR_OP_UITOFP
| LR_OP_FPTOSI | LR_OP_FPTOUI | LR_OP_FPEXT | LR_OP_FPTRUNC | LR_OP_EXTRACTVALUE | LR_OP_INSERTVALUE

datatype lr_icmp_pred =
  LR_ICMP_EQ | LR_ICMP_NE
| LR_ICMP_SGT | LR_ICMP_SGE | LR_ICMP_SLT | LR_ICMP_SLE
| LR_ICMP_UGT | LR_ICMP_UGE | LR_ICMP_ULT | LR_ICMP_ULE

datatype lr_fcmp_pred =
  LR_FCMP_FALSE
| LR_FCMP_OEQ | LR_FCMP_OGT | LR_FCMP_OGE | LR_FCMP_OLT | LR_FCMP_OLE | LR_FCMP_ONE | LR_FCMP_ORD
| LR_FCMP_UEQ | LR_FCMP_UGT | LR_FCMP_UGE | LR_FCMP_ULT | LR_FCMP_ULE | LR_FCMP_UNE | LR_FCMP_UNO
| LR_FCMP_TRUE

datatype lr_operand_kind =
  LR_VAL_VREG | LR_VAL_IMM_I64 | LR_VAL_IMM_F64 | LR_VAL_BLOCK | LR_VAL_GLOBAL | LR_VAL_NULL | LR_VAL_UNDEF

record lr_operand =
  opd_kind :: lr_operand_kind
  opd_type :: "lr_type option"
  global_offset :: u64
  opd_bits :: u64

definition opd_vreg :: "lr_operand \<Rightarrow> u32" where
  "opd_vreg o' = ucast (opd_bits o')"

definition opd_imm_i64 :: "lr_operand \<Rightarrow> u64" where
  "opd_imm_i64 o' = opd_bits o'"

definition opd_block_id :: "lr_operand \<Rightarrow> u32" where
  "opd_block_id o' = ucast (opd_bits o')"

definition opd_global_id :: "lr_operand \<Rightarrow> u32" where
  "opd_global_id o' = ucast (opd_bits o')"

definition lr_op_vreg :: "u32 \<Rightarrow> lr_type option \<Rightarrow> lr_operand" where
  "lr_op_vreg vreg t = \<lparr>opd_kind = LR_VAL_VREG, opd_type = t, global_offset = 0, opd_bits = ucast vreg\<rparr>"

definition lr_op_imm_i64 :: "u64 \<Rightarrow> lr_type option \<Rightarrow> lr_operand" where
  "lr_op_imm_i64 val0 t =
     (let val = (case t of Some t' \<Rightarrow> if ty_kind t' = LR_TYPE_I1 then (if val0 \<noteq> 0 then 1 else 0) else val0
                 | None \<Rightarrow> val0)
      in \<lparr>opd_kind = LR_VAL_IMM_I64, opd_type = t, global_offset = 0, opd_bits = val\<rparr>)"

definition lr_op_imm_f64 :: "u64 \<Rightarrow> lr_type option \<Rightarrow> lr_operand" where
  "lr_op_imm_f64 val t = \<lparr>opd_kind = LR_VAL_IMM_F64, opd_type = t, global_offset = 0, opd_bits = val\<rparr>"

definition lr_op_block :: "u32 \<Rightarrow> lr_operand" where
  "lr_op_block i = \<lparr>opd_kind = LR_VAL_BLOCK, opd_type = None, global_offset = 0, opd_bits = ucast i\<rparr>"

definition lr_op_global :: "u32 \<Rightarrow> lr_type option \<Rightarrow> lr_operand" where
  "lr_op_global i t = \<lparr>opd_kind = LR_VAL_GLOBAL, opd_type = t, global_offset = 0, opd_bits = ucast i\<rparr>"

definition lr_op_null :: "lr_type option \<Rightarrow> lr_operand" where
  "lr_op_null t = \<lparr>opd_kind = LR_VAL_NULL, opd_type = t, global_offset = 0, opd_bits = 0\<rparr>"

section \<open>One step of a GEP\<close>

record lr_gep_step =
  is_const :: bool
  const_byte_offset :: u64
  runtime_elem_size :: u64
  runtime_signext_bytes :: u8
  next_type :: lr_type

definition lr_gep_index_signext_bytes :: "lr_operand \<Rightarrow> u8" where
  "lr_gep_index_signext_bytes idx =
     (case opd_type idx of None \<Rightarrow> 0
      | Some t \<Rightarrow>
          (case ty_kind t of
             LR_TYPE_I1 \<Rightarrow> 1 | LR_TYPE_I8 \<Rightarrow> 1 | LR_TYPE_I16 \<Rightarrow> 2 | LR_TYPE_I32 \<Rightarrow> 4 | _ \<Rightarrow> 0))"

definition gep_scaled :: "lr_operand \<Rightarrow> u64 \<Rightarrow> lr_type \<Rightarrow> lr_gep_step" where
  "gep_scaled idx elem_size nt =
     (if opd_kind idx = LR_VAL_IMM_I64
      then \<lparr>is_const = True, const_byte_offset = opd_imm_i64 idx * elem_size,
            runtime_elem_size = 0, runtime_signext_bytes = 0, next_type = nt\<rparr>
      else \<lparr>is_const = False, const_byte_offset = 0, runtime_elem_size = elem_size,
            runtime_signext_bytes = lr_gep_index_signext_bytes idx, next_type = nt\<rparr>)"

definition lr_gep_analyze_step :: "lr_type option \<Rightarrow> bool \<Rightarrow> lr_operand option \<Rightarrow> lr_gep_step option" where
  "lr_gep_analyze_step cur_ty first_index idx_op =
     (case (cur_ty, idx_op) of
        (Some cur, Some idx) \<Rightarrow>
          if first_index then Some (gep_scaled idx (type_size cur) cur)
          else (case cur of
                  TStruct _ fs _ _ \<Rightarrow>
                    let field = (if opd_kind idx = LR_VAL_IMM_I64 then ucast (opd_imm_i64 idx) else opd_vreg idx)
                    in Some \<lparr>is_const = True,
                             const_byte_offset = lr_struct_field_offset (Some cur) (unat field),
                             runtime_elem_size = 0, runtime_signext_bytes = 0,
                             next_type = (if unat field < length fs then fs ! unat field else cur)\<rparr>
                | TArray _ elem _ \<Rightarrow> Some (gep_scaled idx (type_size elem) elem)
                | TVector _ elem _ \<Rightarrow> Some (gep_scaled idx (type_size elem) elem)
                | _ \<Rightarrow> None)
      | _ \<Rightarrow> None)"

end
