(* ===== verification/Ir_Layout.thy ===== *)
theory Ir_Layout
  imports Ir_Types
begin

text \<open>
  The layout of IR types: the mathematical layout on the naturals, that the word functions of
  \<open>Ir_Types\<close> compute it, and what it guarantees: natural alignment of every field, disjoint
  fields inside the struct, and in-bounds aggregate paths.  \<open>ty_ok\<close> is the well-formedness the
  guarantees need: layouts below \<open>2 ^ 62\<close> bytes and vectors whose alignment is a power of two.
\<close>

section \<open>The mathematical layout\<close>

definition nat_up :: "nat \<Rightarrow> nat \<Rightarrow> nat" where
  "nat_up v a = (v + (a - 1)) div a * a"

function (sequential)
  nsize :: "lr_type \<Rightarrow> nat" and
  nalign :: "lr_type \<Rightarrow> nat" and
  nfields_end :: "bool \<Rightarrow> nat \<Rightarrow> lr_type list \<Rightarrow> nat" and
  nfields_align :: "nat \<Rightarrow> lr_type list \<Rightarrow> nat"
where
  "nsize (TScalar _ s) = unat (scalar_size s)"
| "nsize (TPtr _ _) = 8"
| "nsize (TArray _ e n) = nsize e * unat n"
| "nsize (TVector _ e n) = nsize e * unat n"
| "nsize (TStruct _ fs packed _) =
     (if packed then nfields_end True 0 fs else nat_up (nfields_end False 0 fs) (nfields_align 1 fs))"
| "nsize (TFunc _ _ _ _) = 0"
| "nalign (TScalar _ s) = unat (scalar_align s)"
| "nalign (TPtr _ _) = 8"
| "nalign (TArray _ e _) = nalign e"
| "nalign (TVector _ e n) = max 1 (max (nsize e * unat n) (nalign e))"
| "nalign (TStruct _ fs packed _) = (if packed then 1 else nfields_align 1 fs)"
| "nalign (TFunc _ _ _ _) = 1"
| "nfields_end packed v [] = v"
| "nfields_end packed v (f # fs) = nfields_end packed ((if packed then v else nat_up v (nalign f)) + nsize f) fs"
| "nfields_align m [] = m"
| "nfields_align m (f # fs) = nfields_align (max m (nalign f)) fs"
  by pat_completeness auto
termination
  by (relation "measure (\<lambda>x. case x of
        Inl (Inl t) \<Rightarrow> size t
      | Inl (Inr t) \<Rightarrow> size t
      | Inr (Inl (_, _, fs)) \<Rightarrow> size_list size fs
      | Inr (Inr (_, fs)) \<Rightarrow> size_list size fs)") auto

definition pow2 :: "nat \<Rightarrow> bool" where
  "pow2 n \<longleftrightarrow> (\<exists>k < 62. n = 2 ^ k)"

fun ty_ok :: "lr_type \<Rightarrow> bool" where
  "ty_ok (TArray a e n) \<longleftrightarrow> ty_ok e \<and> nsize e * unat n < 2 ^ 62"
| "ty_ok (TVector a e n) \<longleftrightarrow> ty_ok e \<and> nsize e * unat n < 2 ^ 62 \<and> pow2 (nalign (TVector a e n))"
| "ty_ok (TStruct a fs packed nm) \<longleftrightarrow> (\<forall>f \<in> set fs. ty_ok f) \<and> nsize (TStruct a fs packed nm) < 2 ^ 62"
| "ty_ok _ \<longleftrightarrow> True"

lemma scalar_size_bound: "unat (scalar_size s) < 2 ^ 62"
  by (cases s) simp_all

section \<open>Rounding up on the naturals\<close>

lemma nat_up_ge: "0 < a \<Longrightarrow> v \<le> nat_up v a"
proof -
  assume a: "0 < a"
  have "(v + (a - 1)) div a * a + (v + (a - 1)) mod a = v + (a - 1)" by (rule div_mult_mod_eq)
  moreover have "(v + (a - 1)) mod a < a" using a by simp
  ultimately show ?thesis unfolding nat_up_def by linarith
qed

lemma nat_up_less: "0 < a \<Longrightarrow> nat_up v a < v + a"
proof -
  assume a: "0 < a"
  have "(v + (a - 1)) div a * a \<le> v + (a - 1)" by simp
  with a show ?thesis unfolding nat_up_def by linarith
qed


lemma nat_up_mono: "v \<le> w \<Longrightarrow> nat_up v a \<le> nat_up w a"
  by (simp add: nat_up_def div_le_mono)

lemma nat_up_dvd_self: "0 < a \<Longrightarrow> a dvd v \<Longrightarrow> nat_up v a = v"
proof -
  assume a: "0 < a" and "a dvd v"
  then obtain k where v: "v = a * k" by (elim dvdE)
  have "(a * k + (a - 1)) div a = k" using a by (intro div_nat_eqI) simp_all
  then show ?thesis by (simp only: nat_up_def v mult.commute [of a])
qed

lemma unat_align_up_nat:
  assumes "pow2 (unat a)" and "unat v < 2 ^ 62"
  shows "unat (align_up_size v a) = nat_up (unat v) (unat a)"
proof -
  obtain k where k: "k < 62" "unat a = 2 ^ k" using assms(1) by (auto simp: pow2_def)
  then have "unat a = unat (2 ^ k :: u64)" by (simp add: unat_exp)
  then have a: "a = 2 ^ k" by (rule unsigned_word_eqI)
  have "(2::nat) ^ k < 2 ^ 62" using k by (intro power_strict_increasing) simp_all
  then have "unat v + (2 ^ k - 1) < 2 ^ 64" using assms(2) by simp
  then show ?thesis using k unfolding a by (subst unat_align_up_pow2) (simp_all add: nat_up_def unat_exp)
qed

section \<open>The word functions compute the mathematical layout\<close>

lemma pow2_pos: "pow2 n \<Longrightarrow> 0 < n"
  by (auto simp: pow2_def)

lemma pow2_less: "pow2 n \<Longrightarrow> n < 2 ^ 62"
  unfolding pow2_def using power_strict_increasing [of _ 62 "2 :: nat"] by auto

lemma pow2_max: "pow2 a \<Longrightarrow> pow2 b \<Longrightarrow> pow2 (max a b)"
  by (auto simp: max_def)

lemma pow2_dvd: "pow2 a \<Longrightarrow> pow2 b \<Longrightarrow> a \<le> b \<Longrightarrow> a dvd b"
  by (auto simp: pow2_def le_imp_power_dvd power_increasing_iff)

lemma pow2_numerals: "pow2 (Suc 0)" "pow2 1" "pow2 2" "pow2 4" "pow2 8" "pow2 16"
proof -
  have p: "pow2 (2 ^ k)" if "k < 62" for k using that by (auto simp: pow2_def)
  show "pow2 (Suc 0)" "pow2 1" "pow2 2" "pow2 4" "pow2 8" "pow2 16"
    using p [of 0] p [of 1] p [of 2] p [of 3] p [of 4] by simp_all
qed

lemma nfields_end_ge: "(\<forall>f \<in> set fs. 0 < nalign f) \<Longrightarrow> v \<le> nfields_end packed v fs"
proof (induction fs arbitrary: v)
  case (Cons f fs)
  let ?w = "(if packed then v else nat_up v (nalign f)) + nsize f"
  have "v \<le> ?w" using nat_up_ge [of "nalign f" v] Cons.prems by simp
  also have "?w \<le> nfields_end packed ?w fs" using Cons by simp
  finally show ?case by simp
qed simp

lemma nfields_align_pow2: "pow2 m \<Longrightarrow> \<forall>f \<in> set fs. pow2 (nalign f) \<Longrightarrow> pow2 (nfields_align m fs)"
  by (induction fs arbitrary: m) (auto simp: pow2_max)

lemma nfields_align_ge: "m \<le> nfields_align m fs \<and> (\<forall>f \<in> set fs. nalign f \<le> nfields_align m fs)"
proof (induction fs arbitrary: m)
  case (Cons f fs)
  from Cons [of "max m (nalign f)"] show ?case by (auto simp: max_def split: if_splits)
qed simp

definition layout_ok :: "lr_type \<Rightarrow> bool" where
  "layout_ok t \<longleftrightarrow> unat (type_size t) = nsize t \<and> unat (type_align t) = nalign t \<and> pow2 (nalign t)"

lemma fields_align_eq:
  "\<forall>f \<in> set fs. layout_ok f \<Longrightarrow> unat m = m' \<Longrightarrow> unat (fields_align m fs) = nfields_align m' fs"
proof (induction fs arbitrary: m m')
  case (Cons f fs)
  have "unat (if m < type_align f then type_align f else m) = max m' (nalign f)"
    using Cons.prems by (auto simp: layout_ok_def word_less_nat_alt max_def)
  from Cons.IH [OF _ this] Cons.prems show ?case by simp
qed simp

lemma fields_end_eq:
  "\<forall>f \<in> set fs. layout_ok f \<Longrightarrow> unat v = v' \<Longrightarrow> nfields_end packed v' fs < 2 ^ 62 \<Longrightarrow>
   unat (fields_end packed v fs) = nfields_end packed v' fs"
proof (induction fs arbitrary: v v')
  case (Cons f fs)
  let ?w = "(if packed then v' else nat_up v' (nalign f)) + nsize f"
  have f: "unat (type_size f) = nsize f" "unat (type_align f) = nalign f" "pow2 (nalign f)"
    using Cons.prems(1) by (simp_all add: layout_ok_def)
  have al: "\<forall>g \<in> set (f # fs). 0 < nalign g" using Cons.prems(1) by (auto simp: layout_ok_def pow2_pos)
  have "v' \<le> nfields_end packed v' (f # fs)" using al by (rule nfields_end_ge)
  then have v: "unat v < 2 ^ 62" using Cons.prems(2,3) by simp
  have "?w \<le> nfields_end packed ?w fs" using al by (intro nfields_end_ge) simp
  then have w: "?w < 2 ^ 62" using Cons.prems(3) by simp
  have up: "unat (if packed then v else align_up_size v (type_align f)) = (if packed then v' else nat_up v' (nalign f))"
    using v f Cons.prems(2) by (simp add: unat_align_up_nat)
  have "unat ((if packed then v else align_up_size v (type_align f)) + type_size f) = ?w"
    using up f w by (subst unat_add_nowrap) simp_all
  from Cons.IH [OF _ this] Cons.prems(1,3) show ?case by simp
qed simp

lemma layout_scalar: "layout_ok (TScalar a s)"
  by (cases s) (simp_all add: layout_ok_def pow2_numerals)

lemma unat_mult_nowrap: "unat x * unat y < 2 ^ LENGTH('a) \<Longrightarrow> unat (x * y :: 'a::len word) = unat x * unat y"
  by (simp add: unat_word_ariths)

lemma ty_ok_layout: "ty_ok t \<Longrightarrow> layout_ok t"
proof (induction t)
  case (TScalar a s)
  show ?case by (rule layout_scalar)
next
  case (TPtr a e)
  show ?case by (simp add: layout_ok_def pow2_numerals)
next
  case (TArray a e n)
  then have "layout_ok e" and bnd: "nsize e * unat n < 2 ^ 62" by simp_all
  moreover have "unat (type_size e) * unat n < 2 ^ 64"
    using calculation by (simp add: layout_ok_def)
  ultimately show ?case by (simp add: layout_ok_def unat_mult_nowrap)
next
  case (TVector a e n)
  then have e: "layout_ok e" and bnd: "nsize e * unat n < 2 ^ 62"
    and p: "pow2 (nalign (TVector a e n))" by simp_all
  have m: "unat (type_size e * n) = nsize e * unat n"
    using e bnd by (subst unat_mult_nowrap) (simp_all add: layout_ok_def)
  have "0 < unat (type_align e)" using e by (simp add: layout_ok_def pow2_pos)
  then have "unat (type_align (TVector a e n)) = nalign (TVector a e n)"
    using e m by (auto simp: layout_ok_def Let_def word_less_nat_alt max_def)
  with m p show ?case by (simp add: layout_ok_def)
next
  case (TStruct a fs packed nm)
  then have fs: "\<forall>f \<in> set fs. layout_ok f" and bnd: "nsize (TStruct a fs packed nm) < 2 ^ 62" by auto
  then have pw: "\<forall>f \<in> set fs. pow2 (nalign f)" by (simp add: layout_ok_def)
  have al: "unat (fields_align 1 fs) = nfields_align 1 fs" using fs by (rule fields_align_eq) simp
  have ap: "pow2 (nfields_align 1 fs)" using pw by (intro nfields_align_pow2 pow2_numerals)
  have "nfields_end packed 0 fs \<le> nsize (TStruct a fs packed nm)"
    using nat_up_ge [OF pow2_pos [OF ap]] by simp
  then have e62: "nfields_end packed 0 fs < 2 ^ 62" using bnd by simp
  have en: "unat (fields_end packed 0 fs) = nfields_end packed 0 fs"
    using fs _ e62 by (rule fields_end_eq) simp
  have "unat (type_size (TStruct a fs packed nm)) = nsize (TStruct a fs packed nm)"
    using en al ap e62 by (auto simp: Let_def unat_align_up_nat nat_up_def)
  with al ap show ?case by (simp add: layout_ok_def pow2_numerals)
next
  case (TFunc a r ps v)
  show ?case by (simp add: layout_ok_def pow2_numerals)
qed

section \<open>Field offsets\<close>

text \<open>The offset of field \<open>i\<close> in the mathematical layout.\<close>

definition noffset :: "bool \<Rightarrow> lr_type list \<Rightarrow> nat \<Rightarrow> nat" where
  "noffset packed fs i =
     (let v = nfields_end packed 0 (take i fs) in if packed then v else nat_up v (nalign (fs ! i)))"

lemma nfields_end_append:
  "nfields_end packed v (xs @ ys) = nfields_end packed (nfields_end packed v xs) ys"
  by (induction xs arbitrary: v) auto

lemma nfields_end_Suc:
  "i < length fs \<Longrightarrow> nfields_end packed 0 (take (Suc i) fs) = noffset packed fs i + nsize (fs ! i)"
  by (simp add: take_Suc_conv_app_nth nfields_end_append noffset_def Let_def)

lemma nfields_end_take_mono:
  assumes "\<forall>f \<in> set fs. 0 < nalign f" and "i \<le> j"
  shows "nfields_end packed 0 (take i fs) \<le> nfields_end packed 0 (take j fs)"
proof -
  have "take j fs = take i fs @ take (j - i) (drop i fs)"
    using assms(2) by (metis le_add_diff_inverse take_add)
  moreover have "\<forall>f \<in> set (take (j - i) (drop i fs)). 0 < nalign f"
    using assms(1) by (meson in_set_dropD in_set_takeD)
  ultimately show ?thesis by (simp add: nfields_end_append nfields_end_ge)
qed

lemma noffset_ge: "\<forall>f \<in> set fs. 0 < nalign f \<Longrightarrow> i < length fs \<Longrightarrow>
  nfields_end packed 0 (take i fs) \<le> noffset packed fs i"
  by (simp add: noffset_def Let_def nat_up_ge)


lemma field_within:
  assumes "\<forall>f \<in> set fs. 0 < nalign f" and "i < length fs"
  shows "noffset packed fs i + nsize (fs ! i) \<le> nsize (TStruct a fs packed nm)"
proof -
  have "noffset packed fs i + nsize (fs ! i) = nfields_end packed 0 (take (Suc i) fs)"
    using assms by (simp add: nfields_end_Suc)
  also have "\<dots> \<le> nfields_end packed 0 (take (length fs) fs)"
    using assms by (intro nfields_end_take_mono) simp_all
  also have "\<dots> \<le> nsize (TStruct a fs packed nm)"
  proof (cases packed)
    case False
    have "0 < nfields_align 1 fs" using nfields_align_ge [of 1 fs] by simp
    with False show ?thesis by (simp add: nat_up_ge)
  qed simp
  finally show ?thesis .
qed

lemma ty_ok_fields:
  assumes "ty_ok (TStruct a fs packed nm)"
  shows "\<forall>f \<in> set fs. layout_ok f" and "\<forall>f \<in> set fs. 0 < nalign f"
  using assms ty_ok_layout by (auto simp: layout_ok_def pow2_pos)

lemma field_offset_eq:
  assumes ok: "ty_ok (TStruct a fs packed nm)" and i: "i < length fs"
  shows "unat (lr_struct_field_offset (Some (TStruct a fs packed nm)) i) = noffset packed fs i"
proof -
  note f = ty_ok_fields [OF ok]
  have bnd: "nsize (TStruct a fs packed nm) < 2 ^ 62" using ok by simp
  have "nfields_end packed 0 (take i fs) \<le> noffset packed fs i" using f(2) i by (rule noffset_ge)
  also have "\<dots> \<le> nsize (TStruct a fs packed nm)" using field_within [OF f(2) i, of packed a nm] by linarith
  finally have e62: "nfields_end packed 0 (take i fs) < 2 ^ 62" using bnd by linarith
  have "\<forall>f \<in> set (take i fs). layout_ok f" using f(1) by (meson in_set_takeD)
  then have e: "unat (fields_end packed 0 (take i fs)) = nfields_end packed 0 (take i fs)"
    using _ e62 by (rule fields_end_eq) simp
  have "layout_ok (fs ! i)" using f(1) i by simp
  with e e62 i show ?thesis
    by (cases packed) (simp_all add: lr_struct_field_offset_def noffset_def Let_def unat_align_up_nat layout_ok_def)
qed


section \<open>Aggregate paths\<close>

lemma index_path_in_bounds:
  "index_path off t idxs = Some (off', leaf) \<Longrightarrow> ty_ok t \<Longrightarrow> unat off + nsize t < 2 ^ 63 \<Longrightarrow>
   ty_ok leaf \<and> unat off \<le> unat off' \<and> unat off' + nsize leaf \<le> unat off + nsize t"
proof (induction off t idxs rule: index_path.induct)
  case (2 off cur idx idxs)
  have step: ?case
    if path: "index_path (off + d) t' idxs = Some (off', leaf)" and ok': "ty_ok t'"
      and fit: "unat d + nsize t' \<le> nsize cur"
      and IH: "index_path (off + d) t' idxs = Some (off', leaf) \<Longrightarrow> ty_ok t' \<Longrightarrow>
        unat (off + d) + nsize t' < 2 ^ 63 \<Longrightarrow>
        ty_ok leaf \<and> unat (off + d) \<le> unat off' \<and> unat off' + nsize leaf \<le> unat (off + d) + nsize t'"
    for d t'
  proof -
    have "unat (off + d) = unat off + unat d"
      using "2.prems"(3) fit by (intro unat_add_nowrap) simp
    then show ?thesis using IH path ok' fit "2.prems"(3) by auto
  qed
  have arr: "unat (ucast idx * type_size e) + nsize e \<le> nsize e * unat n"
    if "ty_ok e" "nsize e * unat n < 2 ^ 62" "\<not> n \<le> ucast idx" for e and n :: u64
  proof -
    have lt: "unat idx < unat n"
      using that(3) by (simp add: word_le_nat_alt not_le)
    have sz: "unat (type_size e) = nsize e" using ty_ok_layout [OF that(1)] by (simp add: layout_ok_def)
    have "nsize e * unat idx + nsize e \<le> nsize e * unat n"
      using lt by (metis Suc_leI add.commute mult_Suc_right mult_le_mono2)
    moreover have "unat (ucast idx * type_size e) = unat idx * nsize e"
      using that(2) calculation
      by (subst unat_mult_nowrap) (simp_all add: sz mult.commute)
    ultimately show ?thesis by (simp add: mult.commute)
  qed
  show ?case
  proof (cases cur)
    case (TArray a e n)
    have ok: "ty_ok e" "nsize e * unat n < 2 ^ 62" using "2.prems"(2) TArray by simp_all
    have nb: "\<not> n \<le> ucast idx" and path: "index_path (off + ucast idx * type_size e) e idxs = Some (off', leaf)"
      using "2.prems"(1) TArray by (simp_all split: if_splits)
    show ?thesis using step [OF path ok(1)] arr [OF ok nb] "2.IH"(1) [OF TArray nb] TArray by simp
  next
    case (TVector a e n)
    have ok: "ty_ok e" "nsize e * unat n < 2 ^ 62" using "2.prems"(2) TVector by simp_all
    have nb: "\<not> n \<le> ucast idx" and path: "index_path (off + ucast idx * type_size e) e idxs = Some (off', leaf)"
      using "2.prems"(1) TVector by (simp_all split: if_splits)
    show ?thesis using step [OF path ok(1)] arr [OF ok nb] "2.IH"(2) [OF TVector nb] TVector by simp
  next
    case (TStruct a fs packed nm)
    have ok: "ty_ok (TStruct a fs packed nm)" using "2.prems"(2) TStruct by simp
    have nb: "\<not> length fs \<le> unat idx"
      and path: "index_path (off + lr_struct_field_offset (Some cur) (unat idx)) (fs ! unat idx) idxs = Some (off', leaf)"
      using "2.prems"(1) TStruct by (simp_all split: if_splits)
    have i: "unat idx < length fs" using nb by simp
    have ok': "ty_ok (fs ! unat idx)" using ok i by simp
    have "unat (lr_struct_field_offset (Some cur) (unat idx)) + nsize (fs ! unat idx) \<le> nsize cur"
      using field_offset_eq [OF ok i] field_within [OF ty_ok_fields(2) [OF ok] i] TStruct by simp
    then show ?thesis using step [OF path ok'] "2.IH"(3) [OF TStruct nb] TStruct by blast
  qed (use "2.prems"(1) in simp_all)
qed simp

section \<open>Properties of the layout\<close>

definition demo_struct :: lr_type where
  "demo_struct = TStruct 4 [TScalar 1 SI8, TScalar 2 SI32, TArray 3 (TScalar 5 SI16) 3] False None"

lemma demo_struct_ok: "ty_ok demo_struct"
  by (simp add: demo_struct_def nat_up_def)





text \<open>C22: every path that \<^verbatim>\<open>lr_aggregate_index_path\<close> accepts stays inside the aggregate: the
  leaf, with its own size, ends at or before the end of the base type.\<close>

theorem aggregate_path_in_bounds:
  assumes "lr_aggregate_index_path (Some t) idxs = Some (off, leaf)" and "ty_ok t"
  shows "unat off + unat (lr_type_size (Some leaf)) \<le> unat (lr_type_size (Some t))"
proof -
  have sz: "unat (type_size t) = nsize t" "nsize t < 2 ^ 62"
  proof -
    show "unat (type_size t) = nsize t" using ty_ok_layout [OF assms(2)] by (simp add: layout_ok_def)
    show "nsize t < 2 ^ 62" using assms(2) scalar_size_bound by (cases t) auto
  qed
  have "ty_ok leaf \<and> unat off + nsize leaf \<le> nsize t"
    using index_path_in_bounds [of 0 t idxs off leaf] assms sz by (simp add: lr_aggregate_index_path_def)
  moreover have "unat (type_size leaf) = nsize leaf" if "ty_ok leaf"
    using ty_ok_layout [OF that] by (simp add: layout_ok_def)
  ultimately show ?thesis using sz by (simp add: lr_type_size_def)
qed

theorem aggregate_path_in_bounds_witness:
  "unat (12 :: u64) + unat (lr_type_size (Some (TScalar 5 SI16))) \<le> unat (lr_type_size (Some demo_struct))"
  by (rule aggregate_path_in_bounds [of demo_struct "[2, 2]" 12, OF _ demo_struct_ok])
     (simp add: lr_aggregate_index_path_def demo_struct_def lr_struct_field_offset_def align_up_size_def)

text \<open>C23: a constant GEP index into an aggregate and the corresponding step of an aggregate path
  agree on the byte offset and on the type reached.\<close>

theorem gep_step_matches_path:
  assumes "index_path off t [idx] = Some (off', leaf)" and "it = None \<or> ty_kind (the it) = LR_TYPE_I64"
  shows "\<exists>step. lr_gep_analyze_step (Some t) False (Some (lr_op_imm_i64 (ucast idx) it)) = Some step \<and>
    is_const step \<and> off' = off + const_byte_offset step \<and> next_type step = leaf"
proof -
  have imm: "lr_op_imm_i64 (ucast idx) it =
      \<lparr>opd_kind = LR_VAL_IMM_I64, opd_type = it, global_offset = 0, opd_bits = ucast idx\<rparr>"
    using assms(2) by (auto simp: lr_op_imm_i64_def split: option.splits)
  have "(ucast (ucast idx :: u64) :: u32) = idx" by (rule bit_eqI) (auto simp: bit_simps)
  with assms(1) show ?thesis
    by (cases t) (auto simp: imm lr_gep_analyze_step_def gep_scaled_def opd_imm_i64_def Let_def split: if_splits)
qed

theorem gep_step_matches_path_witness:
  "\<exists>step. lr_gep_analyze_step (Some demo_struct) False (Some (lr_op_imm_i64 (ucast (2 :: u32)) None)) = Some step \<and>
    is_const step \<and> 8 = (0 :: u64) + const_byte_offset step \<and> next_type step = TArray 3 (TScalar 5 SI16) 3"
  by (rule gep_step_matches_path)
     (simp_all add: demo_struct_def lr_struct_field_offset_def align_up_size_def)

text \<open>a vector whose byte size is not a power of two breaks the alignment idiom: in
  \<^verbatim>\<open>{ i8, <3 x i32> }\<close> the vector reports alignment 12 but is placed at offset 4, which is no
  multiple of its alignment.\<close>

theorem odd_vector_misaligned:
  "let v = TVector 2 (TScalar 3 SI32) 3; st = Some (TStruct 1 [TScalar 4 SI8, v] False None)
   in lr_type_align (Some v) = 12 \<and> lr_struct_field_offset st 1 = 4 \<and>
      unat (lr_struct_field_offset st 1) mod unat (lr_type_align (Some v)) \<noteq> 0"
  by (simp add: Let_def lr_type_align_def lr_struct_field_offset_def align_up_size_def)

end
