(* ===== verification/Ir_Core.thy ===== *)
theory Ir_Core
  imports Ir_Types
begin

text \<open>
  The in-memory IR of \<^verbatim>\<open>src/src/ir.h\<close> and the constructors of \<^verbatim>\<open>src/src/ir.c\<close> that build it:
  instructions, blocks, functions, globals and the module.

  The linked lists of the source (\<^verbatim>\<open>first\<close>, \<^verbatim>\<open>last\<close>, \<^verbatim>\<open>next\<close>) are lists.  An instruction carries
  its address, and the arrays that \<^verbatim>\<open>lr_func_finalize\<close> builds hold addresses, so that an
  instruction changed in place is seen through them; a null array is \<open>None\<close>.  A block is known
  by its id and a function by its position in the module.  \<open>inst_pred\<close> and \<open>inst_indices\<close> are the
  two views of the union of an instruction that the compiler uses, for the opcodes that use
  them.  C strings are \<^typ>\<open>string\<close>, without their terminator.
\<close>

section \<open>Instructions, blocks, functions, globals, modules\<close>

record lr_inst =
  inst_addr :: nat
  inst_op :: lr_opcode
  inst_type :: "lr_type option"
  inst_dest :: u32
  operands :: "lr_operand list"
  inst_pred :: u32
  inst_indices :: "u32 list"
  inst_align :: u32
  call_external_abi :: bool
  call_vararg :: bool
  call_fixed_args :: u32

record lr_block =
  blk_name :: string
  blk_id :: u32
  blk_insts :: "lr_inst list"
  inst_array :: "nat list option"
  num_insts :: u32

record lr_func =
  fn_name :: string
  symbol_id :: u32
  fn_type :: "lr_type option"
  ret_type :: "lr_type option"
  param_types :: "lr_type list"
  param_vregs :: "u32 list"
  fn_vararg :: bool
  is_decl :: bool
  uses_llvm_abi :: bool
  blocks :: "lr_block list"
  block_array :: "u32 option list option"
  linear_inst_array :: "nat list option"
  block_inst_offsets :: "u32 list option"
  num_linear_insts :: u32
  num_blocks :: u32
  next_vreg :: u32

record lr_reloc =
  reloc_offset :: u64
  reloc_addend :: u64
  reloc_symbol_name :: string

record lr_global =
  g_name :: string
  g_type :: "lr_type option"
  init_data :: "bytes option"
  relocs :: "lr_reloc list"
  g_is_const :: bool
  is_external :: bool
  is_local :: bool
  is_weak :: bool
  g_id :: u32

record lr_symtab =
  symbol_names :: "string option list"
  symbol_hashes :: "u32 list"
  num_symbols :: u32
  symbol_cap :: u32
  symbol_index :: "u32 list"
  symbol_index_cap :: u32

record lr_module = lr_symtab +
  funcs :: "lr_func list"
  globals :: "lr_global list"
  num_globals :: u32
  type_void :: lr_type
  type_i1 :: lr_type
  type_i8 :: lr_type
  type_i16 :: lr_type
  type_i32 :: lr_type
  type_i64 :: lr_type
  type_float :: lr_type
  type_double :: lr_type
  type_x86_fp80 :: lr_type
  type_fp128 :: lr_type
  type_ptr :: lr_type
  local_function_collision_scan_dirty :: bool

section \<open>Constructors\<close>

text \<open>
  \<^verbatim>\<open>lr_module_create\<close> zeroes the module and allocates one node per scalar type; the address of
  the \<open>i\<close>-th of the eleven allocations is \<open>addr i\<close>.
\<close>

definition lr_module_create :: "(nat \<Rightarrow> nat) \<Rightarrow> lr_module" where
  "lr_module_create addr =
     \<lparr>symbol_names = [], symbol_hashes = [], num_symbols = 0, symbol_cap = 0,
      symbol_index = [], symbol_index_cap = 0,
      funcs = [], globals = [], num_globals = 0,
      type_void = TScalar (addr 0) SVoid, type_i1 = TScalar (addr 1) SI1,
      type_i8 = TScalar (addr 2) SI8, type_i16 = TScalar (addr 3) SI16,
      type_i32 = TScalar (addr 4) SI32, type_i64 = TScalar (addr 5) SI64,
      type_float = TScalar (addr 6) SFloat, type_double = TScalar (addr 7) SDouble,
      type_x86_fp80 = TScalar (addr 8) SX86Fp80, type_fp128 = TScalar (addr 9) SFp128,
      type_ptr = TPtr (addr 10) None,
      local_function_collision_scan_dirty = False\<rparr>"

definition lr_type_func :: "nat \<Rightarrow> lr_type \<Rightarrow> lr_type list \<Rightarrow> bool \<Rightarrow> lr_type" where
  "lr_type_func addr ret params vararg = TFunc addr ret params vararg"

definition lr_type_ptr :: "nat \<Rightarrow> lr_type option \<Rightarrow> lr_type" where
  "lr_type_ptr addr elem = TPtr addr elem"

definition lr_type_array :: "nat \<Rightarrow> lr_type \<Rightarrow> u64 \<Rightarrow> lr_type" where
  "lr_type_array addr elem count = TArray addr elem count"

definition lr_type_vector :: "nat \<Rightarrow> lr_type \<Rightarrow> u64 \<Rightarrow> lr_type" where
  "lr_type_vector addr elem count = TVector addr elem count"

definition lr_type_struct :: "nat \<Rightarrow> lr_type list \<Rightarrow> bool \<Rightarrow> string option \<Rightarrow> lr_type" where
  "lr_type_struct addr fs packed name = TStruct addr fs packed name"

text \<open>\<open>addr\<close> is what the arena returns for the instruction; \<open>None\<close> is its null pointer.\<close>

definition lr_inst_create ::
  "nat option \<Rightarrow> lr_opcode \<Rightarrow> lr_type option \<Rightarrow> u32 \<Rightarrow> lr_operand list \<Rightarrow> lr_inst option" where
  "lr_inst_create addr op type dest ops =
     (case addr of None \<Rightarrow> None
      | Some a \<Rightarrow> Some \<lparr>inst_addr = a, inst_op = op, inst_type = type, inst_dest = dest,
                       operands = ops, inst_pred = 0, inst_indices = [], inst_align = 0,
                       call_external_abi = False, call_vararg = False, call_fixed_args = 0\<rparr>)"

definition lr_vreg_new :: "lr_func \<Rightarrow> u32 \<times> lr_func" where
  "lr_vreg_new f = (next_vreg f, f\<lparr>next_vreg := next_vreg f + 1\<rparr>)"

text \<open>The id of the new block is the returned value.\<close>

definition lr_block_create :: "lr_func \<Rightarrow> string \<Rightarrow> u32 \<times> lr_func" where
  "lr_block_create f name =
     (let b = \<lparr>blk_name = name, blk_id = num_blocks f, blk_insts = [], inst_array = None, num_insts = 0\<rparr>
      in (num_blocks f,
          f\<lparr>num_blocks := num_blocks f + 1, block_array := None, linear_inst_array := None,
            block_inst_offsets := None, num_linear_insts := 0,
            is_decl := (if blocks f = [] then False else is_decl f),
            blocks := blocks f @ [b]\<rparr>))"

definition ir_inst_is_global_call :: "lr_inst \<Rightarrow> bool" where
  "ir_inst_is_global_call inst \<longleftrightarrow>
     inst_op inst = LR_OP_CALL \<and> operands inst \<noteq> [] \<and> opd_kind (operands inst ! 0) = LR_VAL_GLOBAL"

definition block_append_inst :: "lr_inst \<Rightarrow> lr_block \<Rightarrow> lr_block" where
  "block_append_inst inst b = b\<lparr>blk_insts := blk_insts b @ [inst], inst_array := None, num_insts := 0\<rparr>"

definition update_block :: "u32 \<Rightarrow> (lr_block \<Rightarrow> lr_block) \<Rightarrow> lr_func \<Rightarrow> lr_func" where
  "update_block bid g f = f\<lparr>blocks := map (\<lambda>b. if blk_id b = bid then g b else b) (blocks f)\<rparr>"

definition func_block_append :: "u32 \<Rightarrow> lr_inst \<Rightarrow> lr_func \<Rightarrow> lr_func" where
  "func_block_append bid inst f =
     (update_block bid (block_append_inst inst) f)
       \<lparr>linear_inst_array := None, block_inst_offsets := None, num_linear_insts := 0\<rparr>"

text \<open>\<^verbatim>\<open>lr_block_append\<close> on the block \<open>bid\<close> of the function at position \<open>fi\<close> of its module.\<close>

definition lr_block_append :: "lr_module \<Rightarrow> nat \<Rightarrow> u32 \<Rightarrow> lr_inst \<Rightarrow> lr_module" where
  "lr_block_append m fi bid inst =
     m\<lparr>funcs := (funcs m)[fi := func_block_append bid inst (funcs m ! fi)],
       local_function_collision_scan_dirty :=
         (ir_inst_is_global_call inst \<or> local_function_collision_scan_dirty m)\<rparr>"

definition lr_global_create :: "lr_module \<Rightarrow> string \<Rightarrow> lr_type option \<Rightarrow> bool \<Rightarrow> u32 \<times> lr_module" where
  "lr_global_create m name type constant =
     (let g = \<lparr>g_name = name, g_type = type, init_data = None, relocs = [], g_is_const = constant,
               is_external = False, is_local = False, is_weak = False, g_id = num_globals m\<rparr>
      in (num_globals m,
          m\<lparr>num_globals := num_globals m + 1, globals := globals m @ [g],
            local_function_collision_scan_dirty := True\<rparr>))"

text \<open>\<^verbatim>\<open>lr_canonicalize_gep_index\<close>: the operand to use and the module, into which a sign
  extension may have been appended.  \<open>loc\<close> is the block and its function, \<open>None\<close> when one of
  the two pointers is null; \<open>addr\<close> the address of the new instruction.\<close>

definition lr_canonicalize_gep_index ::
  "nat \<Rightarrow> lr_module option \<Rightarrow> (nat \<times> u32) option \<Rightarrow> lr_operand \<Rightarrow> lr_operand \<times> lr_module option" where
  "lr_canonicalize_gep_index addr mo loc idx_op =
     (case mo of None \<Rightarrow> (idx_op, None)
      | Some m \<Rightarrow>
          if opd_kind idx_op = LR_VAL_IMM_I64 \<or> opd_kind idx_op = LR_VAL_UNDEF
          then (idx_op\<lparr>opd_type := Some (type_i64 m)\<rparr>, mo)
          else (case (opd_type idx_op, loc) of
              (Some t, Some (fi, bid)) \<Rightarrow>
                if ty_kind t \<in> {LR_TYPE_I1, LR_TYPE_I8, LR_TYPE_I16, LR_TYPE_I32} \<and>
                   opd_kind idx_op = LR_VAL_VREG
                then (let (cast_dest, f') = lr_vreg_new (funcs m ! fi);
                          m1 = m\<lparr>funcs := (funcs m)[fi := f']\<rparr>;
                          cast = the (lr_inst_create (Some addr) LR_OP_SEXT (Some (type_i64 m)) cast_dest [idx_op])
                      in (lr_op_vreg cast_dest (Some (type_i64 m)), Some (lr_block_append m1 fi bid cast)))
                else (idx_op, mo)
            | _ \<Rightarrow> (idx_op, mo)))"

end
