(* ===== verification/Linear_Probe.thy ===== *)
theory Linear_Probe
  imports Liric_Prelude
begin

text \<open>
  Open addressing with linear probing, as \<^verbatim>\<open>src/src/ir.c\<close> writes it out for the symbol table of
  a module: a table of a power-of-two number of slots, a slot holding zero or an id plus one,
  and a probe that walks \<^verbatim>\<open>slot = (slot + 1) & (cap - 1)\<close> until it meets an empty slot or a
  hit.  The theory holds the walk itself, the invariant that makes it find every stored id,
  and that the invariant survives an insertion.
\<close>

section \<open>The walk\<close>

text \<open>
  \<open>probe\<close> returns the empty slot it stopped at (\<open>Inl\<close>) or the id that \<open>hit\<close> accepts (\<open>Inr\<close>).
  \<open>None\<close> stands for a run of the loop that does not end, or that reads outside the table;
  one round per slot is enough, since the walk has then seen every slot.
\<close>

fun probe :: "nat \<Rightarrow> (u32 \<Rightarrow> bool) \<Rightarrow> u32 list \<Rightarrow> u32 \<Rightarrow> u32 \<Rightarrow> (u32 + u32) option" where
  "probe 0 hit tab cap slot = None"
| "probe (Suc n) hit tab cap slot =
     (if length tab \<le> unat slot then None
      else let stored = tab ! unat slot
           in if stored = 0 then Some (Inl slot)
              else if hit (stored - 1) then Some (Inr (stored - 1))
              else probe n hit tab cap ((slot + 1) AND (cap - 1)))"

definition index_insert :: "u32 list \<Rightarrow> u32 \<Rightarrow> u32 \<Rightarrow> u32 \<Rightarrow> u32 list option" where
  "index_insert tab cap hash i =
     (case probe (length tab) (\<lambda>_. False) tab cap (hash AND (cap - 1)) of
        Some (Inl slot) \<Rightarrow> Some (tab[unat slot := i + 1])
      | _ \<Rightarrow> None)"

fun index_fill :: "u32 list \<Rightarrow> u32 \<Rightarrow> u32 \<Rightarrow> u32 list \<Rightarrow> u32 list option" where
  "index_fill tab cap i [] = Some tab"
| "index_fill tab cap i (h # hs) =
     (case index_insert tab cap h i of None \<Rightarrow> None | Some tab' \<Rightarrow> index_fill tab' cap (i + 1) hs)"

section \<open>Slots as naturals\<close>

lemma unat_and_pow2_minus_1:
  assumes "k < 32"
  shows "unat (x AND (2 ^ k - 1) :: u32) = unat x mod 2 ^ k"
proof -
  have "x AND (2 ^ k - 1) = take_bit k x"
    by (simp add: take_bit_eq_mask mask_eq_exp_minus_1)
  then have "unat (x AND (2 ^ k - 1)) = take_bit k (unat x)" by (simp only: unsigned_take_bit_eq)
  then show ?thesis by (simp only: take_bit_eq_mod)
qed

lemma unat_next_slot:
  assumes "k < 32" and "unat slot < 2 ^ k"
  shows "unat ((slot + 1) AND (2 ^ k - 1) :: u32) = (unat slot + 1) mod 2 ^ k"
proof -
  have "unat (slot + 1) mod 2 ^ k = ((unat slot + 1) mod 2 ^ 32) mod 2 ^ k"
    by (simp add: unat_word_ariths)
  also have "\<dots> = (unat slot + 1) mod 2 ^ k"
    using assms(1) by (intro mod_mod_cancel le_imp_power_dvd) simp
  finally show ?thesis using unat_and_pow2_minus_1 [OF assms(1), of "slot + 1"] by simp
qed

text \<open>The slot \<open>j\<close> steps after slot \<open>s\<close>.\<close>

definition walk :: "u32 list \<Rightarrow> nat \<Rightarrow> nat \<Rightarrow> u32" where
  "walk tab s j = tab ! ((s + j) mod length tab)"

lemma walk_Suc: "walk tab ((s + 1) mod length tab) j = walk tab s (Suc j)"
  by (simp add: walk_def mod_add_left_eq)

lemma walk_0: "s < length tab \<Longrightarrow> walk tab s 0 = tab ! s"
  by (simp add: walk_def)

lemma probe_passes:
  assumes "k < 32" and "length tab = 2 ^ k" and "cap = 2 ^ k" and "unat slot < 2 ^ k" and "j < n"
    and "\<And>j'. j' < j \<Longrightarrow> walk tab (unat slot) j' \<noteq> 0 \<and> \<not> hit (walk tab (unat slot) j' - 1)"
  shows "\<exists>slot'. unat slot' = (unat slot + j) mod 2 ^ k \<and>
    probe n hit tab cap slot = probe (n - j) hit tab cap slot'"
  using assms(4-6)
proof (induction j arbitrary: n slot)
  case (Suc j)
  let ?next = "(slot + 1) AND (2 ^ k - 1)"
  have nx: "unat ?next = (unat slot + 1) mod length tab"
    using unat_next_slot [OF assms(1) Suc.prems(1)] assms(2) by simp
  have w: "walk tab (unat ?next) j' = walk tab (unat slot) (Suc j')" for j'
    unfolding nx by (rule walk_Suc)
  obtain n' where n: "n = Suc n'" using Suc.prems(2) by (cases n) auto
  have "walk tab (unat slot) 0 \<noteq> 0 \<and> \<not> hit (walk tab (unat slot) 0 - 1)" using Suc.prems(3) by blast
  then have step: "probe n hit tab cap slot = probe n' hit tab cap ?next"
    using Suc.prems(1) assms(2,3) by (simp add: n walk_0 Let_def)
  have "unat ?next < 2 ^ k" using nx assms(2) by simp
  moreover have "j < n'" using Suc.prems(2) n by simp
  ultimately obtain slot' where "unat slot' = (unat ?next + j) mod 2 ^ k"
    "probe n' hit tab cap ?next = probe (n' - j) hit tab cap slot'"
    using Suc.IH [of ?next n'] Suc.prems(3) w by auto
  then show ?case using step n nx assms(2) by (intro exI [of _ slot']) (simp add: mod_add_left_eq)
next
  case 0
  then show ?case by (intro exI [of _ slot]) simp
qed

lemma probe_stops:
  assumes "k < 32" and "length tab = 2 ^ k" and "cap = 2 ^ k" and "unat slot < 2 ^ k" and "j < n"
    and "\<And>j'. j' < j \<Longrightarrow> walk tab (unat slot) j' \<noteq> 0 \<and> \<not> hit (walk tab (unat slot) j' - 1)"
  shows "walk tab (unat slot) j = 0 \<Longrightarrow>
      \<exists>s. unat s = (unat slot + j) mod 2 ^ k \<and> probe n hit tab cap slot = Some (Inl s)"
    and "walk tab (unat slot) j \<noteq> 0 \<Longrightarrow> hit (walk tab (unat slot) j - 1) \<Longrightarrow>
      probe n hit tab cap slot = Some (Inr (walk tab (unat slot) j - 1))"
proof -
  obtain s where s: "unat s = (unat slot + j) mod 2 ^ k"
    "probe n hit tab cap slot = probe (n - j) hit tab cap s"
    using probe_passes [OF assms] by blast
  obtain n' where n': "n - j = Suc n'" using assms(5) by (metis Suc_diff_Suc)
  have lt: "unat s < length tab" using s(1) assms(2) by simp
  have at: "tab ! unat s = walk tab (unat slot) j" using s(1) assms(2) by (simp add: walk_def)
  show "\<exists>s. unat s = (unat slot + j) mod 2 ^ k \<and> probe n hit tab cap slot = Some (Inl s)"
    if "walk tab (unat slot) j = 0"
    using s n' lt at that by (intro exI [of _ s]) simp
  show "probe n hit tab cap slot = Some (Inr (walk tab (unat slot) j - 1))"
    if "walk tab (unat slot) j \<noteq> 0" "hit (walk tab (unat slot) j - 1)"
    using s n' lt at that by simp
qed

section \<open>The invariant\<close>

definition home :: "u32 \<Rightarrow> u32 list \<Rightarrow> nat" where
  "home h tab = unat h mod length tab"

text \<open>Id \<open>i\<close> is stored on the walk from its home slot, with no empty slot before it.\<close>

definition stored_at :: "u32 list \<Rightarrow> nat \<Rightarrow> u32 \<Rightarrow> nat \<Rightarrow> bool" where
  "stored_at tab s i j \<longleftrightarrow> j < length tab \<and> walk tab s j = i + 1 \<and> (\<forall>j' < j. walk tab s j' \<noteq> 0)"

definition used_slots :: "u32 list \<Rightarrow> nat set" where
  "used_slots tab = {s. s < length tab \<and> tab ! s \<noteq> 0}"

definition table_ok :: "u32 list \<Rightarrow> u32 list \<Rightarrow> bool" where
  "table_ok tab hashes \<longleftrightarrow>
     (\<exists>k < 32. length tab = 2 ^ k) \<and>
     (\<forall>s \<in> used_slots tab. unat (tab ! s) \<le> length hashes) \<and>
     (\<forall>i < length hashes. \<exists>j. stored_at tab (home (hashes ! i) tab) (of_nat i) j) \<and>
     card (used_slots tab) = length hashes"

lemma finite_used_slots [simp]: "finite (used_slots tab)"
  by (simp add: used_slots_def)

lemma table_ok_empty: "k < 32 \<Longrightarrow> table_ok (replicate (2 ^ k) 0) []"
  by (auto simp: table_ok_def used_slots_def)

lemma walk_reaches:
  assumes "s < length tab" and "t < length tab"
  shows "\<exists>j < length tab. (s + j) mod length tab = t"
proof (cases "s \<le> t")
  case True
  then show ?thesis using assms by (intro exI [of _ "t - s"]) auto
next
  case False
  then show ?thesis using assms by (intro exI [of _ "length tab - s + t"]) auto
qed

lemma free_slot_on_walk:
  assumes "card (used_slots tab) < length tab" and "s < length tab"
  obtains j where "j < length tab" "walk tab s j = 0" "\<And>j'. j' < j \<Longrightarrow> walk tab s j' \<noteq> 0"
proof -
  have "used_slots tab \<noteq> {..< length tab}" using assms(1) by (intro notI) simp
  moreover have "used_slots tab = {..< length tab}" if "\<forall>t < length tab. tab ! t \<noteq> 0"
    using that by (auto simp: used_slots_def)
  ultimately obtain t where t: "t < length tab" "tab ! t = 0" by blast
  obtain j where j: "j < length tab" "(s + j) mod length tab = t"
    using walk_reaches [OF assms(2) t(1)] by blast
  then have j0: "walk tab s j = 0" using t(2) by (simp only: walk_def)
  define l where "l = (LEAST j. walk tab s j = 0)"
  have "walk tab s l = 0" unfolding l_def using j0 by (rule LeastI)
  moreover have "l \<le> j" unfolding l_def using j0 by (rule Least_le)
  moreover have "walk tab s j' \<noteq> 0" if "j' < l" for j'
    using that unfolding l_def by (rule not_less_Least)
  ultimately show ?thesis using j(1) that [of l] le_less_trans by metis
qed

section \<open>Searching and inserting\<close>

text \<open>A search ends, either at an id that is stored and hit, or at the end of a walk on which
  no stored id is hit.\<close>

lemma probe_table:
  assumes ok: "table_ok tab hashes" and cap: "unat cap = length tab" and room: "length hashes < length tab"
    and exact: "\<And>i. i < length hashes \<Longrightarrow> hit (of_nat i) \<Longrightarrow> hashes ! i = h"
  shows "(\<exists>i < length hashes. hit (of_nat i) \<and>
             probe (length tab) hit tab cap (h AND (cap - 1)) = Some (Inr (of_nat i))) \<or>
         ((\<forall>i < length hashes. \<not> hit (of_nat i)) \<and>
          (\<exists>s. probe (length tab) hit tab cap (h AND (cap - 1)) = Some (Inl s)))"
proof -
  let ?s = "h AND (cap - 1)"
  obtain k where k: "k < 32" "length tab = 2 ^ k" using ok by (auto simp: table_ok_def)
  have c: "cap = 2 ^ k"
    using cap k unat_exp [of k, where 'a = 32] by (simp add: word_unat_eq_iff)
  have s: "unat ?s = home h tab" using unat_and_pow2_minus_1 [OF k(1)] k(2) c by (simp add: home_def)
  have lt: "unat ?s < 2 ^ k" using s k(2) by (simp add: home_def)
  have room': "card (used_slots tab) < length tab" using ok room by (simp add: table_ok_def)
  obtain f where f: "f < length tab" "walk tab (unat ?s) f = 0"
    "\<And>j. j < f \<Longrightarrow> walk tab (unat ?s) j \<noteq> 0"
    using free_slot_on_walk [OF room'] lt k(2) by metis
  let ?hit = "\<lambda>j. j < f \<and> hit (walk tab (unat ?s) j - 1)"
  show ?thesis
  proof (cases "\<exists>j. ?hit j")
    case True
    define j where "j = (LEAST j. ?hit j)"
    have j: "?hit j" unfolding j_def using True by (rule LeastI_ex)
    have before: "\<not> ?hit j'" if "j' < j" for j' using that unfolding j_def by (rule not_less_Least)
    let ?v = "walk tab (unat ?s) j"
    have v: "?v \<noteq> 0" using f(3) j by blast
    have "unat ?v \<le> length hashes" using ok v k(2) by (auto simp: table_ok_def used_slots_def walk_def)
    then have i: "unat (?v - 1) < length hashes"
      using v unat_gt_0 [of ?v] by (simp add: unat_minus_one)
    have "probe (length tab) hit tab cap ?s = Some (Inr (?v - 1))"
    proof (rule probe_stops(2) [OF k c lt _ _ v])
      show "j < length tab" using j f(1) by linarith
      show "walk tab (unat ?s) j' \<noteq> 0 \<and> \<not> hit (walk tab (unat ?s) j' - 1)" if "j' < j" for j'
        using before [OF that] that j f(3) by auto
    qed (use j in simp)
    then show ?thesis using i j by (intro disjI1 exI [of _ "unat (?v - 1)"]) simp
  next
    case False
    have "\<not> hit (of_nat i)" if i: "i < length hashes" for i
    proof
      assume h: "hit (of_nat i)"
      obtain j where "stored_at tab (unat ?s) (of_nat i) j"
        using ok i exact [OF i h] s by (auto simp: table_ok_def)
      then have st: "walk tab (unat ?s) j = of_nat i + 1" "\<And>j'. j' < j \<Longrightarrow> walk tab (unat ?s) j' \<noteq> 0"
        by (auto simp: stored_at_def)
      have "\<not> j < f" using False h st(1) by auto
      moreover have "\<not> f < j" using st(2) f(2) by blast
      ultimately have "of_nat i + 1 = (0 :: u32)" using st(1) f(2) by simp
      then have "unat (of_nat (i + 1) :: u32) = 0" by (simp add: add.commute)
      moreover have "(2::nat) ^ k \<le> 2 ^ 31" using k(1) by (intro power_increasing) auto
      moreover have "i + 1 < 2 ^ k" using i room k(2) by linarith
      ultimately show False using unat_of_nat_small [of "i + 1", where 'a = 32] by simp
    qed
    moreover have "\<exists>s'. probe (length tab) hit tab cap ?s = Some (Inl s')"
      using probe_stops(1) [OF k c lt f(1) _ f(2)] f(3) False by metis
    ultimately show ?thesis by blast
  qed
qed

lemma walk_update:
  assumes "s < length tab"
  shows "walk (tab[s := v]) x j = (if (x + j) mod length tab = s then v else walk tab x j)"
  using assms by (simp add: walk_def nth_list_update)

lemma stored_at_update:
  assumes "stored_at tab x i j" and "tab ! s = 0" and "s < length tab" and "v \<noteq> 0" and "i + 1 \<noteq> 0"
  shows "stored_at (tab[s := v]) x i j"
proof -
  have "walk (tab[s := v]) x j' = walk tab x j'" if "walk tab x j' \<noteq> 0" for j'
    using that assms(2) walk_update [OF assms(3), of v x j'] by (auto simp: walk_def)
  then show ?thesis using assms(1,4,5) by (auto simp: stored_at_def walk_update [OF assms(3)])
qed

lemma id_plus_1:
  assumes "i < length tab" and "length tab = 2 ^ k" and "k < 32"
  shows "unat (of_nat i + 1 :: u32) = i + 1"
proof -
  have "(2::nat) ^ k \<le> 2 ^ 31" using assms(3) by (intro power_increasing) auto
  then have "unat (of_nat (i + 1) :: u32) = i + 1" using assms(1,2) by (intro unat_of_nat_small) simp
  then show ?thesis by (simp add: add.commute)
qed

lemma table_ok_update:
  assumes ok: "table_ok tab hashes" and room: "length hashes < length tab"
    and s: "s = (home h tab + f) mod length tab" "f < length tab" "walk tab (home h tab) f = 0"
      "\<And>j. j < f \<Longrightarrow> walk tab (home h tab) j \<noteq> 0"
  shows "table_ok (tab[s := of_nat (length hashes) + 1]) (hashes @ [h])"
proof -
  let ?n = "length hashes" and ?v = "of_nat (length hashes) + 1 :: u32"
  let ?tab = "tab[s := ?v]"
  obtain k where k: "k < 32" "length tab = 2 ^ k" using ok by (auto simp: table_ok_def)
  have lt: "s < length tab" using s(1) k(2) by simp
  have zero: "tab ! s = 0" using s by (simp add: walk_def)
  have ids: "unat (of_nat i + 1 :: u32) = i + 1" if "i < length tab" for i
    using id_plus_1 [OF that k(2,1)] .
  have v: "?v \<noteq> 0" using ids [OF room] by (metis unat_0 add_is_0 one_neq_zero)
  have used: "used_slots ?tab = insert s (used_slots tab)" "s \<notin> used_slots tab"
    using lt zero v by (auto simp: used_slots_def nth_list_update)
  have "\<exists>j. stored_at ?tab (home ((hashes @ [h]) ! i) ?tab) (of_nat i) j" if "i < length (hashes @ [h])" for i
  proof (cases "i < ?n")
    case True
    obtain j where j: "stored_at tab (home (hashes ! i) tab) (of_nat i) j"
      using ok True by (auto simp: table_ok_def)
    have "of_nat i + 1 \<noteq> (0 :: u32)" using ids [of i] True room by (metis unat_0 add_is_0 one_neq_zero order_less_trans)
    then show ?thesis
      using stored_at_update [OF j zero lt v] True by (auto simp: nth_append home_def)
  next
    case False
    then have "i = ?n" using that by simp
    moreover have "stored_at ?tab (home h tab) (of_nat ?n) f"
      using s lt v by (auto simp: stored_at_def walk_update)
    ultimately show ?thesis by (auto simp: home_def)
  qed
  moreover have "unat (?tab ! t) \<le> length (hashes @ [h])" if "t \<in> used_slots ?tab" for t
    using that ok ids [OF room] lt used by (cases "t = s") (auto simp: table_ok_def nth_list_update le_SucI)
  moreover have "card (used_slots ?tab) = length (hashes @ [h])"
    using used ok by (simp add: table_ok_def)
  ultimately show ?thesis using k by (auto simp: table_ok_def)
qed

lemma index_insert_ok:
  assumes ok: "table_ok tab hashes" and cap: "unat cap = length tab" and room: "length hashes < length tab"
  obtains tab' where "index_insert tab cap h (of_nat (length hashes)) = Some tab'"
    "length tab' = length tab" "table_ok tab' (hashes @ [h])"
proof -
  let ?s = "h AND (cap - 1)"
  obtain k where k: "k < 32" "length tab = 2 ^ k" using ok by (auto simp: table_ok_def)
  have c: "cap = 2 ^ k"
    using cap k unat_exp [of k, where 'a = 32] by (simp add: word_unat_eq_iff)
  have s: "unat ?s = home h tab" using unat_and_pow2_minus_1 [OF k(1)] k(2) c by (simp add: home_def)
  have lt: "unat ?s < 2 ^ k" using s k(2) by (simp add: home_def)
  have room': "card (used_slots tab) < length tab" using ok room by (simp add: table_ok_def)
  obtain f where f: "f < length tab" "walk tab (home h tab) f = 0"
    "\<And>j. j < f \<Longrightarrow> walk tab (home h tab) j \<noteq> 0"
    using free_slot_on_walk [OF room'] lt k(2) s by metis
  obtain t where t: "unat t = (home h tab + f) mod 2 ^ k"
    "probe (length tab) (\<lambda>_. False) tab cap ?s = Some (Inl t)"
    using probe_stops(1) [OF k c lt f(1), of "\<lambda>_. False"] f(2,3) s by auto
  show ?thesis
  proof (rule that)
    show "index_insert tab cap h (of_nat (length hashes)) = Some (tab[unat t := of_nat (length hashes) + 1])"
      by (simp add: index_insert_def t(2))
    show "table_ok (tab[unat t := of_nat (length hashes) + 1]) (hashes @ [h])"
      using table_ok_update [OF ok room _ f] t(1) k(2) by simp
  qed simp
qed

lemma index_fill_ok:
  assumes "table_ok tab hs0" and "unat cap = length tab" and "length hs0 + length hs < length tab"
  shows "\<exists>tab'. index_fill tab cap (of_nat (length hs0)) hs = Some tab' \<and>
    length tab' = length tab \<and> table_ok tab' (hs0 @ hs)"
  using assms
proof (induction hs arbitrary: tab hs0)
  case (Cons h hs)
  obtain tab' where t: "index_insert tab cap h (of_nat (length hs0)) = Some tab'"
    "length tab' = length tab" "table_ok tab' (hs0 @ [h])"
    using index_insert_ok [OF Cons.prems(1,2)] Cons.prems(3) by auto
  have "of_nat (length (hs0 @ [h])) = of_nat (length hs0) + (1 :: u32)" by (simp add: add.commute)
  then show ?case using Cons.IH [OF t(3)] Cons.prems t by (auto simp: add.commute)
qed simp

end
