(* ===== verification/Symbol_Table.thy ===== *)
theory Symbol_Table
  imports Ir_Core Linear_Probe
begin

text \<open>
  The symbol table of a module (\<^verbatim>\<open>src/src/ir.c\<close>): names are interned to dense ids through an
  FNV hash and a linear-probing index.  The abstract state is the list of names in the order of
  their ids; the operations are proved to implement it, to return, and to keep the table's
  invariant.  The arena is a parameter: \<open>mem n\<close> tells whether it can provide an index of \<open>n\<close>
  slots.  \<open>None\<close> as a result stands for a run that does not return (a loop that does not end,
  or a read through a null table).
\<close>

section \<open>The operations\<close>

definition symbol_hash :: "string \<Rightarrow> u32" where
  "symbol_hash name = fold (\<lambda>c h. (h XOR of_char c) * 16777619) name 2166136261"

text \<open>\<^verbatim>\<open>while (cap < bound) cap <<= 1\<close>.  After 25 doublings of 128 the capacity has become zero
  and stays there, so 33 rounds tell a loop that ends from one that does not.\<close>

fun grow_cap :: "nat \<Rightarrow> u32 \<Rightarrow> u32 \<Rightarrow> u32 option" where
  "grow_cap 0 cap bound = None"
| "grow_cap (Suc n) cap bound = (if cap < bound then grow_cap n (push_bit 1 cap) bound else Some cap)"

definition symbol_index_rebuild ::
  "(u32 \<Rightarrow> bool) \<Rightarrow> 'a lr_symtab_scheme \<Rightarrow> u32 \<Rightarrow> (int \<times> 'a lr_symtab_scheme) option" where
  "symbol_index_rebuild mem m min_symbols =
     (case grow_cap 33 128 (push_bit 1 min_symbols) of None \<Rightarrow> None
      | Some cap \<Rightarrow>
          if \<not> mem cap then Some (-1, m\<lparr>symbol_index := []\<rparr>)
          else (case index_fill (replicate (unat cap) 0) cap 0 (take (unat (num_symbols m)) (symbol_hashes m)) of
                  None \<Rightarrow> None
                | Some tab \<Rightarrow> Some (0, m\<lparr>symbol_index := tab, symbol_index_cap := cap\<rparr>)))"

definition symbol_hit :: "'a lr_symtab_scheme \<Rightarrow> string \<Rightarrow> u32 \<Rightarrow> u32 \<Rightarrow> bool" where
  "symbol_hit m name hash i \<longleftrightarrow> symbol_hashes m ! unat i = hash \<and> symbol_names m ! unat i = Some name"

definition symbol_probe :: "'a lr_symtab_scheme \<Rightarrow> string \<Rightarrow> u32 \<Rightarrow> (u32 + u32) option" where
  "symbol_probe m name hash =
     probe (length (symbol_index m)) (symbol_hit m name hash) (symbol_index m)
       (symbol_index_cap m) (hash AND (symbol_index_cap m - 1))"

definition symbol_arrays_grow :: "'a lr_symtab_scheme \<Rightarrow> 'a lr_symtab_scheme" where
  "symbol_arrays_grow m =
     (if num_symbols m = symbol_cap m
      then let old_cap = symbol_cap m; new_cap = (if old_cap = 0 then 64 else old_cap * 2)
           in m\<lparr>symbol_names := symbol_names m @ replicate (unat new_cap - unat old_cap) None,
                symbol_hashes := symbol_hashes m @ replicate (unat new_cap - unat old_cap) 0,
                symbol_cap := new_cap\<rparr>
      else m)"

text \<open>The last part of \<^verbatim>\<open>lr_module_intern_symbol\<close>, from the allocation of the id.\<close>

definition symbol_append :: "'a lr_symtab_scheme \<Rightarrow> string \<Rightarrow> u32 \<Rightarrow> (u32 \<times> 'a lr_symtab_scheme) option" where
  "symbol_append m name hash =
     (let i = num_symbols m;
          m' = m\<lparr>num_symbols := i + 1, symbol_names := (symbol_names m)[unat i := Some name],
                 symbol_hashes := (symbol_hashes m)[unat i := hash]\<rparr>
      in case index_insert (symbol_index m') (symbol_index_cap m') hash i of
           None \<Rightarrow> None
         | Some tab \<Rightarrow> Some (i, m'\<lparr>symbol_index := tab\<rparr>))"

definition lr_module_intern_symbol ::
  "(u32 \<Rightarrow> bool) \<Rightarrow> 'a lr_symtab_scheme \<Rightarrow> string \<Rightarrow> (u32 \<times> 'a lr_symtab_scheme) option" where
  "lr_module_intern_symbol mem m0 name =
     (let hash = symbol_hash name
      in case (if symbol_index_cap m0 = 0 then symbol_index_rebuild mem m0 1 else Some (0, m0)) of
           None \<Rightarrow> None
         | Some (rc, m) \<Rightarrow>
             if rc \<noteq> 0 then Some (UINT32_MAX, m)
             else (case symbol_probe m name hash of
                     None \<Rightarrow> None
                   | Some (Inr i) \<Rightarrow> Some (i, m)
                   | Some (Inl _) \<Rightarrow>
                       let m1 = symbol_arrays_grow m
                       in case (if symbol_index_cap m1 < (num_symbols m1 + 1) * 2
                                then symbol_index_rebuild mem m1 (num_symbols m1 + 1) else Some (0, m1)) of
                            None \<Rightarrow> None
                          | Some (rc2, m2) \<Rightarrow>
                              if rc2 \<noteq> 0 then Some (UINT32_MAX, m2) else symbol_append m2 name hash))"

definition lr_module_symbol_name :: "'a lr_symtab_scheme \<Rightarrow> u32 \<Rightarrow> string option" where
  "lr_module_symbol_name m i = (if num_symbols m \<le> i then None else symbol_names m ! unat i)"

definition lr_module_find_symbol_id :: "'a lr_symtab_scheme \<Rightarrow> string \<Rightarrow> u32 option" where
  "lr_module_find_symbol_id m name =
     (if name = [] \<or> symbol_index_cap m = 0 then Some UINT32_MAX
      else let hash = symbol_hash name
           in case symbol_probe m name hash of
                None \<Rightarrow> None
              | Some (Inl _) \<Rightarrow> Some UINT32_MAX
              | Some (Inr i) \<Rightarrow> Some i)"

section \<open>The invariant and the abstract state\<close>

definition sym_names :: "'a lr_symtab_scheme \<Rightarrow> string list" where
  "sym_names m = map the (take (unat (num_symbols m)) (symbol_names m))"

definition sym_arrays_ok :: "'a lr_symtab_scheme \<Rightarrow> bool" where
  "sym_arrays_ok m \<longleftrightarrow>
     length (symbol_names m) = unat (symbol_cap m) \<and> length (symbol_hashes m) = unat (symbol_cap m) \<and>
     unat (num_symbols m) \<le> unat (symbol_cap m) \<and>
     take (unat (num_symbols m)) (symbol_names m) = map Some (sym_names m) \<and>
     take (unat (num_symbols m)) (symbol_hashes m) = map symbol_hash (sym_names m) \<and>
     distinct (sym_names m)"

definition sym_index_ok :: "'a lr_symtab_scheme \<Rightarrow> bool" where
  "sym_index_ok m \<longleftrightarrow>
     unat (symbol_index_cap m) = length (symbol_index m) \<and> 2 * length (sym_names m) \<le> length (symbol_index m) \<and>
     0 < length (symbol_index m) \<and> table_ok (symbol_index m) (map symbol_hash (sym_names m))"

definition sym_inv :: "'a lr_symtab_scheme \<Rightarrow> bool" where
  "sym_inv m \<longleftrightarrow> sym_arrays_ok m \<and> (symbol_index_cap m = 0 \<and> num_symbols m = 0 \<or> sym_index_ok m)"

lemma length_sym_names: "sym_arrays_ok m \<Longrightarrow> length (sym_names m) = unat (num_symbols m)"
  by (simp add: sym_arrays_ok_def sym_names_def)

lemma sym_index_update [simp]:
  "sym_names (m\<lparr>symbol_index := t\<rparr>) = sym_names m" "sym_names (m\<lparr>symbol_index_cap := c\<rparr>) = sym_names m"
  "sym_arrays_ok (m\<lparr>symbol_index := t\<rparr>) = sym_arrays_ok m"
  "sym_arrays_ok (m\<lparr>symbol_index_cap := c\<rparr>) = sym_arrays_ok m"
  by (simp_all add: sym_names_def sym_arrays_ok_def)

lemma sym_inv_create: "sym_inv (lr_module_create addr)"
  by (simp add: sym_inv_def sym_arrays_ok_def sym_names_def lr_module_create_def)

section \<open>Rebuilding the index\<close>

lemma grow_cap_pow2:
  assumes "unat bound \<le> 2 ^ 31" and "k \<le> 31" and "31 < k + n"
  shows "\<exists>k'. k \<le> k' \<and> k' \<le> 31 \<and> grow_cap n (2 ^ k) bound = Some (2 ^ k') \<and> unat bound \<le> 2 ^ k'"
  using assms(2,3)
proof (induction n arbitrary: k)
  case (Suc n)
  have u: "unat (2 ^ k :: u32) = 2 ^ k" using Suc.prems by (intro unat_exp) simp
  show ?case
  proof (cases "2 ^ k < bound")
    case True
    then have "(2::nat) ^ k < 2 ^ 31" using u assms(1) by (simp add: word_less_nat_alt)
    then have "k < 31" by (metis nat_power_less_imp_less zero_less_numeral)
    then obtain k' where "Suc k \<le> k'" "k' \<le> 31" "grow_cap n (2 ^ Suc k) bound = Some (2 ^ k')"
      "unat bound \<le> 2 ^ k'"
      using Suc.IH [of "Suc k"] Suc.prems by auto
    moreover have "push_bit 1 (2 ^ k) = (2 ^ Suc k :: u32)" by (simp add: push_bit_eq_mult)
    ultimately show ?thesis using True by (intro exI [of _ k']) (simp add: mult.commute)
  next
    case False
    then have "unat bound \<le> 2 ^ k" using u by (simp add: word_less_nat_alt)
    then show ?thesis using False Suc.prems by (intro exI [of _ k]) simp
  qed
qed simp

lemma grow_cap_128:
  assumes "unat n \<le> 2 ^ 30"
  obtains k where "7 \<le> k" "k \<le> 31" "grow_cap 33 128 (push_bit 1 n) = Some (2 ^ k)" "2 * unat n \<le> 2 ^ k"
proof -
  have b: "unat (push_bit 1 n :: u32) = 2 * unat n"
    using assms by (simp add: push_bit_eq_mult unat_word_ariths)
  then obtain k where "7 \<le> k" "k \<le> 31" "grow_cap 33 (2 ^ 7) (push_bit 1 n) = Some (2 ^ k)"
    "unat (push_bit 1 n) \<le> 2 ^ k"
    using grow_cap_pow2 [of "push_bit 1 n" 7 33] assms by auto
  then show ?thesis using that b by simp
qed

lemma symbol_index_rebuild_ok:
  assumes "sym_arrays_ok m" and "num_symbols m \<le> n" and "unat n \<le> 2 ^ 30" and "0 < n"
  shows "\<exists>cap tab. symbol_index_rebuild mem m n =
      Some (if mem cap then (0, m\<lparr>symbol_index := tab, symbol_index_cap := cap\<rparr>) else (-1, m\<lparr>symbol_index := []\<rparr>)) \<and>
    unat cap = length tab \<and> 2 * unat n \<le> length tab \<and> table_ok tab (map symbol_hash (sym_names m))"
proof -
  obtain k where k: "7 \<le> k" "k \<le> 31" "grow_cap 33 128 (push_bit 1 n) = Some (2 ^ k)" "2 * unat n \<le> 2 ^ k"
    using grow_cap_128 [OF assms(3)] by blast
  have cap: "unat (2 ^ k :: u32) = 2 ^ k" using k by (intro unat_exp) simp
  let ?hs = "map symbol_hash (sym_names m)"
  have hs: "take (unat (num_symbols m)) (symbol_hashes m) = ?hs" using assms(1) by (simp add: sym_arrays_ok_def)
  have "length ?hs < 2 ^ k"
    using length_sym_names [OF assms(1)] assms(2,4) k(4) unat_gt_0 [of n]
    by (simp add: word_le_nat_alt word_less_nat_alt)
  then obtain tab where "index_fill (replicate (2 ^ k) 0) (2 ^ k) 0 ?hs = Some tab"
    "length tab = 2 ^ k" "table_ok tab ?hs"
    using index_fill_ok [OF table_ok_empty [of k], of "2 ^ k" ?hs] cap k(2) by auto
  then show ?thesis
    using cap k hs by (intro exI [of _ "2 ^ k"] exI [of _ tab]) (simp add: symbol_index_rebuild_def)
qed

section \<open>Searching\<close>

lemma symbol_hit_name:
  assumes "sym_arrays_ok m" and "i < length (sym_names m)"
  shows "symbol_hit m name (symbol_hash name) (of_nat i) \<longleftrightarrow> sym_names m ! i = name"
proof -
  have n: "i < unat (num_symbols m)" using assms length_sym_names by metis
  then have "unat (of_nat i :: u32) = i"
    by (intro unat_of_nat_small) (metis order_less_trans unsigned_less)
  moreover have "symbol_names m ! i = Some (sym_names m ! i)"
    using assms n by (metis nth_map nth_take sym_arrays_ok_def)
  moreover have "symbol_hashes m ! i = symbol_hash (sym_names m ! i)"
    using assms n by (metis nth_map nth_take sym_arrays_ok_def)
  ultimately show ?thesis by (auto simp: symbol_hit_def)
qed

lemma symbol_search:
  assumes "sym_arrays_ok m" and "sym_index_ok m"
  shows "(\<exists>i < length (sym_names m). sym_names m ! i = name \<and>
             symbol_probe m name (symbol_hash name) = Some (Inr (of_nat i))) \<or>
    (name \<notin> set (sym_names m) \<and> (\<exists>s. symbol_probe m name (symbol_hash name) = Some (Inl s)))"
proof -
  have hit: "symbol_hit m name (symbol_hash name) (of_nat i) \<longleftrightarrow> sym_names m ! i = name"
    if "i < length (sym_names m)" for i
    using symbol_hit_name [OF assms(1) that] .
  have "length (sym_names m) < length (symbol_index m)" using assms(2) unfolding sym_index_ok_def by linarith
  then show ?thesis
    using probe_table [of "symbol_index m" "map symbol_hash (sym_names m)" "symbol_index_cap m"
        "symbol_hit m name (symbol_hash name)" "symbol_hash name"] assms(2) hit
    by (auto simp: sym_index_ok_def in_set_conv_nth symbol_probe_def)
qed

section \<open>Interning\<close>

lemma sym_arrays_grow_ok:
  assumes "sym_arrays_ok m" and "unat (num_symbols m) < 2 ^ 30"
  shows "sym_arrays_ok (symbol_arrays_grow m)" and "num_symbols (symbol_arrays_grow m) < symbol_cap (symbol_arrays_grow m)"
    and "sym_names (symbol_arrays_grow m) = sym_names m"
proof -
  have cap2: "unat (symbol_cap m * 2) = 2 * unat (symbol_cap m)" if "num_symbols m = symbol_cap m"
    using assms(2) that by (simp add: unat_word_ariths)
  show n: "sym_names (symbol_arrays_grow m) = sym_names m"
    using assms(1) by (simp add: sym_names_def symbol_arrays_grow_def Let_def sym_arrays_ok_def)
  show "num_symbols (symbol_arrays_grow m) < symbol_cap (symbol_arrays_grow m)"
    using assms(1) cap2
    by (auto simp: symbol_arrays_grow_def Let_def sym_arrays_ok_def word_less_nat_alt word_unat_eq_iff)
  show "sym_arrays_ok (symbol_arrays_grow m)"
    using assms(1) cap2 n
    by (auto simp: symbol_arrays_grow_def Let_def sym_arrays_ok_def)
qed

lemma take_Suc_update: "n < length xs \<Longrightarrow> take (Suc n) (xs[n := x]) = take n xs @ [x]"
  by (simp add: take_Suc_conv_app_nth)

lemma symbol_append_ok:
  assumes "sym_arrays_ok m" and "sym_index_ok m" and "num_symbols m < symbol_cap m"
    and "2 * (length (sym_names m) + 1) \<le> length (symbol_index m)" and "name \<notin> set (sym_names m)"
  shows "\<exists>m'. symbol_append m name (symbol_hash name) = Some (num_symbols m, m') \<and> sym_inv m' \<and>
    sym_names m' = sym_names m @ [name] \<and> lr_symtab.more m' = lr_symtab.more m"
proof -
  let ?n = "num_symbols m" and ?hs = "map symbol_hash (sym_names m)"
  have len: "length (sym_names m) = unat ?n" using length_sym_names [OF assms(1)] .
  have n1: "unat (?n + 1) = unat ?n + 1"
  proof -
    have "unat ?n < unat (symbol_cap m)" using assms(3) by (simp add: word_less_nat_alt)
    moreover have "unat (symbol_cap m) < 2 ^ 32" using unsigned_less [of "symbol_cap m"] by simp
    ultimately have "unat ?n + unat (1 :: u32) < 2 ^ LENGTH(32)" by simp
    then show ?thesis by (simp only: unat_add_nowrap) simp
  qed
  have n: "unat ?n < length (symbol_names m)" "unat ?n < length (symbol_hashes m)"
    using assms(1,3) by (auto simp: sym_arrays_ok_def word_less_nat_alt)
  have room: "length ?hs < length (symbol_index m)" using assms(4) by simp
  obtain tab where tab: "index_insert (symbol_index m) (symbol_index_cap m) (symbol_hash name) ?n = Some tab"
    "length tab = length (symbol_index m)" "table_ok tab (?hs @ [symbol_hash name])"
    using index_insert_ok [OF _ _ room, of "symbol_index_cap m" "symbol_hash name"] assms(2) len
    by (auto simp: sym_index_ok_def)
  define m' where "m' = m\<lparr>num_symbols := ?n + 1, symbol_names := (symbol_names m)[unat ?n := Some name],
      symbol_hashes := (symbol_hashes m)[unat ?n := symbol_hash name], symbol_index := tab\<rparr>"
  have names: "sym_names m' = sym_names m @ [name]"
    using n n1 by (simp add: sym_names_def m'_def take_Suc_update)
  have "take (unat (num_symbols m')) (symbol_names m') = map Some (sym_names m')"
    unfolding names using assms(1) n n1 by (simp add: m'_def take_Suc_update sym_arrays_ok_def)
  moreover have "take (unat (num_symbols m')) (symbol_hashes m') = map symbol_hash (sym_names m')"
    unfolding names using assms(1) n n1 by (simp add: m'_def take_Suc_update sym_arrays_ok_def)
  moreover have "distinct (sym_names m')" unfolding names using assms(1,5) by (simp add: sym_arrays_ok_def)
  ultimately have arr: "sym_arrays_ok m'"
    using assms(1,3) n1 by (simp add: sym_arrays_ok_def m'_def word_less_nat_alt)
  have "sym_index_ok m'"
    unfolding sym_index_ok_def names using assms(2,4) tab by (simp add: m'_def sym_index_ok_def)
  moreover have "symbol_append m name (symbol_hash name) = Some (?n, m')"
    using tab(1) by (simp add: symbol_append_def Let_def m'_def)
  ultimately show ?thesis using arr names by (intro exI [of _ m']) (simp add: sym_inv_def m'_def)
qed

text \<open>The arrays grow and the index is rebuilt when it would be more than half full.\<close>

lemma intern_make_room:
  assumes "sym_arrays_ok m" and "sym_index_ok m" and "unat (num_symbols m) < 2 ^ 30"
  defines "m1 \<equiv> symbol_arrays_grow m"
  shows "\<exists>rc m2. (if symbol_index_cap m1 < (num_symbols m1 + 1) * 2
      then symbol_index_rebuild mem m1 (num_symbols m1 + 1) else Some (0, m1)) = Some (rc, m2) \<and>
    (rc = 0 \<or> (\<exists>cap. \<not> mem cap)) \<and> sym_arrays_ok m2 \<and> sym_names m2 = sym_names m \<and> num_symbols m2 = num_symbols m \<and>
    lr_symtab.more m2 = lr_symtab.more m \<and>
    (rc = 0 \<longrightarrow> sym_index_ok m2 \<and> num_symbols m2 < symbol_cap m2 \<and>
       2 * (length (sym_names m2) + 1) \<le> length (symbol_index m2))"
proof -
  note g = sym_arrays_grow_ok [OF assms(1,3), folded m1_def]
  have same: "num_symbols m1 = num_symbols m" "symbol_index m1 = symbol_index m"
    "symbol_index_cap m1 = symbol_index_cap m" "lr_symtab.more m1 = lr_symtab.more m"
    by (simp_all add: m1_def symbol_arrays_grow_def Let_def)
  have u1: "unat (num_symbols m + 1) = unat (num_symbols m) + 1"
    using assms(3) by (simp add: unat_word_ariths)
  have u2: "unat ((num_symbols m + 1) * 2) = 2 * (unat (num_symbols m) + 1)"
    using assms(3) u1 by (simp add: unat_word_ariths)
  have len: "length (sym_names m) = unat (num_symbols m)" using length_sym_names [OF assms(1)] .
  show ?thesis
  proof (cases "symbol_index_cap m1 < (num_symbols m1 + 1) * 2")
    case True
    have pre: "num_symbols m1 \<le> num_symbols m1 + 1" "unat (num_symbols m1 + 1) \<le> 2 ^ 30" "0 < num_symbols m1 + 1"
      using assms(3) u1 same(1) by (auto simp: word_le_nat_alt word_less_nat_alt)
    obtain cap tab where r: "symbol_index_rebuild mem m1 (num_symbols m1 + 1) =
        Some (if mem cap then (0, m1\<lparr>symbol_index := tab, symbol_index_cap := cap\<rparr>) else (-1, m1\<lparr>symbol_index := []\<rparr>))"
      "unat cap = length tab" "2 * unat (num_symbols m1 + 1) \<le> length tab"
      "table_ok tab (map symbol_hash (sym_names m1))"
      using symbol_index_rebuild_ok [OF g(1) pre] by blast
    show ?thesis
    proof (cases "mem cap")
      case True
      with r \<open>symbol_index_cap m1 < _\<close> show ?thesis
        using g same u1 len by (auto simp: sym_index_ok_def)
    next
      case False
      with r \<open>symbol_index_cap m1 < _\<close> show ?thesis using g same by auto
    qed
  next
    case False
    then have "2 * (unat (num_symbols m) + 1) \<le> length (symbol_index m)"
      using u2 same assms(2) by (simp add: word_less_nat_alt sym_index_ok_def)
    with False show ?thesis using g same assms(2) len by (simp add: sym_index_ok_def)
  qed
qed

text \<open>Every outcome of an interning: the arena gave out, the name was known, or it is new.\<close>

datatype intern_outcome = Out_of_memory | Known | Fresh

fun intern_result ::
  "(u32 \<Rightarrow> bool) \<Rightarrow> 'a lr_symtab_scheme \<Rightarrow> string \<Rightarrow> u32 \<Rightarrow> 'a lr_symtab_scheme \<Rightarrow> intern_outcome \<Rightarrow> bool"
where
  "intern_result mem m name i m' Out_of_memory \<longleftrightarrow>
     i = UINT32_MAX \<and> (\<exists>cap. \<not> mem cap) \<and> sym_names m' = sym_names m"
| "intern_result mem m name i m' Known \<longleftrightarrow>
     unat i < length (sym_names m) \<and> sym_names m ! unat i = name \<and> sym_inv m' \<and> sym_names m' = sym_names m"
| "intern_result mem m name i m' Fresh \<longleftrightarrow>
     name \<notin> set (sym_names m) \<and> unat i = length (sym_names m) \<and> sym_inv m' \<and> sym_names m' = sym_names m @ [name]"

lemma intern_indexed:
  assumes "sym_arrays_ok m" and "sym_index_ok m" and "symbol_index_cap m \<noteq> 0" and "unat (num_symbols m) < 2 ^ 30"
  shows "\<exists>i m' oc. lr_module_intern_symbol mem m name = Some (i, m') \<and> intern_result mem m name i m' oc \<and>
    lr_symtab.more m' = lr_symtab.more m"
proof -
  note len = length_sym_names [OF assms(1)]
  note s = symbol_search [OF assms(1,2), of name]
  show ?thesis
  proof (cases "name \<in> set (sym_names m)")
    case True
    then obtain i where i: "i < length (sym_names m)" "sym_names m ! i = name"
      "symbol_probe m name (symbol_hash name) = Some (Inr (of_nat i))"
      using s by blast
    have "unat (of_nat i :: u32) = i" using i(1) len assms(4) by (intro unat_of_nat_small) simp
    then have "intern_result mem m name (of_nat i) m Known" using i assms(1,2) by (simp add: sym_inv_def)
    then show ?thesis using i(3) assms(3)
      by (intro exI [of _ "of_nat i"] exI [of _ m] exI [of _ Known]) (simp add: lr_module_intern_symbol_def)
  next
    case False
    then obtain t where t: "symbol_probe m name (symbol_hash name) = Some (Inl t)" using s by (auto simp: in_set_conv_nth)
    define m1 where "m1 = symbol_arrays_grow m"
    obtain rc m2 where r: "(if symbol_index_cap m1 < (num_symbols m1 + 1) * 2
        then symbol_index_rebuild mem m1 (num_symbols m1 + 1) else Some (0, m1)) = Some (rc, m2)"
      "rc = 0 \<or> (\<exists>cap. \<not> mem cap)" "sym_arrays_ok m2" "sym_names m2 = sym_names m" "num_symbols m2 = num_symbols m"
      "lr_symtab.more m2 = lr_symtab.more m"
      "rc = 0 \<Longrightarrow> sym_index_ok m2 \<and> num_symbols m2 < symbol_cap m2 \<and>
         2 * (length (sym_names m2) + 1) \<le> length (symbol_index m2)"
      using intern_make_room [OF assms(1,2,4), of mem] unfolding m1_def by blast
    have run: "lr_module_intern_symbol mem m name =
        (if rc \<noteq> 0 then Some (UINT32_MAX, m2) else symbol_append m2 name (symbol_hash name))"
      using t r(1) assms(3) by (simp add: lr_module_intern_symbol_def m1_def [symmetric] Let_def)
    show ?thesis
    proof (cases "rc = 0")
      case True
      then obtain m' where m': "symbol_append m2 name (symbol_hash name) = Some (num_symbols m2, m')" "sym_inv m'"
        "sym_names m' = sym_names m2 @ [name]" "lr_symtab.more m' = lr_symtab.more m2"
        using symbol_append_ok [OF r(3), of name] r(4,7) False by auto
      then have "intern_result mem m name (num_symbols m2) m' Fresh" using r(4,5) len False by simp
      then show ?thesis using run True m' r(6)
        by (intro exI [of _ "num_symbols m2"] exI [of _ m'] exI [of _ Fresh]) simp
    next
      case rc: False
      then have "intern_result mem m name UINT32_MAX m2 Out_of_memory" using r(2,4) by simp
      then show ?thesis using run rc r(6)
        by (intro exI [of _ UINT32_MAX] exI [of _ m2] exI [of _ Out_of_memory]) simp
    qed
  qed
qed

lemma intern_outcomes:
  assumes "sym_inv m" and "unat (num_symbols m) < 2 ^ 30"
  shows "\<exists>i m' oc. lr_module_intern_symbol mem m name = Some (i, m') \<and> intern_result mem m name i m' oc \<and>
    lr_symtab.more m' = lr_symtab.more m"
proof (cases "symbol_index_cap m = 0")
  case False
  then show ?thesis using intern_indexed assms by (auto simp: sym_inv_def)
next
  case True
  have arr: "sym_arrays_ok m" and n0: "num_symbols m = 0"
    using assms(1) True by (auto simp: sym_inv_def sym_index_ok_def)
  obtain cap tab where r: "symbol_index_rebuild mem m 1 =
      Some (if mem cap then (0, m\<lparr>symbol_index := tab, symbol_index_cap := cap\<rparr>) else (-1, m\<lparr>symbol_index := []\<rparr>))"
    "unat cap = length tab" "2 * unat (1 :: u32) \<le> length tab" "table_ok tab (map symbol_hash (sym_names m))"
    using symbol_index_rebuild_ok [OF arr, of 1 mem] n0 by auto
  show ?thesis
  proof (cases "mem cap")
    case mem: True
    let ?m = "m\<lparr>symbol_index := tab, symbol_index_cap := cap\<rparr>"
    have cap: "cap \<noteq> 0" using r(2,3) by auto
    have "sym_index_ok ?m"
      using r length_sym_names [OF arr] n0 by (auto simp: sym_index_ok_def)
    then obtain i m' oc where i: "lr_module_intern_symbol mem ?m name = Some (i, m')"
      "intern_result mem ?m name i m' oc" "lr_symtab.more m' = lr_symtab.more m"
      using intern_indexed [of ?m mem name] arr n0 cap by auto
    moreover have "lr_module_intern_symbol mem m name = lr_module_intern_symbol mem ?m name"
      using r(1) mem True cap by (simp add: lr_module_intern_symbol_def)
    moreover have "intern_result mem m name i m' oc" using i(2) by (cases oc) simp_all
    ultimately show ?thesis by metis
  next
    case False
    then show ?thesis using r(1) True
      by (intro exI [of _ UINT32_MAX] exI [of _ "m\<lparr>symbol_index := []\<rparr>"] exI [of _ Out_of_memory])
         (auto simp: lr_module_intern_symbol_def)
  qed
qed

section \<open>Looking up\<close>

lemma symbol_name_names:
  assumes "sym_arrays_ok m"
  shows "lr_module_symbol_name m i =
    (if unat i < length (sym_names m) then Some (sym_names m ! unat i) else None)"
proof (cases "unat i < length (sym_names m)")
  case True
  then have "symbol_names m ! unat i = Some (sym_names m ! unat i)"
    using assms length_sym_names [OF assms] by (metis nth_map nth_take sym_arrays_ok_def)
  then show ?thesis using True length_sym_names [OF assms]
    by (simp add: lr_module_symbol_name_def word_le_nat_alt)
qed (use length_sym_names [OF assms] in \<open>simp add: lr_module_symbol_name_def word_le_nat_alt\<close>)

lemma find_symbol_id_ok:
  assumes "sym_inv m" and "length (sym_names m) \<le> 2 ^ 30" and "name \<noteq> []"
  shows "\<exists>i. lr_module_find_symbol_id m name = Some i \<and>
    (if name \<in> set (sym_names m) then lr_module_symbol_name m i = Some name else i = UINT32_MAX)"
proof -
  have arr: "sym_arrays_ok m" using assms(1) by (simp add: sym_inv_def)
  note len = length_sym_names [OF arr]
  show ?thesis
  proof (cases "symbol_index_cap m = 0")
    case True
    then have "sym_names m = []" using assms(1) len by (auto simp: sym_inv_def sym_index_ok_def)
    then show ?thesis using True by (simp add: lr_module_find_symbol_id_def)
  next
    case False
    then have idx: "sym_index_ok m" using assms(1) by (auto simp: sym_inv_def)
    have name: "lr_module_symbol_name m (of_nat i) = Some (sym_names m ! i)" if "i < length (sym_names m)" for i
      using symbol_name_names [OF arr, of "of_nat i"] that assms(2) by (simp add: unat_of_nat_small)
    show ?thesis
      using symbol_search [OF arr idx, of name] False assms(3) name
      by (auto simp: lr_module_find_symbol_id_def)
  qed
qed

section \<open>The interner as an interface\<close>

text \<open>What the builder relies on: interning returns an id whose name is the argument, and
  names already interned keep their ids.\<close>

fun intern_all :: "('m \<Rightarrow> string \<Rightarrow> (u32 \<times> 'm) option) \<Rightarrow> 'm \<Rightarrow> string list \<Rightarrow> (u32 list \<times> 'm) option" where
  "intern_all intern m [] = Some ([], m)"
| "intern_all intern m (n # ns) =
     (case intern m n of None \<Rightarrow> None
      | Some (i, m') \<Rightarrow> map_option (\<lambda>(is, m''). (i # is, m'')) (intern_all intern m' ns))"

locale interner =
  fixes intern :: "'m \<Rightarrow> string \<Rightarrow> (u32 \<times> 'm) option"
    and valid :: "'m \<Rightarrow> bool"
    and names :: "'m \<Rightarrow> string list"
    and limit :: nat
  assumes names_distinct: "valid m \<Longrightarrow> distinct (names m)"
    and intern_step: "valid m \<Longrightarrow> length (names m) < limit \<Longrightarrow>
      \<exists>i m'. intern m n = Some (i, m') \<and> valid m' \<and>
        names m' = (if n \<in> set (names m) then names m else names m @ [n]) \<and>
        unat i < length (names m') \<and> names m' ! unat i = n"
begin

lemma intern_all_ok:
  assumes "valid m" and "length (names m) + length ns \<le> limit"
  shows "\<exists>is m'. intern_all intern m ns = Some (is, m') \<and> valid m' \<and>
    (\<exists>new. names m' = names m @ new \<and> length new \<le> length ns) \<and> length is = length ns \<and>
    (\<forall>k < length ns. unat (is ! k) < length (names m') \<and> names m' ! unat (is ! k) = ns ! k)"
  using assms
proof (induction ns arbitrary: m)
  case (Cons n ns)
  obtain i m1 where i: "intern m n = Some (i, m1)" "valid m1"
    "names m1 = (if n \<in> set (names m) then names m else names m @ [n])"
    "unat i < length (names m1)" "names m1 ! unat i = n"
    using intern_step [OF Cons.prems(1), of n] Cons.prems(2) by auto
  have "length (names m1) + length ns \<le> limit" using i(3) Cons.prems(2) by auto
  then obtain "is" m' new where r: "intern_all intern m1 ns = Some (is, m')" "valid m'" "length is = length ns"
    "names m' = names m1 @ new" "length new \<le> length ns"
    "\<And>k. k < length ns \<Longrightarrow> unat (is ! k) < length (names m') \<and> names m' ! unat (is ! k) = ns ! k"
    using Cons.IH [OF i(2)] by blast
  have "\<exists>new. names m' = names m @ new \<and> length new \<le> length (n # ns)"
    using r(4,5) i(3) by (auto split: if_splits)
  moreover have "unat ((i # is) ! k) < length (names m') \<and> names m' ! unat ((i # is) ! k) = (n # ns) ! k"
    if "k < length (n # ns)" for k
    using that r(4,6) i(4,5) by (cases k) (auto simp: nth_append)
  ultimately show ?case using i(1) r(1-3) by auto
qed simp

lemma ids_identify_names:
  assumes "valid m" and "length (names m) + length ns \<le> limit"
    and "intern_all intern m ns = Some (is, m')" and "a < length ns" and "b < length ns"
  shows "is ! a = is ! b \<longleftrightarrow> ns ! a = ns ! b"
proof -
  have v: "valid m'" and k: "unat (is ! k) < length (names m') \<and> names m' ! unat (is ! k) = ns ! k"
    if "k < length ns" for k
    using intern_all_ok [OF assms(1,2)] assms(3) that assms(4) by auto
  show ?thesis
    using nth_eq_iff_index_eq [OF names_distinct [OF v [OF assms(4)]], of "unat (is ! a)" "unat (is ! b)"]
      k [OF assms(4)] k [OF assms(5)] by (auto simp: word_unat_eq_iff)
qed

end

lemma intern_step_total:
  assumes "sym_inv m" and "length (sym_names m) < 2 ^ 30"
  shows "\<exists>i m'. lr_module_intern_symbol (\<lambda>_. True) m n = Some (i, m') \<and> sym_inv m' \<and>
    sym_names m' = (if n \<in> set (sym_names m) then sym_names m else sym_names m @ [n]) \<and>
    unat i < length (sym_names m') \<and> sym_names m' ! unat i = n"
proof -
  have "unat (num_symbols m) < 2 ^ 30" using assms length_sym_names by (metis sym_inv_def)
  then obtain i m' oc where r: "lr_module_intern_symbol (\<lambda>_. True) m n = Some (i, m')"
    "intern_result (\<lambda>_. True) m n i m' oc"
    using intern_outcomes [OF assms(1)] by blast
  then show ?thesis by (cases oc) (auto simp: in_set_conv_nth nth_append)
qed

interpretation symtab: interner "lr_module_intern_symbol (\<lambda>_. True)" sym_inv sym_names "2 ^ 30"
proof unfold_locales
  show "distinct (sym_names m)" if "sym_inv m" for m :: "'a lr_symtab_scheme"
    using that by (simp add: sym_inv_def sym_arrays_ok_def)
qed (rule intern_step_total)

section \<open>Properties\<close>



text \<open>the ids of names interned one after another are equal exactly when the names are.\<close>

theorem symbol_ids_identify_names:
  assumes "sym_inv m" and "length (sym_names m) + length ns \<le> 2 ^ 30"
    and "intern_all (lr_module_intern_symbol (\<lambda>_. True)) m ns = Some (is, m')" and "a < length ns" and "b < length ns"
  shows "is ! a = is ! b \<longleftrightarrow> ns ! a = ns ! b"
  using assms by (rule symtab.ids_identify_names)

theorem symbol_ids_identify_names_witness:
  "\<exists>is m'. intern_all (lr_module_intern_symbol (\<lambda>_. True)) (lr_module_create id) [''a'', ''b'', ''a''] = Some (is, m') \<and>
    is ! 0 = is ! 2 \<and> is ! 0 \<noteq> is ! 1"
proof -
  let ?ns = "[''a'', ''b'', ''a'']"
  have n: "length (sym_names (lr_module_create id)) + length ?ns \<le> 2 ^ 30"
    by (simp add: sym_names_def lr_module_create_def)
  obtain "is" m' where r: "intern_all (lr_module_intern_symbol (\<lambda>_. True)) (lr_module_create id) ?ns = Some (is, m')"
    using symtab.intern_all_ok [OF sym_inv_create n] by blast
  note eq = symbol_ids_identify_names [OF sym_inv_create n r]
  show ?thesis using r eq [of 0 2] eq [of 0 1] by (intro exI [of _ "is"] exI [of _ m']) simp
qed

text \<open>C24: looking a name up ends, finds the id of a name that is interned and reports
  \<^verbatim>\<open>UINT32_MAX\<close> for every other name; \<^verbatim>\<open>lr_module_symbol_name\<close> maps the id back to the name.\<close>

theorem find_symbol_id_correct:
  assumes "sym_inv m" and "length (sym_names m) \<le> 2 ^ 30" and "name \<noteq> []"
  shows "\<exists>i. lr_module_find_symbol_id m name = Some i \<and>
    (if name \<in> set (sym_names m) then lr_module_symbol_name m i = Some name else i = UINT32_MAX)"
  using assms by (rule find_symbol_id_ok)

theorem find_symbol_id_correct_witness:
  "\<exists>(m :: lr_module) i. sym_names m = [''main''] \<and> lr_module_find_symbol_id m ''main'' = Some i \<and>
    lr_module_symbol_name m i = Some ''main''"
proof -
  have n: "sym_names (lr_module_create id) = []" by (simp add: sym_names_def lr_module_create_def)
  obtain m :: lr_module where m: "sym_inv m" "sym_names m = [''main'']"
    using intern_step_total [OF sym_inv_create, of id "''main''"] n by auto
  then show ?thesis using find_symbol_id_correct [OF m(1), of "''main''"] by auto
qed

end
