(* ===== verification/Ir_Builder.thy ===== *)
theory Ir_Builder
  imports Symbol_Table
begin

text \<open>
  Building a module (\<^verbatim>\<open>src/src/ir.c\<close>): creating and declaring functions, looking them up by name,
  and the step relation of the builder calls with the invariant of every module they can
  reach: symbol ids name their functions, block ids are dense and in order, virtual registers
  of the parameters are allocated, globals are numbered in order.
\<close>

section \<open>Functions of a module\<close>

text \<open>\<open>addr\<close> is the address of the function's type node.  The result is the position of the
  function in the module; \<open>None\<close> when interning its name does not return.\<close>

definition lr_func_create ::
  "(u32 \<Rightarrow> bool) \<Rightarrow> nat \<Rightarrow> lr_module \<Rightarrow> string \<Rightarrow> lr_type \<Rightarrow> lr_type list \<Rightarrow> bool \<Rightarrow> (nat \<times> lr_module) option"
where
  "lr_func_create mem addr m name ret params vararg =
     (case lr_module_intern_symbol mem m name of None \<Rightarrow> None
      | Some (sid, m1) \<Rightarrow>
          let f = \<lparr>fn_name = name, symbol_id = sid, fn_type = Some (lr_type_func addr ret params vararg),
                   ret_type = Some ret, param_types = params,
                   param_vregs = map of_nat [0..<length params],
                   fn_vararg = vararg, is_decl = False, uses_llvm_abi = False, blocks = [],
                   block_array = None, linear_inst_array = None, block_inst_offsets = None,
                   num_linear_insts = 0, num_blocks = 0, next_vreg = of_nat (length params)\<rparr>
          in Some (length (funcs m1),
                   m1\<lparr>funcs := funcs m1 @ [f], local_function_collision_scan_dirty := True\<rparr>))"

fun find_index :: "('a \<Rightarrow> bool) \<Rightarrow> 'a list \<Rightarrow> nat option" where
  "find_index P [] = None"
| "find_index P (x # xs) = (if P x then Some 0 else map_option Suc (find_index P xs))"

definition lr_func_declare ::
  "(u32 \<Rightarrow> bool) \<Rightarrow> nat \<Rightarrow> lr_module \<Rightarrow> string \<Rightarrow> lr_type \<Rightarrow> lr_type list \<Rightarrow> bool \<Rightarrow> (nat \<times> lr_module) option"
where
  "lr_func_declare mem addr m name ret params vararg =
     (case find_index (\<lambda>ex. fn_name ex = name) (funcs m) of
        Some i \<Rightarrow> Some (i, m)
      | None \<Rightarrow>
          (case lr_func_create mem addr m name ret params vararg of None \<Rightarrow> None
           | Some (i, m1) \<Rightarrow> Some (i, m1\<lparr>funcs := (funcs m1)[i := (funcs m1 ! i)\<lparr>is_decl := True\<rparr>]\<rparr>)))"

text \<open>The outer option is as in \<^const>\<open>lr_module_find_symbol_id\<close>; the inner one the null pointer.\<close>

definition lr_module_lookup_function :: "lr_module \<Rightarrow> string \<Rightarrow> nat option option" where
  "lr_module_lookup_function m name =
     (if name = [] then Some None
      else (case lr_module_find_symbol_id m name of None \<Rightarrow> None
            | Some sid \<Rightarrow>
                if sid = UINT32_MAX then Some None
                else Some (find_index (\<lambda>f. symbol_id f = sid) (funcs m))))"

section \<open>Invariants\<close>

definition func_ok :: "string list \<Rightarrow> lr_func \<Rightarrow> bool" where
  "func_ok names f \<longleftrightarrow>
     unat (symbol_id f) < length names \<and> names ! unat (symbol_id f) = fn_name f \<and>
     map blk_id (blocks f) = map of_nat [0..<unat (num_blocks f)] \<and>
     (\<forall>v \<in> set (param_vregs f). v < next_vreg f) \<and> length (param_vregs f) = length (param_types f)"

definition module_ok :: "lr_module \<Rightarrow> bool" where
  "module_ok m \<longleftrightarrow> sym_inv m \<and> length (sym_names m) \<le> 2 ^ 30 \<and> (\<forall>f \<in> set (funcs m). func_ok (sym_names m) f) \<and>
     map g_id (globals m) = map of_nat [0..<length (globals m)] \<and> num_globals m = of_nat (length (globals m))"

text \<open>One call of the builder.  The premises are what a caller has to respect: the counters of
  the source are 32 bits wide, and the arena has not given out (the id of the new function is
  not \<^verbatim>\<open>UINT32_MAX\<close>).\<close>

inductive builder_step :: "lr_module \<Rightarrow> lr_module \<Rightarrow> bool" where
  create: "lr_func_create mem addr m name ret params vararg = Some (i, m') \<Longrightarrow>
     symbol_id (funcs m' ! i) \<noteq> UINT32_MAX \<Longrightarrow> length params < 2 ^ 32 \<Longrightarrow> length (sym_names m) < 2 ^ 30 \<Longrightarrow>
     builder_step m m'"
| redeclare: "lr_func_declare mem addr m name ret params vararg = Some (i, m') \<Longrightarrow>
     symbol_id (funcs m' ! i) \<noteq> UINT32_MAX \<Longrightarrow> length params < 2 ^ 32 \<Longrightarrow> length (sym_names m) < 2 ^ 30 \<Longrightarrow>
     builder_step m m'"
| block: "fi < length (funcs m) \<Longrightarrow> unat (num_blocks (funcs m ! fi)) < 2 ^ 32 - 1 \<Longrightarrow>
     lr_block_create (funcs m ! fi) name = (bid, f') \<Longrightarrow> builder_step m (m\<lparr>funcs := (funcs m)[fi := f']\<rparr>)"
| vreg: "fi < length (funcs m) \<Longrightarrow> unat (next_vreg (funcs m ! fi)) < 2 ^ 32 - 1 \<Longrightarrow>
     lr_vreg_new (funcs m ! fi) = (v, f') \<Longrightarrow> builder_step m (m\<lparr>funcs := (funcs m)[fi := f']\<rparr>)"
| append: "fi < length (funcs m) \<Longrightarrow> builder_step m (lr_block_append m fi bid inst)"
| global: "lr_global_create m name type const = (gid, m') \<Longrightarrow> builder_step m m'"

inductive builder_reachable :: "lr_module \<Rightarrow> bool" where
  start: "builder_reachable (lr_module_create addr)"
| step: "builder_reachable m \<Longrightarrow> builder_step m m' \<Longrightarrow> builder_reachable m'"

section \<open>Preservation\<close>

lemma sym_inv_ext [simp]:
  "sym_inv (m\<lparr>funcs := fs\<rparr>) = sym_inv m" "sym_inv (m\<lparr>globals := gs\<rparr>) = sym_inv m"
  "sym_inv (m\<lparr>num_globals := n\<rparr>) = sym_inv m"
  "sym_inv (m\<lparr>local_function_collision_scan_dirty := d\<rparr>) = sym_inv m"
  for m :: lr_module
  by (simp_all add: sym_inv_def sym_arrays_ok_def sym_index_ok_def sym_names_def)

lemma sym_names_ext [simp]:
  "sym_names (m\<lparr>funcs := fs\<rparr>) = sym_names m" "sym_names (m\<lparr>globals := gs\<rparr>) = sym_names m"
  "sym_names (m\<lparr>num_globals := n\<rparr>) = sym_names m"
  "sym_names (m\<lparr>local_function_collision_scan_dirty := d\<rparr>) = sym_names m"
  for m :: lr_module
  by (simp_all add: sym_names_def)

lemma func_ok_more_names: "func_ok names f \<Longrightarrow> func_ok (names @ new) f"
  by (auto simp: func_ok_def nth_append)

lemma module_ok_update:
  assumes "module_ok m" and "fi < length (funcs m)" and "func_ok (sym_names m) f'"
  shows "module_ok (m\<lparr>funcs := (funcs m)[fi := f']\<rparr>)"
  using assms set_update_subset_insert [of "funcs m" fi f'] by (auto simp: module_ok_def)

lemma module_ok_nth: "module_ok m \<Longrightarrow> fi < length (funcs m) \<Longrightarrow> func_ok (sym_names m) (funcs m ! fi)"
  by (auto simp: module_ok_def)

lemma block_create_ok:
  assumes "func_ok names f" and "unat (num_blocks f) < 2 ^ 32 - 1" and "lr_block_create f name = (bid, f')"
  shows "func_ok names f'" and "bid = num_blocks f"
proof -
  have "unat (num_blocks f + 1) = Suc (unat (num_blocks f))" using assms(2) by (simp add: unat_word_ariths)
  then show "func_ok names f'" "bid = num_blocks f"
    using assms(1,3) by (auto simp: func_ok_def lr_block_create_def Let_def)
qed

lemma vreg_new_ok:
  assumes "func_ok names f" and "unat (next_vreg f) < 2 ^ 32 - 1" and "lr_vreg_new f = (v, f')"
  shows "func_ok names f'"
proof -
  have "unat (next_vreg f + 1) = Suc (unat (next_vreg f))" using assms(2) by (simp add: unat_word_ariths)
  then show ?thesis using assms(1,3) by (fastforce simp: func_ok_def lr_vreg_new_def word_less_nat_alt less_Suc_eq)
qed

lemma blk_id_block_append [simp]: "blk_id (block_append_inst inst b) = blk_id b"
  by (simp add: block_append_inst_def)

lemma map_blk_id_update_block:
  "(\<And>b. blk_id (g b) = blk_id b) \<Longrightarrow> map blk_id (blocks (update_block bid g f)) = map blk_id (blocks f)"
  by (simp add: update_block_def)

lemma block_append_ok: "func_ok names f \<Longrightarrow> func_ok names (func_block_append bid inst f)"
  using map_blk_id_update_block [of "block_append_inst inst" bid f]
  by (simp add: func_ok_def func_block_append_def) (simp add: update_block_def)

lemma func_create_cases:
  assumes "lr_func_create mem addr m name ret params vararg = Some (i, m')" and "module_ok m"
    and "symbol_id (funcs m' ! i) \<noteq> UINT32_MAX" and "length params < 2 ^ 32" and "length (sym_names m) < 2 ^ 30"
  shows "module_ok m' \<and> i = length (funcs m) \<and> funcs m' = funcs m @ [funcs m' ! i] \<and> fn_name (funcs m' ! i) = name"
proof -
  have inv: "sym_inv m" and n: "unat (num_symbols m) < 2 ^ 30"
    using assms(2,5) length_sym_names [of m] by (auto simp: module_ok_def sym_inv_def)
  obtain sid m1 oc where s: "lr_module_intern_symbol mem m name = Some (sid, m1)"
    "intern_result mem m name sid m1 oc" "lr_symtab.more m1 = lr_symtab.more m"
    using intern_outcomes [OF inv n] by blast
  have same: "funcs m1 = funcs m" "globals m1 = globals m" "num_globals m1 = num_globals m"
    using s(3) by (cases m; cases m1; simp)+
  have oc: "oc \<noteq> Out_of_memory" using assms(1,3) s by (auto simp: lr_func_create_def Let_def)
  then have names: "sym_inv m1" "unat sid < length (sym_names m1)" "sym_names m1 ! unat sid = name"
    "length (sym_names m1) \<le> 2 ^ 30" "\<And>f. func_ok (sym_names m) f \<Longrightarrow> func_ok (sym_names m1) f"
    using s(2) assms(5) by (cases oc; auto simp: func_ok_more_names)+
  define f where "f = funcs m' ! i"
  have m': "m' = m1\<lparr>funcs := funcs m @ [f], local_function_collision_scan_dirty := True\<rparr>" "i = length (funcs m)"
    using assms(1) s(1) same by (auto simp: lr_func_create_def Let_def f_def)
  have p: "unat (of_nat (length params) :: u32) = length params" using assms(4) by (simp add: unat_of_nat_small)
  have q: "unat (of_nat k :: u32) = k" if "k < length params" for k
    using that assms(4) by (simp add: unat_of_nat_small)
  have fields: "fn_name f = name" "symbol_id f = sid" "blocks f = []" "num_blocks f = 0"
    "param_vregs f = map of_nat [0..<length params]" "param_types f = params" "next_vreg f = of_nat (length params)"
    using assms(1) s(1) same by (auto simp: lr_func_create_def Let_def f_def)
  have "v < next_vreg f" if "v \<in> set (param_vregs f)" for v
  proof -
    obtain k where k: "k < length params" "v = of_nat k" using \<open>v \<in> _\<close> fields(5) by auto
    show ?thesis unfolding fields(7) k(2) word_less_nat_alt p q [OF k(1)] by (rule k(1))
  qed
  then have f: "func_ok (sym_names m1) f \<and> fn_name f = name"
    using names(2,3) by (simp add: fields func_ok_def)
  then have "module_ok m'" using names assms(2) same by (auto simp: m'(1) module_ok_def)
  moreover have "funcs m' = funcs m @ [f]" by (simp add: m'(1))
  ultimately show ?thesis using f m'(2) unfolding f_def by blast
qed

lemma find_index_None: "find_index P xs = None \<longleftrightarrow> (\<forall>x \<in> set xs. \<not> P x)"
  by (induction xs) auto

lemma find_index_Some: "find_index P xs = Some i \<Longrightarrow> i < length xs \<and> P (xs ! i) \<and> (\<forall>j < i. \<not> P (xs ! j))"
proof (induction xs arbitrary: i)
  case (Cons x xs)
  then show ?case by (cases i) (auto split: if_splits simp: less_Suc_eq_0_disj)
qed simp

lemma find_index_cong: "(\<And>x. x \<in> set xs \<Longrightarrow> P x = Q x) \<Longrightarrow> find_index P xs = find_index Q xs"
  by (induction xs) auto

lemma func_declare_cases:
  assumes "lr_func_declare mem addr m name ret params vararg = Some (i, m')" and "module_ok m"
    and "symbol_id (funcs m' ! i) \<noteq> UINT32_MAX" and "length params < 2 ^ 32" and "length (sym_names m) < 2 ^ 30"
  shows "module_ok m' \<and> (if name \<in> fn_name ` set (funcs m) then m' = m \<and> fn_name (funcs m ! i) = name
     else i = length (funcs m) \<and> funcs m' = funcs m @ [funcs m' ! i] \<and> fn_name (funcs m' ! i) = name)"
proof (cases "find_index (\<lambda>ex. fn_name ex = name) (funcs m)")
  case (Some j)
  then show ?thesis using assms find_index_Some [OF Some] by (auto simp: lr_func_declare_def)
next
  case None
  obtain m1 where m1: "lr_func_create mem addr m name ret params vararg = Some (i, m1)"
    "m' = m1\<lparr>funcs := (funcs m1)[i := (funcs m1 ! i)\<lparr>is_decl := True\<rparr>]\<rparr>"
    using assms(1) None by (auto simp: lr_func_declare_def split: option.splits prod.splits)
  have i: "i < length (funcs m1)" using m1(1) by (auto simp: lr_func_create_def Let_def split: option.splits prod.splits)
  then have "symbol_id (funcs m1 ! i) \<noteq> UINT32_MAX" using assms(3) m1(2) by simp
  then have c: "module_ok m1 \<and> i = length (funcs m) \<and> funcs m1 = funcs m @ [funcs m1 ! i] \<and> fn_name (funcs m1 ! i) = name"
    using func_create_cases [OF m1(1) assms(2)] assms(4,5) by blast
  have "func_ok (sym_names m1) ((funcs m1 ! i)\<lparr>is_decl := True\<rparr>)"
    using module_ok_nth [OF _ i] c by (simp add: func_ok_def)
  then have "module_ok m'" using module_ok_update [OF _ i] c m1(2) by blast
  moreover have "funcs m' = funcs m @ [(funcs m1 ! i)\<lparr>is_decl := True\<rparr>]"
    using c unfolding m1(2) by (metis (no_types, lifting) list_update_length lr_module.select_convs(1) lr_module.surjective lr_module.update_convs(1))
  ultimately show ?thesis using None c by (auto simp: find_index_None nth_append)
qed

text \<open>With memory, creating a function returns.\<close>

lemma func_create_total:
  assumes "sym_inv m" and "length (sym_names m) < 2 ^ 30"
  shows "\<exists>i m'. lr_func_create (\<lambda>_. True) addr m name ret params vararg = Some (i, m') \<and>
    symbol_id (funcs m' ! i) \<noteq> UINT32_MAX"
proof -
  obtain sid m1 where s: "lr_module_intern_symbol (\<lambda>_. True) m name = Some (sid, m1)"
    "sym_names m1 = (if name \<in> set (sym_names m) then sym_names m else sym_names m @ [name])"
    "unat sid < length (sym_names m1)"
    using intern_step_total [OF assms] by blast
  have "unat sid < unat (UINT32_MAX :: u32)" using s(2,3) assms(2) by (auto split: if_splits)
  then show ?thesis using s(1) by (auto simp: lr_func_create_def Let_def)
qed

lemma global_create_ok:
  assumes "module_ok m" and "lr_global_create m name type const = (gid, m')"
  shows "module_ok m'"
  using assms by (auto simp: module_ok_def lr_global_create_def Let_def add.commute)

lemma builder_step_ok: "builder_step m m' \<Longrightarrow> module_ok m \<Longrightarrow> module_ok m'"
proof (induction rule: builder_step.induct)
  case (create mem addr m name ret params vararg i m')
  then show ?case using func_create_cases by blast
next
  case (redeclare mem addr m name ret params vararg i m')
  then show ?case using func_declare_cases by blast
next
  case (block fi m name bid f')
  then show ?case using module_ok_update block_create_ok(1) module_ok_nth by metis
next
  case (vreg fi m v f')
  then show ?case using module_ok_update vreg_new_ok module_ok_nth by metis
next
  case (append fi m bid inst)
  have "module_ok (m\<lparr>funcs := (funcs m)[fi := func_block_append bid inst (funcs m ! fi)]\<rparr>)"
    using append block_append_ok module_ok_update module_ok_nth by blast
  then show ?case by (simp add: lr_block_append_def module_ok_def)
next
  case (global m name type const gid m')
  then show ?case using global_create_ok by blast
qed

lemma module_ok_create: "module_ok (lr_module_create addr)"
  by (simp add: module_ok_def sym_inv_create) (simp add: lr_module_create_def sym_names_def)

section \<open>Properties\<close>

text \<open>C18: in every module that builder calls can reach, the symbol id of a function names it, the
  blocks of a function carry the ids 0, 1, 2, ... in order, the registers of its parameters lie
  below the register counter, and globals are numbered in order.\<close>

theorem builder_reachable_ok: "builder_reachable m \<Longrightarrow> module_ok m"
proof (induction rule: builder_reachable.induct)
  case (start addr)
  then show ?case by (rule module_ok_create)
next
  case (step m m')
  then show ?case using builder_step_ok by blast
qed

theorem builder_reachable_ok_witness:
  "module_ok (snd (lr_global_create (lr_module_create id) ''g'' None True))"
  by (rule builder_reachable_ok)
     (rule builder_reachable.step [OF builder_reachable.start builder_step.global [OF surjective_pairing]])

text \<open>C25: looking a function up by name through the symbol table finds the first function of the
  module that carries the name, and nothing when there is none.\<close>

theorem lookup_function_correct:
  assumes "module_ok m" and "name \<noteq> []"
  shows "lr_module_lookup_function m name = Some (find_index (\<lambda>f. fn_name f = name) (funcs m))"
proof -
  have inv: "sym_inv m" and len: "length (sym_names m) \<le> 2 ^ 30" using assms(1) by (auto simp: module_ok_def)
  have arr: "sym_arrays_ok m" using inv by (simp add: sym_inv_def)
  obtain i where i: "lr_module_find_symbol_id m name = Some i"
    "if name \<in> set (sym_names m) then lr_module_symbol_name m i = Some name else i = UINT32_MAX"
    using find_symbol_id_ok [OF inv len assms(2)] by blast
  have f: "unat (symbol_id f) < length (sym_names m) \<and> sym_names m ! unat (symbol_id f) = fn_name f"
    if "f \<in> set (funcs m)" for f
    using assms(1) that by (auto simp: module_ok_def func_ok_def)
  show ?thesis
  proof (cases "name \<in> set (sym_names m)")
    case True
    then have n: "unat i < length (sym_names m)" "sym_names m ! unat i = name"
      using symbol_name_names [OF arr, of i] i(2) by (auto split: if_splits)
    have "i \<noteq> UINT32_MAX" using n(1) len by auto
    moreover have "(symbol_id f = i) = (fn_name f = name)" if "f \<in> set (funcs m)" for f
      using f [OF that] n arr nth_eq_iff_index_eq [of "sym_names m" "unat (symbol_id f)" "unat i"]
      by (auto simp: sym_arrays_ok_def word_unat_eq_iff)
    ultimately show ?thesis
      using i(1) assms(2) find_index_cong [of "funcs m" "\<lambda>f. symbol_id f = i" "\<lambda>f. fn_name f = name"]
      by (simp add: lr_module_lookup_function_def)
  next
    case False
    then have "find_index (\<lambda>f. fn_name f = name) (funcs m) = None"
      using f nth_mem unfolding find_index_None by metis
    then show ?thesis using i False assms(2) by (simp add: lr_module_lookup_function_def)
  qed
qed

theorem lookup_function_correct_witness:
  "lr_module_lookup_function (lr_module_create id) ''main'' = Some None"
  using lookup_function_correct [OF module_ok_create, of "''main''" id] by (simp add: lr_module_create_def)

text \<open>C26: declaring a function never adds a second one of the same name: an existing function is
  reused and the module is unchanged, otherwise exactly one function is appended; so distinct
  names stay distinct.\<close>

theorem func_declare_no_duplicate:
  assumes "lr_func_declare mem addr m name ret params vararg = Some (i, m')" and "module_ok m"
    and "symbol_id (funcs m' ! i) \<noteq> UINT32_MAX" and "length params < 2 ^ 32" and "length (sym_names m) < 2 ^ 30"
  shows "fn_name (funcs m' ! i) = name \<and>
    map fn_name (funcs m') = (if name \<in> fn_name ` set (funcs m) then map fn_name (funcs m) else map fn_name (funcs m) @ [name]) \<and>
    (distinct (map fn_name (funcs m)) \<longrightarrow> distinct (map fn_name (funcs m')))"
proof -
  have "map fn_name (funcs m') = (if name \<in> fn_name ` set (funcs m) then map fn_name (funcs m) else map fn_name (funcs m) @ [name])"
    using func_declare_cases [OF assms] by (metis (no_types, lifting) list.simps(8,9) map_append)
  then show ?thesis using func_declare_cases [OF assms] by auto
qed

theorem func_declare_no_duplicate_witness:
  "\<exists>i m'. lr_func_declare (\<lambda>_. True) 16 (lr_module_create id) ''f'' (TScalar 0 SVoid) [] False = Some (i, m') \<and>
    map fn_name (funcs m') = [''f'']"
proof -
  let ?m = "lr_module_create id"
  have e: "funcs ?m = []" "sym_names ?m = []" by (simp_all add: lr_module_create_def sym_names_def)
  obtain i m1 where c: "lr_func_create (\<lambda>_. True) 16 ?m ''f'' (TScalar 0 SVoid) [] False = Some (i, m1)"
    "symbol_id (funcs m1 ! i) \<noteq> UINT32_MAX"
    using func_create_total [OF sym_inv_create, of id 16 "''f''" "TScalar 0 SVoid" "[]" False] e(2) by auto
  let ?m' = "m1\<lparr>funcs := (funcs m1)[i := (funcs m1 ! i)\<lparr>is_decl := True\<rparr>]\<rparr>"
  have d: "lr_func_declare (\<lambda>_. True) 16 ?m ''f'' (TScalar 0 SVoid) [] False = Some (i, ?m')"
    using c(1) e(1) by (simp add: lr_func_declare_def)
  have "i < length (funcs m1)" using func_create_cases [OF c(1) module_ok_create c(2)] e by (auto dest: arg_cong [where f = length])
  then have "symbol_id (funcs ?m' ! i) \<noteq> UINT32_MAX" using c(2) by simp
  then show ?thesis using func_declare_no_duplicate [OF d module_ok_create] d e by (intro exI [of _ i] exI [of _ ?m']) simp
qed

end
