(* ===== verification/Ir_Fold.thy ===== *)
theory Ir_Fold
  imports Ir_Core "HOL-Library.Signed_Division"
begin

text \<open>
  The constant folder of \<^verbatim>\<open>src/src/ir.c\<close>: the helpers that work on integers of a type's width
  inside a 64-bit word, folding of binary operations, comparisons, identities and selects, and
  the semantics of the folded operations on \<open>n\<close>-bit integers that the folds are proved against.
  A fold that returns false is \<open>None\<close>.
\<close>

section \<open>Integers of a width\<close>

definition int_type_width_bits :: "lr_type option \<Rightarrow> nat" where
  "int_type_width_bits type =
     (case type of None \<Rightarrow> 64
      | Some t \<Rightarrow>
          (case ty_kind t of
             LR_TYPE_I1 \<Rightarrow> 1 | LR_TYPE_I8 \<Rightarrow> 8 | LR_TYPE_I16 \<Rightarrow> 16 | LR_TYPE_I32 \<Rightarrow> 32 | LR_TYPE_I64 \<Rightarrow> 64
           | _ \<Rightarrow> let fallback_bits = lr_type_size (Some t) * 8
                 in if fallback_bits = 0 \<or> 64 < fallback_bits then 64 else unat fallback_bits))"

definition int_mask_for_bits :: "nat \<Rightarrow> u64" where
  "int_mask_for_bits bits = (if 64 \<le> bits then - 1 else if bits = 0 then 0 else push_bit bits 1 - 1)"

definition int_to_unsigned_bits :: "u64 \<Rightarrow> nat \<Rightarrow> u64" where
  "int_to_unsigned_bits val bits = val AND int_mask_for_bits bits"

definition int_sign_extend_bits :: "u64 \<Rightarrow> nat \<Rightarrow> u64" where
  "int_sign_extend_bits val bits =
     (if 64 \<le> bits then val
      else if bits = 0 then 0
      else let sign = push_bit (bits - 1) 1; v = val AND int_mask_for_bits bits
           in (v XOR sign) - sign)"

definition operand_equal :: "lr_operand \<Rightarrow> lr_operand \<Rightarrow> bool" where
  "operand_equal a b \<longleftrightarrow>
     opd_kind a = opd_kind b \<and> ty_ptr_eq (opd_type a) (opd_type b) \<and> global_offset a = global_offset b \<and>
     (case opd_kind a of
        LR_VAL_VREG \<Rightarrow> opd_vreg a = opd_vreg b
      | LR_VAL_IMM_I64 \<Rightarrow> opd_imm_i64 a = opd_imm_i64 b
      | LR_VAL_IMM_F64 \<Rightarrow> opd_bits a = opd_bits b
      | LR_VAL_BLOCK \<Rightarrow> opd_block_id a = opd_block_id b
      | LR_VAL_GLOBAL \<Rightarrow> opd_global_id a = opd_global_id b
      | LR_VAL_NULL \<Rightarrow> True
      | LR_VAL_UNDEF \<Rightarrow> True)"

section \<open>The folds\<close>

text \<open>The switch of \<^verbatim>\<open>fold_int_binop_immediates\<close>: the result bits before sign extension.\<close>

definition fold_binop_bits :: "lr_opcode \<Rightarrow> nat \<Rightarrow> u64 \<Rightarrow> u64 \<Rightarrow> u64 option" where
  "fold_binop_bits op bits u_lhs u_rhs =
     (let mask' = int_mask_for_bits bits;
          s_lhs = int_sign_extend_bits u_lhs bits;
          s_rhs = int_sign_extend_bits u_rhs bits;
          INT64_MIN = push_bit 63 1
      in case op of
           LR_OP_ADD \<Rightarrow> Some ((u_lhs + u_rhs) AND mask')
         | LR_OP_SUB \<Rightarrow> Some ((u_lhs - u_rhs) AND mask')
         | LR_OP_MUL \<Rightarrow> Some ((u_lhs * u_rhs) AND mask')
         | LR_OP_AND \<Rightarrow> Some ((u_lhs AND u_rhs) AND mask')
         | LR_OP_OR \<Rightarrow> Some ((u_lhs OR u_rhs) AND mask')
         | LR_OP_XOR \<Rightarrow> Some ((u_lhs XOR u_rhs) AND mask')
         | LR_OP_SHL \<Rightarrow> if bits \<le> unat u_rhs then None else Some (push_bit (unat u_rhs) u_lhs AND mask')
         | LR_OP_LSHR \<Rightarrow> if bits \<le> unat u_rhs then None else Some (drop_bit (unat u_rhs) u_lhs AND mask')
         | LR_OP_ASHR \<Rightarrow> if bits \<le> unat u_rhs then None else Some (signed_drop_bit (unat u_rhs) s_lhs AND mask')
         | LR_OP_SDIV \<Rightarrow>
             if s_rhs = 0 then None
             else if bits = 64 \<and> s_lhs = INT64_MIN \<and> s_rhs = - 1 then None
             else Some (word_of_int (sint s_lhs sdiv sint s_rhs) AND mask')
         | LR_OP_SREM \<Rightarrow>
             if s_rhs = 0 then None
             else if bits = 64 \<and> s_lhs = INT64_MIN \<and> s_rhs = - 1 then None
             else Some (word_of_int (sint s_lhs smod sint s_rhs) AND mask')
         | LR_OP_UDIV \<Rightarrow> if u_rhs = 0 then None else Some ((u_lhs div u_rhs) AND mask')
         | LR_OP_UREM \<Rightarrow> if u_rhs = 0 then None else Some ((u_lhs mod u_rhs) AND mask')
         | _ \<Rightarrow> None)"

definition fold_int_binop_immediates :: "lr_inst \<Rightarrow> lr_operand option" where
  "fold_int_binop_immediates inst =
     (case operands inst of
        lhs # rhs # _ \<Rightarrow>
          if opd_kind lhs \<noteq> LR_VAL_IMM_I64 \<or> opd_kind rhs \<noteq> LR_VAL_IMM_I64 then None
          else let bits = int_type_width_bits (inst_type inst)
               in (case fold_binop_bits (inst_op inst) bits (int_to_unsigned_bits (opd_imm_i64 lhs) bits)
                          (int_to_unsigned_bits (opd_imm_i64 rhs) bits) of
                     None \<Rightarrow> None
                   | Some u_res \<Rightarrow> Some (lr_op_imm_i64 (int_sign_extend_bits u_res bits) (inst_type inst)))
      | _ \<Rightarrow> None)"

text \<open>The enumerators of \<^verbatim>\<open>lr_icmp_pred_t\<close> by value; \<open>None\<close> is the default branch.\<close>

definition icmp_pred_of :: "u32 \<Rightarrow> lr_icmp_pred option" where
  "icmp_pred_of p =
     (if unat p < 10
      then Some ([LR_ICMP_EQ, LR_ICMP_NE, LR_ICMP_SGT, LR_ICMP_SGE, LR_ICMP_SLT, LR_ICMP_SLE,
                  LR_ICMP_UGT, LR_ICMP_UGE, LR_ICMP_ULT, LR_ICMP_ULE] ! unat p)
      else None)"

fun icmp_bits :: "lr_icmp_pred \<Rightarrow> u64 \<Rightarrow> u64 \<Rightarrow> u64 \<Rightarrow> u64 \<Rightarrow> bool" where
  "icmp_bits LR_ICMP_EQ u_lhs u_rhs s_lhs s_rhs = (u_lhs = u_rhs)"
| "icmp_bits LR_ICMP_NE u_lhs u_rhs s_lhs s_rhs = (u_lhs \<noteq> u_rhs)"
| "icmp_bits LR_ICMP_SGT u_lhs u_rhs s_lhs s_rhs = (sint s_rhs < sint s_lhs)"
| "icmp_bits LR_ICMP_SGE u_lhs u_rhs s_lhs s_rhs = (sint s_rhs \<le> sint s_lhs)"
| "icmp_bits LR_ICMP_SLT u_lhs u_rhs s_lhs s_rhs = (sint s_lhs < sint s_rhs)"
| "icmp_bits LR_ICMP_SLE u_lhs u_rhs s_lhs s_rhs = (sint s_lhs \<le> sint s_rhs)"
| "icmp_bits LR_ICMP_UGT u_lhs u_rhs s_lhs s_rhs = (u_rhs < u_lhs)"
| "icmp_bits LR_ICMP_UGE u_lhs u_rhs s_lhs s_rhs = (u_rhs \<le> u_lhs)"
| "icmp_bits LR_ICMP_ULT u_lhs u_rhs s_lhs s_rhs = (u_lhs < u_rhs)"
| "icmp_bits LR_ICMP_ULE u_lhs u_rhs s_lhs s_rhs = (u_lhs \<le> u_rhs)"

definition fold_icmp_immediates :: "lr_inst \<Rightarrow> lr_operand option" where
  "fold_icmp_immediates inst =
     (case operands inst of
        lhs # rhs # _ \<Rightarrow>
          if inst_op inst \<noteq> LR_OP_ICMP \<or> opd_kind lhs \<noteq> LR_VAL_IMM_I64 \<or> opd_kind rhs \<noteq> LR_VAL_IMM_I64 then None
          else let cmp_ty = (if opd_type lhs = None then inst_type inst else opd_type lhs);
                   bits = int_type_width_bits cmp_ty;
                   u_lhs = int_to_unsigned_bits (opd_imm_i64 lhs) bits;
                   u_rhs = int_to_unsigned_bits (opd_imm_i64 rhs) bits
               in (case icmp_pred_of (inst_pred inst) of None \<Rightarrow> None
                   | Some p \<Rightarrow>
                       Some (lr_op_imm_i64
                               (if icmp_bits p u_lhs u_rhs (int_sign_extend_bits u_lhs bits) (int_sign_extend_bits u_rhs bits)
                                then 1 else 0) (inst_type inst)))
      | _ \<Rightarrow> None)"

definition is_imm :: "lr_operand \<Rightarrow> u64 \<Rightarrow> bool" where
  "is_imm o' v \<longleftrightarrow> opd_kind o' = LR_VAL_IMM_I64 \<and> opd_imm_i64 o' = v"

definition is_all_ones :: "nat \<Rightarrow> lr_operand \<Rightarrow> bool" where
  "is_all_ones bits o' \<longleftrightarrow>
     opd_kind o' = LR_VAL_IMM_I64 \<and> opd_imm_i64 o' AND int_mask_for_bits bits = int_mask_for_bits bits"

text \<open>The two-sided identities check the left operand first.\<close>

definition identity_either :: "(lr_operand \<Rightarrow> bool) \<Rightarrow> lr_operand \<Rightarrow> lr_operand \<Rightarrow> lr_operand option" where
  "identity_either neutral lhs rhs = (if neutral lhs then Some rhs else if neutral rhs then Some lhs else None)"

definition identity_right :: "(lr_operand \<Rightarrow> bool) \<Rightarrow> lr_operand \<Rightarrow> lr_operand \<Rightarrow> lr_operand option" where
  "identity_right neutral lhs rhs = (if neutral rhs then Some lhs else None)"

definition fold_identity_int_binop :: "lr_inst \<Rightarrow> lr_operand option" where
  "fold_identity_int_binop inst =
     (case operands inst of
        lhs # rhs # _ \<Rightarrow>
          let bits = int_type_width_bits (inst_type inst)
          in (case inst_op inst of
                LR_OP_ADD \<Rightarrow> identity_either (\<lambda>o'. is_imm o' 0) lhs rhs
              | LR_OP_SUB \<Rightarrow> identity_right (\<lambda>o'. is_imm o' 0) lhs rhs
              | LR_OP_MUL \<Rightarrow> identity_either (\<lambda>o'. is_imm o' 1) lhs rhs
              | LR_OP_SDIV \<Rightarrow> identity_right (\<lambda>o'. is_imm o' 1) lhs rhs
              | LR_OP_UDIV \<Rightarrow> identity_right (\<lambda>o'. is_imm o' 1) lhs rhs
              | LR_OP_AND \<Rightarrow> identity_either (is_all_ones bits) lhs rhs
              | LR_OP_OR \<Rightarrow> identity_either (\<lambda>o'. is_imm o' 0) lhs rhs
              | LR_OP_XOR \<Rightarrow> identity_either (\<lambda>o'. is_imm o' 0) lhs rhs
              | LR_OP_SHL \<Rightarrow> identity_right (\<lambda>o'. is_imm o' 0) lhs rhs
              | LR_OP_LSHR \<Rightarrow> identity_right (\<lambda>o'. is_imm o' 0) lhs rhs
              | LR_OP_ASHR \<Rightarrow> identity_right (\<lambda>o'. is_imm o' 0) lhs rhs
              | _ \<Rightarrow> None)
      | _ \<Rightarrow> None)"

definition fold_select :: "lr_inst \<Rightarrow> lr_operand option" where
  "fold_select inst =
     (case operands inst of
        c # a # b # _ \<Rightarrow>
          if inst_op inst \<noteq> LR_OP_SELECT then None
          else if opd_kind c = LR_VAL_IMM_I64 then Some (if opd_imm_i64 c \<noteq> 0 then a else b)
          else if operand_equal a b then Some a
          else None
      | _ \<Rightarrow> None)"

definition try_inst_replacement :: "lr_inst \<Rightarrow> lr_operand option" where
  "try_inst_replacement inst =
     (case fold_select inst of Some out \<Rightarrow> Some out
      | None \<Rightarrow>
          (case fold_icmp_immediates inst of Some out \<Rightarrow> Some out
           | None \<Rightarrow>
               (case fold_int_binop_immediates inst of Some out \<Rightarrow> Some out
                | None \<Rightarrow> fold_identity_int_binop inst)))"

section \<open>The meaning of the operations\<close>

text \<open>
  Values of an \<open>n\<close>-bit integer are the numbers below \<open>2 ^ n\<close>; \<open>sval n\<close> reads one as a signed
  number.  \<open>None\<close> marks the operands for which the IR leaves the operation undefined: a
  shift by the width or more, a division by zero, the overflowing signed division.
\<close>

definition uval :: "nat \<Rightarrow> u64 \<Rightarrow> int" where
  "uval n w = take_bit n (uint w)"

definition sval :: "nat \<Rightarrow> int \<Rightarrow> int" where
  "sval n a = signed_take_bit (n - 1) a"

definition ir_binop :: "nat \<Rightarrow> lr_opcode \<Rightarrow> int \<Rightarrow> int \<Rightarrow> int option" where
  "ir_binop n op a b =
     (case op of
        LR_OP_ADD \<Rightarrow> Some (take_bit n (a + b))
      | LR_OP_SUB \<Rightarrow> Some (take_bit n (a - b))
      | LR_OP_MUL \<Rightarrow> Some (take_bit n (a * b))
      | LR_OP_AND \<Rightarrow> Some (a AND b)
      | LR_OP_OR \<Rightarrow> Some (a OR b)
      | LR_OP_XOR \<Rightarrow> Some (a XOR b)
      | LR_OP_SHL \<Rightarrow> if int n \<le> b then None else Some (take_bit n (a * 2 ^ nat b))
      | LR_OP_LSHR \<Rightarrow> if int n \<le> b then None else Some (a div 2 ^ nat b)
      | LR_OP_ASHR \<Rightarrow> if int n \<le> b then None else Some (take_bit n (sval n a div 2 ^ nat b))
      | LR_OP_SDIV \<Rightarrow>
          if b = 0 \<or> sval n a = - (2 ^ (n - 1)) \<and> sval n b = - 1 then None
          else Some (take_bit n (sval n a sdiv sval n b))
      | LR_OP_SREM \<Rightarrow>
          if b = 0 \<or> sval n a = - (2 ^ (n - 1)) \<and> sval n b = - 1 then None
          else Some (take_bit n (sval n a smod sval n b))
      | LR_OP_UDIV \<Rightarrow> if b = 0 then None else Some (a div b)
      | LR_OP_UREM \<Rightarrow> if b = 0 then None else Some (a mod b)
      | _ \<Rightarrow> None)"

fun ir_icmp :: "nat \<Rightarrow> lr_icmp_pred \<Rightarrow> int \<Rightarrow> int \<Rightarrow> bool" where
  "ir_icmp n LR_ICMP_EQ a b = (a = b)"
| "ir_icmp n LR_ICMP_NE a b = (a \<noteq> b)"
| "ir_icmp n LR_ICMP_SGT a b = (sval n b < sval n a)"
| "ir_icmp n LR_ICMP_SGE a b = (sval n b \<le> sval n a)"
| "ir_icmp n LR_ICMP_SLT a b = (sval n a < sval n b)"
| "ir_icmp n LR_ICMP_SLE a b = (sval n a \<le> sval n b)"
| "ir_icmp n LR_ICMP_UGT a b = (b < a)"
| "ir_icmp n LR_ICMP_UGE a b = (b \<le> a)"
| "ir_icmp n LR_ICMP_ULT a b = (a < b)"
| "ir_icmp n LR_ICMP_ULE a b = (a \<le> b)"

section \<open>The helpers compute what they should\<close>

lemma width_bounds: "1 \<le> int_type_width_bits t" "int_type_width_bits t \<le> 64"
proof -
  have "1 \<le> int_type_width_bits t \<and> int_type_width_bits t \<le> 64"
    by (cases t)
       (auto simp: int_type_width_bits_def Let_def word_less_nat_alt unat_gt_0 Suc_le_eq split: lr_type_kind.splits)
  then show "1 \<le> int_type_width_bits t" "int_type_width_bits t \<le> 64" by auto
qed

lemma int_mask_eq: "n \<le> 64 \<Longrightarrow> int_mask_for_bits n = mask n"
  by (cases "n = 64") (auto simp: int_mask_for_bits_def mask_eq_exp_minus_1 push_bit_eq_mult)

lemma and_int_mask: "n \<le> 64 \<Longrightarrow> w AND int_mask_for_bits n = take_bit n w"
  by (simp add: int_mask_eq take_bit_eq_mask)

lemma uint_take_bit: "uint (take_bit n (w :: u64)) = uval n w"
  by (simp add: uval_def unsigned_take_bit_eq)

lemma to_unsigned_eq: "n \<le> 64 \<Longrightarrow> uint (int_to_unsigned_bits w n) = uval n w"
  by (simp add: int_to_unsigned_bits_def and_int_mask uint_take_bit)

lemma xor_sign_minus: "(v XOR 2 ^ m) - 2 ^ m = (if bit v m then v + NOT (mask (Suc m)) else (v :: u64))"
proof -
  have "v XOR 2 ^ m = flip_bit m v" by (simp add: flip_bit_eq_xor push_bit_eq_mult)
  moreover have "NOT (mask (Suc m)) = - (2 * 2 ^ m :: u64)" by (simp flip: minus_exp_eq_not_mask)
  ultimately show ?thesis by (simp add: flip_bit_eq_if set_bit_eq unset_bit_eq)
qed

lemma sign_extend_eq:
  assumes "1 \<le> n" and "n \<le> 64"
  shows "int_sign_extend_bits w n = signed_take_bit (n - 1) w"
proof (cases "n = 64")
  case True
  have "bit (signed_take_bit 63 w) i = bit w i" if "i < 64" for i
    using that by (cases "i = 63") (auto simp: bit_simps min_def)
  then have "signed_take_bit 63 w = w" by (intro bit_word_eqI) simp
  then show ?thesis using True by (simp add: int_sign_extend_bits_def)
next
  case False
  then obtain m where m: "n = Suc m" "m < 63" using assms by (cases n) auto
  then show ?thesis
    by (simp add: int_sign_extend_bits_def Let_def and_int_mask xor_sign_minus signed_take_bit_code)
qed

lemma sint_signed_take_bit:
  assumes "m < 64"
  shows "sint (signed_take_bit m w :: u64) = signed_take_bit m (uint w)"
  using assms by transfer simp

lemma sint_sign_extend:
  assumes "1 \<le> n" and "n \<le> 64" and "uint w = a"
  shows "sint (int_sign_extend_bits w n) = sval n a"
  using assms by (simp add: sign_extend_eq sint_signed_take_bit sval_def)

lemma uint_and_int_mask: "n \<le> 64 \<Longrightarrow> uint (w AND int_mask_for_bits n) = take_bit n (uint w)"
  by (simp add: and_int_mask uint_take_bit uval_def)

lemma uint_of_int_and_int_mask: "n \<le> 64 \<Longrightarrow> uint (word_of_int k AND int_mask_for_bits n) = take_bit n k"
  by (simp add: uint_and_int_mask unsigned_of_int)

lemma int_div_le: "0 \<le> a \<Longrightarrow> 0 < b \<Longrightarrow> a div b \<le> (a :: int)"
  using zdiv_mono2 [of a 1 b] by simp

lemma sint_0_iff: "sint (w :: u64) = 0 \<longleftrightarrow> w = 0"
proof
  assume "sint w = 0"
  then have "word_of_int (sint w) = (0 :: u64)" by simp
  then show "w = 0" by (simp only: of_int_sint scast_id)
qed simp

lemma take_bit_below: "0 \<le> k \<Longrightarrow> k < 2 ^ n \<Longrightarrow> take_bit n k = (k :: int)"
  by (simp add: take_bit_int_eq_self)

text \<open>Every binary operation, on operands already reduced to the width.\<close>

lemma sval_0_iff:
  assumes "1 \<le> n" and "0 \<le> b" and "b < 2 ^ n"
  shows "sval n b = 0 \<longleftrightarrow> b = 0"
proof -
  have "take_bit n b = b" using assms by (simp add: take_bit_below)
  moreover have "take_bit n (sval n b) = take_bit n b"
    using assms(1) by (cases n) (simp_all add: sval_def take_bit_signed_take_bit)
  ultimately show ?thesis by (auto simp: sval_def)
qed

lemma fold_arith:
  assumes "n \<le> 64" and "uint ul = a" and "uint ur = b"
  shows "uint ((ul + ur) AND int_mask_for_bits n) = take_bit n (a + b)"
    and "uint ((ul - ur) AND int_mask_for_bits n) = take_bit n (a - b)"
    and "uint ((ul * ur) AND int_mask_for_bits n) = take_bit n (a * b)"
proof -
  have w: "ul = word_of_int a" "ur = word_of_int b" using assms(2,3) by auto
  show "uint ((ul + ur) AND int_mask_for_bits n) = take_bit n (a + b)"
    "uint ((ul - ur) AND int_mask_for_bits n) = take_bit n (a - b)"
    "uint ((ul * ur) AND int_mask_for_bits n) = take_bit n (a * b)"
    unfolding w using assms(1) uint_of_int_and_int_mask [of n]
    by (simp_all only: of_int_add [symmetric] of_int_diff [symmetric] of_int_mult [symmetric])
qed

lemma fold_bitwise:
  assumes "n \<le> 64" and "uint ul = a" and "uint ur = b" and "a < 2 ^ n" and "b < 2 ^ n"
  shows "uint ((ul AND ur) AND int_mask_for_bits n) = (a AND b)"
    and "uint ((ul OR ur) AND int_mask_for_bits n) = (a OR b)"
    and "uint ((ul XOR ur) AND int_mask_for_bits n) = (a XOR b)"
proof -
  have t: "take_bit n a = a" "take_bit n b = b"
    using assms(2-5) uint_ge_0 by (auto intro!: take_bit_below)
  show "uint ((ul AND ur) AND int_mask_for_bits n) = (a AND b)"
    "uint ((ul OR ur) AND int_mask_for_bits n) = (a OR b)"
    "uint ((ul XOR ur) AND int_mask_for_bits n) = (a XOR b)"
    unfolding uint_and_int_mask [OF assms(1)]
    unfolding unsigned_and_eq unsigned_or_eq unsigned_xor_eq assms(2,3)
    by (simp_all only: take_bit_and take_bit_or take_bit_xor t)
qed

lemma fold_shifts:
  assumes "1 \<le> n" and "n \<le> 64" and "uint ul = a" and "uint ur = b" and "a < 2 ^ n" and "b < int n"
  shows "uint (push_bit (unat ur) ul AND int_mask_for_bits n) = take_bit n (a * 2 ^ nat b)"
    and "uint (drop_bit (unat ur) ul AND int_mask_for_bits n) = a div 2 ^ nat b"
    and "uint (signed_drop_bit (unat ur) (int_sign_extend_bits ul n) AND int_mask_for_bits n) =
      take_bit n (sval n a div 2 ^ nat b)"
proof -
  have k: "unat ur = nat b" using assms(4) by (simp add: unat_eq_nat_uint)
  have a0: "0 \<le> a" using assms(3) uint_ge_0 by auto
  have "push_bit (nat b) (word_of_int a :: u64) = word_of_int (a * 2 ^ nat b)"
    by (simp add: push_bit_of_int push_bit_eq_mult)
  then show "uint (push_bit (unat ur) ul AND int_mask_for_bits n) = take_bit n (a * 2 ^ nat b)"
    using uint_of_int_and_int_mask [OF assms(2)] assms(3) k by (metis word_of_int_uint)
  have "uint (drop_bit (nat b) ul) = a div 2 ^ nat b"
    using unsigned_less [of ul, where 'a = int] unfolding assms(3) [symmetric] unsigned_drop_bit_eq
    by (simp add: drop_bit_eq_div take_bit_below)
  moreover have "a div 2 ^ nat b < 2 ^ n"
    using int_div_le [OF a0, of "2 ^ nat b"] assms(5) by simp
  ultimately show "uint (drop_bit (unat ur) ul AND int_mask_for_bits n) = a div 2 ^ nat b"
    using a0 unfolding uint_and_int_mask [OF assms(2)] k by (simp add: take_bit_below pos_imp_zdiv_nonneg_iff)
  have "sint (signed_drop_bit (nat b) (int_sign_extend_bits ul n)) = sval n a div 2 ^ nat b"
    by (simp only: sint_signed_drop_bit_eq drop_bit_eq_div sint_sign_extend [OF assms(1-3)])
  then have "signed_drop_bit (nat b) (int_sign_extend_bits ul n) = word_of_int (sval n a div 2 ^ nat b)"
    by (metis of_int_sint scast_id)
  then show "uint (signed_drop_bit (unat ur) (int_sign_extend_bits ul n) AND int_mask_for_bits n) =
      take_bit n (sval n a div 2 ^ nat b)"
    using uint_of_int_and_int_mask [OF assms(2)] k by simp
qed

lemma fold_udiv:
  assumes "n \<le> 64" and "uint ul = a" and "uint ur = b" and "a < 2 ^ n" and "b < 2 ^ n" and "b \<noteq> 0"
  shows "uint ((ul div ur) AND int_mask_for_bits n) = a div b"
    and "uint ((ul mod ur) AND int_mask_for_bits n) = a mod b"
proof -
  have ab: "0 \<le> a" "0 < b" using assms(2,3,6) uint_ge_0 [of ul] uint_ge_0 [of ur] by linarith+
  have "a div b < 2 ^ n" using assms(4) int_div_le [OF ab] by linarith
  moreover have "a mod b < 2 ^ n" using ab assms(5) pos_mod_bound [of b a] by linarith
  ultimately show "uint ((ul div ur) AND int_mask_for_bits n) = a div b"
    "uint ((ul mod ur) AND int_mask_for_bits n) = a mod b"
    unfolding uint_and_int_mask [OF assms(1)] uint_div_distrib uint_mod_distrib assms(2,3)
    using ab by (auto intro!: take_bit_below simp: pos_imp_zdiv_nonneg_iff)
qed

lemma fold_sdiv:
  assumes "1 \<le> n" and "n \<le> 64" and "uint ul = a" and "uint ur = b"
  shows "uint (word_of_int (sint (int_sign_extend_bits ul n) sdiv sint (int_sign_extend_bits ur n)) AND int_mask_for_bits n)
      = take_bit n (sval n a sdiv sval n b)"
    and "uint (word_of_int (sint (int_sign_extend_bits ul n) smod sint (int_sign_extend_bits ur n)) AND int_mask_for_bits n)
      = take_bit n (sval n a smod sval n b)"
  unfolding uint_of_int_and_int_mask [OF assms(2)] sint_sign_extend [OF assms(1,2,3)] sint_sign_extend [OF assms(1,2,4)]
  by simp_all

lemma sign_extend_0_iff:
  assumes "1 \<le> n" and "n \<le> 64" and "uint ur = b" and "b < 2 ^ n"
  shows "int_sign_extend_bits ur n = 0 \<longleftrightarrow> b = 0"
proof -
  have "0 \<le> b" using assms(3) uint_ge_0 by auto
  then show ?thesis
    using sval_0_iff [OF assms(1)] assms(4) sint_0_iff [of "int_sign_extend_bits ur n"]
    unfolding sint_sign_extend [OF assms(1-3)] by simp
qed

lemma sdiv_guard:
  assumes "uint ul = a" and "uint ur = b" and "int_sign_extend_bits ul 64 = push_bit 63 1" and "int_sign_extend_bits ur 64 = - 1"
  shows "sval 64 a = - (2 ^ (64 - 1)) \<and> sval 64 b = - 1"
  using sint_sign_extend [of 64 ul a] sint_sign_extend [of 64 ur b] assms by simp

lemma fold_binop_bits_correct:
  assumes "1 \<le> n" and "n \<le> 64" and "uint ul = a" and "uint ur = b" and "a < 2 ^ n" and "b < 2 ^ n"
    and "ir_binop n op a b = Some v"
  shows "\<exists>u. fold_binop_bits op n ul ur = Some u \<and> uint u = v"
proof -
  have k: "unat ur = nat b" and b0: "0 \<le> b" using assms(4) uint_ge_0 by (auto simp: unat_eq_nat_uint)
  note ops = fold_arith [OF assms(2-4)] fold_bitwise [OF assms(2-6)] fold_udiv [OF assms(2-6)]
    fold_sdiv [OF assms(1-4)] sign_extend_0_iff [OF assms(1,2,4,6)]
  have sh: "\<not> int n \<le> b \<Longrightarrow> \<not> n \<le> unat ur" using k b0 by simp
  note shifts = fold_shifts [OF assms(1-5)]
  have ur0: "ur = 0 \<longleftrightarrow> b = 0" using assms(4) by (auto simp: uint_0_iff)
  have guard: "\<not> (n = 64 \<and> int_sign_extend_bits ul n = push_bit 63 1 \<and> int_sign_extend_bits ur n = - 1)"
    if "\<not> (sval n a = - (2 ^ (n - 1)) \<and> sval n b = - 1)"
    using that sdiv_guard [OF assms(3,4)] by blast
  show ?thesis
  proof (cases op)
    case LR_OP_SDIV
    then show ?thesis using assms(7) guard ops unfolding fold_binop_bits_def ir_binop_def Let_def
      by (auto split: if_splits)
  next
    case LR_OP_SREM
    then show ?thesis using assms(7) guard ops unfolding fold_binop_bits_def ir_binop_def Let_def
      by (auto split: if_splits)
  next
    case LR_OP_SHL
    then show ?thesis using assms(7) shifts(1) sh by (simp add: fold_binop_bits_def ir_binop_def split: if_splits)
  next
    case LR_OP_LSHR
    then show ?thesis using assms(7) shifts(2) sh by (simp add: fold_binop_bits_def ir_binop_def split: if_splits)
  next
    case LR_OP_ASHR
    then show ?thesis using assms(7) shifts(3) sh by (simp add: fold_binop_bits_def ir_binop_def Let_def split: if_splits)
  qed (use assms(7) ops ur0 in \<open>simp_all add: fold_binop_bits_def ir_binop_def split: if_splits\<close>)
qed

section \<open>Instructions and operands\<close>

text \<open>The value of an operand in an environment, read at the width of the operand's type.\<close>

record ir_env =
  regs :: "u32 \<Rightarrow> u64"
  gaddr :: "u32 \<Rightarrow> u64"
  undefv :: u64

definition opd_raw :: "ir_env \<Rightarrow> lr_operand \<Rightarrow> u64" where
  "opd_raw env o' =
     (case opd_kind o' of
        LR_VAL_VREG \<Rightarrow> regs env (opd_vreg o')
      | LR_VAL_IMM_I64 \<Rightarrow> opd_imm_i64 o'
      | LR_VAL_IMM_F64 \<Rightarrow> opd_bits o'
      | LR_VAL_BLOCK \<Rightarrow> ucast (opd_block_id o')
      | LR_VAL_GLOBAL \<Rightarrow> gaddr env (opd_global_id o') + global_offset o'
      | LR_VAL_NULL \<Rightarrow> 0
      | LR_VAL_UNDEF \<Rightarrow> undefv env)"

abbreviation ty_bits :: "lr_type option \<Rightarrow> nat" where
  "ty_bits \<equiv> int_type_width_bits"

definition opd_val :: "ir_env \<Rightarrow> lr_operand \<Rightarrow> int" where
  "opd_val env o' = uval (ty_bits (opd_type o')) (opd_raw env o')"

text \<open>The value an instruction defines; \<open>None\<close> where it is undefined or not an integer operation.\<close>

definition ir_value :: "ir_env \<Rightarrow> lr_inst \<Rightarrow> int option" where
  "ir_value env inst =
     (case (inst_op inst, operands inst) of
        (LR_OP_SELECT, c # a # b # _) \<Rightarrow> Some (if opd_val env c \<noteq> 0 then opd_val env a else opd_val env b)
      | (LR_OP_ICMP, a # b # _) \<Rightarrow>
          map_option (\<lambda>p. of_bool (ir_icmp (ty_bits (opd_type a)) p (opd_val env a) (opd_val env b)))
            (icmp_pred_of (inst_pred inst))
      | (op, a # b # _) \<Rightarrow> ir_binop (ty_bits (inst_type inst)) op (opd_val env a) (opd_val env b)
      | _ \<Rightarrow> None)"

definition inst_typed :: "lr_inst \<Rightarrow> bool" where
  "inst_typed inst \<longleftrightarrow>
     (case (inst_op inst, operands inst) of
        (LR_OP_SELECT, c # a # b # _) \<Rightarrow>
          ty_bits (opd_type a) = ty_bits (inst_type inst) \<and> ty_bits (opd_type b) = ty_bits (inst_type inst)
      | (LR_OP_ICMP, a # b # _) \<Rightarrow> opd_type a \<noteq> None \<and> ty_bits (opd_type b) = ty_bits (opd_type a)
      | (op, a # b # _) \<Rightarrow>
          ty_bits (opd_type a) = ty_bits (inst_type inst) \<and> ty_bits (opd_type b) = ty_bits (inst_type inst)
      | _ \<Rightarrow> True)"

text \<open>An immediate does not change when it is reduced to its type and back: the canonical form
  that \<^const>\<open>lr_op_imm_i64\<close> gives the boolean ones.\<close>

definition imm_canonical :: "lr_operand \<Rightarrow> bool" where
  "imm_canonical o' \<longleftrightarrow>
     (opd_kind o' = LR_VAL_IMM_I64 \<longrightarrow> opd_imm_i64 o' \<noteq> 0 \<longrightarrow> uval (ty_bits (opd_type o')) (opd_imm_i64 o') \<noteq> 0)"

lemma uval_bounds: "0 \<le> uval n w" "uval n w < 2 ^ n"
  by (simp_all add: uval_def)

lemma uval_sign_extend:
  assumes "1 \<le> n" and "n \<le> 64"
  shows "uval n (int_sign_extend_bits w n) = uval n w"
proof -
  have "take_bit n (uint (signed_take_bit (n - 1) w)) = take_bit n (uint w)"
    using assms unfolding unsigned_take_bit_eq [symmetric] by (cases n) (simp_all add: take_bit_signed_take_bit)
  then show ?thesis using assms by (simp add: uval_def sign_extend_eq)
qed

lemma ty_bits_I1: "ty_kind t = LR_TYPE_I1 \<Longrightarrow> ty_bits (Some t) = 1"
  by (simp add: int_type_width_bits_def)

lemma uval_op_imm: "uval (ty_bits t) (opd_imm_i64 (lr_op_imm_i64 (int_sign_extend_bits w (ty_bits t)) t)) = uval (ty_bits t) w"
proof (cases "\<exists>t'. t = Some t' \<and> ty_kind t' = LR_TYPE_I1")
  case True
  then obtain t' where t': "t = Some t'" "ty_kind t' = LR_TYPE_I1" by blast
  have b: "ty_bits t = 1" using t' by (simp add: ty_bits_I1)
  have "int_sign_extend_bits w 1 = 0 \<longleftrightarrow> uval 1 w = 0"
    using sint_sign_extend [of 1 w "uint w"] unfolding sint_0_iff [symmetric]
    by (simp add: sval_def uval_def signed_take_bit_0 take_bit_eq_mod)
  moreover have "uval 1 w < 2" using uval_bounds [of 1 w] by simp
  moreover have "uval 1 w \<ge> 0" by (rule uval_bounds)
  ultimately show ?thesis unfolding b using t' by (auto simp: lr_op_imm_i64_def opd_imm_i64_def uval_def)
next
  case False
  then have "opd_imm_i64 (lr_op_imm_i64 x t) = x" for x
    by (auto simp: lr_op_imm_i64_def opd_imm_i64_def split: option.splits)
  then show ?thesis using uval_sign_extend [OF width_bounds] by simp
qed

lemma ir_binop_in_range:
  assumes "ir_binop n op a b = Some v" and "0 \<le> a" and "a < 2 ^ n" and "0 \<le> b" and "b < 2 ^ n"
  shows "take_bit n v = v"
proof -
  have t: "take_bit n a = a" "take_bit n b = b" using assms by (simp_all add: take_bit_below)
  have d: "take_bit n (a div c) = a div c" if "0 < c" for c
    using that assms(2,3) int_div_le [OF assms(2) that] by (intro take_bit_below) (auto simp: pos_imp_zdiv_nonneg_iff)
  have m: "take_bit n (a mod b) = a mod b" if "b \<noteq> 0"
  proof -
    have "0 < b" using that assms(4) by simp
    then show ?thesis using pos_mod_bound [of b a] pos_mod_sign [of b a] assms(5) by (intro take_bit_below) linarith+
  qed
  have c: "take_bit n (a AND b) = (a AND b)" "take_bit n (a OR b) = (a OR b)" "take_bit n (a XOR b) = (a XOR b)"
    by (simp_all only: take_bit_and take_bit_or take_bit_xor t)
  show ?thesis
    using assms(1,4) c m d by (cases op) (auto simp: ir_binop_def split: if_splits)
qed

lemma fold_int_binop_ok:
  assumes "operands inst = l # r # rest" and "opd_kind l = LR_VAL_IMM_I64" and "opd_kind r = LR_VAL_IMM_I64"
    and "ir_binop (ty_bits (inst_type inst)) (inst_op inst) (uval (ty_bits (inst_type inst)) (opd_imm_i64 l))
          (uval (ty_bits (inst_type inst)) (opd_imm_i64 r)) = Some v"
  shows "\<exists>out. fold_int_binop_immediates inst = Some out \<and> opd_kind out = LR_VAL_IMM_I64 \<and>
    uval (ty_bits (inst_type inst)) (opd_imm_i64 out) = v"
proof -
  let ?n = "ty_bits (inst_type inst)"
  let ?ul = "int_to_unsigned_bits (opd_imm_i64 l) ?n" and ?ur = "int_to_unsigned_bits (opd_imm_i64 r) ?n"
  have u: "uint ?ul = uval ?n (opd_imm_i64 l)" "uint ?ur = uval ?n (opd_imm_i64 r)"
    using width_bounds(2) by (simp_all add: to_unsigned_eq)
  obtain w where w: "fold_binop_bits (inst_op inst) ?n ?ul ?ur = Some w" "uint w = v"
    using fold_binop_bits_correct [OF width_bounds u uval_bounds(2) uval_bounds(2) assms(4)] by blast
  have "uval ?n w = v"
  proof -
    have "take_bit ?n v = v"
      by (rule ir_binop_in_range [OF assms(4) uval_bounds uval_bounds])
    then show ?thesis by (simp add: uval_def w(2))
  qed
  then show ?thesis
    using w(1) assms(1-3) uval_op_imm [of "inst_type inst" w]
    by (simp add: fold_int_binop_immediates_def Let_def) (simp add: lr_op_imm_i64_def Let_def)
qed

lemma icmp_bits_correct:
  assumes "1 \<le> n" and "n \<le> 64"
  shows "icmp_bits p (int_to_unsigned_bits x n) (int_to_unsigned_bits y n)
      (int_sign_extend_bits (int_to_unsigned_bits x n) n) (int_sign_extend_bits (int_to_unsigned_bits y n) n)
    = ir_icmp n p (uval n x) (uval n y)"
  using sint_sign_extend [OF assms to_unsigned_eq [OF assms(2)]] to_unsigned_eq [OF assms(2)]
  by (cases p) (simp_all add: word_uint_eq_iff word_less_def word_le_def)

lemma opd_raw_imm: "opd_kind o' = LR_VAL_IMM_I64 \<Longrightarrow> opd_raw env o' = opd_imm_i64 o'"
  by (simp add: opd_raw_def)

lemma uval_small:
  assumes "1 \<le> n" shows "uval n 0 = 0" and "uval n 1 = 1"
  using assms by (cases n; simp add: uval_def)+

lemma fold_icmp_ok:
  assumes "fold_icmp_immediates inst = Some out" and "inst_typed inst" and "ir_value env inst = Some v"
  shows "uval (ty_bits (inst_type inst)) (opd_raw env out) = v"
proof -
  obtain a b rest where ops: "operands inst = a # b # rest" "inst_op inst = LR_OP_ICMP"
    "opd_kind a = LR_VAL_IMM_I64" "opd_kind b = LR_VAL_IMM_I64"
    using assms(1) by (auto simp: fold_icmp_immediates_def split: list.splits if_splits)
  obtain p where p: "icmp_pred_of (inst_pred inst) = Some p"
    using assms(1) ops by (auto simp: fold_icmp_immediates_def Let_def split: option.splits if_splits)
  have ty: "opd_type a \<noteq> None" "ty_bits (opd_type b) = ty_bits (opd_type a)"
    using assms(2) ops by (auto simp: inst_typed_def)
  let ?r = "ir_icmp (ty_bits (opd_type a)) p (opd_val env a) (opd_val env b)"
  have v: "v = of_bool ?r" using assms(3) ops p by (simp add: ir_value_def)
  have "out = lr_op_imm_i64 (if ?r then 1 else 0) (inst_type inst)"
    using assms(1) ops p ty icmp_bits_correct [OF width_bounds, of p "opd_imm_i64 a" "opd_type a" "opd_imm_i64 b"]
    by (simp add: fold_icmp_immediates_def Let_def opd_val_def opd_raw_imm)
  then show ?thesis
    using v uval_small [OF width_bounds(1)]
    by (auto simp: lr_op_imm_i64_def opd_raw_def opd_imm_i64_def Let_def split: option.splits)
qed

lemma take_bit_sval: "1 \<le> n \<Longrightarrow> 0 \<le> a \<Longrightarrow> a < 2 ^ n \<Longrightarrow> take_bit n (sval n a) = a"
  by (cases n) (simp_all add: sval_def take_bit_signed_take_bit take_bit_below)

lemma sdiv_by_one:
  assumes "1 \<le> n" and "0 \<le> a" and "a < 2 ^ n" and "ir_binop n LR_OP_SDIV a 1 = Some v"
  shows "v = a"
proof (cases "n = 1")
  case True
  then have "a = 0 \<or> a = 1" using assms(2,3) by auto
  then show ?thesis using assms(4) True by (auto simp: ir_binop_def sval_def split: if_splits)
next
  case False
  then obtain m where m: "n = Suc (Suc m)" using assms(1) by (cases n; cases "n - 1") auto
  have "sval n 1 = 1" by (simp add: m sval_def signed_take_bit_Suc)
  then show ?thesis using assms(4) take_bit_sval [OF assms(1-3)] by (auto simp: ir_binop_def split: if_splits)
qed

text \<open>Each neutral element: the operation returns its other argument.\<close>

lemma binop_right_neutral:
  assumes "1 \<le> n" and "0 \<le> a" and "a < 2 ^ n" and "ir_binop n op a b = Some v"
    and "op \<in> {LR_OP_ADD, LR_OP_SUB, LR_OP_OR, LR_OP_XOR, LR_OP_SHL, LR_OP_LSHR, LR_OP_ASHR} \<and> b = 0 \<or>
         op \<in> {LR_OP_MUL, LR_OP_SDIV, LR_OP_UDIV} \<and> b = 1 \<or> op = LR_OP_AND \<and> b = mask n"
  shows "v = a"
  using assms sdiv_by_one [OF assms(1-3)] take_bit_sval [OF assms(1-3)] take_bit_below [OF assms(2,3)]
  by (auto simp: ir_binop_def simp flip: take_bit_eq_mask)

lemma binop_left_neutral:
  assumes "1 \<le> n" and "0 \<le> b" and "b < 2 ^ n" and "ir_binop n op a b = Some v"
    and "op \<in> {LR_OP_ADD, LR_OP_OR, LR_OP_XOR} \<and> a = 0 \<or> op = LR_OP_MUL \<and> a = 1 \<or> op = LR_OP_AND \<and> a = mask n"
  shows "v = b"
  using assms take_bit_below [OF assms(2,3)]
  by (auto simp: ir_binop_def and.commute simp flip: take_bit_eq_mask)

lemma fold_identity_ok:
  assumes "fold_identity_int_binop inst = Some out" and "inst_typed inst" and "ir_value env inst = Some v"
  shows "uval (ty_bits (inst_type inst)) (opd_raw env out) = v"
proof -
  let ?n = "ty_bits (inst_type inst)"
  obtain l r rest where ops: "operands inst = l # r # rest"
    using assms(1) by (auto simp: fold_identity_int_binop_def split: list.splits)
  let ?a = "uval ?n (opd_raw env l)" and ?b = "uval ?n (opd_raw env r)"
  have op: "inst_op inst \<in> {LR_OP_ADD, LR_OP_SUB, LR_OP_MUL, LR_OP_SDIV, LR_OP_UDIV, LR_OP_AND, LR_OP_OR,
      LR_OP_XOR, LR_OP_SHL, LR_OP_LSHR, LR_OP_ASHR}"
    using assms(1) ops by (auto simp: fold_identity_int_binop_def split: lr_opcode.splits)
  then have v: "ir_binop ?n (inst_op inst) ?a ?b = Some v"
    using assms(2,3) ops by (auto simp: inst_typed_def ir_value_def opd_val_def)
  have imm: "is_imm o' k \<Longrightarrow> opd_raw env o' = k" for o' k by (auto simp: is_imm_def opd_raw_imm)
  have ones: "is_all_ones ?n o' \<Longrightarrow> uval ?n (opd_raw env o') = mask ?n" for o'
  proof -
    assume "is_all_ones ?n o'"
    then have "take_bit ?n (opd_raw env o') = mask ?n"
      using width_bounds(2) by (simp add: is_all_ones_def opd_raw_imm int_mask_eq take_bit_eq_mask)
    then have "uint (take_bit ?n (opd_raw env o')) = uint (mask ?n :: u64)" by simp
    then show ?thesis using width_bounds(2) by (simp add: uint_take_bit uint_mask_eq min_absorb2)
  qed
  note right = binop_right_neutral [OF width_bounds(1) uval_bounds v]
  note left = binop_left_neutral [OF width_bounds(1) uval_bounds v]
  note small = uval_small [OF width_bounds(1)]
  show ?thesis
    using assms(1) ops op right left small imm [of l] imm [of r] ones [of l] ones [of r]
    by (auto simp: fold_identity_int_binop_def identity_either_def identity_right_def Let_def split: if_splits)
qed

lemma operand_equal_raw: "operand_equal a b \<Longrightarrow> opd_raw env a = opd_raw env b"
  by (auto simp: operand_equal_def opd_raw_def split: lr_operand_kind.splits)

lemma fold_select_ok:
  assumes "fold_select inst = Some out" and "inst_typed inst" and "\<forall>o' \<in> set (operands inst). imm_canonical o'"
    and "ir_value env inst = Some v"
  shows "uval (ty_bits (inst_type inst)) (opd_raw env out) = v"
proof -
  obtain c a b rest where ops: "operands inst = c # a # b # rest" "inst_op inst = LR_OP_SELECT"
    using assms(1) by (auto simp: fold_select_def split: list.splits if_splits)
  have v: "v = (if opd_val env c \<noteq> 0 then uval (ty_bits (inst_type inst)) (opd_raw env a)
                else uval (ty_bits (inst_type inst)) (opd_raw env b))"
    using assms(2,4) ops by (auto simp: ir_value_def inst_typed_def opd_val_def)
  have c: "opd_kind c = LR_VAL_IMM_I64 \<Longrightarrow> (opd_val env c \<noteq> 0) = (opd_imm_i64 c \<noteq> 0)"
    using assms(3) ops uval_small(1) [OF width_bounds(1)] by (auto simp: opd_val_def opd_raw_imm imm_canonical_def)
  show ?thesis
    using assms(1) ops v c operand_equal_raw [of a b env] by (auto simp: fold_select_def split: if_splits)
qed

section \<open>Properties\<close>

text \<open>C8: a binary operation on two immediates whose result the IR defines is always folded, and
  the immediate that replaces it has that result: for every width, signed and unsigned division,
  remainder and shifts included.\<close>

theorem fold_int_binop_correct:
  assumes "operands inst = l # r # rest" and "opd_kind l = LR_VAL_IMM_I64" and "opd_kind r = LR_VAL_IMM_I64"
    and "ir_binop (ty_bits (inst_type inst)) (inst_op inst) (uval (ty_bits (inst_type inst)) (opd_imm_i64 l))
          (uval (ty_bits (inst_type inst)) (opd_imm_i64 r)) = Some v"
  shows "\<exists>out. fold_int_binop_immediates inst = Some out \<and> opd_kind out = LR_VAL_IMM_I64 \<and>
    uval (ty_bits (inst_type inst)) (opd_imm_i64 out) = v"
  using assms by (rule fold_int_binop_ok)

definition demo_sdiv :: lr_inst where
  "demo_sdiv = the (lr_inst_create (Some 0) LR_OP_SDIV (Some (TScalar 4 SI8)) 3
     [lr_op_imm_i64 (- 7) (Some (TScalar 4 SI8)), lr_op_imm_i64 2 (Some (TScalar 4 SI8))])"

theorem fold_int_binop_correct_witness:
  "\<exists>out. fold_int_binop_immediates demo_sdiv = Some out \<and> opd_kind out = LR_VAL_IMM_I64 \<and>
    uval (ty_bits (inst_type demo_sdiv)) (opd_imm_i64 out) = 253"
  by (rule fold_int_binop_correct
        [of _ "lr_op_imm_i64 (- 7) (Some (TScalar 4 SI8))" "lr_op_imm_i64 2 (Some (TScalar 4 SI8))" "[]"])
     (simp_all add: demo_sdiv_def lr_inst_create_def lr_op_imm_i64_def ir_binop_def int_type_width_bits_def
       uval_def sval_def opd_imm_i64_def)

text \<open>C3: every replacement the folder proposes (constant operation, comparison, identity or
  select) has, in every environment, the value of the instruction it replaces.\<close>

theorem try_inst_replacement_sound:
  assumes "try_inst_replacement inst = Some out" and "inst_typed inst"
    and "\<forall>o' \<in> set (operands inst). imm_canonical o'" and "ir_value env inst = Some v"
  shows "uval (ty_bits (inst_type inst)) (opd_raw env out) = v"
proof (cases "fold_select inst")
  case Some
  then show ?thesis using assms fold_select_ok by (simp add: try_inst_replacement_def)
next
  case sel: None
  show ?thesis
  proof (cases "fold_icmp_immediates inst")
    case Some
    then show ?thesis using assms sel fold_icmp_ok by (simp add: try_inst_replacement_def)
  next
    case icmp: None
    show ?thesis
    proof (cases "fold_int_binop_immediates inst")
      case None
      then show ?thesis using assms sel icmp fold_identity_ok by (simp add: try_inst_replacement_def)
    next
      case (Some out')
      then have out: "out' = out" using assms(1) sel icmp by (simp add: try_inst_replacement_def)
      obtain l r rest where ops: "operands inst = l # r # rest" "opd_kind l = LR_VAL_IMM_I64" "opd_kind r = LR_VAL_IMM_I64"
        using Some by (auto simp: fold_int_binop_immediates_def split: list.splits if_splits)
      have "inst_op inst \<noteq> LR_OP_SELECT" "inst_op inst \<noteq> LR_OP_ICMP"
        using Some ops by (auto simp: fold_int_binop_immediates_def fold_binop_bits_def Let_def)
      then have "ir_binop (ty_bits (inst_type inst)) (inst_op inst) (uval (ty_bits (inst_type inst)) (opd_imm_i64 l))
          (uval (ty_bits (inst_type inst)) (opd_imm_i64 r)) = Some v"
        using assms(2,4) ops
        by (cases "inst_op inst") (simp_all add: ir_value_def inst_typed_def opd_val_def opd_raw_imm)
      from fold_int_binop_ok [OF ops this] show ?thesis using Some out by (auto simp: opd_raw_imm)
    qed
  qed
qed

theorem try_inst_replacement_sound_witness:
  "uval (ty_bits (inst_type demo_sdiv)) (opd_raw \<lparr>regs = (\<lambda>_. 0), gaddr = (\<lambda>_. 0), undefv = 0\<rparr>
     (the (try_inst_replacement demo_sdiv))) = 253"
proof (rule try_inst_replacement_sound)
  show "try_inst_replacement demo_sdiv = Some (the (try_inst_replacement demo_sdiv))"
    by (simp add: try_inst_replacement_def demo_sdiv_def lr_inst_create_def fold_select_def
        fold_icmp_immediates_def lr_op_imm_i64_def fold_int_binop_immediates_def fold_binop_bits_def
        int_sign_extend_bits_def int_to_unsigned_bits_def opd_imm_i64_def int_type_width_bits_def
        int_mask_for_bits_def Let_def)
qed (simp_all add: demo_sdiv_def lr_inst_create_def lr_op_imm_i64_def ir_binop_def int_type_width_bits_def
       uval_def sval_def opd_imm_i64_def inst_typed_def imm_canonical_def ir_value_def opd_val_def opd_raw_def)

end
