(* ===== verification/Ir_Peephole.thy ===== *)
theory Ir_Peephole
  imports Ir_Fold
begin

text \<open>
  The optimiser that runs when a function is finalized (\<^verbatim>\<open>run_func_peephole_passes\<close>,
  \<^verbatim>\<open>lr_func_finalize\<close> and \<^verbatim>\<open>lr_func_is_finalized\<close> of \<^verbatim>\<open>src/src/ir.c\<close>).

  The replacement table of the source is a list of optional operands, indexed by register; the
  load cache a list.  The arrays the pass and the finalizer allocate in the arena are obtained
  through \<open>mem\<close>, which tells whether the arena can provide an array of that many elements.
\<close>

section \<open>Resolving operands\<close>

type_synonym replacements = "lr_operand option list"

fun resolve_loop :: "nat \<Rightarrow> replacements \<Rightarrow> lr_operand \<Rightarrow> bool \<Rightarrow> lr_operand \<times> bool" where
  "resolve_loop 0 repl op changed = (op, changed)"
| "resolve_loop (Suc n) repl op changed =
     (if opd_kind op = LR_VAL_VREG \<and> unat (opd_vreg op) < length repl
      then (case repl ! unat (opd_vreg op) of
              None \<Rightarrow> (op, changed)
            | Some nxt \<Rightarrow>
                if opd_kind nxt = LR_VAL_VREG \<and> opd_vreg nxt = opd_vreg op then (op, changed)
                else resolve_loop n repl nxt True)
      else (op, changed))"

text \<open>The guard of the loop allows one round more than the table has entries.\<close>

definition operand_resolve :: "replacements \<Rightarrow> lr_operand \<Rightarrow> lr_operand \<times> bool" where
  "operand_resolve repl op = resolve_loop (length repl + 1) repl op False"

definition resolve_operands :: "replacements \<Rightarrow> lr_inst \<Rightarrow> lr_inst" where
  "resolve_operands repl inst = inst\<lparr>operands := map (fst \<circ> operand_resolve repl) (operands inst)\<rparr>"

definition resolve_changes :: "replacements \<Rightarrow> lr_inst \<Rightarrow> bool" where
  "resolve_changes repl inst \<longleftrightarrow> (\<exists>op \<in> set (operands inst). snd (operand_resolve repl op))"

section \<open>Classifying instructions\<close>

definition has_value_type :: "lr_inst \<Rightarrow> bool" where
  "has_value_type inst \<longleftrightarrow> (case inst_type inst of None \<Rightarrow> False | Some t \<Rightarrow> ty_kind t \<noteq> LR_TYPE_VOID)"

definition inst_defines_dest :: "lr_inst \<Rightarrow> bool" where
  "inst_defines_dest inst \<longleftrightarrow>
     (case inst_op inst of
        LR_OP_RET \<Rightarrow> False | LR_OP_RET_VOID \<Rightarrow> False | LR_OP_BR \<Rightarrow> False | LR_OP_CONDBR \<Rightarrow> False
      | LR_OP_UNREACHABLE \<Rightarrow> False | LR_OP_STORE \<Rightarrow> False
      | _ \<Rightarrow> has_value_type inst)"

definition inst_dead_def_eliminable :: "lr_inst \<Rightarrow> bool" where
  "inst_dead_def_eliminable inst \<longleftrightarrow>
     inst_defines_dest inst \<and> inst_op inst \<noteq> LR_OP_ALLOCA \<and> inst_op inst \<noteq> LR_OP_CALL"

section \<open>One instruction of the folding pass\<close>

definition fold_condbr :: "lr_inst \<Rightarrow> lr_inst" where
  "fold_condbr inst =
     (case operands inst of
        c # t # f # _ \<Rightarrow>
          if inst_op inst = LR_OP_CONDBR \<and> opd_kind c = LR_VAL_IMM_I64
          then inst\<lparr>inst_op := LR_OP_BR, operands := [if opd_imm_i64 c \<noteq> 0 then t else f]\<rparr>
          else inst
      | _ \<Rightarrow> inst)"

definition condbr_changes :: "lr_inst \<Rightarrow> bool" where
  "condbr_changes inst \<longleftrightarrow>
     inst_op inst = LR_OP_CONDBR \<and> 3 \<le> length (operands inst) \<and> opd_kind (operands inst ! 0) = LR_VAL_IMM_I64"

record load_cache_entry =
  lc_ptr :: lr_operand
  lc_load_type :: "lr_type option"
  lc_value_vreg :: u32

definition cache_hit :: "lr_inst \<Rightarrow> load_cache_entry \<Rightarrow> bool" where
  "cache_hit inst e \<longleftrightarrow>
     ty_ptr_eq (lc_load_type e) (inst_type inst) \<and> operand_equal (lc_ptr e) (operands inst ! 0)"

definition is_cacheable_load :: "lr_inst \<Rightarrow> bool" where
  "is_cacheable_load inst \<longleftrightarrow> inst_op inst = LR_OP_LOAD \<and> operands inst \<noteq> [] \<and> inst_defines_dest inst"

text \<open>The replacement of an instruction, if it has one, and the load cache after it.\<close>

definition find_replacement ::
  "nat \<Rightarrow> load_cache_entry list \<Rightarrow> lr_inst \<Rightarrow> lr_operand option \<times> load_cache_entry list" where
  "find_replacement nrepl cache inst =
     (case try_inst_replacement inst of
        Some r \<Rightarrow> (Some r, cache)
      | None \<Rightarrow>
          let (r, cache1) =
            (if is_cacheable_load inst
             then (case find (cache_hit inst) cache of
                     Some e \<Rightarrow> (Some (lr_op_vreg (lc_value_vreg e) (inst_type inst)), cache)
                   | None \<Rightarrow>
                       (None, if length cache < nrepl
                              then cache @ [\<lparr>lc_ptr = operands inst ! 0, lc_load_type = inst_type inst,
                                             lc_value_vreg = inst_dest inst\<rparr>]
                              else cache))
             else (None, cache))
          in (r, if r = None \<and> (inst_op inst = LR_OP_STORE \<or> inst_op inst = LR_OP_CALL) then [] else cache1))"

definition typed_replacement :: "lr_inst \<Rightarrow> lr_operand \<Rightarrow> lr_operand" where
  "typed_replacement inst r =
     (if opd_type r = None \<and> opd_kind r \<in> {LR_VAL_VREG, LR_VAL_IMM_I64, LR_VAL_IMM_F64, LR_VAL_NULL, LR_VAL_UNDEF}
      then r\<lparr>opd_type := inst_type inst\<rparr> else r)"

definition record_replacement :: "replacements \<Rightarrow> lr_inst \<Rightarrow> lr_operand \<Rightarrow> replacements" where
  "record_replacement repl inst r =
     (if opd_kind r = LR_VAL_VREG \<and> opd_vreg r = inst_dest inst then repl
      else repl[unat (inst_dest inst) := Some (typed_replacement inst r)])"

text \<open>The body of the instruction loop: the instruction to keep (\<open>None\<close> when it is removed), the
  table, the cache and whether anything changed.\<close>

definition peephole_inst ::
  "replacements \<Rightarrow> load_cache_entry list \<Rightarrow> lr_inst \<Rightarrow> lr_inst option \<times> replacements \<times> load_cache_entry list \<times> bool"
where
  "peephole_inst repl cache inst0 =
     (let inst1 = resolve_operands repl inst0;
          inst = fold_condbr inst1;
          changed = (resolve_changes repl inst0 \<or> condbr_changes inst1);
          (r, cache') = find_replacement (length repl) cache inst
      in case r of
           Some rep \<Rightarrow>
             if inst_defines_dest inst \<and> unat (inst_dest inst) < length repl
             then (None, record_replacement repl inst rep, cache', True)
             else (Some inst, repl, cache', changed)
         | None \<Rightarrow> (Some inst, repl, cache', changed))"

fun peephole_insts ::
  "replacements \<Rightarrow> load_cache_entry list \<Rightarrow> lr_inst list \<Rightarrow> lr_inst list \<times> replacements \<times> bool" where
  "peephole_insts repl cache [] = ([], repl, False)"
| "peephole_insts repl cache (inst # insts) =
     (let (kept, repl1, cache1, c1) = peephole_inst repl cache inst;
          (rest, repl2, c2) = peephole_insts repl1 cache1 insts
      in ((case kept of None \<Rightarrow> rest | Some i \<Rightarrow> i # rest), repl2, c1 \<or> c2))"

section \<open>The passes over a function\<close>

definition find_block :: "lr_func \<Rightarrow> u32 \<Rightarrow> lr_block option" where
  "find_block f bid = find (\<lambda>b. blk_id b = bid) (blocks f)"

text \<open>The blocks the passes visit: the entries of the block array that are not null.\<close>

definition array_ids :: "lr_func \<Rightarrow> u32 list" where
  "array_ids f = (case block_array f of None \<Rightarrow> [] | Some arr \<Rightarrow> map the (filter (\<lambda>e. e \<noteq> None) arr))"

fun peephole_blocks :: "replacements \<Rightarrow> u32 list \<Rightarrow> lr_func \<Rightarrow> lr_func \<times> replacements \<times> bool" where
  "peephole_blocks repl [] f = (f, repl, False)"
| "peephole_blocks repl (bid # bids) f =
     (case find_block f bid of
        None \<Rightarrow> peephole_blocks repl bids f
      | Some b \<Rightarrow>
          let (insts, repl1, c1) = peephole_insts repl [] (blk_insts b);
              (f', repl2, c2) = peephole_blocks repl1 bids (update_block bid (\<lambda>b. b\<lparr>blk_insts := insts\<rparr>) f)
          in (f', repl2, c1 \<or> c2))"

fun peephole_iterate :: "nat \<Rightarrow> replacements \<Rightarrow> lr_func \<Rightarrow> lr_func \<times> replacements" where
  "peephole_iterate 0 repl f = (f, repl)"
| "peephole_iterate (Suc n) repl f =
     (let (f', repl', changed) = peephole_blocks repl (array_ids f) f
      in if changed then peephole_iterate n repl' f' else (f', repl'))"

definition map_array_blocks :: "(lr_inst list \<Rightarrow> lr_inst list) \<Rightarrow> lr_func \<Rightarrow> lr_func" where
  "map_array_blocks g f =
     f\<lparr>blocks := map (\<lambda>b. if blk_id b \<in> set (array_ids f) then b\<lparr>blk_insts := g (blk_insts b)\<rparr> else b) (blocks f)\<rparr>"

definition array_insts :: "lr_func \<Rightarrow> lr_inst list" where
  "array_insts f = concat (map (\<lambda>bid. case find_block f bid of None \<Rightarrow> [] | Some b \<Rightarrow> blk_insts b) (array_ids f))"

text \<open>The counters of the source are 32 bits wide.\<close>

definition uses_vreg :: "u32 \<Rightarrow> lr_operand \<Rightarrow> bool" where
  "uses_vreg v op \<longleftrightarrow> opd_kind op = LR_VAL_VREG \<and> opd_vreg op = v"

definition use_counts :: "lr_func \<Rightarrow> u32 \<Rightarrow> u32" where
  "use_counts f v = of_nat (length (filter (uses_vreg v) (concat (map operands (array_insts f)))))"

definition dead_inst :: "nat \<Rightarrow> lr_func \<Rightarrow> lr_inst \<Rightarrow> bool" where
  "dead_inst nrepl f inst \<longleftrightarrow>
     inst_dead_def_eliminable inst \<and> unat (inst_dest inst) < nrepl \<and> use_counts f (inst_dest inst) = 0"

fun dce_iterate :: "nat \<Rightarrow> nat \<Rightarrow> lr_func \<Rightarrow> lr_func" where
  "dce_iterate 0 nrepl f = f"
| "dce_iterate (Suc n) nrepl f =
     (if list_ex (dead_inst nrepl f) (array_insts f)
      then dce_iterate n nrepl (map_array_blocks (filter (\<lambda>i. \<not> dead_inst nrepl f i)) f)
      else f)"

definition run_func_peephole_passes :: "(nat \<Rightarrow> bool) \<Rightarrow> lr_func \<Rightarrow> int \<times> lr_func" where
  "run_func_peephole_passes mem f =
     (if num_blocks f = 0 then (0, f)
      else let nrepl = (if 0 < next_vreg f then unat (next_vreg f) else 1)
           in if \<not> mem nrepl then (-1, f)
              else let (f1, repl) = peephole_iterate 6 (replicate nrepl None) f;
                       f2 = map_array_blocks (map (resolve_operands repl)) f1
                   in (0, dce_iterate 8 nrepl f2))"

section \<open>Finalizing a function\<close>

definition lr_func_is_finalized :: "lr_func \<Rightarrow> bool" where
  "lr_func_is_finalized f \<longleftrightarrow>
     (if num_blocks f = 0 then True
      else (case (block_array f, block_inst_offsets f) of
          (Some arr, Some offs) \<Rightarrow>
            (let ok = (\<lambda>e. case e of None \<Rightarrow> False
                          | Some bid \<Rightarrow> (case find_block f bid of None \<Rightarrow> False
                                        | Some b \<Rightarrow> blk_insts b = [] \<or> inst_array b \<noteq> None));
                 has_insts = (array_insts f \<noteq> [])
             in list_all ok arr \<and>
                (has_insts \<longrightarrow> linear_inst_array f \<noteq> None) \<and>
                (\<not> has_insts \<longrightarrow> num_linear_insts f = 0) \<and>
                offs ! unat (num_blocks f) = num_linear_insts f)
        | _ \<Rightarrow> False))"

text \<open>Filling the block array: \<open>None\<close> when a block's id lies outside it.\<close>

fun fill_block_array :: "u32 option list \<Rightarrow> lr_block list \<Rightarrow> u32 option list option" where
  "fill_block_array arr [] = Some arr"
| "fill_block_array arr (b # bs) =
     (if length arr \<le> unat (blk_id b) then None
      else fill_block_array (arr[unat (blk_id b) := Some (blk_id b)]) bs)"

definition build_inst_array :: "lr_block \<Rightarrow> lr_block" where
  "build_inst_array b =
     b\<lparr>num_insts := of_nat (length (blk_insts b)),
       inst_array := (if blk_insts b = [] then None else Some (map inst_addr (blk_insts b)))\<rparr>"

fun build_inst_arrays :: "(nat \<Rightarrow> bool) \<Rightarrow> u32 list \<Rightarrow> lr_func \<Rightarrow> lr_func option" where
  "build_inst_arrays mem [] f = Some f"
| "build_inst_arrays mem (bid # bids) f =
     (case find_block f bid of
        None \<Rightarrow> build_inst_arrays mem bids f
      | Some b \<Rightarrow>
          if blk_insts b \<noteq> [] \<and> \<not> mem (length (blk_insts b)) then None
          else build_inst_arrays mem bids (update_block bid build_inst_array f))"

text \<open>The instruction addresses and the start offset of every slot of the block array.\<close>

definition slot_addrs :: "lr_func \<Rightarrow> u32 option \<Rightarrow> nat list" where
  "slot_addrs f e =
     (case e of None \<Rightarrow> []
      | Some bid \<Rightarrow> (case find_block f bid of None \<Rightarrow> []
                    | Some b \<Rightarrow> (case inst_array b of None \<Rightarrow> [] | Some xs \<Rightarrow> take (unat (num_insts b)) xs)))"

fun slot_offsets :: "u32 \<Rightarrow> nat list list \<Rightarrow> u32 list" where
  "slot_offsets at [] = [at]"
| "slot_offsets at (xs # xss) = at # slot_offsets (at + of_nat (length xs)) xss"

definition build_linear_array :: "(nat \<Rightarrow> bool) \<Rightarrow> lr_func \<Rightarrow> lr_func option" where
  "build_linear_array mem f =
     (if linear_inst_array f \<noteq> None then Some f
      else let slots = map (slot_addrs f) (the (block_array f)); all = concat slots
           in if all \<noteq> [] \<and> \<not> mem (length all) then None
              else Some (f\<lparr>num_linear_insts := of_nat (length all),
                           linear_inst_array := (if all = [] then None else Some all),
                           block_inst_offsets := Some (slot_offsets 0 slots)\<rparr>))"

text \<open>\<open>Inl\<close> is the result \<open>-1\<close>; the arrays it may have built before it failed are not recorded.\<close>

definition lr_func_finalize :: "(nat \<Rightarrow> bool) \<Rightarrow> lr_func \<Rightarrow> unit + lr_func" where
  "lr_func_finalize mem f =
     (if lr_func_is_finalized f then Inr f
      else if num_blocks f = 0 then Inr f
      else case (if block_array f = None
                 then (if mem (unat (num_blocks f))
                       then map_option (\<lambda>arr. f\<lparr>block_array := Some arr\<rparr>)
                              (fill_block_array (replicate (unat (num_blocks f)) None) (blocks f))
                       else None)
                 else Some f) of
             None \<Rightarrow> Inl ()
           | Some f1 \<Rightarrow>
               (case run_func_peephole_passes mem f1 of (rc, f2) \<Rightarrow>
                  if rc \<noteq> 0 then Inl ()
                  else (case build_inst_arrays mem (array_ids f2) f2 of None \<Rightarrow> Inl ()
                        | Some f3 \<Rightarrow>
                            if block_inst_offsets f3 = None \<and> \<not> mem (unat (num_blocks f3) + 1) then Inl ()
                            else (case build_linear_array mem
                                     (f3\<lparr>block_inst_offsets :=
                                           Some (case block_inst_offsets f3 of Some o' \<Rightarrow> o'
                                                 | None \<Rightarrow> replicate (unat (num_blocks f3) + 1) 0)\<rparr>) of
                                    None \<Rightarrow> Inl () | Some f4 \<Rightarrow> Inr f4))))"

end
