(* ===== verification/Ir_Finalize.thy ===== *)
theory Ir_Finalize
  imports Ir_Peephole
begin

text \<open>
  What finalizing a function establishes: the passes keep every instruction that has an effect,
  the block array, the instruction arrays and the linear array agree with the blocks, and a
  finalized function stays as it is.
\<close>

section \<open>What the passes leave alone\<close>

text \<open>A pass changes only the instructions of blocks, and keeps the ones that are not eliminable.\<close>

definition pinned :: "lr_inst list \<Rightarrow> nat list" where
  "pinned insts = map inst_addr (filter (\<lambda>i. \<not> inst_dead_def_eliminable i) insts)"

definition block_kept :: "lr_block \<Rightarrow> lr_block \<Rightarrow> bool" where
  "block_kept b b' \<longleftrightarrow> (\<exists>insts. b' = b\<lparr>blk_insts := insts\<rparr> \<and> pinned insts = pinned (blk_insts b) \<and>
     length insts \<le> length (blk_insts b))"

definition func_kept :: "lr_func \<Rightarrow> lr_func \<Rightarrow> bool" where
  "func_kept f f' \<longleftrightarrow> (\<exists>bs. f' = f\<lparr>blocks := bs\<rparr> \<and> list_all2 block_kept (blocks f) bs)"

lemma block_kept_refl [simp]: "block_kept b b"
  unfolding block_kept_def by (rule exI [of _ "blk_insts b"]) simp

lemma block_kept_trans: "block_kept a b \<Longrightarrow> block_kept b c \<Longrightarrow> block_kept a c"
  by (auto simp: block_kept_def)

lemma block_kept_id: "block_kept b b' \<Longrightarrow> blk_id b' = blk_id b"
  by (auto simp: block_kept_def)

lemma func_kept_refl [simp]: "func_kept f f"
  unfolding func_kept_def by (rule exI [of _ "blocks f"]) (simp add: list.rel_refl)

lemma func_kept_trans:
  assumes "func_kept f g" and "func_kept g h"
  shows "func_kept f h"
proof -
  obtain bs cs where b: "g = f\<lparr>blocks := bs\<rparr>" "list_all2 block_kept (blocks f) bs"
    and c: "h = g\<lparr>blocks := cs\<rparr>" "list_all2 block_kept (blocks g) cs"
    using assms by (auto simp: func_kept_def)
  have "list_all2 block_kept (blocks f) cs"
    by (rule list_all2_trans [OF block_kept_trans b(2)]) (use b(1) c(2) in simp_all)
  then show ?thesis unfolding func_kept_def using b(1) c(1) by (intro exI [of _ cs]) simp
qed

lemma func_kept_update_block:
  assumes "\<And>b. b \<in> set (blocks f) \<Longrightarrow> blk_id b = bid \<Longrightarrow> block_kept b (g b)"
  shows "func_kept f (update_block bid g f)"
  using assms by (auto simp: func_kept_def update_block_def list_all2_conv_all_nth)

lemma func_kept_map_array:
  assumes "\<And>insts. pinned (g insts) = pinned insts" and "\<And>insts. length (g insts) \<le> length insts"
  shows "func_kept f (map_array_blocks g f)"
proof -
  have "block_kept b (b\<lparr>blk_insts := g (blk_insts b)\<rparr>)" for b
    using assms unfolding block_kept_def by (intro exI [of _ "g (blk_insts b)"]) simp
  then show ?thesis
    unfolding func_kept_def map_array_blocks_def by (intro exI conjI refl) (auto simp: list_all2_conv_all_nth)
qed

lemma pinned_Cons: "pinned (i # is) = (if inst_dead_def_eliminable i then pinned is else inst_addr i # pinned is)"
  by (simp add: pinned_def)

lemma resolve_operands_simps [simp]:
  "inst_op (resolve_operands r i) = inst_op i" "inst_addr (resolve_operands r i) = inst_addr i"
  "inst_type (resolve_operands r i) = inst_type i" "inst_dest (resolve_operands r i) = inst_dest i"
  by (simp_all add: resolve_operands_def)

lemma has_value_type_resolve [simp]: "has_value_type (resolve_operands r i) = has_value_type i"
  by (simp add: has_value_type_def)

lemma defines_dest_resolve [simp]: "inst_defines_dest (resolve_operands r i) = inst_defines_dest i"
  by (cases "inst_op i") (simp_all add: inst_defines_dest_def)

lemma eliminable_resolve [simp]: "inst_dead_def_eliminable (resolve_operands r i) = inst_dead_def_eliminable i"
  by (simp add: inst_dead_def_eliminable_def)

lemma fold_condbr_simps [simp]:
  "inst_addr (fold_condbr i) = inst_addr i" "inst_type (fold_condbr i) = inst_type i"
  "inst_dest (fold_condbr i) = inst_dest i" "inst_dead_def_eliminable (fold_condbr i) = inst_dead_def_eliminable i"
  by (auto simp: fold_condbr_def inst_dead_def_eliminable_def inst_defines_dest_def split: list.splits)

lemma no_replacement_effect:
  "inst_op i = LR_OP_ALLOCA \<or> inst_op i = LR_OP_CALL \<Longrightarrow> try_inst_replacement i = None"
proof -
  assume op: "inst_op i = LR_OP_ALLOCA \<or> inst_op i = LR_OP_CALL"
  have "fold_select i = None" using op by (auto simp: fold_select_def split: list.split)
  moreover have "fold_icmp_immediates i = None" using op by (auto simp: fold_icmp_immediates_def split: list.split)
  moreover have "fold_binop_bits (inst_op i) n a b = None" for n a b
    using op by (auto simp: fold_binop_bits_def Let_def)
  then have "fold_int_binop_immediates i = None"
    by (simp add: fold_int_binop_immediates_def Let_def split: list.split)
  moreover have "fold_identity_int_binop i = None"
    using op by (auto simp: fold_identity_int_binop_def Let_def split: list.split)
  ultimately show ?thesis by (simp add: try_inst_replacement_def)
qed

lemma replaced_eliminable:
  assumes "find_replacement n cache i = (Some r, cache')" and "inst_defines_dest i"
  shows "inst_dead_def_eliminable i"
proof -
  have "\<not> (inst_op i = LR_OP_ALLOCA \<or> inst_op i = LR_OP_CALL)"
  proof
    assume op: "inst_op i = LR_OP_ALLOCA \<or> inst_op i = LR_OP_CALL"
    then have "\<not> is_cacheable_load i" by (auto simp: is_cacheable_load_def)
    then show False using assms(1) no_replacement_effect [OF op] by (simp add: find_replacement_def)
  qed
  then show ?thesis using assms(2) by (simp add: inst_dead_def_eliminable_def)
qed

lemma peephole_inst_kept:
  assumes "peephole_inst repl cache i = (kept, repl', cache', c)"
  shows "case kept of None \<Rightarrow> inst_dead_def_eliminable i
    | Some j \<Rightarrow> inst_addr j = inst_addr i \<and> inst_dead_def_eliminable j = inst_dead_def_eliminable i"
proof -
  let ?i = "fold_condbr (resolve_operands repl i)"
  obtain r ca where r: "find_replacement (length repl) cache ?i = (r, ca)" by fastforce
  show ?thesis
    using assms replaced_eliminable [of "length repl" cache ?i] r
    by (auto simp: peephole_inst_def Let_def split: option.splits if_splits)
qed

lemma peephole_insts_kept:
  "peephole_insts repl cache insts = (insts', repl', c) \<Longrightarrow> pinned insts' = pinned insts \<and> length insts' \<le> length insts"
proof (induction repl cache insts arbitrary: insts' repl' c rule: peephole_insts.induct)
  case (2 repl cache i "is")
  obtain kept repl1 cache1 c1 where k: "peephole_inst repl cache i = (kept, repl1, cache1, c1)" by (metis prod_cases4)
  obtain rest repl2 c2 where r: "peephole_insts repl1 cache1 is = (rest, repl2, c2)" by (metis prod_cases3)
  have "pinned rest = pinned is \<and> length rest \<le> length is" using "2.IH" [OF k [symmetric]] r by simp
  then show ?case using peephole_inst_kept [OF k] "2.prems" k r
    by (auto simp: pinned_Cons split: option.splits)
qed simp

lemma find_block_Some: "find_block f bid = Some b \<Longrightarrow> b \<in> set (blocks f) \<and> blk_id b = bid"
  by (auto simp: find_block_def find_Some_iff)

text \<open>Block ids are distinct: the block found by an id is the only one with that id.\<close>

definition ids_distinct :: "lr_func \<Rightarrow> bool" where
  "ids_distinct f \<longleftrightarrow> distinct (map blk_id (blocks f))"

lemma ids_distinct_unique:
  "ids_distinct f \<Longrightarrow> b \<in> set (blocks f) \<Longrightarrow> b' \<in> set (blocks f) \<Longrightarrow> blk_id b = blk_id b' \<Longrightarrow> b = b'"
  by (auto simp: ids_distinct_def distinct_map inj_on_def)

lemma list_all2_kept_ids: "list_all2 block_kept xs ys \<Longrightarrow> map blk_id ys = map blk_id xs"
  by (induction rule: list_all2_induct) (auto simp: block_kept_id)

lemma func_kept_ids: "func_kept f g \<Longrightarrow> map blk_id (blocks g) = map blk_id (blocks f)"
  using list_all2_kept_ids by (auto simp: func_kept_def)

lemma func_kept_distinct: "func_kept f g \<Longrightarrow> ids_distinct g = ids_distinct f"
  by (simp add: ids_distinct_def func_kept_ids)

lemma peephole_blocks_kept:
  "peephole_blocks repl bids f = (f', repl', c) \<Longrightarrow> ids_distinct f \<Longrightarrow> func_kept f f'"
proof (induction repl bids f arbitrary: f' repl' c rule: peephole_blocks.induct)
  case (2 repl bid bids f)
  show ?case
  proof (cases "find_block f bid")
    case None
    then show ?thesis using "2.IH"(1) "2.prems" by simp
  next
    case (Some b)
    obtain insts repl1 c1 where i: "peephole_insts repl [] (blk_insts b) = (insts, repl1, c1)" by (metis prod_cases3)
    let ?f = "update_block bid (\<lambda>b. b\<lparr>blk_insts := insts\<rparr>) f"
    have k: "func_kept f ?f"
    proof (rule func_kept_update_block)
      fix b' assume "b' \<in> set (blocks f)" "blk_id b' = bid"
      then have "b' = b" using find_block_Some [OF Some] ids_distinct_unique [OF "2.prems"(2)] by blast
      then show "block_kept b' (b'\<lparr>blk_insts := insts\<rparr>)"
        using peephole_insts_kept [OF i] by (auto simp: block_kept_def)
    qed
    obtain f2 repl2 c2 where r: "peephole_blocks repl1 bids ?f = (f2, repl2, c2)" by (metis prod_cases3)
    have "func_kept ?f f2"
      using "2.IH"(2) [OF Some i [symmetric] refl refl r] func_kept_distinct [OF k] "2.prems"(2) by simp
    moreover have "f' = f2" using "2.prems"(1) Some i r by (simp add: Let_def)
    ultimately show ?thesis using func_kept_trans [OF k] by simp
  qed
qed simp

lemma peephole_iterate_kept:
  "peephole_iterate n repl f = (f', repl') \<Longrightarrow> ids_distinct f \<Longrightarrow> func_kept f f'"
proof (induction n repl f arbitrary: f' repl' rule: peephole_iterate.induct)
  case (2 n repl f)
  obtain f1 repl1 c where r: "peephole_blocks repl (array_ids f) f = (f1, repl1, c)" by (metis prod_cases3)
  have k: "func_kept f f1" using peephole_blocks_kept [OF r "2.prems"(2)] .
  then show ?case
    using "2.IH" [OF r [symmetric] refl refl] "2.prems" r func_kept_trans func_kept_distinct [OF k]
    by (auto split: if_splits)
qed simp

lemma pinned_map_resolve: "pinned (map (resolve_operands repl) insts) = pinned insts"
  by (induction insts) (auto simp: pinned_def)

lemma pinned_filter_dead: "pinned (filter (\<lambda>i. \<not> dead_inst n f i) insts) = pinned insts"
  by (induction insts) (auto simp: pinned_Cons dead_inst_def)

lemma dce_iterate_kept: "func_kept f (dce_iterate n nrepl f)"
proof (induction n arbitrary: f)
  case (Suc n)
  have "func_kept f (map_array_blocks (filter (\<lambda>i. \<not> dead_inst nrepl f i)) f)"
    by (rule func_kept_map_array) (simp_all add: pinned_filter_dead)
  then show ?case using Suc func_kept_trans by auto
qed simp

lemma run_passes_kept:
  assumes "run_func_peephole_passes mem f = (0, f')" and "ids_distinct f"
  shows "func_kept f f'"
proof (cases "num_blocks f = 0")
  case False
  let ?n = "if 0 < next_vreg f then unat (next_vreg f) else 1"
  obtain f1 repl where r: "peephole_iterate 6 (replicate ?n None) f = (f1, repl)" by fastforce
  let ?f2 = "map_array_blocks (map (resolve_operands repl)) f1"
  have "func_kept f1 ?f2" by (rule func_kept_map_array) (simp_all add: pinned_map_resolve)
  moreover have "f' = dce_iterate 8 ?n ?f2"
    using assms(1) False r by (simp add: run_func_peephole_passes_def Let_def split: if_splits)
  ultimately show ?thesis
    using peephole_iterate_kept [OF r assms(2)] func_kept_trans dce_iterate_kept by blast
qed (use assms in \<open>simp add: run_func_peephole_passes_def\<close>)

section \<open>The arrays\<close>

text \<open>A function as the builder leaves it: blocks numbered in order, nothing cached.\<close>

definition dense_ids :: "lr_func \<Rightarrow> bool" where
  "dense_ids f \<longleftrightarrow> map blk_id (blocks f) = map of_nat [0..<unat (num_blocks f)]"

definition fresh_func :: "lr_func \<Rightarrow> bool" where
  "fresh_func f \<longleftrightarrow> dense_ids f \<and> num_blocks f \<noteq> 0 \<and> block_array f = None \<and> linear_inst_array f = None \<and>
     block_inst_offsets f = None"

lemma dense_length: "dense_ids f \<Longrightarrow> length (blocks f) = unat (num_blocks f)"
  unfolding dense_ids_def by (metis length_map length_upt diff_zero)

lemma u32_small: "i < unat (n :: u32) \<Longrightarrow> unat (of_nat i :: u32) = i"
  by (metis order_less_trans unat_of_nat_small unsigned_less)

lemma dense_nth: "dense_ids f \<Longrightarrow> i < unat (num_blocks f) \<Longrightarrow> blk_id (blocks f ! i) = of_nat i"
  using dense_length [of f] unfolding dense_ids_def by (metis add_0 diff_zero length_upt nth_map nth_upt)

lemma dense_distinct: "dense_ids f \<Longrightarrow> ids_distinct f"
proof -
  assume "dense_ids f"
  moreover have "inj_on (of_nat :: nat \<Rightarrow> u32) {0..<unat (num_blocks f)}"
  proof (rule inj_onI)
    fix x y :: nat
    assume "x \<in> {0..<unat (num_blocks f)}" "y \<in> {0..<unat (num_blocks f)}" "of_nat x = (of_nat y :: u32)"
    then show "x = y" using u32_small by (metis atLeastLessThan_iff)
  qed
  ultimately show ?thesis by (simp add: dense_ids_def ids_distinct_def distinct_map)
qed

lemma find_block_dense:
  assumes "dense_ids f" and "i < unat (num_blocks f)"
  shows "find_block f (of_nat i) = Some (blocks f ! i)"
proof -
  have m: "blocks f ! i \<in> set (blocks f)" using assms by (simp add: dense_length)
  have "find (\<lambda>b. blk_id b = of_nat i) (blocks f) \<noteq> None"
    using m dense_nth [OF assms] by (auto simp: find_None_iff)
  then obtain b where b: "find_block f (of_nat i) = Some b" by (auto simp: find_block_def)
  then show ?thesis
    using find_block_Some [OF b] m dense_nth [OF assms] ids_distinct_unique [OF dense_distinct [OF assms(1)]] by auto
qed

lemma fill_block_array_run:
  assumes "map blk_id bs = map of_nat [k..<n]" and "k \<le> n" and "n \<le> unat (N :: u32)"
  shows "fill_block_array (map (\<lambda>a. Some (of_nat a)) [0..<k] @ replicate (n - k) None) bs
    = Some (map (\<lambda>a. Some (of_nat a)) [0..<n])"
  using assms
proof (induction bs arbitrary: k)
  case (Cons b bs)
  have k: "k < n" using Cons.prems by (cases "k < n") auto
  then have ids: "blk_id b = of_nat k" "map blk_id bs = map of_nat [Suc k..<n]"
    using Cons.prems(1) by (simp_all add: upt_conv_Cons)
  have u: "unat (blk_id b) = k" using ids(1) k Cons.prems(3) by (simp add: u32_small [of k N])
  have "(map (\<lambda>a. Some (of_nat a)) [0..<k] @ replicate (n - k) None)[k := Some (of_nat k)]
      = map (\<lambda>a. Some (of_nat a)) [0..<Suc k] @ replicate (n - Suc k) (None :: u32 option)"
    using k by (simp add: list_update_append Suc_diff_Suc [symmetric])
  then show ?case using Cons.IH [OF ids(2)] k u ids(1) Cons.prems(3) by simp
qed auto

lemma fill_block_array_dense:
  assumes "dense_ids f"
  shows "fill_block_array (replicate (unat (num_blocks f)) None) (blocks f)
    = Some (map (\<lambda>a. Some (of_nat a)) [0..<unat (num_blocks f)])"
  using fill_block_array_run [of "blocks f" 0 "unat (num_blocks f)" "num_blocks f"] assms
  by (simp add: dense_ids_def)

lemma build_inst_array_idem [simp]: "build_inst_array (build_inst_array b) = build_inst_array b"
  by (simp add: build_inst_array_def)

lemma build_inst_array_id [simp]: "blk_id (build_inst_array b) = blk_id b"
  by (simp add: build_inst_array_def)

lemma build_inst_arrays_total:
  "build_inst_arrays (\<lambda>_. True) bids f =
     Some (f\<lparr>blocks := map (\<lambda>b. if blk_id b \<in> set bids then build_inst_array b else b) (blocks f)\<rparr>)"
proof (induction bids arbitrary: f)
  case (Cons bid bids)
  show ?case
  proof (cases "find_block f bid")
    case None
    then have "blk_id b \<noteq> bid" if "b \<in> set (blocks f)" for b
      using that by (auto simp: find_block_def find_None_iff)
    then have "map (\<lambda>b. if blk_id b \<in> set (bid # bids) then build_inst_array b else b) (blocks f)
        = map (\<lambda>b. if blk_id b \<in> set bids then build_inst_array b else b) (blocks f)" by auto
    then show ?thesis using None Cons.IH [of f] by simp
  next
    case (Some b)
    have "map (\<lambda>b. if blk_id b \<in> set bids then build_inst_array b else b) (blocks (update_block bid build_inst_array f))
        = map (\<lambda>b. if blk_id b \<in> set (bid # bids) then build_inst_array b else b) (blocks f)"
      by (auto simp: update_block_def)
    then show ?thesis using Some Cons.IH [of "update_block bid build_inst_array f"]
      by (simp add: update_block_def)
  qed
qed simp

lemma slot_addrs_dense:
  assumes "dense_ids f" and "i < unat (num_blocks f)" and "blocks f ! i = build_inst_array b"
    and "length (blk_insts b) < 2 ^ 32"
  shows "slot_addrs f (Some (of_nat i)) = map inst_addr (blk_insts b)"
  using assms find_block_dense [OF assms(1,2)]
  by (simp add: slot_addrs_def build_inst_array_def unat_of_nat_small)

lemma length_slot_offsets [simp]: "length (slot_offsets at xss) = Suc (length xss)"
  by (induction xss arbitrary: at) auto

lemma nth_slot_offsets:
  "i \<le> length xss \<Longrightarrow> slot_offsets at xss ! i = at + of_nat (length (concat (take i xss)))"
proof (induction xss arbitrary: at i)
  case (Cons xs xss)
  then show ?case by (cases i) (auto simp: algebra_simps)
qed simp

lemma length_concat_member: "x \<in> set xss \<Longrightarrow> length x \<le> length (concat xss)"
  by (induction xss) auto

lemma concat_slice:
  "i < length xss \<Longrightarrow> take (length (xss ! i)) (drop (length (concat (take i xss))) (concat xss)) = xss ! i"
proof (induction xss arbitrary: i)
  case (Cons xs xss)
  then show ?case by (cases i) auto
qed simp

text \<open>The addresses of the instructions, block by block.\<close>

definition block_addrs :: "lr_func \<Rightarrow> nat list list" where
  "block_addrs f = map (\<lambda>b. map inst_addr (blk_insts b)) (blocks f)"

definition linear_of :: "lr_func \<Rightarrow> nat list" where
  "linear_of f = (case linear_inst_array f of None \<Rightarrow> [] | Some xs \<Rightarrow> xs)"

lemma length_concat_kept:
  "list_all2 block_kept xs ys \<Longrightarrow>
   length (concat (map (\<lambda>b. map inst_addr (blk_insts b)) ys)) \<le> length (concat (map (\<lambda>b. map inst_addr (blk_insts b)) xs))"
  by (induction rule: list_all2_induct) (auto simp: block_kept_def)

text \<open>The last stage: the linear array and the offsets, from blocks with their instruction arrays.\<close>

lemma build_linear_array_total:
  assumes "dense_ids f" and "linear_inst_array f = None" and "length (concat (block_addrs f)) < 2 ^ 32"
    and "block_array f = Some (map (\<lambda>a. Some (of_nat a)) [0..<unat (num_blocks f)])"
    and "\<And>b. b \<in> set (blocks f) \<Longrightarrow> build_inst_array b = b"
  shows "build_linear_array (\<lambda>_. True) f = Some (f\<lparr>num_linear_insts := of_nat (length (concat (block_addrs f))),
      linear_inst_array := (if concat (block_addrs f) = [] then None else Some (concat (block_addrs f))),
      block_inst_offsets := Some (slot_offsets 0 (block_addrs f))\<rparr>)"
proof -
  have "map (slot_addrs f) (the (block_array f)) = block_addrs f"
  proof (rule nth_equalityI)
    show "length (map (slot_addrs f) (the (block_array f))) = length (block_addrs f)"
      using assms(1,4) by (simp add: block_addrs_def dense_length)
    fix i assume "i < length (map (slot_addrs f) (the (block_array f)))"
    then have i: "i < unat (num_blocks f)" using assms(4) by simp
    then have m: "blocks f ! i \<in> set (blocks f)" using assms(1) by (simp add: dense_length)
    have "length (blk_insts (blocks f ! i)) \<le> length (concat (block_addrs f))"
      using length_concat_member [of "map inst_addr (blk_insts (blocks f ! i))" "block_addrs f"] m
      by (simp add: block_addrs_def)
    then have "slot_addrs f (Some (of_nat i)) = map inst_addr (blk_insts (blocks f ! i))"
      using slot_addrs_dense [OF assms(1) i, of "blocks f ! i"] assms(3,5) m by simp
    then show "map (slot_addrs f) (the (block_array f)) ! i = block_addrs f ! i"
      using i assms(1,4) by (simp add: block_addrs_def dense_length)
  qed
  then show ?thesis using assms(2) by (simp add: build_linear_array_def Let_def)
qed

lemma run_passes_total: "fst (run_func_peephole_passes (\<lambda>_. True) f) = 0"
  by (simp add: run_func_peephole_passes_def Let_def split: prod.split)

lemma dense_kept: "func_kept f g \<Longrightarrow> dense_ids f \<Longrightarrow> dense_ids g"
  using func_kept_ids [of f g] by (auto simp: dense_ids_def func_kept_def)

text \<open>Finalizing a fresh function, stage by stage.\<close>

lemma finalize_fresh:
  assumes "fresh_func f" and "length (concat (block_addrs f)) < 2 ^ 32"
  obtains g where "func_kept f g" and "lr_func_finalize (\<lambda>_. True) f = Inr
    (g\<lparr>block_array := Some (map (\<lambda>a. Some (of_nat a)) [0..<unat (num_blocks f)]),
       blocks := map build_inst_array (blocks g),
       num_linear_insts := of_nat (length (concat (block_addrs g))),
       linear_inst_array := (if concat (block_addrs g) = [] then None else Some (concat (block_addrs g))),
       block_inst_offsets := Some (slot_offsets 0 (block_addrs g))\<rparr>)"
proof -
  have fr: "dense_ids f" "num_blocks f \<noteq> 0" "block_array f = None" "linear_inst_array f = None"
    "block_inst_offsets f = None" using assms(1) by (auto simp: fresh_func_def)
  let ?arr = "map (\<lambda>a. Some (of_nat a)) [0..<unat (num_blocks f)] :: u32 option list"
  let ?f1 = "f\<lparr>block_array := Some ?arr\<rparr>"
  have d1: "dense_ids ?f1" using fr(1) by (simp add: dense_ids_def)
  obtain f2 where f2: "run_func_peephole_passes (\<lambda>_. True) ?f1 = (0, f2)"
    using run_passes_total [of ?f1] by (metis prod.collapse)
  have k: "func_kept ?f1 f2" using run_passes_kept [OF f2 dense_distinct [OF d1]] .
  then obtain bs where bs: "f2 = ?f1\<lparr>blocks := bs\<rparr>" "list_all2 block_kept (blocks f) bs"
    by (auto simp: func_kept_def)
  have d2: "dense_ids f2" using dense_kept [OF k d1] .
  define g where "g = f\<lparr>blocks := bs\<rparr>"
  have kg: "func_kept f g" using bs(2) by (auto simp: func_kept_def g_def)
  have len: "length (concat (block_addrs g)) < 2 ^ 32"
    using length_concat_kept [OF bs(2)] assms(2) by (simp add: block_addrs_def g_def)
  have ids: "array_ids f2 = map of_nat [0..<unat (num_blocks f)]"
    by (simp add: array_ids_def bs(1) comp_def)
  have "array_ids f2 = map blk_id bs" using ids d2 by (simp add: dense_ids_def bs(1))
  then have in_ids: "blk_id b \<in> set (array_ids f2)" if "b \<in> set bs" for b using that by simp
  have f3: "build_inst_arrays (\<lambda>_. True) (array_ids f2) f2 = Some (f2\<lparr>blocks := map build_inst_array bs\<rparr>)"
    unfolding build_inst_arrays_total using in_ids by (simp add: bs(1) cong: map_cong)
  let ?f4 = "f2\<lparr>blocks := map build_inst_array bs,
    block_inst_offsets := Some (replicate (unat (num_blocks f) + 1) 0)\<rparr>"
  have addrs: "block_addrs ?f4 = block_addrs g"
    by (simp add: block_addrs_def g_def build_inst_array_def comp_def)
  have d4: "dense_ids ?f4" using d2 by (simp add: dense_ids_def bs(1) comp_def)
  have lin: "build_linear_array (\<lambda>_. True) ?f4 = Some (?f4\<lparr>num_linear_insts := of_nat (length (concat (block_addrs g))),
      linear_inst_array := (if concat (block_addrs g) = [] then None else Some (concat (block_addrs g))),
      block_inst_offsets := Some (slot_offsets 0 (block_addrs g))\<rparr>)"
    by (rule build_linear_array_total [OF d4, unfolded addrs]) (use fr(4) len in \<open>auto simp: bs(1)\<close>)
  have nf: "\<not> lr_func_is_finalized f" using fr(2,3) by (simp add: lr_func_is_finalized_def)
  have "lr_func_finalize (\<lambda>_. True) f = Inr (?f4\<lparr>num_linear_insts := of_nat (length (concat (block_addrs g))),
      linear_inst_array := (if concat (block_addrs g) = [] then None else Some (concat (block_addrs g))),
      block_inst_offsets := Some (slot_offsets 0 (block_addrs g))\<rparr>)"
    using nf fr f2 f3 lin fill_block_array_dense [OF fr(1)]
    by (simp add: lr_func_finalize_def bs(1))
  then show ?thesis using that [OF kg] by (simp add: bs(1) g_def)
qed

lemma array_insts_dense:
  assumes "dense_ids f" and "block_array f = Some (map (\<lambda>a. Some (of_nat a)) [0..<unat (num_blocks f)])"
  shows "array_insts f = concat (map blk_insts (blocks f))"
proof -
  have "map (\<lambda>bid. case find_block f bid of None \<Rightarrow> [] | Some b \<Rightarrow> blk_insts b) (array_ids f) = map blk_insts (blocks f)"
    using assms by (intro nth_equalityI) (simp_all add: array_ids_def comp_def dense_length find_block_dense)
  then show ?thesis by (simp add: array_insts_def)
qed

lemma finalized_shape:
  assumes d: "dense_ids f" and n: "num_blocks f \<noteq> 0"
    and arr: "block_array f = Some (map (\<lambda>a. Some (of_nat a)) [0..<unat (num_blocks f)])"
    and offs: "block_inst_offsets f = Some (slot_offsets 0 (block_addrs f))"
    and num: "num_linear_insts f = of_nat (length (concat (block_addrs f)))"
    and lin: "linear_inst_array f = (if concat (block_addrs f) = [] then None else Some (concat (block_addrs f)))"
    and ia: "\<And>b. b \<in> set (blocks f) \<Longrightarrow> blk_insts b = [] \<or> inst_array b \<noteq> None"
  shows "lr_func_is_finalized f"
proof -
  have has: "array_insts f = [] \<longleftrightarrow> concat (block_addrs f) = []"
    using array_insts_dense [OF d arr] by (simp add: block_addrs_def)
  have last: "slot_offsets 0 (block_addrs f) ! unat (num_blocks f) = num_linear_insts f"
    using nth_slot_offsets [of "unat (num_blocks f)" "block_addrs f" 0] num
    by (simp add: block_addrs_def dense_length [OF d])
  have "case find_block f (of_nat i) of None \<Rightarrow> False | Some b \<Rightarrow> blk_insts b = [] \<or> inst_array b \<noteq> None"
    if "i < unat (num_blocks f)" for i
    using find_block_dense [OF d that] ia [of "blocks f ! i"] that dense_length [OF d] by simp
  moreover have "array_insts f = [] \<Longrightarrow> num_linear_insts f = 0"
    unfolding has num by (simp only: list.size(3)) simp
  moreover have "array_insts f \<noteq> [] \<Longrightarrow> linear_inst_array f \<noteq> None" using has lin by simp
  ultimately show ?thesis
    using n arr offs last by (auto simp: lr_func_is_finalized_def list_all_iff)
qed

section \<open>Properties\<close>

text \<open>C16: finalizing a function whose blocks the builder created succeeds when the arena has room,
  and the result is finalized: for every block, the slice of the linear instruction array that
  starts at the block's offset holds exactly the addresses of the block's instructions, in order,
  and the slices make up the whole array.  Finalizing it again changes nothing.\<close>

theorem finalize_arrays_agree:
  assumes "fresh_func f" and "length (concat (block_addrs f)) < 2 ^ 32"
  shows "\<exists>f' offs. lr_func_finalize (\<lambda>_. True) f = Inr f' \<and> lr_func_is_finalized f' \<and>
    lr_func_finalize (\<lambda>_. True) f' = Inr f' \<and>
    block_inst_offsets f' = Some offs \<and> linear_of f' = concat (block_addrs f') \<and>
    (\<forall>i < length (blocks f'). take (length (blk_insts (blocks f' ! i))) (drop (unat (offs ! i)) (linear_of f'))
       = map inst_addr (blk_insts (blocks f' ! i)))"
proof -
  obtain g where g: "func_kept f g" "lr_func_finalize (\<lambda>_. True) f = Inr
    (g\<lparr>block_array := Some (map (\<lambda>a. Some (of_nat a)) [0..<unat (num_blocks f)]),
       blocks := map build_inst_array (blocks g),
       num_linear_insts := of_nat (length (concat (block_addrs g))),
       linear_inst_array := (if concat (block_addrs g) = [] then None else Some (concat (block_addrs g))),
       block_inst_offsets := Some (slot_offsets 0 (block_addrs g))\<rparr>)" (is "_ = Inr ?f'")
    using finalize_fresh [OF assms] by blast
  have len: "length (concat (block_addrs g)) < 2 ^ 32"
    using length_concat_kept g(1) assms(2) by (fastforce simp: func_kept_def block_addrs_def)
  have fr: "dense_ids f" "num_blocks f \<noteq> 0" using assms(1) by (auto simp: fresh_func_def)
  have dg: "dense_ids g" "num_blocks g = num_blocks f" using dense_kept [OF g(1) fr(1)] g(1) by (auto simp: func_kept_def)
  have addrs: "block_addrs ?f' = block_addrs g" by (simp add: block_addrs_def build_inst_array_def comp_def)
  have lin: "linear_of ?f' = concat (block_addrs g)" by (simp add: linear_of_def)
  have nb: "length (blocks g) = unat (num_blocks f)" using dense_length [OF dg(1)] dg(2) by simp
  have d': "dense_ids ?f'" using dg by (simp add: dense_ids_def comp_def)
  have slice: "take (length (blk_insts (blocks ?f' ! i))) (drop (unat (slot_offsets 0 (block_addrs g) ! i)) (linear_of ?f'))
      = map inst_addr (blk_insts (blocks ?f' ! i))" if "i < length (blocks ?f')" for i
  proof -
    have i: "i < length (block_addrs g)" using that by (simp add: block_addrs_def)
    have "length (concat (take i (block_addrs g))) \<le> length (concat (block_addrs g))"
      by (metis append_take_drop_id concat_append le_add1 length_append)
    then have "unat (slot_offsets 0 (block_addrs g) ! i) = length (concat (take i (block_addrs g)))"
      using i len by (simp add: nth_slot_offsets unat_of_nat_small)
    moreover have "block_addrs g ! i = map inst_addr (blk_insts (blocks ?f' ! i))"
      using that by (simp add: block_addrs_def build_inst_array_def)
    ultimately show ?thesis using concat_slice [OF i] lin by simp
  qed
  have fin: "lr_func_is_finalized ?f'"
    by (rule finalized_shape [OF d']) (use addrs fr(2) dg(2) in \<open>auto simp: build_inst_array_def\<close>)
  then have "lr_func_finalize (\<lambda>_. True) ?f' = Inr ?f'" by (simp add: lr_func_finalize_def)
  then show ?thesis using g(2) fin lin addrs slice by (intro exI [of _ ?f'] exI) auto
qed

definition demo_func :: lr_func where
  "demo_func = (let
      f0 = \<lparr>fn_name = ''f'', symbol_id = 0, fn_type = None, ret_type = None, param_types = [], param_vregs = [],
            fn_vararg = False, is_decl = False, uses_llvm_abi = False, blocks = [], block_array = None,
            linear_inst_array = None, block_inst_offsets = None, num_linear_insts = 0, num_blocks = 0, next_vreg = 0\<rparr>;
      f1 = snd (lr_block_create f0 ''entry'')
    in func_block_append 0 (the (lr_inst_create (Some 8) LR_OP_RET_VOID None 0 [])) f1)"

lemma demo_func_fresh: "fresh_func demo_func" "length (concat (block_addrs demo_func)) < 2 ^ 32"
  by (simp_all add: demo_func_def fresh_func_def dense_ids_def lr_block_create_def func_block_append_def
      update_block_def block_append_inst_def block_addrs_def Let_def)

theorem finalize_arrays_agree_witness:
  "\<exists>f' offs. lr_func_finalize (\<lambda>_. True) demo_func = Inr f' \<and> lr_func_is_finalized f' \<and>
    block_inst_offsets f' = Some offs \<and> linear_of f' = concat (block_addrs f')"
  using finalize_arrays_agree [OF demo_func_fresh] by blast



end
