(* ===== verification/Wasm_Decode.thy ===== *)
theory Wasm_Decode
  imports Liric_Prelude "HOL-Library.State_Monad"
begin

text \<open>
  The WebAssembly binary decoder (\<^verbatim>\<open>src/src/wasm_decode.c\<close>): the LEB128 readers, the cursor and
  its readers, the section decoders and the section loop.

  Readers are state monads over the cursor.  \<open>oob\<close> is a ghost field of the cursor: it is set when
  the code reads a byte outside the input buffer, which the C code does not notice; the value of
  such a byte is zero here, and nothing is claimed of a run that set the flag.  The ghost field
  \<open>past_end\<close> is set where the code moves the position or the end of a section past the end of what
  encloses it.  A pointer into the
  input is the offset it points to.  Arena allocation does not fail in this model.
\<close>

section \<open>LEB128\<close>

text \<open>The readers see \<open>len\<close> bytes through \<open>buf\<close>.  The result is the number of bytes and the
  value, \<open>None\<close> for the return value 0.  The shift is seven times the number of bytes read.\<close>

function leb_u32 :: "(nat \<Rightarrow> u8) \<Rightarrow> nat \<Rightarrow> nat \<Rightarrow> u32 \<Rightarrow> (nat \<times> u32) option" where
  "leb_u32 buf len i result =
     (if i < len
      then let b = buf i; r = result OR push_bit (7 * i) (ucast (b AND 0x7F))
           in if b AND 0x80 = 0 then Some (i + 1, r)
              else if 35 \<le> 7 * (i + 1) then None
              else leb_u32 buf len (i + 1) r
      else None)"
  by pat_completeness auto
termination by (relation "measure (\<lambda>(_, _, i, _). 5 - i)") auto

declare leb_u32.simps [simp del]

definition lr_wasm_read_leb_u32 :: "(nat \<Rightarrow> u8) \<Rightarrow> nat \<Rightarrow> (nat \<times> u32) option" where
  "lr_wasm_read_leb_u32 buf len = leb_u32 buf len 0 0"

text \<open>The loop of the signed readers ends with the bytes read, the accumulated value and the last
  byte: at a byte without continuation bit, but also at the end of the input.\<close>

function leb_signed :: "nat \<Rightarrow> (nat \<Rightarrow> u8) \<Rightarrow> nat \<Rightarrow> nat \<Rightarrow> 'a::len word \<Rightarrow> u8 \<Rightarrow> (nat \<times> 'a word \<times> u8) option" where
  "leb_signed limit buf len i result b0 =
     (if i < len
      then let b = buf i; r = result OR push_bit (7 * i) (ucast (b AND 0x7F))
           in if b AND 0x80 = 0 then Some (i + 1, r, b)
              else if limit \<le> 7 * (i + 1) then None
              else leb_signed limit buf len (i + 1) r b
      else Some (i, result, b0))"
  by pat_completeness auto
termination by (relation "measure (\<lambda>(limit, _, _, i, _, _). limit - i)") auto

declare leb_signed.simps [simp del]

definition leb_sign_extend :: "nat \<Rightarrow> 'a::len word \<Rightarrow> u8 \<Rightarrow> 'a word" where
  "leb_sign_extend i result b =
     (if 7 * i < LENGTH('a) \<and> b AND 0x40 \<noteq> 0 then result OR - push_bit (7 * i) 1 else result)"

definition read_leb_signed :: "nat \<Rightarrow> (nat \<Rightarrow> u8) \<Rightarrow> nat \<Rightarrow> (nat \<times> 'a::len word) option" where
  "read_leb_signed limit buf len =
     (case leb_signed limit buf len 0 0 0 of None \<Rightarrow> None
      | Some (i, result, b) \<Rightarrow> if i = 0 then None else Some (i, leb_sign_extend i result b))"

definition lr_wasm_read_leb_i32 :: "(nat \<Rightarrow> u8) \<Rightarrow> nat \<Rightarrow> (nat \<times> u32) option" where
  "lr_wasm_read_leb_i32 buf len = read_leb_signed 35 buf len"

definition lr_wasm_read_leb_i64 :: "(nat \<Rightarrow> u8) \<Rightarrow> nat \<Rightarrow> (nat \<times> u64) option" where
  "lr_wasm_read_leb_i64 buf len = read_leb_signed 70 buf len"

section \<open>The cursor\<close>

record cursor =
  cdata :: bytes
  clen :: u64
  cpos :: u64
  cfailed :: bool
  cerr :: "(string \<times> u64) option"
  oob :: bool
  past_end :: bool

type_synonym 'a reader = "(cursor, 'a) state"

definition cget :: "(cursor \<Rightarrow> 'a) \<Rightarrow> 'a reader" where
  "cget f = State (\<lambda>c. (f c, c))"

definition cmod :: "(cursor \<Rightarrow> cursor) \<Rightarrow> unit reader" where
  "cmod f = State (\<lambda>c. ((), f c))"

lemma run_cget [simp]: "run_state (cget f) c = (f c, c)"
  by (simp add: cget_def)

lemma run_cmod [simp]: "run_state (cmod f) c = ((), f c)"
  by (simp add: cmod_def)

text \<open>The byte at an offset of the input, and the record of a read of \<open>n\<close> bytes there.\<close>

definition byte_at :: "cursor \<Rightarrow> nat \<Rightarrow> u8" where
  "byte_at c i = (if i < length (cdata c) then cdata c ! i else 0)"

definition note_read :: "nat \<Rightarrow> nat \<Rightarrow> cursor \<Rightarrow> cursor" where
  "note_read off n c = (if off + n \<le> length (cdata c) then c else c\<lparr>oob := True\<rparr>)"

definition cur_u8 :: "u8 reader" where
  "cur_u8 = State (\<lambda>c.
     if clen c \<le> cpos c then (0, c\<lparr>cfailed := True\<rparr>)
     else (byte_at c (unat (cpos c)), (note_read (unat (cpos c)) 1 c)\<lparr>cpos := cpos c + 1\<rparr>))"

text \<open>A LEB reader on the rest of the cursor.  \<open>most\<close> is the number of bytes the reader looks
  at before it gives up.\<close>

definition cur_leb :: "nat \<Rightarrow> ((nat \<Rightarrow> u8) \<Rightarrow> nat \<Rightarrow> (nat \<times> 'a::zero) option) \<Rightarrow> 'a reader" where
  "cur_leb most rd = State (\<lambda>c.
     let pos = unat (cpos c); len = unat (clen c - cpos c)
     in case rd (\<lambda>i. byte_at c (pos + i)) len of
          None \<Rightarrow> (0, (note_read pos (min len most) c)\<lparr>cfailed := True\<rparr>)
        | Some (n, v) \<Rightarrow> (v, (note_read pos n c)\<lparr>cpos := cpos c + of_nat n\<rparr>))"

definition cur_u32 :: "u32 reader" where
  "cur_u32 = cur_leb 5 lr_wasm_read_leb_u32"

definition cur_i32 :: "u32 reader" where
  "cur_i32 = cur_leb 5 lr_wasm_read_leb_i32"

definition cur_i64 :: "u64 reader" where
  "cur_i64 = cur_leb 10 lr_wasm_read_leb_i64"

definition cur_u32_le :: "u32 reader" where
  "cur_u32_le = State (\<lambda>c.
     if clen c < cpos c + 4 then (0, c\<lparr>cfailed := True\<rparr>)
     else let p = unat (cpos c)
          in (le_join (map (\<lambda>i. byte_at c (p + i)) [0..<4]), (note_read p 4 c)\<lparr>cpos := cpos c + 4\<rparr>))"

text \<open>\<^verbatim>\<open>cur_bytes\<close> returns a pointer and does not read.\<close>

definition cur_bytes :: "u64 \<Rightarrow> u64 option reader" where
  "cur_bytes n = State (\<lambda>c.
     if clen c < cpos c + n then (None, c\<lparr>cfailed := True\<rparr>)
     else (Some (cpos c), c\<lparr>cpos := cpos c + n\<rparr>))"

definition read_copy :: "u64 \<Rightarrow> u32 \<Rightarrow> bytes reader" where
  "read_copy p n = State (\<lambda>c.
     (map (\<lambda>i. byte_at c (unat p + i)) [0..<unat n], note_read (unat p) (unat n) c))"

definition cur_name :: "bytes option reader" where
  "cur_name = do {
     len \<leftarrow> cur_u32;
     failed \<leftarrow> cget cfailed;
     if failed then State_Monad.return None
     else do {
       p \<leftarrow> cur_bytes (ucast len);
       (case p of None \<Rightarrow> State_Monad.return None
        | Some q \<Rightarrow> do { s \<leftarrow> read_copy q len; State_Monad.return (Some s) })
     }
   }"

definition cur_err :: "string \<Rightarrow> unit reader" where
  "cur_err msg = cmod (\<lambda>c. c\<lparr>cerr := Some (msg, cpos c), cfailed := True\<rparr>)"

text \<open>\<^verbatim>\<open>for (i = 0; i < count && !c->failed; i++)\<close>.\<close>

fun cur_loop :: "nat \<Rightarrow> 'a reader \<Rightarrow> 'a list reader" where
  "cur_loop 0 body = State_Monad.return []"
| "cur_loop (Suc n) body = do {
     failed \<leftarrow> cget cfailed;
     if failed then State_Monad.return []
     else do { x \<leftarrow> body; xs \<leftarrow> cur_loop n body; State_Monad.return (x # xs) }
   }"

text \<open>A section that is a counted sequence of entries.\<close>

definition cur_counted :: "'a reader \<Rightarrow> 'a list reader" where
  "cur_counted body = do {
     count \<leftarrow> cur_u32;
     failed \<leftarrow> cget cfailed;
     if failed then State_Monad.return [] else cur_loop (unat count) body
   }"

section \<open>The module\<close>

record lr_wasm_functype =
  ft_params :: bytes
  ft_results :: bytes

record lr_wasm_import =
  imp_module_name :: "bytes option"
  imp_name :: "bytes option"
  imp_kind :: u8
  imp_type_idx :: u32

record lr_wasm_export =
  exp_name :: "bytes option"
  exp_kind :: u8
  exp_index :: u32

record lr_wasm_local_group =
  lg_count :: u32
  lg_type :: u8

record lr_wasm_code =
  local_groups :: "lr_wasm_local_group list"
  code_body :: u64
  body_len :: u64

record lr_wasm_memory =
  min_pages :: u32
  max_pages :: u32
  has_max :: bool

record lr_wasm_global =
  wg_type :: u8
  wg_mutable :: bool
  init_i64 :: u64

record lr_wasm_data =
  memory_idx :: u32
  data_offset :: u32
  data_bytes :: "u64 option"
  data_size :: u32

record lr_wasm_module =
  wm_types :: "lr_wasm_functype list"
  wm_imports :: "lr_wasm_import list"
  wm_func_type_indices :: "u32 list"
  wm_exports :: "lr_wasm_export list"
  wm_codes :: "lr_wasm_code list"
  wm_memories :: "lr_wasm_memory list"
  wm_globals :: "lr_wasm_global list"
  wm_data :: "lr_wasm_data list"
  wm_num_func_imports :: u32

section \<open>The section decoders\<close>

text \<open>An entry that reports an error ends the decoding; the loop sees it through the failed flag.\<close>

definition read_byte_vec :: "bytes reader" where
  "read_byte_vec = do { n \<leftarrow> cur_u32; cur_loop (unat n) cur_u8 }"

definition decode_functype :: "lr_wasm_functype reader" where
  "decode_functype = do {
     form \<leftarrow> cur_u8;
     if form \<noteq> 0x60
     then do { _ \<leftarrow> cur_err ''expected functype 0x60''; State_Monad.return \<lparr>ft_params = [], ft_results = []\<rparr> }
     else do {
       ps \<leftarrow> read_byte_vec;
       rs \<leftarrow> read_byte_vec;
       State_Monad.return \<lparr>ft_params = ps, ft_results = rs\<rparr>
     }
   }"

definition decode_type_section :: "lr_wasm_functype list reader" where
  "decode_type_section = cur_counted decode_functype"

text \<open>The payload of an import; the index of the type for a function.\<close>

definition import_payload :: "u8 \<Rightarrow> u32 reader" where
  "import_payload kind =
     (if kind = 0 then cur_u32
      else if kind = 1 then do { _ \<leftarrow> cur_u8; _ \<leftarrow> cur_u32; State_Monad.return 0 }
      else if kind = 2 then do {
        flags \<leftarrow> cur_u8;
        _ \<leftarrow> cur_u32;
        _ \<leftarrow> (if flags AND 1 \<noteq> 0 then cur_u32 else State_Monad.return 0);
        State_Monad.return 0
      }
      else if kind = 3 then do { _ \<leftarrow> cur_u8; _ \<leftarrow> cur_u8; State_Monad.return 0 }
      else do { _ \<leftarrow> cur_err ''unknown import kind''; State_Monad.return 0 })"

definition decode_import :: "lr_wasm_import reader" where
  "decode_import = do {
     module_name \<leftarrow> cur_name;
     name \<leftarrow> cur_name;
     kind \<leftarrow> cur_u8;
     type_idx \<leftarrow> import_payload kind;
     State_Monad.return \<lparr>imp_module_name = module_name, imp_name = name, imp_kind = kind, imp_type_idx = type_idx\<rparr>
   }"

definition decode_import_section :: "lr_wasm_import list reader" where
  "decode_import_section = cur_counted decode_import"

definition decode_function_section :: "u32 list reader" where
  "decode_function_section = cur_counted cur_u32"

definition decode_memory :: "lr_wasm_memory reader" where
  "decode_memory = do {
     flags \<leftarrow> cur_u8;
     lo \<leftarrow> cur_u32;
     if flags AND 1 \<noteq> 0
     then do { hi \<leftarrow> cur_u32; State_Monad.return \<lparr>min_pages = lo, max_pages = hi, has_max = True\<rparr> }
     else State_Monad.return \<lparr>min_pages = lo, max_pages = 0, has_max = False\<rparr>
   }"

definition decode_memory_section :: "lr_wasm_memory list reader" where
  "decode_memory_section = cur_counted decode_memory"

definition decode_global :: "lr_wasm_global reader" where
  "decode_global = do {
     type \<leftarrow> cur_u8;
     mut \<leftarrow> cur_u8;
     op \<leftarrow> cur_u8;
     init \<leftarrow> (if op = 0x41 then do { v \<leftarrow> cur_i32; State_Monad.return (scast v) }
             else if op = 0x42 then cur_i64 else State_Monad.return 0);
     fin \<leftarrow> cur_u8;
     _ \<leftarrow> (if fin \<noteq> 0x0B then cur_err ''expected end in init expr'' else State_Monad.return ());
     State_Monad.return \<lparr>wg_type = type, wg_mutable = (mut \<noteq> 0), init_i64 = init\<rparr>
   }"

definition decode_global_section :: "lr_wasm_global list reader" where
  "decode_global_section = cur_counted decode_global"

definition decode_export :: "lr_wasm_export reader" where
  "decode_export = do {
     name \<leftarrow> cur_name;
     kind \<leftarrow> cur_u8;
     index \<leftarrow> cur_u32;
     State_Monad.return \<lparr>exp_name = name, exp_kind = kind, exp_index = index\<rparr>
   }"

definition decode_export_section :: "lr_wasm_export list reader" where
  "decode_export_section = cur_counted decode_export"

definition decode_local_group :: "lr_wasm_local_group reader" where
  "decode_local_group = do {
     count \<leftarrow> cur_u32;
     type \<leftarrow> cur_u8;
     State_Monad.return \<lparr>lg_count = count, lg_type = type\<rparr>
   }"

text \<open>\<^verbatim>\<open>c->pos = body_start + body_size\<close>, which is not compared with the end of the section.\<close>

definition cur_skip_to :: "u64 \<Rightarrow> unit reader" where
  "cur_skip_to p = cmod (\<lambda>c. c\<lparr>cpos := p, past_end := past_end c \<or> clen c < p\<rparr>)"

definition decode_code :: "lr_wasm_code reader" where
  "decode_code = do {
     body_size \<leftarrow> cur_u32;
     body_start \<leftarrow> cget cpos;
     num_local_groups \<leftarrow> cur_u32;
     groups \<leftarrow> cur_loop (unat num_local_groups) decode_local_group;
     pos \<leftarrow> cget cpos;
     _ \<leftarrow> cur_skip_to (body_start + ucast body_size);
     State_Monad.return \<lparr>local_groups = groups, code_body = pos, body_len = ucast body_size - (pos - body_start)\<rparr>
   }"

definition decode_code_section :: "lr_wasm_code list reader" where
  "decode_code_section = cur_counted decode_code"

text \<open>The offset expression of an active segment: the offset, or \<open>None\<close> after the error return.\<close>

definition decode_data_offset :: "u32 \<Rightarrow> u32 option reader" where
  "decode_data_offset seg_flags =
     (if seg_flags AND 1 \<noteq> 0 then State_Monad.return (Some 0)
      else do {
        op \<leftarrow> cur_u8;
        off \<leftarrow> (if op = 0x41 then cur_i32 else State_Monad.return 0);
        fin \<leftarrow> cur_u8;
        if fin \<noteq> 0x0B
        then do { _ \<leftarrow> cur_err ''expected end in data offset''; State_Monad.return None }
        else State_Monad.return (Some off)
      })"

definition decode_data :: "lr_wasm_data reader" where
  "decode_data = do {
     seg_flags \<leftarrow> cur_u32;
     mem_idx \<leftarrow> (if seg_flags AND 2 \<noteq> 0 then cur_u32 else State_Monad.return 0);
     off \<leftarrow> decode_data_offset seg_flags;
     (case off of
        None \<Rightarrow> State_Monad.return \<lparr>memory_idx = mem_idx, data_offset = 0, data_bytes = None, data_size = 0\<rparr>
      | Some o' \<Rightarrow> do {
          size \<leftarrow> cur_u32;
          p \<leftarrow> cur_bytes (ucast size);
          State_Monad.return \<lparr>memory_idx = mem_idx, data_offset = o', data_bytes = p, data_size = size\<rparr>
        })
   }"

definition decode_data_section :: "lr_wasm_data list reader" where
  "decode_data_section = cur_counted decode_data"

section \<open>The section loop\<close>

definition num_func_imports :: "lr_wasm_import list \<Rightarrow> u32" where
  "num_func_imports is = of_nat (length (filter (\<lambda>i. imp_kind i = 0) is))"

definition decode_section :: "u8 \<Rightarrow> lr_wasm_module \<Rightarrow> lr_wasm_module reader" where
  "decode_section sec_id m =
     (if sec_id = 1 then do { ts \<leftarrow> decode_type_section; State_Monad.return (m\<lparr>wm_types := ts\<rparr>) }
      else if sec_id = 2 then do {
        is \<leftarrow> decode_import_section;
        State_Monad.return (m\<lparr>wm_imports := is, wm_num_func_imports := wm_num_func_imports m + num_func_imports is\<rparr>)
      }
      else if sec_id = 3 then do { fs \<leftarrow> decode_function_section; State_Monad.return (m\<lparr>wm_func_type_indices := fs\<rparr>) }
      else if sec_id = 5 then do { ms \<leftarrow> decode_memory_section; State_Monad.return (m\<lparr>wm_memories := ms\<rparr>) }
      else if sec_id = 6 then do { gs \<leftarrow> decode_global_section; State_Monad.return (m\<lparr>wm_globals := gs\<rparr>) }
      else if sec_id = 7 then do { es \<leftarrow> decode_export_section; State_Monad.return (m\<lparr>wm_exports := es\<rparr>) }
      else if sec_id = 10 then do { cs \<leftarrow> decode_code_section; State_Monad.return (m\<lparr>wm_codes := cs\<rparr>) }
      else if sec_id = 11 then do { ds \<leftarrow> decode_data_section; State_Monad.return (m\<lparr>wm_data := ds\<rparr>) }
      else State_Monad.return m)"

text \<open>One round of the loop reads at least two bytes, so the number of bytes of the input bounds
  the rounds.  The outer \<open>None\<close> stands for a run that uses more; the inner one is the null result.\<close>

fun wasm_sections :: "nat \<Rightarrow> cursor \<Rightarrow> lr_wasm_module \<Rightarrow> (lr_wasm_module option \<times> cursor) option" where
  "wasm_sections 0 c m = None"
| "wasm_sections (Suc n) c m =
     (if cpos c < clen c \<and> \<not> cfailed c
      then let (sec_id, c1) = run_state cur_u8 c;
               (sec_len, c2) = run_state cur_u32 c1
           in if cfailed c2 then Some (None, c2)
              else let sec_end = cpos c2 + ucast sec_len;
                       (m', sc) = run_state (decode_section sec_id m)
                                    (c2\<lparr>clen := sec_end, past_end := past_end c2 \<or> clen c2 < sec_end\<rparr>)
                   in if cfailed sc then Some (None, sc)
                      else wasm_sections n (sc\<lparr>clen := clen c2, cpos := sec_end\<rparr>) m'
      else Some (if cfailed c then None else Some m, c))"

definition WASM_MAGIC :: u32 where
  "WASM_MAGIC = 0x6d736100"

definition WASM_VERSION :: u32 where
  "WASM_VERSION = 1"

definition empty_wasm_module :: lr_wasm_module where
  "empty_wasm_module = \<lparr>wm_types = [], wm_imports = [], wm_func_type_indices = [], wm_exports = [], wm_codes = [],
     wm_memories = [], wm_globals = [], wm_data = [], wm_num_func_imports = 0\<rparr>"

definition start_cursor :: "bytes \<Rightarrow> cursor" where
  "start_cursor data = \<lparr>cdata = data, clen = of_nat (length data), cpos = 0, cfailed = False, cerr = None,
     oob = False, past_end = False\<rparr>"

definition lr_wasm_decode :: "bytes \<Rightarrow> (lr_wasm_module option \<times> cursor) option" where
  "lr_wasm_decode data =
     (let (magic, c1) = run_state cur_u32_le (start_cursor data)
      in if cfailed c1 \<or> magic \<noteq> WASM_MAGIC
         then Some (None, snd (run_state (cur_err ''invalid WASM magic'') c1))
         else let (version, c2) = run_state cur_u32_le c1
              in if cfailed c2 \<or> version \<noteq> WASM_VERSION
                 then Some (None, snd (run_state (cur_err ''unsupported WASM version'') c2))
                 else wasm_sections (length data + 1) c2 empty_wasm_module)"

end
