(* ===== verification/Wasm_Leb.thy ===== *)
theory Wasm_Leb
  imports Wasm_Decode
begin

text \<open>
  The LEB128 readers of \<^verbatim>\<open>src/src/wasm_decode.c\<close> invert the encoders of the WebAssembly
  specification, at 32 and 64 bits, and what the readers do with a truncated encoding.
\<close>

text \<open>The encoders of the WebAssembly specification.\<close>

fun uleb :: "nat \<Rightarrow> bytes" where
  "uleb v = (if v < 128 then [of_nat v] else of_nat (v mod 128 + 128) # uleb (v div 128))"

function sleb :: "int \<Rightarrow> bytes" where
  "sleb v = (if - 64 \<le> v \<and> v < 64 then [of_int (v mod 128)] else of_int (v mod 128 + 128) # sleb (v div 128))"
  by pat_completeness auto
termination by (relation "measure (\<lambda>v. nat \<bar>v\<bar>)") auto

declare uleb.simps [simp del] sleb.simps [simp del]

text \<open>A byte is its low seven bits and its continuation bit.\<close>

lemma unat_low7: "unat ((b :: u8) AND 0x7F) = unat b mod 128"
proof -
  have "(0x7F :: u8) = mask 7" by (simp add: mask_eq_exp_minus_1)
  then have "b AND 0x7F = take_bit 7 b" by (simp only: take_bit_eq_mask)
  then have "unat (b AND 0x7F) = take_bit 7 (unat b)" by (simp only: unsigned_take_bit_eq)
  then show ?thesis by (simp add: take_bit_eq_mod)
qed

lemma bit_unat: "bit (b :: 'a::len word) n \<longleftrightarrow> odd (unat b div 2 ^ n)"
  by (simp add: bit_iff_odd [symmetric] bit_unsigned_iff)

lemma cont_bit: "(b :: u8) AND 0x80 = 0 \<longleftrightarrow> unat b < 128"
proof -
  have "b AND 0x80 = 0 \<longleftrightarrow> \<not> bit b 7" using and_exp_eq_0_iff_not_bit [of b 7] by simp
  moreover have "unat b < 256" using unsigned_less [of b] by simp
  then have "unat b div 128 = (if unat b < 128 then 0 else 1)" by (auto intro: div_nat_eqI)
  ultimately show ?thesis unfolding bit_unat by (simp split: if_splits)
qed

lemma or_push:
  assumes "unat r < 2 ^ k"
  shows "r OR push_bit k x = r + push_bit k (x :: 'a::len word)"
proof (rule disjunctive_add_eq_or [symmetric])
  show "r AND push_bit k x = 0"
  proof (rule bit_eqI)
    fix n
    have "r = take_bit k r" using assms by (metis take_bit_nat_eq_self unsigned_take_bit_eq unsigned_word_eqI)
    then have "bit r n \<Longrightarrow> n < k" by (metis bit_take_bit_iff)
    then show "bit (r AND push_bit k x) n = bit 0 n" by (auto simp: bit_simps)
  qed
qed

lemma leb_accumulate:
  assumes "unat (r :: 'a::len word) < 2 ^ k"
  shows "r OR push_bit k (ucast (b AND 0x7F)) = of_nat (unat r + unat (b :: u8) mod 128 * 2 ^ k)"
proof -
  have "(ucast (b AND 0x7F) :: 'a word) = of_nat (unat b mod 128)" by (metis of_nat_unat unat_low7)
  then have "push_bit k (ucast (b AND 0x7F) :: 'a word) = of_nat (unat b mod 128 * 2 ^ k)"
    by (simp add: push_bit_eq_mult)
  then show ?thesis unfolding or_push [OF assms] by simp
qed

lemma leb_u32_uleb:
  assumes "\<And>j. j < length (uleb w) \<Longrightarrow> buf (i + j) = uleb w ! j" and "i + length (uleb w) \<le> len"
    and "unat r < 2 ^ (7 * i)" and "w * 2 ^ (7 * i) + unat r < 2 ^ 32"
  shows "leb_u32 buf len i r = Some (i + length (uleb w), of_nat (unat r + w * 2 ^ (7 * i)))"
  using assms
proof (induction w arbitrary: i r rule: uleb.induct)
  case (1 w)
  let ?r = "r OR push_bit (7 * i) (ucast (buf i AND 0x7F))"
  show ?case
  proof (cases "w < 128")
    case True
    then have u: "uleb w = [of_nat w]" by (simp add: uleb.simps)
    have b: "buf i = of_nat w" using "1.prems"(1) [of 0] u by simp
    have ub: "unat (of_nat w :: u8) = w" using True by (simp add: unat_of_nat_small)
    show ?thesis
      using "1.prems"(2) u True ub leb_accumulate [OF "1.prems"(3), of "buf i"]
      by (subst leb_u32.simps) (simp add: b cont_bit Let_def)
  next
    case False
    have u: "uleb w = of_nat (w mod 128 + 128) # uleb (w div 128)" using False by (simp add: uleb.simps)
    have b: "buf i = of_nat (w mod 128 + 128)" using "1.prems"(1) [of 0] u by simp
    have ub: "unat (buf i) = w mod 128 + 128" unfolding b by (rule unat_of_nat_small) simp
    have "(2::nat) ^ (7 * i + 7) \<le> w * 2 ^ (7 * i)"
      using False by (simp add: power_add)
    then have "(2::nat) ^ (7 * i + 7) < 2 ^ 32" using "1.prems"(4) by linarith
    then have "7 * i + 7 < 32" by (metis nat_power_less_imp_less zero_less_numeral)
    then have lim: "\<not> 35 \<le> 7 * (i + 1)" by simp
    have split: "w mod 128 * 2 ^ (7 * i) + w div 128 * 2 ^ (7 * (i + 1)) = w * 2 ^ (7 * i)"
    proof -
      have "w * 2 ^ (7 * i) = (w div 128 * 128 + w mod 128) * 2 ^ (7 * i)" by simp
      then show ?thesis by (simp only: power_add distrib_left distrib_right) (simp add: ac_simps)
    qed
    have r: "?r = of_nat (unat r + w mod 128 * 2 ^ (7 * i))"
      using leb_accumulate [OF "1.prems"(3), of "buf i"] ub by simp
    have ur: "unat ?r = unat r + w mod 128 * 2 ^ (7 * i)"
      unfolding r by (rule unat_of_nat_small) (use "1.prems"(4) split in simp)
    have "unat r + w mod 128 * 2 ^ (7 * i) < 2 ^ (7 * (i + 1))"
    proof -
      have "w mod 128 * 2 ^ (7 * i) \<le> 127 * 2 ^ (7 * i)" by (intro mult_right_mono) auto
      moreover have "(2::nat) ^ (7 * (i + 1)) = 128 * 2 ^ (7 * i)" by (simp add: power_add)
      ultimately show ?thesis using "1.prems"(3) by linarith
    qed
    moreover have "w div 128 * 2 ^ (7 * (i + 1)) + unat ?r < 2 ^ 32" using ur split "1.prems"(4) by linarith
    moreover have "buf (i + 1 + j) = uleb (w div 128) ! j" if "j < length (uleb (w div 128))" for j
      using "1.prems"(1) [of "Suc j"] that u by simp
    ultimately have rest: "leb_u32 buf len (i + 1) ?r
        = Some (i + 1 + length (uleb (w div 128)), of_nat (unat ?r + w div 128 * 2 ^ (7 * (i + 1))))"
      using "1.IH" [OF False, of "i + 1" ?r] "1.prems"(2) u ur by simp
    have sum: "unat ?r + w div 128 * 2 ^ (7 * (i + 1)) = unat r + w * 2 ^ (7 * i)" using ur split by linarith
    have step: "leb_u32 buf len i r = leb_u32 buf len (i + 1) ?r"
      using "1.prems"(2) u ub lim by (subst leb_u32.simps) (simp add: cont_bit Let_def)
    have "i + 1 + length (uleb (w div 128)) = i + length (uleb w)" using u by simp
    then show ?thesis unfolding step rest sum by (rule arg_cong)
  qed
qed

text \<open>The signed readers, at any word width.\<close>

lemma sint_digit_step:
  fixes v :: int
  shows "v mod 128 * 2 ^ k + v div 128 * 2 ^ (k + 7) = v * 2 ^ k"
proof -
  have "v * 2 ^ k = (v div 128 * 128 + v mod 128) * 2 ^ k" by simp
  then show ?thesis by (simp only: power_add distrib_left distrib_right) (simp add: ac_simps)
qed

lemma digit_byte:
  "unat (of_int (v mod 128) :: u8) = nat (v mod 128)"
  "unat (of_int (v mod 128 + 128) :: u8) = nat (v mod 128) + 128"
proof -
  have b: "0 \<le> v mod 128" "v mod 128 < 128" by auto
  have "uint (of_int (v mod 128) :: u8) = v mod 128"
    using b by (simp add: unsigned_of_int take_bit_int_eq_self)
  then show "unat (of_int (v mod 128) :: u8) = nat (v mod 128)" by (simp add: unat_eq_nat_uint)
  have t: "take_bit LENGTH(8) (v mod 128 + 128) = v mod 128 + 128"
    by (rule take_bit_int_eq_self) (use b in simp_all)
  have "uint (of_int (v mod 128 + 128) :: u8) = v mod 128 + 128"
    using b unfolding unsigned_of_int t by simp
  then show "unat (of_int (v mod 128 + 128) :: u8) = nat (v mod 128) + 128"
    using b by (simp add: unat_eq_nat_uint nat_add_distrib)
qed

lemma sign_bit: "(b :: u8) AND 0x40 \<noteq> 0 \<longleftrightarrow> odd (unat b div 64)"
  using and_exp_eq_0_iff_not_bit [of b 6] bit_unat [of b 6] by simp

lemma leb_signed_accumulate:
  assumes "unat (r :: 'a::len word) < 2 ^ k" and "unat (b :: u8) mod 128 = nat d" and "0 \<le> d"
  shows "r OR push_bit k (ucast (b AND 0x7F)) = of_int (int (unat r) + d * 2 ^ k)"
proof -
  have "(of_nat (nat d) :: 'a word) = of_int d" using assms(3) by (metis of_int_of_nat_eq nat_0_le)
  then show ?thesis unfolding leb_accumulate [OF assms(1)] assms(2) by simp
qed

lemma nat_less_exp: "int n < 2 ^ k \<Longrightarrow> n < 2 ^ k"
  by (metis of_nat_less_iff of_nat_numeral of_nat_power)

lemma uint_of_int_small:
  assumes "0 \<le> n" and "n < 2 ^ LENGTH('a::len)"
  shows "int (unat (of_int n :: 'a word)) = n"
proof -
  have "uint (of_int n :: 'a word) = take_bit LENGTH('a) n" by (rule uint_word_of_int_eq)
  also have "\<dots> = n" using assms by (rule take_bit_int_eq_self)
  finally show ?thesis by simp
qed

text \<open>Sign extension of the last digit.\<close>

lemma or_minus_exp:
  assumes "unat (x :: 'a::len word) < 2 ^ k"
  shows "x OR - push_bit k 1 = x - 2 ^ k"
proof -
  have m: "- push_bit k 1 = (NOT (mask k) :: 'a word)" by (simp add: push_bit_eq_mult minus_exp_eq_not_mask)
  have t: "x = take_bit k x" using assms by (metis take_bit_nat_eq_self unsigned_take_bit_eq unsigned_word_eqI)
  have "x AND NOT (mask k) = 0"
  proof (rule bit_eqI)
    fix n
    have "bit x n \<Longrightarrow> n < k" using t by (metis bit_take_bit_iff)
    then show "bit (x AND NOT (mask k)) n = bit 0 n" by (auto simp: bit_simps)
  qed
  then have "x OR NOT (mask k) = x + NOT (mask k)" by (rule disjunctive_add_eq_or [symmetric])
  then show ?thesis unfolding m by (simp flip: minus_exp_eq_not_mask)
qed

lemma sign_of_digit:
  assumes "- 64 \<le> v" and "v < 64" and "unat (b :: u8) = nat (v mod 128)"
  shows "b AND 0x40 \<noteq> 0 \<longleftrightarrow> v < 0" and "v < 0 \<Longrightarrow> v mod 128 = v + 128" and "\<not> v < 0 \<Longrightarrow> v mod 128 = v"
proof -
  show neg: "v < 0 \<Longrightarrow> v mod 128 = v + 128"
    using assms(1) int_mod_pos_eq [of v 128 "- 1" "v + 128"] by simp
  show pos: "\<not> v < 0 \<Longrightarrow> v mod 128 = v" using assms(2) by simp
  show "b AND 0x40 \<noteq> 0 \<longleftrightarrow> v < 0"
  proof (cases "v < 0")
    case True
    then have "unat b div 64 = 1" using assms neg by (intro div_nat_eqI) auto
    then show ?thesis using True by (simp only: sign_bit) simp
  next
    case False
    then have "unat b div 64 = 0" using assms pos by simp
    then show ?thesis using False by (simp only: sign_bit) simp
  qed
qed

lemma leb_sign_extend_last:
  assumes "- 64 \<le> v" and "v < 64" and "unat (b :: u8) = nat (v mod 128)" and "unat (r :: 'a::len word) < 2 ^ (7 * i)"
  shows "leb_sign_extend (i + 1) (r OR push_bit (7 * i) (ucast (b AND 0x7F))) b = (of_int (int (unat r) + v * 2 ^ (7 * i)) :: 'a word)"
proof -
  let ?k = "7 * i" and ?d = "v mod 128"
  let ?x = "r OR push_bit ?k (ucast (b AND 0x7F))" and ?n = "int (unat r) + v mod 128 * 2 ^ (7 * i)"
  note sign = sign_of_digit [OF assms(1-3)]
  have bm: "unat b mod 128 = nat ?d" using assms(3) by (simp add: nat_less_iff)
  have x: "?x = of_int ?n" by (rule leb_signed_accumulate [OF assms(4) bm]) simp
  have p7: "(2 :: int) ^ (7 * (i + 1)) = 128 * 2 ^ ?k" by (simp add: power_add)
  show ?thesis
  proof (cases "7 * (i + 1) < LENGTH('a) \<and> v < 0")
    case True
    have d: "?d * 2 ^ ?k \<le> 127 * 2 ^ ?k" by (intro mult_right_mono) auto
    have "int (unat r) < 2 ^ ?k" using assms(4) by (metis of_nat_less_iff of_nat_numeral of_nat_power)
    then have n: "0 \<le> ?n" "?n < 2 ^ (7 * (i + 1))" unfolding p7 using d by (simp, linarith)
    have "(2 :: int) ^ (7 * (i + 1)) \<le> 2 ^ LENGTH('a)" using True by (intro power_increasing) auto
    then have "int (unat ?x) = ?n" unfolding x using n by (intro uint_of_int_small) linarith+
    then have "unat ?x < 2 ^ (7 * (i + 1))" using n(2) by (intro nat_less_exp) linarith
    then have "leb_sign_extend (i + 1) ?x b = ?x - 2 ^ (7 * (i + 1))"
      using True sign(1) or_minus_exp [of ?x "7 * (i + 1)"] by (simp add: leb_sign_extend_def)
    also have "\<dots> = of_int (?n - 2 ^ (7 * (i + 1)))" unfolding x by simp
    also have "?n - 2 ^ (7 * (i + 1)) = int (unat r) + v * 2 ^ ?k"
      unfolding sign(2) [OF conjunct2 [OF True]] p7 by (simp add: algebra_simps)
    finally show ?thesis .
  next
    case False
    then have "leb_sign_extend (i + 1) ?x b = of_int ?n" using sign(1) x by (auto simp: leb_sign_extend_def)
    also have "\<dots> = of_int (int (unat r) + v * 2 ^ ?k)"
    proof (cases "v < 0")
      case True
      then have "(2 :: 'a word) ^ (?k + 7) = 0" using False by (simp add: exp_eq_zero_iff)
      then have z: "of_int (v div 128 * 2 ^ (?k + 7)) = (0 :: 'a word)"
        by (simp only: of_int_mult of_int_power of_int_numeral mult_zero_right)
      have "of_int (int (unat r) + v * 2 ^ ?k) = (of_int (?n + v div 128 * 2 ^ (?k + 7)) :: 'a word)"
        using sint_digit_step [of v ?k] by (simp only: add.assoc)
      then show ?thesis using z by simp
    qed (use sign(3) in simp)
    finally show ?thesis .
  qed
qed

lemma leb_digit_room:
  assumes "\<not> (- 64 \<le> v \<and> v < 64)" and "- (2 ^ (N - 1)) \<le> v * 2 ^ (7 * i)" and "v * 2 ^ (7 * i) < (2 :: int) ^ (N - 1)"
  shows "7 * (i + 1) < N"
proof -
  have p: "(2 :: int) ^ (7 * i + 6) = 64 * 2 ^ (7 * i)" by (simp add: power_add)
  have z: "(0 :: int) < 2 ^ (7 * i)" by simp
  have "(2 :: int) ^ (7 * i + 6) < 2 ^ (N - 1)"
  proof (cases "v < 0")
    case True
    then have "v * 2 ^ (7 * i) \<le> (- 65) * 2 ^ (7 * i)" using assms(1) by (intro mult_right_mono) auto
    then show ?thesis using assms(2) z unfolding p by linarith
  next
    case False
    then have "64 * 2 ^ (7 * i) \<le> v * 2 ^ (7 * i)" using assms(1) by (intro mult_right_mono) auto
    then show ?thesis using assms(3) z unfolding p by linarith
  qed
  then have "7 * i + 6 < N - 1" using power_strict_increasing_iff [of "2 :: int"] by auto
  then show ?thesis by simp
qed

lemma digit_shift_bounds:
  assumes "- (2 ^ (N - 1)) \<le> v * 2 ^ k" and "v * 2 ^ k < (2 :: int) ^ (N - 1)" and "k + 7 < N"
  shows "- (2 ^ (N - 1)) \<le> v div 128 * 2 ^ (k + 7)" and "v div 128 * 2 ^ (k + 7) < (2 :: int) ^ (N - 1)"
proof -
  have "k + 7 \<le> N - 1" using assms(3) by simp
  then obtain m where m: "N - 1 = k + 7 + m" by (auto dest: le_Suc_ex)
  have p: "(2 :: int) ^ (N - 1) = 128 * 2 ^ m * 2 ^ k" "(2 :: int) ^ (N - 1) = 2 ^ m * 2 ^ (k + 7)"
    unfolding m by (simp_all add: power_add)
  have z: "(0 :: int) < 2 ^ k" by simp
  have "- (128 * 2 ^ m) * 2 ^ k \<le> v * 2 ^ k" using assms(1) p(1) by simp
  then have "- (128 * 2 ^ m) \<le> v" using z mult_le_cancel_right_pos by blast
  then have "(- (2 ^ m) * 128) div 128 \<le> v div 128" by (intro zdiv_mono1) simp_all
  then have "- (2 ^ m) \<le> v div 128" by simp
  then have "- (2 ^ m) * 2 ^ (k + 7) \<le> v div 128 * 2 ^ (k + 7)" by (intro mult_right_mono) auto
  then show "- (2 ^ (N - 1)) \<le> v div 128 * 2 ^ (k + 7)" unfolding p(2) by simp
  have "v div 128 * 2 ^ (k + 7) = v div 128 * 128 * 2 ^ k" by (simp add: power_add)
  also have "\<dots> \<le> v * 2 ^ k" by (intro mult_right_mono) (simp_all add: minus_mod_eq_div_mult [symmetric])
  also have "\<dots> < 2 ^ (N - 1)" by (rule assms(2))
  finally show "v div 128 * 2 ^ (k + 7) < (2 :: int) ^ (N - 1)" .
qed

lemma leb_signed_sleb:
  assumes "\<And>j. j < length (sleb v) \<Longrightarrow> buf (i + j) = sleb v ! j" and "i + length (sleb v) \<le> len"
    and "unat (r :: 'a::len word) < 2 ^ (7 * i)" and "LENGTH('a) \<le> limit"
    and "- (2 ^ (LENGTH('a) - 1)) \<le> v * 2 ^ (7 * i)" and "v * 2 ^ (7 * i) < 2 ^ (LENGTH('a) - 1)"
  shows "\<exists>r' b. leb_signed limit buf len i r b0 = Some (i + length (sleb v), r', b) \<and>
    leb_sign_extend (i + length (sleb v)) r' b = (of_int (int (unat r) + v * 2 ^ (7 * i)) :: 'a word)"
  using assms
proof (induction v arbitrary: i r b0 rule: sleb.induct)
  case (1 v)
  let ?r = "r OR push_bit (7 * i) (ucast (buf i AND 0x7F))"
  show ?case
  proof (cases "- 64 \<le> v \<and> v < 64")
    case True
    then have u: "sleb v = [of_int (v mod 128)]" by (simp add: sleb.simps)
    have b: "unat (buf i) = nat (v mod 128)" using "1.prems"(1) [of 0] u digit_byte(1) [of v] by simp
    have "leb_signed limit buf len i r b0 = Some (i + 1, ?r, buf i)"
      using "1.prems"(2) u b by (subst leb_signed.simps) (simp add: cont_bit Let_def nat_less_iff)
    then show ?thesis
      using leb_sign_extend_last [OF conjunct1 [OF True] conjunct2 [OF True] b "1.prems"(3)] u by simp
  next
    case False
    have u: "sleb v = of_int (v mod 128 + 128) # sleb (v div 128)" using False by (subst sleb.simps) simp
    have ub: "unat (buf i) = nat (v mod 128) + 128"
      using "1.prems"(1) [of 0] u digit_byte(2) [of v] by simp
    have bm: "unat (buf i) mod 128 = nat (v mod 128)" unfolding ub by (simp add: nat_less_iff)
    have lim: "7 * (i + 1) < LENGTH('a)" using leb_digit_room [OF False "1.prems"(5,6)] .
    let ?n = "int (unat r) + v mod 128 * 2 ^ (7 * i)"
    have x: "?r = of_int ?n" by (rule leb_signed_accumulate [OF "1.prems"(3) bm]) simp
    have p7: "(2 :: int) ^ (7 * (i + 1)) = 128 * 2 ^ (7 * i)" by (simp add: power_add)
    have d: "v mod 128 * 2 ^ (7 * i) \<le> 127 * 2 ^ (7 * i)" by (intro mult_right_mono) auto
    have "int (unat r) < 2 ^ (7 * i)" using "1.prems"(3) by (metis of_nat_less_iff of_nat_numeral of_nat_power)
    then have n: "0 \<le> ?n" "?n < 2 ^ (7 * (i + 1))" unfolding p7 using d by (simp, linarith)
    have "(2 :: int) ^ (7 * (i + 1)) \<le> 2 ^ LENGTH('a)" using lim by (intro power_increasing) auto
    then have ur: "int (unat ?r) = ?n" unfolding x using n by (intro uint_of_int_small) linarith+
    have lt: "unat ?r < 2 ^ (7 * (i + 1))"
      using n(2) ur by (intro nat_less_exp) linarith
    have digits: "?n + v div 128 * 2 ^ (7 * (i + 1)) = int (unat r) + v * 2 ^ (7 * i)"
      using sint_digit_step [of v "7 * i"] by (simp add: algebra_simps)
    have "buf (i + 1 + j) = sleb (v div 128) ! j" if "j < length (sleb (v div 128))" for j
      using "1.prems"(1) [of "Suc j"] that u by simp
    moreover have "- (2 ^ (LENGTH('a) - 1)) \<le> v div 128 * 2 ^ (7 * (i + 1))"
      "v div 128 * 2 ^ (7 * (i + 1)) < 2 ^ (LENGTH('a) - 1)"
      using digit_shift_bounds [OF "1.prems"(5,6)] lim by (simp_all add: add.commute)
    ultimately obtain r' b where "leb_signed limit buf len (i + 1) ?r (buf i) = Some (i + 1 + length (sleb (v div 128)), r', b)"
      "leb_sign_extend (i + 1 + length (sleb (v div 128))) r' b = (of_int (int (unat ?r) + v div 128 * 2 ^ (7 * (i + 1))) :: 'a word)"
      using "1.IH" [OF False, of "i + 1" ?r "buf i"] "1.prems"(2,4) lt u by auto
    moreover have "leb_signed limit buf len i r b0 = leb_signed limit buf len (i + 1) ?r (buf i)"
      using "1.prems"(2,4) u ub lim by (subst leb_signed.simps) (simp add: cont_bit Let_def)
    moreover have "i + 1 + length (sleb (v div 128)) = i + length (sleb v)" using u by simp
    ultimately show ?thesis unfolding ur digits by metis
  qed
qed

lemma read_leb_signed_sleb:
  assumes "length (sleb v) \<le> len" and "\<And>j. j < length (sleb v) \<Longrightarrow> buf j = sleb v ! j" and "LENGTH('a) \<le> limit"
    and "- (2 ^ (LENGTH('a) - 1)) \<le> v" and "v < 2 ^ (LENGTH('a) - 1)"
  shows "read_leb_signed limit buf len = Some (length (sleb v), of_int v :: 'a::len word)"
proof -
  obtain r b where "leb_signed limit buf len 0 (0 :: 'a word) 0 = Some (length (sleb v), r, b)"
    "leb_sign_extend (length (sleb v)) r b = (of_int v :: 'a word)"
    using leb_signed_sleb [of v buf 0 len "0 :: 'a word" limit 0] assms by auto
  moreover have "length (sleb v) \<noteq> 0" by (subst sleb.simps) simp
  ultimately show ?thesis by (simp add: read_leb_signed_def)
qed

text \<open>A buffer of \<open>len\<close> bytes that starts with the bytes \<open>bs\<close>.\<close>

definition starts_with :: "(nat \<Rightarrow> u8) \<Rightarrow> nat \<Rightarrow> bytes \<Rightarrow> bool" where
  "starts_with buf len bs \<longleftrightarrow> length bs \<le> len \<and> map buf [0..<length bs] = bs"

lemma starts_withD:
  assumes "starts_with buf len bs"
  shows "length bs \<le> len" and "j < length bs \<Longrightarrow> buf j = bs ! j"
proof -
  show "length bs \<le> len" using assms by (simp add: starts_with_def)
  show "buf j = bs ! j" if "j < length bs"
  proof -
    have "bs ! j = map buf [0..<length bs] ! j" using assms by (simp add: starts_with_def)
    then show ?thesis using that by simp
  qed
qed

lemma read_leb_u32_uleb:
  assumes "n < 2 ^ 32" and "starts_with buf len (uleb n)"
  shows "lr_wasm_read_leb_u32 buf len = Some (length (uleb n), of_nat n)"
  using leb_u32_uleb [of n buf 0 len 0] starts_withD [OF assms(2)] assms(1) by (simp add: lr_wasm_read_leb_u32_def)

text \<open>C27: the LEB128 readers invert the encoders of the WebAssembly specification.  On any buffer that
  starts with the encoding of a number of the type, the reader takes exactly the bytes of the
  encoding and returns the number: unsigned 32 bit, signed 32 bit and signed 64 bit.\<close>

theorem leb_round_trip:
  "(n < 2 ^ 32 \<longrightarrow> starts_with buf len (uleb n) \<longrightarrow>
      lr_wasm_read_leb_u32 buf len = Some (length (uleb n), of_nat n)) \<and>
   (- (2 ^ 31) \<le> v \<longrightarrow> v < 2 ^ 31 \<longrightarrow> starts_with buf len (sleb v) \<longrightarrow>
      lr_wasm_read_leb_i32 buf len = Some (length (sleb v), of_int v)) \<and>
   (- (2 ^ 63) \<le> v \<longrightarrow> v < 2 ^ 63 \<longrightarrow> starts_with buf len (sleb v) \<longrightarrow>
      lr_wasm_read_leb_i64 buf len = Some (length (sleb v), of_int v))"
proof (intro conjI impI)
  assume "n < 2 ^ 32" and "starts_with buf len (uleb n)"
  then show "lr_wasm_read_leb_u32 buf len = Some (length (uleb n), of_nat n)"
    by (rule read_leb_u32_uleb)
next
  assume "- (2 ^ 31) \<le> v" and "v < 2 ^ 31" and "starts_with buf len (sleb v)"
  then show "lr_wasm_read_leb_i32 buf len = Some (length (sleb v), of_int v)"
    unfolding lr_wasm_read_leb_i32_def by (intro read_leb_signed_sleb) (auto dest: starts_withD)
next
  assume "- (2 ^ 63) \<le> v" and "v < 2 ^ 63" and "starts_with buf len (sleb v)"
  then show "lr_wasm_read_leb_i64 buf len = Some (length (sleb v), of_int v)"
    unfolding lr_wasm_read_leb_i64_def by (intro read_leb_signed_sleb) (auto dest: starts_withD)
qed

lemma sleb_example: "sleb (- 129) = [0xFF, 0x7E]"
  by (simp add: sleb.simps [of "- 129"] sleb.simps [of "- 2"])

lemma uleb_example: "uleb 300 = [0xAC, 2]"
  by (simp add: uleb.simps [of 300] uleb.simps [of 2])

theorem leb_round_trip_witness:
  "lr_wasm_read_leb_u32 (nth [0xAC, 2]) 2 = Some (2, 300) \<and>
   lr_wasm_read_leb_i64 (nth [0xFF, 0x7E]) 2 = Some (2, - 129)"
  using leb_round_trip [of 300 "nth [0xAC, 2]" 2 0] leb_round_trip [of 0 "nth [0xFF, 0x7E]" 2 "- 129"]
  by (simp add: starts_with_def sleb_example uleb_example)

text \<open>a truncated encoding.  The unsigned reader rejects an encoding that ends in a byte with the
  continuation bit, the signed readers accept it: the loop ends with the input, and the value of
  the digits read so far is returned.\<close>

theorem truncated_leb_accepted:
  "lr_wasm_read_leb_u32 (nth [0x85]) 1 = None \<and>
   lr_wasm_read_leb_i32 (nth [0x85]) 1 = Some (1, 5) \<and>
   lr_wasm_read_leb_i64 (nth [0x85]) 1 = Some (1, 5)"
  unfolding lr_wasm_read_leb_u32_def lr_wasm_read_leb_i32_def lr_wasm_read_leb_i64_def read_leb_signed_def
    leb_sign_extend_def
  by (simp add: leb_u32.simps leb_signed.simps)

end
