(* ===== verification/Wasm_Safety.thy ===== *)
theory Wasm_Safety
  imports Wasm_Decode
begin

text \<open>
  Memory safety and termination of the WebAssembly decoder (\<^verbatim>\<open>src/src/wasm_decode.c\<close>).  A run reads
  outside the input only after it moved the position or a section end past an end, which two
  places of the code do without a check; the section loop ends on every input.
\<close>

named_theorems keeps_rules \<open>readers that keep the cursor inside the input\<close>

section \<open>Reading stays inside the input\<close>

text \<open>A cursor inside its input: nothing was read outside, and the position and the end lie in the
  input.  The invariant of a run is that the cursor is inside, or that the code went past an end.\<close>

definition inside :: "cursor \<Rightarrow> bool" where
  "inside c \<longleftrightarrow> \<not> oob c \<and> cpos c \<le> clen c \<and> unat (clen c) \<le> length (cdata c) \<and> length (cdata c) < 2 ^ 63"

definition cursor_inv :: "cursor \<Rightarrow> bool" where
  "cursor_inv c \<longleftrightarrow> past_end c \<or> inside c"

definition keeps :: "'a reader \<Rightarrow> bool" where
  "keeps rd \<longleftrightarrow> (\<forall>c. let c' = snd (run_state rd c) in
     clen c' = clen c \<and> cdata c' = cdata c \<and> (past_end c \<longrightarrow> past_end c') \<and> (cursor_inv c \<longrightarrow> cursor_inv c'))"

lemma keepsI:
  assumes "\<And>c. clen (snd (run_state rd c)) = clen c" and "\<And>c. cdata (snd (run_state rd c)) = cdata c"
    and "\<And>c. past_end (snd (run_state rd c)) = past_end c"
    and "\<And>c. inside c \<Longrightarrow> inside (snd (run_state rd c))"
  shows "keeps rd"
  using assms by (auto simp: keeps_def cursor_inv_def Let_def)

lemma keeps_return [keeps_rules]: "keeps (State_Monad.return x)"
  by (simp add: keeps_def)

lemma keeps_bind [keeps_rules]: "keeps rd \<Longrightarrow> (\<And>x. keeps (f x)) \<Longrightarrow> keeps (State_Monad.bind rd f)"
  unfolding keeps_def Let_def by (simp add: State_Monad.bind_def split: prod.splits) (metis snd_conv)

lemma keeps_if [keeps_rules]: "keeps a \<Longrightarrow> keeps b \<Longrightarrow> keeps (if P then a else b)"
  by simp

lemma keeps_option [keeps_rules]: "keeps a \<Longrightarrow> (\<And>x. keeps (b x)) \<Longrightarrow> keeps (case x of None \<Rightarrow> a | Some y \<Rightarrow> b y)"
  by (simp split: option.split)

lemma keeps_cget [keeps_rules]: "keeps (cget f)"
  by (simp add: keeps_def)

lemma keeps_cur_err [keeps_rules]: "keeps (cur_err msg)"
  by (rule keepsI) (simp_all add: cur_err_def inside_def)

lemma keeps_cur_loop [keeps_rules]: "keeps body \<Longrightarrow> keeps (cur_loop n body)"
  by (induction n) (auto intro!: keeps_rules)

text \<open>The LEB readers take at least one byte, and no more than there are.\<close>

lemma leb_u32_bounds: "leb_u32 buf len i r = Some (n, v) \<Longrightarrow> i < n \<and> n \<le> len"
proof (induction buf len i r rule: leb_u32.induct)
  case (1 buf len i r)
  then show ?case
    by (subst (asm) leb_u32.simps [of buf len i r]) (fastforce simp: Let_def split: if_splits)
qed

lemma leb_signed_bounds: "leb_signed limit buf len i r b = Some (n, v, b') \<Longrightarrow> i \<le> len \<Longrightarrow> i \<le> n \<and> n \<le> len"
proof (induction limit buf len i r b rule: leb_signed.induct)
  case (1 limit buf len i r b)
  then show ?case
    by (subst (asm) leb_signed.simps [of limit buf len i r b]) (fastforce simp: Let_def split: if_splits)
qed

lemma read_leb_signed_bounds: "read_leb_signed limit buf len = Some (n, v) \<Longrightarrow> 0 < n \<and> n \<le> len"
  by (auto simp: read_leb_signed_def split: option.splits if_splits dest!: leb_signed_bounds)

definition leb_bounded :: "((nat \<Rightarrow> u8) \<Rightarrow> nat \<Rightarrow> (nat \<times> 'a) option) \<Rightarrow> bool" where
  "leb_bounded rd \<longleftrightarrow> (\<forall>buf len n v. rd buf len = Some (n, v) \<longrightarrow> 0 < n \<and> n \<le> len)"

lemma leb_readers_bounded:
  "leb_bounded lr_wasm_read_leb_u32" "leb_bounded lr_wasm_read_leb_i32" "leb_bounded lr_wasm_read_leb_i64"
  by (auto simp: leb_bounded_def lr_wasm_read_leb_u32_def lr_wasm_read_leb_i32_def lr_wasm_read_leb_i64_def
      dest: leb_u32_bounds read_leb_signed_bounds)

text \<open>Positions of a cursor inside its input, as numbers.\<close>

lemma inside_nat:
  assumes "inside c"
  shows "unat (cpos c) \<le> unat (clen c)" and "unat (clen c - cpos c) = unat (clen c) - unat (cpos c)"
    and "unat (clen c) \<le> length (cdata c)" and "unat (clen c) < 2 ^ 63"
proof -
  show p: "unat (cpos c) \<le> unat (clen c)" using assms by (simp add: inside_def word_le_nat_alt)
  show "unat (clen c - cpos c) = unat (clen c) - unat (cpos c)"
    using assms by (simp add: inside_def unat_sub)
  show "unat (clen c) \<le> length (cdata c)" "unat (clen c) < 2 ^ 63" using assms by (auto simp: inside_def)
qed

lemma unat_add_small: "unat (a :: u64) + n < 2 ^ 64 \<Longrightarrow> unat (a + of_nat n) = unat a + n"
  by (simp add: unat_word_ariths unat_of_nat)

lemma inside_advance:
  assumes "inside c" and "unat (cpos c) + n \<le> unat (clen c)"
  shows "inside ((note_read (unat (cpos c)) n c)\<lparr>cpos := cpos c + of_nat n\<rparr>)"
proof -
  have "unat (cpos c + of_nat n) = unat (cpos c) + n"
    using assms(2) inside_nat(4) [OF assms(1)] by (intro unat_add_small) simp
  then show ?thesis using assms inside_nat(3) [OF assms(1)]
    by (auto simp: inside_def note_read_def word_le_nat_alt)
qed

lemma note_read_fields [simp]:
  "clen (note_read p n c) = clen c" "cdata (note_read p n c) = cdata c" "cpos (note_read p n c) = cpos c"
  "past_end (note_read p n c) = past_end c" "cfailed (note_read p n c) = cfailed c"
  by (simp_all add: note_read_def)

lemma inside_failed: "inside c \<Longrightarrow> inside (c\<lparr>cfailed := x\<rparr>)"
  by (simp add: inside_def)

lemma keeps_cur_u8 [keeps_rules]: "keeps cur_u8"
proof (rule keepsI)
  fix c assume "inside c"
  then show "inside (snd (run_state cur_u8 c))"
    using inside_advance [of c 1] by (auto simp: cur_u8_def inside_failed word_le_nat_alt not_le)
qed (simp_all add: cur_u8_def)

lemma note_read_inside: "inside c \<Longrightarrow> unat (cpos c) + n \<le> unat (clen c) \<Longrightarrow> note_read (unat (cpos c)) n c = c"
  using inside_nat(3) [of c] by (simp add: note_read_def)

lemma keeps_cur_leb: 
  assumes "leb_bounded rd"
  shows "keeps (cur_leb most rd)"
proof (rule keepsI)
  fix c assume c: "inside c"
  let ?r = "rd (\<lambda>i. byte_at c (unat (cpos c) + i)) (unat (clen c - cpos c))"
  show "inside (snd (run_state (cur_leb most rd) c))"
  proof (cases ?r)
    case None
    then show ?thesis using c inside_nat(1,2) [OF c] note_read_inside [OF c, of "min (unat (clen c - cpos c)) most"]
      by (simp add: cur_leb_def Let_def inside_failed)
  next
    case (Some nv)
    obtain n v where nv: "nv = (n, v)" by fastforce
    then have "n \<le> unat (clen c - cpos c)" using assms Some by (auto simp: leb_bounded_def)
    then have "unat (cpos c) + n \<le> unat (clen c)" using inside_nat(1,2) [OF c] by linarith
    then show ?thesis using Some nv inside_advance [OF c, of n] by (simp add: cur_leb_def Let_def)
  qed
qed (auto simp: cur_leb_def Let_def split: option.splits)

lemma keeps_lebs [keeps_rules]: "keeps cur_u32" "keeps cur_i32" "keeps cur_i64"
  unfolding cur_u32_def cur_i32_def cur_i64_def by (intro keeps_cur_leb leb_readers_bounded)+

lemma keeps_cur_counted [keeps_rules]: "keeps body \<Longrightarrow> keeps (cur_counted body)"
  unfolding cur_counted_def by (intro keeps_rules)

text \<open>\<^verbatim>\<open>cur_bytes\<close> and the copy of a name.\<close>

lemma u64_add_u32:
  assumes "unat (a :: u64) < 2 ^ 63"
  shows "unat (a + ucast (n :: u32)) = unat a + unat n"
proof -
  have "unat n < 2 ^ 32" using unsigned_less [of n] by simp
  moreover have "(ucast n :: u64) = of_nat (unat n)" by simp
  ultimately show ?thesis using assms unat_add_small [of a "unat n"] by simp
qed

lemma cur_bytes_inside:
  assumes "inside c"
  shows "run_state (cur_bytes (ucast (n :: u32))) c =
    (if unat (cpos c) + unat n \<le> unat (clen c) then (Some (cpos c), c\<lparr>cpos := cpos c + ucast n\<rparr>)
     else (None, c\<lparr>cfailed := True\<rparr>))"
proof -
  have "unat (cpos c) < 2 ^ 63" using inside_nat [OF assms] by linarith
  then show ?thesis using u64_add_u32 [of "cpos c" n] by (auto simp: cur_bytes_def word_less_nat_alt)
qed

lemma inside_skip:
  assumes "inside c" and "unat (cpos c) + unat (n :: u32) \<le> unat (clen c)"
  shows "inside (c\<lparr>cpos := cpos c + ucast n\<rparr>)"
  using inside_advance [OF assms] note_read_inside [OF assms] by simp

lemma keeps_cur_bytes [keeps_rules]: "keeps (cur_bytes (ucast (n :: u32)))"
proof (rule keepsI)
  fix c assume "inside c"
  then show "inside (snd (run_state (cur_bytes (ucast n)) c))"
    using inside_skip [of c n] by (auto simp: cur_bytes_inside inside_failed)
qed (auto simp: cur_bytes_def)

lemma keeps_copy:
  "keeps (State_Monad.bind (cur_bytes (ucast (n :: u32)))
    (\<lambda>p. case p of None \<Rightarrow> State_Monad.return None
        | Some q \<Rightarrow> State_Monad.bind (read_copy q n) (\<lambda>s. State_Monad.return (Some s))))" (is "keeps ?rd")
proof (rule keepsI)
  fix c assume c: "inside c"
  show "inside (snd (run_state ?rd c))"
  proof (cases "unat (cpos c) + unat n \<le> unat (clen c)")
    case True
    then have "unat (cpos c) + unat n \<le> length (cdata c)" using inside_nat(3) [OF c] by linarith
    then show ?thesis using True inside_skip [OF c True]
      by (simp add: State_Monad.bind_def cur_bytes_inside [OF c] read_copy_def note_read_def)
  qed (use c in \<open>simp add: State_Monad.bind_def cur_bytes_inside inside_failed\<close>)
qed (auto simp: State_Monad.bind_def cur_bytes_def read_copy_def split: prod.splits)

lemma keeps_cur_name [keeps_rules]: "keeps cur_name"
  unfolding cur_name_def by (intro keeps_rules keeps_copy)

lemma keeps_cur_skip_to [keeps_rules]: "keeps (cur_skip_to p)"
  by (auto simp: keeps_def Let_def cur_skip_to_def cursor_inv_def inside_def)

lemmas section_defs = read_byte_vec_def decode_functype_def decode_type_section_def import_payload_def decode_import_def
  decode_import_section_def decode_function_section_def decode_memory_def decode_memory_section_def
  decode_global_def decode_global_section_def decode_export_def decode_export_section_def decode_local_group_def
  decode_code_def decode_code_section_def decode_data_offset_def decode_data_def decode_data_section_def

lemma keeps_decode_section: "keeps (decode_section sec_id m)"
  unfolding decode_section_def section_defs by (intro keeps_rules)

section \<open>The section loop\<close>

lemma keepsD:
  assumes "keeps rd" and "run_state rd c = (x, c')"
  shows "clen c' = clen c" and "cdata c' = cdata c" and "past_end c \<Longrightarrow> past_end c'" and "cursor_inv c \<Longrightarrow> cursor_inv c'"
  using assms unfolding keeps_def Let_def by (metis snd_conv)+

lemma section_end_inv:
  assumes "cursor_inv c" and "run_state (decode_section sec_id m) (c\<lparr>clen := e, past_end := past_end c \<or> clen c < e\<rparr>) = (x, sc)"
    and "cpos c \<le> e"
  shows "cursor_inv sc" and "cursor_inv (sc\<lparr>clen := clen c, cpos := e\<rparr>)"
proof -
  let ?s = "c\<lparr>clen := e, past_end := past_end c \<or> clen c < e\<rparr>"
  note k = keepsD [OF keeps_decode_section assms(2)]
  have "cursor_inv ?s" using assms(1,3) by (auto simp: cursor_inv_def inside_def word_le_nat_alt word_less_nat_alt)
  then show sc: "cursor_inv sc" by (rule k(4))
  show "cursor_inv (sc\<lparr>clen := clen c, cpos := e\<rparr>)"
  proof (cases "past_end sc")
    case False
    then have "\<not> past_end ?s" using k(3) by blast
    then show ?thesis using sc False assms(1) k(2) by (auto simp: cursor_inv_def inside_def)
  qed (simp add: cursor_inv_def)
qed

lemma cur_leb_progress:
  assumes "leb_bounded rd" and "run_state (cur_leb most rd) c = (v, c')" and "\<not> cfailed c'"
  shows "\<exists>n. cpos c' = cpos c + of_nat n \<and> 0 < n \<and> n \<le> unat (clen c - cpos c) \<and> clen c' = clen c"
proof -
  let ?r = "rd (\<lambda>i. byte_at c (unat (cpos c) + i)) (unat (clen c - cpos c))"
  obtain n where "?r = Some (n, v)" and c': "c' = (note_read (unat (cpos c)) n c)\<lparr>cpos := cpos c + of_nat n\<rparr>"
    using assms(2,3) by (auto simp: cur_leb_def Let_def split: option.splits)
  then have "0 < n \<and> n \<le> unat (clen c - cpos c)" using assms(1) by (auto simp: leb_bounded_def)
  then show ?thesis using c' by (intro exI [of _ n]) simp
qed

text \<open>The position after the two reads at the head of the loop.\<close>

lemma section_head:
  assumes "cpos c < clen c" and "unat (clen c) < 2 ^ 63"
    and "run_state cur_u8 c = (sec_id, c1)" and "run_state cur_u32 c1 = (sec_len, c2)" and "\<not> cfailed c2"
  shows "unat (cpos c) + 1 < unat (cpos c2)" and "cpos c2 \<le> clen c" and "clen c2 = clen c"
    and "unat (cpos c2 + ucast sec_len) = unat (cpos c2) + unat sec_len"
proof -
  have c: "unat (cpos c) < unat (clen c)" using assms(1) by (simp add: word_less_nat_alt)
  have c1: "cpos c1 = cpos c + of_nat 1" "clen c1 = clen c" using assms(1,3) by (auto simp: cur_u8_def split: if_splits)
  have p1: "unat (cpos c1) = unat (cpos c) + 1" unfolding c1 using c assms(2) by (intro unat_add_small) simp
  have l1: "unat (clen c1 - cpos c1) = unat (clen c) - unat (cpos c1)"
    using p1 c c1(2) by (simp add: unat_sub word_le_nat_alt)
  obtain n where n: "cpos c2 = cpos c1 + of_nat n" "0 < n" "n \<le> unat (clen c1 - cpos c1)" "clen c2 = clen c1"
    using cur_leb_progress [OF leb_readers_bounded(1) assms(4) [unfolded cur_u32_def] assms(5)] by blast
  have p2: "unat (cpos c2) = unat (cpos c1) + n" unfolding n(1) using n(3) l1 p1 c assms(2) by (intro unat_add_small) simp
  show "unat (cpos c) + 1 < unat (cpos c2)" using p1 p2 n(2) by linarith
  have le: "unat (cpos c2) \<le> unat (clen c)" using p2 n(3) l1 p1 c by linarith
  then show "cpos c2 \<le> clen c" by (simp add: word_le_nat_alt)
  show "clen c2 = clen c" using n(4) c1(2) by simp
  show "unat (cpos c2 + ucast sec_len) = unat (cpos c2) + unat sec_len" using le assms(2) by (intro u64_add_u32) simp
qed

lemma wasm_sections_inv:
  "wasm_sections n c m = Some (r, c') \<Longrightarrow> cursor_inv c \<Longrightarrow> unat (clen c) < 2 ^ 63 \<Longrightarrow> cursor_inv c'"
proof (induction n c m rule: wasm_sections.induct)
  case (2 n c m)
  show ?case
  proof (cases "cpos c < clen c \<and> \<not> cfailed c")
    case True
    obtain sec_id c1 where r1: "run_state cur_u8 c = (sec_id, c1)" by fastforce
    obtain sec_len c2 where r2: "run_state cur_u32 c1 = (sec_len, c2)" by fastforce
    have i2: "cursor_inv c2"
      using "2.prems"(2) keepsD(4) [OF keeps_cur_u8 r1] keepsD(4) [OF keeps_lebs(1) r2] by blast
    show ?thesis
    proof (cases "cfailed c2")
      case False
      note h = section_head [OF conjunct1 [OF True] "2.prems"(3) r1 r2 False]
      let ?e = "cpos c2 + ucast sec_len"
      obtain m' sc where rs: "run_state (decode_section sec_id m)
          (c2\<lparr>clen := ?e, past_end := past_end c2 \<or> clen c2 < ?e\<rparr>) = (m', sc)" by fastforce
      have "cpos c2 \<le> ?e" using h(4) by (simp add: word_le_nat_alt)
      note e = section_end_inv [OF i2 rs this]
      show ?thesis
      proof (cases "cfailed sc")
        case False': False
        show ?thesis
          by (rule "2.IH" [OF True r1 [symmetric] refl r2 [symmetric] refl False refl rs [symmetric] refl False'])
            (use "2.prems" True r1 r2 rs False False' e h(3) in \<open>simp_all add: Let_def\<close>)
      qed (use "2.prems"(1) True r1 r2 rs False e(1) in \<open>simp add: Let_def\<close>)
    qed (use "2.prems"(1) True r1 r2 i2 in \<open>simp add: Let_def\<close>)
  qed (use "2.prems" in auto)
qed simp

lemma wasm_sections_returns:
  "unat (clen c) < 2 ^ 63 \<Longrightarrow> unat (clen c) - unat (cpos c) < n \<Longrightarrow> wasm_sections n c m \<noteq> None"
proof (induction n c m rule: wasm_sections.induct)
  case (2 n c m)
  show ?case
  proof (cases "cpos c < clen c \<and> \<not> cfailed c")
    case True
    obtain sec_id c1 where r1: "run_state cur_u8 c = (sec_id, c1)" by fastforce
    obtain sec_len c2 where r2: "run_state cur_u32 c1 = (sec_len, c2)" by fastforce
    show ?thesis
    proof (cases "cfailed c2")
      case False
      note h = section_head [OF conjunct1 [OF True] "2.prems"(1) r1 r2 False]
      let ?e = "cpos c2 + ucast sec_len"
      obtain m' sc where rs: "run_state (decode_section sec_id m)
          (c2\<lparr>clen := ?e, past_end := past_end c2 \<or> clen c2 < ?e\<rparr>) = (m', sc)" by fastforce
      have "unat (cpos c) < unat (clen c)" using True by (simp add: word_less_nat_alt)
      then have "unat (clen c) - unat ?e < n" using h(1,4) "2.prems"(2) by linarith
      then have "\<not> cfailed sc \<Longrightarrow> wasm_sections n (sc\<lparr>clen := clen c2, cpos := ?e\<rparr>) m' \<noteq> None"
        by (intro "2.IH" [OF True r1 [symmetric] refl r2 [symmetric] refl False refl rs [symmetric] refl])
          (use "2.prems"(1) h(3) in simp_all)
      then show ?thesis using True r1 r2 rs False by (simp add: Let_def)
    qed (use True r1 r2 in \<open>simp add: Let_def\<close>)
  qed auto
qed simp

section \<open>The decoder\<close>

lemma start_inside: "length data < 2 ^ 63 \<Longrightarrow> inside (start_cursor data)"
  by (simp add: inside_def start_cursor_def unat_of_nat_small)

lemma keeps_cur_u32_le: "length (cdata c) < 2 ^ 63 \<Longrightarrow> inside c \<Longrightarrow> run_state cur_u32_le c = (v, c') \<Longrightarrow>
  inside c' \<and> cdata c' = cdata c \<and> clen c' = clen c \<and> \<not> oob c'"
proof -
  assume c: "inside c" and r: "run_state cur_u32_le c = (v, c')"
  have "unat (cpos c + of_nat 4) = unat (cpos c) + 4" using inside_nat [OF c] by (intro unat_add_small) simp
  then have "clen c < cpos c + 4 \<longleftrightarrow> unat (clen c) < unat (cpos c) + 4" by (simp add: word_less_nat_alt)
  then have "inside c' \<and> cdata c' = cdata c \<and> clen c' = clen c"
    using r c inside_advance [OF c, of 4] by (auto simp: cur_u32_le_def inside_failed Let_def split: if_splits)
  then show ?thesis by (auto simp: inside_def)
qed

lemma decode_stages:
  assumes "length data < 2 ^ 63"
  obtains (bad) c where "inside c" and "lr_wasm_decode data = Some (None, c)"
  | (good) c where "inside c" and "cdata c = data" and "clen c = of_nat (length data)"
      and "lr_wasm_decode data = wasm_sections (length data + 1) c empty_wasm_module"
proof -
  let ?c = "start_cursor data"
  have c: "inside ?c" by (rule start_inside [OF assms])
  obtain magic c1 where r1: "run_state cur_u32_le ?c = (magic, c1)" by fastforce
  obtain version c2 where r2: "run_state cur_u32_le c1 = (version, c2)" by fastforce
  have i1: "inside c1" "cdata c1 = data" "clen c1 = of_nat (length data)"
    using keeps_cur_u32_le [OF _ c r1] assms by (auto simp: start_cursor_def)
  have i2: "inside c2" "cdata c2 = data" "clen c2 = of_nat (length data)"
    using keeps_cur_u32_le [OF _ i1(1) r2] i1 assms by auto
  have e: "inside (snd (run_state (cur_err msg) x))" if "inside x" for msg x using that by (simp add: cur_err_def inside_def)
  show ?thesis
  proof (cases "cfailed c1 \<or> magic \<noteq> WASM_MAGIC")
    case True
    then show ?thesis using bad [OF e [OF i1(1)]] r1 by (simp add: lr_wasm_decode_def)
  next
    case ok1: False
    show ?thesis
    proof (cases "cfailed c2 \<or> version \<noteq> WASM_VERSION")
      case True
      then show ?thesis using ok1 bad [OF e [OF i2(1)]] r1 r2 by (simp add: lr_wasm_decode_def)
    next
      case False
      then show ?thesis using ok1 good [OF i2] r1 r2 by (simp add: lr_wasm_decode_def)
    qed
  qed
qed

text \<open>C6: decoding ends, and a decoder run reads outside its input only if it moved past an end before.
  On every input below \<open>2 ^ 63\<close> bytes the decoder returns, the section loop within as many rounds as
  there are bytes; and if the run did not set the position or the end of a section past the end of
  what encloses it, every byte it read lies in the input, in every section, error paths included.\<close>

theorem wasm_decode_safe:
  assumes "length data < 2 ^ 63"
  shows "\<exists>r c. lr_wasm_decode data = Some (r, c) \<and> (\<not> past_end c \<longrightarrow> \<not> oob c)"
  using assms
proof (cases rule: decode_stages)
  case (bad c)
  then show ?thesis by (auto simp: inside_def)
next
  case (good c)
  have len: "unat (clen c) = length data" "unat (clen c) < 2 ^ 63" using assms good(3) by (simp_all add: unat_of_nat_small)
  have "wasm_sections (length data + 1) c empty_wasm_module \<noteq> None"
    using len by (intro wasm_sections_returns) simp_all
  then obtain r c' where r: "wasm_sections (length data + 1) c empty_wasm_module = Some (r, c')" by auto
  then have "cursor_inv c'" using good(1) len(2) by (intro wasm_sections_inv [OF r]) (simp add: cursor_inv_def)
  then show ?thesis using good(4) r by (auto simp: cursor_inv_def inside_def)
qed

theorem wasm_decode_safe_witness:
  "\<exists>r c. lr_wasm_decode [0, 0x61, 0x73, 0x6D, 1, 0, 0, 0, 3, 2, 1, 7] = Some (r, c) \<and> \<not> oob c"
proof -
  have "map_option (past_end o snd) (lr_wasm_decode [0, 0x61, 0x73, 0x6D, 1, 0, 0, 0, 3, 2, 1, 7]) = Some False"
    by code_simp
  then show ?thesis using wasm_decode_safe [of "[0, 0x61, 0x73, 0x6D, 1, 0, 0, 0, 3, 2, 1, 7]"] by auto
qed

text \<open>the length of a section is not compared with the input.  On this module, whose function
  section claims five bytes where one is left, the decoder reads outside the input and still
  returns a module.\<close>

theorem section_length_unchecked:
  "map_option (\<lambda>(r, c). (r \<noteq> None, oob c)) (lr_wasm_decode [0, 0x61, 0x73, 0x6D, 1, 0, 0, 0, 3, 5, 2]) = Some (True, True)"
  by code_simp

lemma cur_u32_past_end:
  assumes "clen c < cpos c" and "length (cdata c) \<le> unat (cpos c)"
  shows "run_state cur_u32 c = (0, c\<lparr>oob := True, cpos := cpos c + 1\<rparr>)"
proof -
  have "0 < unat (clen c - cpos c)" using assms(1) by (simp add: unat_gt_0)
  then have "lr_wasm_read_leb_u32 (\<lambda>i. byte_at c (unat (cpos c) + i)) (unat (clen c - cpos c)) = Some (1, 0)"
    using assms(2) by (simp add: lr_wasm_read_leb_u32_def leb_u32.simps byte_at_def)
  then show ?thesis using assms(2) by (simp add: cur_u32_def cur_leb_def note_read_def)
qed

text \<open>the size of a code body is not compared with the section.  After a body that claims more
  bytes than there are, the position is past the end, the number of bytes left wraps around and
  the next body is read outside the input.\<close>

theorem code_body_unchecked:
  "oob (snd (run_state decode_code_section (start_cursor [2, 9, 0])))"
proof -
  let ?c = "\<lambda>p e. \<lparr>cdata = [2, 9, 0], clen = 3, cpos = p, cfailed = False, cerr = None, oob = e, past_end = e\<rparr>"
  have count: "run_state cur_u32 (start_cursor [2, 9, 0]) = (2, ?c 1 False)" by code_simp
  have first: "run_state decode_code (?c 1 False) = (\<lparr>local_groups = [], code_body = 3, body_len = 8\<rparr>, (?c 11 True)\<lparr>oob := False\<rparr>)"
    by code_simp
  have second: "oob (snd (run_state decode_code ((?c 11 True)\<lparr>oob := False\<rparr>)))"
    by (simp add: decode_code_def cur_u32_past_end cur_skip_to_def)
  have "oob (snd (run_state (cur_loop 2 decode_code) (?c 1 False)))"
    unfolding numeral_2_eq_2 using second by (auto simp: first split: prod.splits)
  then show ?thesis by (simp add: decode_code_section_def cur_counted_def count)
qed
lemma header_bytes:
  assumes "cpos c = of_nat p" and "p + 4 < 2 ^ 63" and "clen c = of_nat (length (cdata c))" and "length (cdata c) < 2 ^ 63"
    and "run_state cur_u32_le c = (v, c')" and "\<not> cfailed c'"
  shows "take 4 (drop p (cdata c)) = le_split 4 v" and "cpos c' = of_nat (p + 4)"
    and "cdata c' = cdata c" and "clen c' = clen c"
proof -
  have p: "unat (cpos c) = p" using assms(1,2) by (simp add: unat_of_nat_small)
  have "unat (cpos c + of_nat 4) = p + 4" using p assms(2) unat_add_small [of "cpos c" 4] by simp
  then have le: "p + 4 \<le> length (cdata c)"
    using assms(3-6) by (auto simp: cur_u32_le_def word_less_nat_alt unat_of_nat_small split: if_splits)
  let ?bs = "take 4 (drop p (cdata c))"
  have "map (\<lambda>i. byte_at c (p + i)) [0..<4] = ?bs"
    using le by (intro nth_equalityI) (auto simp: byte_at_def)
  then have "v = le_join ?bs \<and> c' = (note_read p 4 c)\<lparr>cpos := cpos c + 4\<rparr>"
    using assms(5,6) p by (auto simp: cur_u32_le_def Let_def split: if_splits)
  moreover have "le_split 4 (le_join ?bs :: u32) = ?bs" using le_split_join [of ?bs, where 'a = 32] le by simp
  ultimately show "take 4 (drop p (cdata c)) = le_split 4 v" and "cpos c' = of_nat (p + 4)"
    and "cdata c' = cdata c" and "clen c' = clen c"
    using assms(1) by simp_all
qed

text \<open>an input that does not start with the magic number and version 1 is rejected with an error
  that says so, whatever follows.\<close>

theorem wasm_header_required:
  assumes "length data < 2 ^ 63" and "take 8 data \<noteq> [0, 0x61, 0x73, 0x6D, 1, 0, 0, 0]"
  shows "\<exists>c msg pos. lr_wasm_decode data = Some (None, c) \<and> cerr c = Some (msg, pos) \<and> cfailed c \<and>
    (msg = ''invalid WASM magic'' \<or> msg = ''unsupported WASM version'')"
proof -
  let ?c = "start_cursor data"
  obtain magic c1 where r1: "run_state cur_u32_le ?c = (magic, c1)" by fastforce
  obtain version c2 where r2: "run_state cur_u32_le c1 = (version, c2)" by fastforce
  have "(cfailed c1 \<or> magic \<noteq> WASM_MAGIC) \<or> (cfailed c2 \<or> version \<noteq> WASM_VERSION)"
  proof (rule ccontr)
    assume ok: "\<not> ?thesis"
    have h1: "take 4 data = le_split 4 magic" "cpos c1 = of_nat 4" "cdata c1 = data" "clen c1 = of_nat (length data)"
      using header_bytes [of ?c 0, OF _ _ _ _ r1] ok assms(1) by (auto simp: start_cursor_def)
    have "take 4 (drop 4 data) = le_split 4 version"
      using header_bytes [of c1 4, OF h1(2) _ _ _ r2] h1(3,4) ok assms(1) by auto
    moreover have "take 8 data = take 4 data @ take 4 (drop 4 data)" using take_add [of 4 4 data] by simp
    moreover have "le_split 4 WASM_MAGIC = [0, 0x61, 0x73, 0x6D]" "le_split 4 WASM_VERSION = [1, 0, 0, 0]"
      by code_simp+
    ultimately show False using h1(1) ok assms(2) by simp
  qed
  then show ?thesis using r1 r2 by (auto simp: lr_wasm_decode_def cur_err_def)
qed

theorem wasm_header_required_witness:
  "\<exists>c msg pos. lr_wasm_decode [0, 0x61, 0x73, 0x6D, 2, 0, 0, 0] = Some (None, c) \<and> cerr c = Some (msg, pos) \<and> cfailed c"
  using wasm_header_required [of "[0, 0x61, 0x73, 0x6D, 2, 0, 0, 0]"] by auto

end
