(* ===== verification/Wasm_Roundtrip.thy ===== *)
theory Wasm_Roundtrip
  imports Wasm_Leb Wasm_Safety
begin


section \<open>A reader takes a byte string\<close>

text \<open>A cursor with \<open>t\<close> left to read.\<close>

definition left :: "cursor \<Rightarrow> bytes \<Rightarrow> bool" where
  "left c t \<longleftrightarrow> \<not> cfailed c \<and> cpos c \<le> clen c \<and> unat (clen c) \<le> length (cdata c) \<and> length (cdata c) < 2 ^ 63 \<and>
     drop (unat (cpos c)) (take (unat (clen c)) (cdata c)) = t"

definition reads :: "'a reader \<Rightarrow> bytes \<Rightarrow> 'a \<Rightarrow> bool" where
  "reads rd bs x \<longleftrightarrow> (\<forall>c t. left c (bs @ t) \<longrightarrow>
     (\<exists>c'. run_state rd c = (x, c') \<and> left c' t \<and> clen c' = clen c \<and> cdata c' = cdata c))"


lemma reads_bind:
  "reads rd bs x \<Longrightarrow> reads (f x) bs' y \<Longrightarrow> reads (State_Monad.bind rd f) (bs @ bs') y"
  unfolding reads_def by (fastforce simp: State_Monad.bind_def)

lemma reads_bind_eq:
  "reads rd bs x \<Longrightarrow> reads (f x) bs' y \<Longrightarrow> b = bs @ bs' \<Longrightarrow> reads (State_Monad.bind rd f) b y"
  by (simp add: reads_bind)














section \<open>The encoder\<close>


















section \<open>Entries\<close>















section \<open>Sections\<close>














end
