(* ===== verification/Ll_Lexer.thy ===== *)
theory Ll_Lexer
  imports Liric_Prelude
begin

text \<open>
  The lexer of LLVM assembly (\<^verbatim>\<open>src/src/ll_lexer.c\<close>): character classes, white space and comments,
  the keyword switch, the tokens of \<^verbatim>\<open>lr_lexer_next\<close>, token names and source locations.

  An enumerator of \<^verbatim>\<open>lr_tok_t\<close> is named by the part of its identifier after \<^verbatim>\<open>LR_TOK_\<close>.  A
  position is a natural number, an offset into the text; a token's start pointer is one too.
  Signed overflow of the value of an integer literal wraps around.
\<close>

section \<open>Tokens\<close>

datatype lr_tok = LR_TOK string

definition lr_tok_enum :: "string list" where
  "lr_tok_enum = [
     ''EOF'', ''ERROR'', ''DEFINE'', ''DECLARE'', ''RET'', ''BR'', ''LABEL'', ''ADD'', ''SUB'', ''MUL'', ''SDIV'',
     ''SREM'', ''UDIV'', ''UREM'', ''AND'', ''OR'', ''XOR'', ''SHL'', ''LSHR'', ''ASHR'', ''FADD'', ''FSUB'',
     ''FMUL'', ''FDIV'', ''FREM'', ''FNEG'', ''ICMP'', ''FCMP'', ''ALLOCA'', ''LOAD'', ''STORE'', ''GETELEMENTPTR'',
     ''CALL'', ''PHI'', ''SELECT'', ''SEXT'', ''ZEXT'', ''TRUNC'', ''BITCAST'', ''PTRTOINT'', ''INTTOPTR'',
     ''SITOFP'', ''UITOFP'', ''FPTOSI'', ''FPTOUI'', ''FPEXT'', ''FPTRUNC'', ''EXTRACTVALUE'', ''INSERTVALUE'',
     ''UNREACHABLE'', ''SWITCH'', ''INVOKE'', ''LANDINGPAD'', ''RESUME'', ''UNWIND'', ''CLEANUP'', ''CATCH'',
     ''PERSONALITY'', ''TO'', ''ALIGN'', ''NSW'', ''NUW'', ''INBOUNDS'', ''NONNULL'', ''NOUNDEF'', ''SIGNEXT'',
     ''ZEROEXT'', ''NOCAPTURE'', ''READONLY'', ''WRITEONLY'', ''GLOBAL'', ''CONSTANT'', ''EXTERNAL'', ''INTERNAL'',
     ''PRIVATE'', ''COMMON'', ''LINKONCE_ODR'', ''DSOLOCAL'', ''UNNAMED_ADDR'', ''LOCAL_UNNAMED_ADDR'', ''TYPE'',
     ''OPAQUE'', ''NULL'', ''UNDEF'', ''ZEROINITIALIZER'', ''TRUE'', ''FALSE'', ''NNAN'', ''NINF'', ''NSZ'', ''EQ'',
     ''NE'', ''SGT'', ''SGE'', ''SLT'', ''SLE'', ''UGT'', ''UGE'', ''ULT'', ''ULE'', ''OEQ'', ''ONE'', ''OGT'',
     ''OGE'', ''OLT'', ''OLE'', ''ORD'', ''UEQ'', ''UNE'', ''UNO'', ''VOID'', ''I1'', ''I8'', ''I16'', ''I32'',
     ''I64'', ''FLOAT'', ''DOUBLE'', ''X86_FP80'', ''PTR'', ''LOCAL_ID'', ''GLOBAL_ID'', ''INT_LIT'', ''FLOAT_LIT'',
     ''STRING_LIT'', ''LPAREN'', ''RPAREN'', ''LBRACE'', ''RBRACE'', ''LBRACKET'', ''RBRACKET'', ''COMMA'',
     ''EQUALS'', ''STAR'', ''DOTDOTDOT'', ''COLON'', ''LANGLE'', ''RANGLE'', ''EXCLAIM'', ''X'', ''HASH'',
     ''ATTR_GROUP'', ''METADATA_ID'', ''NEWLINE'']"

text \<open>\<^verbatim>\<open>float_val\<close>: unset (the zero the token starts with), the bits of a hexadecimal literal, or the
  value the standard library's \<^verbatim>\<open>strtod\<close> has for a text.\<close>

datatype lr_float_val = No_float | Float_bits u64 | Strtod string

record lr_token =
  tok_kind :: lr_tok
  tok_start :: nat
  tok_len :: nat
  int_val :: u64
  float_val :: lr_float_val

record lr_lexer =
  lex_src :: string
  lex_src_len :: nat
  lex_pos :: nat

definition lr_lexer_init :: "string \<Rightarrow> nat \<Rightarrow> lr_lexer" where
  "lr_lexer_init s n = \<lparr>lex_src = s, lex_src_len = n, lex_pos = 0\<rparr>"

definition make_token :: "lr_tok \<Rightarrow> nat \<Rightarrow> nat \<Rightarrow> lr_token" where
  "make_token k s n = \<lparr>tok_kind = k, tok_start = s, tok_len = n, int_val = 0, float_val = No_float\<rparr>"

section \<open>Source locations\<close>

fun loc_loop :: "string \<Rightarrow> nat \<Rightarrow> u32 \<Rightarrow> nat \<Rightarrow> u32 \<times> nat" where
  "loc_loop [] p line line_start = (line, line_start)"
| "loc_loop (c # cs) p line line_start =
     (if c = CHR 0x0A then loc_loop cs (p + 1) (line + 1) (p + 1) else loc_loop cs (p + 1) line line_start)"

definition lr_lexer_compute_loc :: "lr_lexer \<Rightarrow> nat \<Rightarrow> u32 \<times> u32" where
  "lr_lexer_compute_loc lx p =
     (let e = if p \<le> lex_src_len lx then p else lex_src_len lx;
          (line, line_start) = loc_loop (take e (lex_src lx)) 0 1 0
      in (line, of_nat (e - line_start) + 1))"

section \<open>Character classes\<close>

definition is_digit_ascii :: "char \<Rightarrow> bool" where
  "is_digit_ascii c \<longleftrightarrow> (of_char c :: u32) - of_char (CHR ''0'') < 10"

definition is_alpha_ascii :: "char \<Rightarrow> bool" where
  "is_alpha_ascii c \<longleftrightarrow> ((of_char c :: u32) OR 32) - of_char (CHR ''a'') < 26"

definition is_ident_char :: "char \<Rightarrow> bool" where
  "is_ident_char c \<longleftrightarrow> is_alpha_ascii c \<or> is_digit_ascii c \<or> c = CHR ''_'' \<or> c = CHR ''.'' \<or> c = CHR ''$''"

definition is_hex_digit :: "char \<Rightarrow> bool" where
  "is_hex_digit c \<longleftrightarrow> (of_char c :: u32) - of_char (CHR ''0'') < 10 \<or> ((of_char c :: u32) OR 32) - of_char (CHR ''a'') < 6"

definition hex_val :: "char \<Rightarrow> u64" where
  "hex_val c = (if (of_char c :: u64) - of_char (CHR ''0'') < 10 then of_char c - of_char (CHR ''0'')
     else (of_char c OR 32) - of_char (CHR ''a'') + 10)"

section \<open>Scanning\<close>

text \<open>\<^verbatim>\<open>while (run < n && p(src[run])) run++;\<close>\<close>

function run_while :: "(char \<Rightarrow> bool) \<Rightarrow> string \<Rightarrow> nat \<Rightarrow> nat \<Rightarrow> nat" where
  "run_while P s n i = (if i < n \<and> P (s ! i) then run_while P s n (i + 1) else i)"
  by pat_completeness auto
termination by (relation "measure (\<lambda>(_, _, n, i). n - i)") auto

declare run_while.simps [simp del]

lemma run_while_bounds:
  "i \<le> run_while P s n i" "i \<le> n \<Longrightarrow> run_while P s n i \<le> n" "i < n \<Longrightarrow> P (s ! i) \<Longrightarrow> i < run_while P s n i"
proof -
  show le: "i \<le> run_while P s n i" for i
    by (induction P s n i rule: run_while.induct) (subst run_while.simps, auto)
  show "i \<le> n \<Longrightarrow> run_while P s n i \<le> n"
    by (induction P s n i rule: run_while.induct) (subst run_while.simps, auto)
  show "i < n \<Longrightarrow> P (s ! i) \<Longrightarrow> i < run_while P s n i"
    using le [of "i + 1"] by (subst run_while.simps) simp
qed

definition is_space :: "char \<Rightarrow> bool" where
  "is_space c \<longleftrightarrow> c = CHR '' '' \<or> c = CHR 0x09 \<or> c = CHR 0x0D \<or> c = CHR 0x0A"

text \<open>A comment ends at the newline \<^verbatim>\<open>memchr\<close> finds, or at the end of the text.\<close>

function skip_blank :: "string \<Rightarrow> nat \<Rightarrow> nat \<Rightarrow> nat" where
  "skip_blank s n i =
     (if i < n
      then if is_space (s ! i) then skip_blank s n (i + 1)
           else if s ! i = CHR '';'' then skip_blank s n (run_while (\<lambda>c. c \<noteq> CHR 0x0A) s n i)
           else i
      else i)"
  by pat_completeness auto
termination
proof (relation "measure (\<lambda>(_, n, i). n - i)")
  fix s n i
  assume "i < n" and "s ! i = CHR '';''"
  then have "i < run_while (\<lambda>c. c \<noteq> CHR 0x0A) s n i" by (intro run_while_bounds(3)) auto
  then show "((s, n, run_while (\<lambda>c. c \<noteq> CHR 0x0A) s n i), s, n, i) \<in> measure (\<lambda>(_, n, i). n - i)"
    using \<open>i < n\<close> by auto
qed auto

declare skip_blank.simps [simp del]

definition skip_whitespace_and_comments :: "lr_lexer \<Rightarrow> lr_lexer" where
  "skip_whitespace_and_comments lx = lx\<lparr>lex_pos := skip_blank (lex_src lx) (lex_src_len lx) (lex_pos lx)\<rparr>"

text \<open>The inside of a quoted string, and its closing quote where there is one.\<close>

function quoted_run :: "string \<Rightarrow> nat \<Rightarrow> nat \<Rightarrow> nat" where
  "quoted_run s n i =
     (if i < n \<and> s ! i \<noteq> CHR 0x22
      then quoted_run s n (if s ! i = CHR 0x5C \<and> i + 1 < n then i + 2 else i + 1)
      else i)"
  by pat_completeness auto
termination by (relation "measure (\<lambda>(_, n, i). n - i)") auto

declare quoted_run.simps [simp del]

definition skip_quoted :: "string \<Rightarrow> nat \<Rightarrow> nat \<Rightarrow> nat" where
  "skip_quoted s n i = (let p = quoted_run s n i in if p < n then p + 1 else p)"

section \<open>Keywords\<close>

definition keyword_table :: "(string \<times> lr_tok) list" where
  "keyword_table = map (map_prod id LR_TOK) [
     (''define'', ''DEFINE''), (''declare'', ''DECLARE''), (''ret'', ''RET''), (''br'', ''BR''),
     (''label'', ''LABEL''), (''add'', ''ADD''), (''sub'', ''SUB''), (''mul'', ''MUL''), (''sdiv'', ''SDIV''),
     (''srem'', ''SREM''), (''udiv'', ''UDIV''), (''urem'', ''UREM''), (''and'', ''AND''), (''or'', ''OR''),
     (''xor'', ''XOR''), (''shl'', ''SHL''), (''lshr'', ''LSHR''), (''ashr'', ''ASHR''), (''fadd'', ''FADD''),
     (''fsub'', ''FSUB''), (''fmul'', ''FMUL''), (''fdiv'', ''FDIV''), (''frem'', ''FREM''), (''fneg'', ''FNEG''),
     (''icmp'', ''ICMP''), (''fcmp'', ''FCMP''), (''alloca'', ''ALLOCA''), (''load'', ''LOAD''),
     (''store'', ''STORE''), (''getelementptr'', ''GETELEMENTPTR''), (''call'', ''CALL''), (''phi'', ''PHI''),
     (''select'', ''SELECT''), (''sext'', ''SEXT''), (''zext'', ''ZEXT''), (''trunc'', ''TRUNC''),
     (''bitcast'', ''BITCAST''), (''ptrtoint'', ''PTRTOINT''), (''inttoptr'', ''INTTOPTR''),
     (''sitofp'', ''SITOFP''), (''uitofp'', ''UITOFP''), (''fptosi'', ''FPTOSI''), (''fptoui'', ''FPTOUI''),
     (''fpext'', ''FPEXT''), (''fptrunc'', ''FPTRUNC''), (''extractvalue'', ''EXTRACTVALUE''),
     (''insertvalue'', ''INSERTVALUE''), (''unreachable'', ''UNREACHABLE''), (''switch'', ''SWITCH''),
     (''invoke'', ''INVOKE''), (''landingpad'', ''LANDINGPAD''), (''resume'', ''RESUME''), (''unwind'', ''UNWIND''),
     (''cleanup'', ''CLEANUP''), (''catch'', ''CATCH''), (''personality'', ''PERSONALITY''), (''to'', ''TO''),
     (''align'', ''ALIGN''), (''nsw'', ''NSW''), (''nuw'', ''NUW''), (''inbounds'', ''INBOUNDS''),
     (''nonnull'', ''NONNULL''), (''noundef'', ''NOUNDEF''), (''signext'', ''SIGNEXT''), (''zeroext'', ''ZEROEXT''),
     (''nocapture'', ''NOCAPTURE''), (''readonly'', ''READONLY''), (''writeonly'', ''WRITEONLY''),
     (''global'', ''GLOBAL''), (''constant'', ''CONSTANT''), (''external'', ''EXTERNAL''),
     (''internal'', ''INTERNAL''), (''private'', ''PRIVATE''), (''common'', ''COMMON''),
     (''linkonce_odr'', ''LINKONCE_ODR''), (''dso_local'', ''DSOLOCAL''), (''unnamed_addr'', ''UNNAMED_ADDR''),
     (''local_unnamed_addr'', ''LOCAL_UNNAMED_ADDR''), (''type'', ''TYPE''), (''opaque'', ''OPAQUE''),
     (''null'', ''NULL''), (''undef'', ''UNDEF''), (''zeroinitializer'', ''ZEROINITIALIZER''), (''true'', ''TRUE''),
     (''false'', ''FALSE''), (''nnan'', ''NNAN''), (''ninf'', ''NINF''), (''nsz'', ''NSZ''), (''void'', ''VOID''),
     (''float'', ''FLOAT''), (''double'', ''DOUBLE''), (''x86_fp80'', ''X86_FP80''), (''ptr'', ''PTR''),
     (''eq'', ''EQ''), (''ne'', ''NE''), (''sgt'', ''SGT''), (''sge'', ''SGE''), (''slt'', ''SLT''),
     (''sle'', ''SLE''), (''ugt'', ''UGT''), (''uge'', ''UGE''), (''ult'', ''ULT''), (''ule'', ''ULE''),
     (''oeq'', ''OEQ''), (''one'', ''ONE''), (''ogt'', ''OGT''), (''oge'', ''OGE''), (''olt'', ''OLT''),
     (''ole'', ''OLE''), (''ord'', ''ORD''), (''ueq'', ''UEQ''), (''une'', ''UNE''), (''uno'', ''UNO''),
     (''x'', ''X'')]"

definition keyword_hash :: "string \<Rightarrow> u32" where
  "keyword_hash s = foldl (\<lambda>h c. (h XOR of_char c) * 16777619) 2166136261 s"

text \<open>The cases of the switch on the hash: the hash, the word compared with, the token.\<close>

definition hash_cases_1 :: "(u32 \<times> string \<times> string) list" where
  "hash_cases_1 = [
     (0x01f7e39f, ''signext'', ''SIGNEXT''), (0x0684099c, ''urem'', ''UREM''),
     (0x0691ea25, ''constant'', ''CONSTANT''), (0x0b069958, ''false'', ''FALSE''), (0x0f29c2a6, ''and'', ''AND''),
     (0x11c2662d, ''select'', ''SELECT''), (0x13266a9c, ''ninf'', ''NINF''), (0x186c5d43, ''nsw'', ''NSW''),
     (0x1c362229, ''fsub'', ''FSUB''), (0x1cb0ec77, ''ashr'', ''ASHR''), (0x1dff06ae, ''global'', ''GLOBAL''),
     (0x236c6e94, ''nsz'', ''NSZ''), (0x287286a1, ''nuw'', ''NUW''), (0x2c9151f9, ''nonnull'', ''NONNULL''),
     (0x30dbb8a6, ''srem'', ''SREM''), (0x30f467ac, ''ret'', ''RET''), (0x331d748a, ''external'', ''EXTERNAL''),
     (0x33952f14, ''fdiv'', ''FDIV''), (0x34efc59f, ''bitcast'', ''BITCAST''), (0x36cff9c0, ''ult'', ''ULT''),
     (0x38c330f3, ''ugt'', ''UGT''), (0x39262605, ''declare'', ''DECLARE''), (0x3b391274, ''add'', ''ADD''),
     (0x41437d99, ''insertvalue'', ''INSERTVALUE''), (0x42454824, ''to'', ''TO''), (0x441a6a43, ''eq'', ''EQ''),
     (0x47c34890, ''uge'', ''UGE''), (0x47d01483, ''ule'', ''ULE''), (0x48b5725f, ''void'', ''VOID''),
     (0x4c75e965, ''fmul'', ''FMUL''), (0x4d5b0474, ''common'', ''COMMON''), (0x4db211e5, ''true'', ''TRUE''),
     (0x4f2bc4b5, ''br'', ''BR''), (0x4fbed7fa, ''ueq'', ''UEQ''), (0x4ff85ef6, ''lshr'', ''LSHR''),
     (0x5127f14d, ''type'', ''TYPE''), (0x51d4a16f, ''uno'', ''UNO''), (0x5244aa84, ''phi'', ''PHI'')]"

definition hash_cases_2 :: "(u32 \<times> string \<times> string) list" where
  "hash_cases_2 = [
     (0x55764c09, ''ptr'', ''PTR''), (0x5836603c, ''ne'', ''NE''), (0x58b04806, ''fpext'', ''FPEXT''),
     (0x5bd4b12d, ''une'', ''UNE''), (0x5cca1c55, ''alloca'', ''ALLOCA''), (0x5d342984, ''or'', ''OR''),
     (0x602c63de, ''align'', ''ALIGN''), (0x62cb0d0c, ''private'', ''PRIVATE''),
     (0x668cbeb0, ''noundef'', ''NOUNDEF''), (0x668d4269, ''sext'', ''SEXT''), (0x670195b6, ''sitofp'', ''SITOFP''),
     (0xc1f8df40, ''uitofp'', ''UITOFP''), (0x6a9f8552, ''define'', ''DEFINE''),
     (0x6f15601e, ''opaque'', ''OPAQUE''), (0x705624fc, ''zext'', ''ZEXT''), (0x75191b51, ''undef'', ''UNDEF''),
     (0x77074ba4, ''null'', ''NULL''), (0x7f6a0e3f, ''extractvalue'', ''EXTRACTVALUE''),
     (0x7f795119, ''ptrtoint'', ''PTRTOINT''), (0x91b3e243, ''frem'', ''FREM''),
     (0x91fa8f16, ''writeonly'', ''WRITEONLY''), (0x93e05f71, ''switch'', ''SWITCH''),
     (0x991deba0, ''ord'', ''ORD''), (0x9a796d00, ''internal'', ''INTERNAL''),
     (0xa02c414d, ''getelementptr'', ''GETELEMENTPTR''), (0xa0eb0f08, ''double'', ''DOUBLE''),
     (0xa642d0f0, ''oeq'', ''OEQ''), (0xa6c45d85, ''float'', ''FLOAT''), (0xa7105b55, ''fneg'', ''FNEG''),
     (0xaaedf37f, ''inbounds'', ''INBOUNDS''), (0xaaefa29b, ''udiv'', ''UDIV''), (0xad2b82a6, ''olt'', ''OLT''),
     (0xb2f7980d, ''invoke'', ''INVOKE''), (0x4807fb41, ''landingpad'', ''LANDINGPAD''),
     (0xff39a36a, ''resume'', ''RESUME''), (0xa4dc0768, ''unwind'', ''UNWIND''),
     (0xd95df1b3, ''cleanup'', ''CLEANUP''), (0x4288e94c, ''catch'', ''CATCH'')]"

definition hash_cases_3 :: "(u32 \<times> string \<times> string) list" where
  "hash_cases_3 = [
     (0x0e221f23, ''personality'', ''PERSONALITY''), (0xb3f184a9, ''call'', ''CALL''),
     (0xb6b438fe, ''zeroext'', ''ZEROEXT''), (0xb736d533, ''local_unnamed_addr'', ''LOCAL_UNNAMED_ADDR''),
     (0xba2719ef, ''one'', ''ONE''), (0xbe2b9d69, ''ole'', ''OLE''), (0xbf3ce81d, ''ogt'', ''OGT''),
     (0xc7649392, ''fptosi'', ''FPTOSI''), (0xbb5e7080, ''fptoui'', ''FPTOUI''), (0xc7e7bc2e, ''store'', ''STORE''),
     (0xc93854dd, ''sle'', ''SLE''), (0xcc6bdb7e, ''xor'', ''XOR''), (0xce0beff7, ''readonly'', ''READONLY''),
     (0xce3cffba, ''oge'', ''OGE''), (0xd522b60d, ''dso_local'', ''DSOLOCAL''), (0xd55e61e5, ''trunc'', ''TRUNC''),
     (0xd809e3a3, ''unnamed_addr'', ''UNNAMED_ADDR''), (0xd8386c7a, ''slt'', ''SLT''),
     (0xd83b82b8, ''icmp'', ''ICMP''), (0xd89e21f1, ''unreachable'', ''UNREACHABLE''),
     (0xda211651, ''sgt'', ''SGT''), (0xdc4e3915, ''sub'', ''SUB''), (0xe02debb6, ''shl'', ''SHL''),
     (0xe0c77861, ''zeroinitializer'', ''ZEROINITIALIZER''), (0xe2f81043, ''fptrunc'', ''FPTRUNC''),
     (0xe60759e9, ''load'', ''LOAD''), (0xe81fa798, ''nocapture'', ''NOCAPTURE''), (0xe9212dee, ''sge'', ''SGE''),
     (0xe9f1dd8b, ''fcmp'', ''FCMP''), (0xeb84ed81, ''mul'', ''MUL''), (0xf06d8280, ''fadd'', ''FADD''),
     (0xf18b906c, ''linkonce_odr'', ''LINKONCE_ODR''), (0xf577d25e, ''nnan'', ''NNAN''),
     (0xf69717fd, ''label'', ''LABEL''), (0xf7c31c4f, ''inttoptr'', ''INTTOPTR''), (0xf820d675, ''sdiv'', ''SDIV''),
     (0xfd0c5087, ''x'', ''X''), (0x87d98b64, ''x86_fp80'', ''X86_FP80'')]"

definition hash_cases :: "(u32 \<times> string \<times> string) list" where
  "hash_cases = hash_cases_1 @ hash_cases_2 @ hash_cases_3"

definition hash_switch :: "string \<Rightarrow> lr_tok" where
  "hash_switch s =
     (case map_of hash_cases (keyword_hash s) of
        Some (w, t) \<Rightarrow> if s = w then LR_TOK t else LR_TOK ''EOF''
      | None \<Rightarrow> LR_TOK ''EOF'')"

definition int_type_token :: "string \<Rightarrow> lr_tok option" where
  "int_type_token s =
     (if s ! 0 = CHR ''i''
      then if length s = 2
           then if s ! 1 = CHR ''1'' then Some (LR_TOK ''I1'')
                else if s ! 1 = CHR ''8'' then Some (LR_TOK ''I8'') else None
           else if length s = 3
           then if s ! 1 = CHR ''1'' \<and> s ! 2 = CHR ''6'' then Some (LR_TOK ''I16'')
                else if s ! 1 = CHR ''3'' \<and> s ! 2 = CHR ''2'' then Some (LR_TOK ''I32'')
                else if s ! 1 = CHR ''6'' \<and> s ! 2 = CHR ''4'' then Some (LR_TOK ''I64'') else None
           else None
      else None)"

definition lookup_keyword :: "string \<Rightarrow> lr_tok" where
  "lookup_keyword s =
     (if s = [] then LR_TOK ''EOF''
      else case int_type_token s of Some t \<Rightarrow> t | None \<Rightarrow> hash_switch s)"

definition tok_names :: "(string \<times> string) list" where
  "tok_names = [
     (''EOF'', ''eof''), (''ERROR'', ''error''), (''DEFINE'', ''define''), (''DECLARE'', ''declare''),
     (''RET'', ''ret''), (''BR'', ''br''), (''LABEL'', ''label''), (''ADD'', ''add''), (''SUB'', ''sub''),
     (''MUL'', ''mul''), (''SDIV'', ''sdiv''), (''SREM'', ''srem''), (''UDIV'', ''udiv''), (''UREM'', ''urem''),
     (''CALL'', ''call''), (''SWITCH'', ''switch''), (''INVOKE'', ''invoke''), (''LANDINGPAD'', ''landingpad''),
     (''RESUME'', ''resume''), (''UNWIND'', ''unwind''), (''CLEANUP'', ''cleanup''), (''CATCH'', ''catch''),
     (''PERSONALITY'', ''personality''), (''GETELEMENTPTR'', ''getelementptr''), (''ALIGN'', ''align''),
     (''VOID'', ''void''), (''I1'', ''i1''), (''I8'', ''i8''), (''I16'', ''i16''), (''I32'', ''i32''),
     (''I64'', ''i64''), (''FLOAT'', ''float''), (''DOUBLE'', ''double''), (''X86_FP80'', ''x86_fp80''),
     (''PTR'', ''ptr''), (''LOCAL_ID'', ''local_id''), (''GLOBAL_ID'', ''global_id''), (''INT_LIT'', ''int_lit''),
     (''FLOAT_LIT'', ''float_lit''), (''STRING_LIT'', ''string_lit''), (''LPAREN'', ''(''), (''RPAREN'', '')''),
     (''LBRACE'', ''{''), (''RBRACE'', ''}''), (''LBRACKET'', ''[''), (''RBRACKET'', '']''), (''COMMA'', '',''),
     (''EQUALS'', ''=''), (''STAR'', ''*''), (''COLON'', '':''), (''LANGLE'', ''<''), (''RANGLE'', ''>''),
     (''DOTDOTDOT'', ''...'')]"

definition lr_tok_name :: "lr_tok \<Rightarrow> string" where
  "lr_tok_name t = (case t of LR_TOK k \<Rightarrow> case map_of tok_names k of Some n \<Rightarrow> n | None \<Rightarrow> ''?'')"

section \<open>The next token\<close>

text \<open>The branches of the switch on the first character.  \<open>i\<close> is the position after it and \<open>s0\<close>
  the position of it; a branch gives the position after the token and the token.\<close>

definition span :: "string \<Rightarrow> nat \<Rightarrow> nat \<Rightarrow> string" where
  "span s a b = map (nth s) [a..<b]"

definition token_to :: "lr_tok \<Rightarrow> nat \<Rightarrow> nat \<Rightarrow> nat \<times> lr_token" where
  "token_to k s0 p = (p, make_token k s0 (p - s0))"

definition punctuation :: "(char \<times> string) list" where
  "punctuation = [(CHR ''('', ''LPAREN''), (CHR '')'', ''RPAREN''), (CHR ''{'', ''LBRACE''), (CHR ''}'', ''RBRACE''),
     (CHR ''['', ''LBRACKET''), (CHR '']'', ''RBRACKET''), (CHR '','', ''COMMA''), (CHR ''='', ''EQUALS''),
     (CHR ''*'', ''STAR''), (CHR '':'', ''COLON''), (CHR ''<'', ''LANGLE''), (CHR ''>'', ''RANGLE'')]"

definition lex_dot :: "string \<Rightarrow> nat \<Rightarrow> nat \<Rightarrow> nat \<Rightarrow> nat \<times> lr_token" where
  "lex_dot s n s0 i =
     (if i + 1 < n \<and> s ! i = CHR ''.'' \<and> s ! (i + 1) = CHR ''.''
      then (i + 2, make_token (LR_TOK ''DOTDOTDOT'') s0 3)
      else if i < n \<and> is_ident_char (s ! i) then token_to (LR_TOK ''LOCAL_ID'') s0 (run_while is_ident_char s n i)
      else (i, make_token (LR_TOK ''ERROR'') s0 1))"

definition lex_sigil :: "string \<Rightarrow> nat \<Rightarrow> nat \<Rightarrow> nat \<Rightarrow> char \<Rightarrow> nat \<times> lr_token" where
  "lex_sigil s n s0 i c =
     token_to (if c = CHR ''%'' then LR_TOK ''LOCAL_ID'' else LR_TOK ''GLOBAL_ID'') s0
       (if i < n \<and> s ! i = CHR 0x22 then skip_quoted s n (i + 1) else run_while is_ident_char s n i)"

definition hex_bits :: "string \<Rightarrow> u64" where
  "hex_bits ds = foldl (\<lambda>bits c. push_bit 4 bits OR hex_val c) 0 ds"

definition dec_val :: "string \<Rightarrow> u64" where
  "dec_val ds = foldl (\<lambda>v c. v * 10 + (of_char c - of_char (CHR ''0''))) 0 ds"

text \<open>The fraction and the exponent of a decimal literal.\<close>

definition lex_fraction :: "string \<Rightarrow> nat \<Rightarrow> nat \<Rightarrow> nat" where
  "lex_fraction s n p = (if p < n \<and> s ! p = CHR ''.'' then run_while is_digit_ascii s n (p + 1) else p)"

definition lex_exponent :: "string \<Rightarrow> nat \<Rightarrow> nat \<Rightarrow> nat" where
  "lex_exponent s n p =
     (if p < n \<and> (s ! p = CHR ''e'' \<or> s ! p = CHR ''E'')
      then let q = if p + 1 < n \<and> (s ! (p + 1) = CHR ''+'' \<or> s ! (p + 1) = CHR ''-'') then p + 2 else p + 1
           in run_while is_digit_ascii s n q
      else p)"

definition lex_number :: "string \<Rightarrow> nat \<Rightarrow> nat \<Rightarrow> nat \<Rightarrow> char \<Rightarrow> nat \<times> lr_token" where
  "lex_number s n s0 i c =
     (if c = CHR ''-'' \<and> \<not> (i < n \<and> is_digit_ascii (s ! i)) then (i, make_token (LR_TOK ''ERROR'') s0 1)
      else if c = CHR ''0'' \<and> i < n \<and> (s ! i = CHR ''x'' \<or> s ! i = CHR ''X'')
      then let p = run_while is_hex_digit s n (i + 1)
           in (p, (make_token (LR_TOK ''FLOAT_LIT'') s0 (p - s0))\<lparr>float_val := Float_bits (hex_bits (span s (s0 + 2) p))\<rparr>)
      else let p = run_while is_digit_ascii s n i
           in if p < n \<and> (s ! p = CHR ''.'' \<or> s ! p = CHR ''e'' \<or> s ! p = CHR ''E'')
              then let q = lex_exponent s n (lex_fraction s n p); t = make_token (LR_TOK ''FLOAT_LIT'') s0 (q - s0)
                   in (q, if q - s0 < 64 then t\<lparr>float_val := Strtod (span s s0 q)\<rparr> else t)
              else let v = dec_val (span s (if c = CHR ''-'' then s0 + 1 else s0) p)
                   in (p, (make_token (LR_TOK ''INT_LIT'') s0 (p - s0))\<lparr>int_val := if c = CHR ''-'' then - v else v\<rparr>))"

definition lex_word :: "string \<Rightarrow> nat \<Rightarrow> nat \<Rightarrow> nat \<Rightarrow> char \<Rightarrow> nat \<times> lr_token" where
  "lex_word s n s0 i c =
     (if is_alpha_ascii c \<or> c = CHR ''_''
      then let p = run_while is_ident_char s n i; kw = lookup_keyword (span s s0 p)
           in token_to (if kw \<noteq> LR_TOK ''EOF'' then kw else LR_TOK ''LOCAL_ID'') s0 p
      else (i, make_token (LR_TOK ''ERROR'') s0 1))"

definition lex_switch :: "string \<Rightarrow> nat \<Rightarrow> nat \<Rightarrow> nat \<Rightarrow> char \<Rightarrow> nat \<times> lr_token" where
  "lex_switch s n s0 i c =
     (case map_of punctuation c of
        Some k \<Rightarrow> (i, make_token (LR_TOK k) s0 1)
      | None \<Rightarrow>
        if c = CHR ''.'' then lex_dot s n s0 i
        else if c = CHR ''!'' then token_to (LR_TOK ''METADATA_ID'') s0 (run_while is_ident_char s n i)
        else if c = CHR ''#'' then token_to (LR_TOK ''ATTR_GROUP'') s0 (run_while is_digit_ascii s n i)
        else if c = CHR ''%'' \<or> c = CHR ''@'' then lex_sigil s n s0 i c
        else if c = CHR 0x22 then token_to (LR_TOK ''STRING_LIT'') s0 (skip_quoted s n i)
        else if c = CHR ''c'' \<and> i < n \<and> s ! i = CHR 0x22 then token_to (LR_TOK ''STRING_LIT'') s0 (skip_quoted s n (i + 1))
        else if c = CHR ''-'' \<or> is_digit_ascii c then lex_number s n s0 i c
        else lex_word s n s0 i c)"

definition lr_lexer_next :: "lr_lexer \<Rightarrow> lr_token \<times> lr_lexer" where
  "lr_lexer_next lx0 =
     (let lx = skip_whitespace_and_comments lx0
      in if lex_src_len lx \<le> lex_pos lx then (make_token (LR_TOK ''EOF'') (lex_pos lx) 0, lx)
         else let (p, tok) = lex_switch (lex_src lx) (lex_src_len lx) (lex_pos lx) (lex_pos lx + 1) (lex_src lx ! lex_pos lx)
              in (tok, lx\<lparr>lex_pos := p\<rparr>))"

end
