(* ===== verification/Ll_Keywords.thy ===== *)
theory Ll_Keywords
  imports Ll_Lexer
begin

text \<open>
  The keyword switch of the lexer (\<^verbatim>\<open>lookup_keyword\<close> in \<^verbatim>\<open>src/src/ll_lexer.c\<close>): each hash in the
  switch is the hash of its word, the hashes differ, and the words are those of the keyword table.
\<close>

lemma hash_cases_hashed: "list_all (\<lambda>(h, w, t). keyword_hash w = h) hash_cases"
  by code_simp

lemma hash_cases_distinct: "distinct (map fst hash_cases)"
proof -
  have "distinct (map uint (map fst hash_cases))" by code_simp
  then show ?thesis by (simp only: distinct_map)
qed

definition hash_words :: "(string \<times> lr_tok) list" where
  "hash_words = map (\<lambda>(h, w, t). (w, LR_TOK t)) hash_cases"

text \<open>Where the words of the table stand in the switch, and the other way round.\<close>

definition table_positions :: "nat list" where
  "table_positions = [
     50, 21, 15, 32, 109, 22, 97, 105, 111, 14, 68, 1, 4, 43, 87, 98, 34, 9, 106, 8, 29, 17, 57, 66, 94, 104,
     42, 101, 85, 62, 77, 37, 5, 47, 52, 91, 18, 56, 110, 48, 49, 83, 84, 40, 100, 55, 23, 95, 59, 70, 71,
     72, 73, 74, 75, 76, 24, 44, 7, 12, 67, 13, 46, 0, 78, 102, 88, 58, 10, 2, 16, 61, 45, 30, 107, 90, 92,
     79, 35, 51, 54, 53, 99, 31, 3, 108, 6, 11, 28, 65, 63, 113, 38, 25, 39, 96, 103, 93, 86, 20, 26, 19, 27,
     64, 80, 82, 89, 69, 81, 60, 33, 41, 36, 112]"

definition switch_positions :: "nat list" where
  "switch_positions = [
     63, 11, 69, 84, 12, 32, 86, 58, 19, 17, 68, 87, 59, 61, 9, 2, 70, 21, 36, 101, 99, 1, 5, 46, 56, 93,
     100, 102, 88, 20, 73, 83, 3, 110, 16, 78, 112, 31, 92, 94, 43, 111, 26, 13, 57, 72, 62, 33, 39, 40, 0,
     79, 34, 81, 80, 45, 37, 22, 67, 48, 109, 71, 29, 90, 103, 89, 23, 60, 10, 107, 49, 50, 51, 52, 53, 54,
     55, 30, 64, 77, 104, 108, 105, 41, 42, 28, 98, 14, 66, 106, 75, 35, 76, 97, 24, 47, 95, 6, 15, 82, 44,
     27, 65, 96, 25, 7, 18, 74, 85, 4, 38, 8, 113, 91]"

lemma set_nths_subset:
  assumes "map (nth xs) is = ys" and "list_all (\<lambda>i. i < length xs) is"
  shows "set ys \<subseteq> set xs"
  using assms by (auto simp: list_all_iff)

lemma hash_words_table: "set hash_words = set keyword_table"
proof
  have "list_all (\<lambda>i. i < length keyword_table) switch_positions" by code_simp
  moreover have "map (nth keyword_table) switch_positions = hash_words" by code_simp
  ultimately show "set hash_words \<subseteq> set keyword_table" by (intro set_nths_subset)
  have "list_all (\<lambda>i. i < length hash_words) table_positions" by code_simp
  moreover have "map (nth hash_words) table_positions = keyword_table" by code_simp
  ultimately show "set keyword_table \<subseteq> set hash_words" by (intro set_nths_subset)
qed

lemma hash_switch_iff:
  "map_of keyword_table s = Some t \<Longrightarrow> hash_switch s = t"
  "map_of keyword_table s = None \<Longrightarrow> hash_switch s = LR_TOK ''EOF''"
proof -
  assume "map_of keyword_table s = Some t"
  then have "(s, t) \<in> set hash_words" unfolding hash_words_table by (rule map_of_SomeD)
  then obtain h k where "(h, s, k) \<in> set hash_cases" and t: "t = LR_TOK k" by (auto simp: hash_words_def)
  moreover from this have "keyword_hash s = h" using hash_cases_hashed by (auto simp: list_all_iff)
  ultimately have "map_of hash_cases (keyword_hash s) = Some (s, k)" using hash_cases_distinct by simp
  then show "hash_switch s = t" using t by (simp add: hash_switch_def)
next
  assume n: "map_of keyword_table s = None"
  show "hash_switch s = LR_TOK ''EOF''"
  proof (cases "map_of hash_cases (keyword_hash s)")
    case (Some wk)
    obtain w k where wk: "wk = (w, k)" by fastforce
    then have "(w, LR_TOK k) \<in> set hash_words" using map_of_SomeD [OF Some] by (force simp: hash_words_def)
    then have "w \<noteq> s" using n unfolding hash_words_table map_of_eq_None_iff by force
    then show ?thesis using Some wk by (simp add: hash_switch_def)
  qed (simp add: hash_switch_def)
qed

definition int_types :: "(string \<times> lr_tok) list" where
  "int_types = [(''i1'', LR_TOK ''I1''), (''i8'', LR_TOK ''I8''), (''i16'', LR_TOK ''I16''), (''i32'', LR_TOK ''I32''),
     (''i64'', LR_TOK ''I64'')]"

lemma list_of_length_2: "length s = 2 \<longleftrightarrow> (\<exists>a b. s = [a, b])"
  by (auto simp: length_Suc_conv numeral_2_eq_2)

lemma list_of_length_3: "length s = 3 \<longleftrightarrow> (\<exists>a b c. s = [a, b, c])"
  by (auto simp: length_Suc_conv numeral_3_eq_3)

lemma int_type_token_map: "s \<noteq> [] \<Longrightarrow> int_type_token s = map_of int_types s"
proof -
  assume "s \<noteq> []"
  consider a b where "s = [a, b]" | a b c where "s = [a, b, c]" | "length s \<noteq> 2" "length s \<noteq> 3"
    by (cases "length s = 2"; cases "length s = 3") (auto simp only: list_of_length_2 list_of_length_3)
  then show ?thesis
  proof cases
    case 3
    then have "map_of int_types s = None" unfolding map_of_eq_None_iff by (auto simp: int_types_def)
    then show ?thesis using 3 by (simp add: int_type_token_def)
  qed (simp_all add: int_type_token_def int_types_def)
qed

text \<open>C28: the keyword switch on the FNV hash decides exactly the keyword table and the integer types:
  every listed word gives its token, and no other text does.\<close>

theorem lookup_keyword_correct:
  "lookup_keyword s = (case map_of (int_types @ keyword_table) s of Some t \<Rightarrow> t | None \<Rightarrow> LR_TOK ''EOF'')"
proof (cases "s = []")
  case True
  have "map_of int_types [] = None" "map_of keyword_table [] = None" by code_simp+
  then show ?thesis using True by (simp add: lookup_keyword_def map_add_def)
next
  case False
  then show ?thesis using hash_switch_iff [of s]
    by (auto simp: lookup_keyword_def int_type_token_map map_add_def split: option.splits)
qed

end
