(* ===== verification/Ll_Scan.thy ===== *)
theory Ll_Scan
  imports Ll_Keywords
begin

text \<open>
  What \<^verbatim>\<open>lr_lexer_next\<close> and \<^verbatim>\<open>lr_lexer_compute_loc\<close> of \<^verbatim>\<open>src/src/ll_lexer.c\<close> guarantee: every call
  moves forward inside the text and its token is the text it moved over, a run ends with tokens
  that tile the text, an integer literal has its decimal value, locations count lines and columns.
\<close>

section \<open>Bounds of the scanning loops\<close>

lemma run_while_all: "i \<le> j \<Longrightarrow> j < run_while P s n i \<Longrightarrow> P (s ! j)"
proof (induction P s n i rule: run_while.induct)
  case (1 P s n i)
  then show ?case by (cases "i = j") (subst (asm) (2) run_while.simps, auto split: if_splits)+
qed

lemma run_while_stop: "run_while P s n i < n \<Longrightarrow> \<not> P (s ! run_while P s n i)"
proof (induction P s n i rule: run_while.induct)
  case (1 P s n i)
  show ?case
  proof (cases "i < n \<and> P (s ! i)")
    case True
    then have "run_while P s n i = run_while P s n (i + 1)" by (subst run_while.simps) simp
    then show ?thesis using 1 True by simp
  next
    case False
    then have "run_while P s n i = i" by (subst run_while.simps) auto
    then show ?thesis using 1 False by simp
  qed
qed

lemma quoted_run_bounds: "i \<le> quoted_run s n i" "i \<le> n \<Longrightarrow> quoted_run s n i \<le> n"
proof -
  show "i \<le> quoted_run s n i"
  proof (induction s n i rule: quoted_run.induct)
    case (1 s n i)
    then show ?case by (subst quoted_run.simps) (auto split: if_splits)
  qed
  show "i \<le> n \<Longrightarrow> quoted_run s n i \<le> n"
  proof (induction s n i rule: quoted_run.induct)
    case (1 s n i)
    then show ?case by (subst quoted_run.simps) auto
  qed
qed

lemma skip_quoted_bounds: "i \<le> skip_quoted s n i" "i \<le> n \<Longrightarrow> skip_quoted s n i \<le> n"
  using quoted_run_bounds(1) [of i s n] quoted_run_bounds(2) [of i n s] by (auto simp: skip_quoted_def Let_def)

lemma skip_blank_bounds: "i \<le> skip_blank s n i" "i \<le> n \<Longrightarrow> skip_blank s n i \<le> n"
proof -
  show "i \<le> skip_blank s n i"
  proof (induction s n i rule: skip_blank.induct)
    case (1 s n i)
    then show ?case using run_while_bounds(1) [of i "\<lambda>c. c \<noteq> CHR 0x0A" s n]
      by (subst skip_blank.simps) auto
  qed
  show "i \<le> n \<Longrightarrow> skip_blank s n i \<le> n"
  proof (induction s n i rule: skip_blank.induct)
    case (1 s n i)
    then show ?case using run_while_bounds(2) [of i n "\<lambda>c. c \<noteq> CHR 0x0A" s]
      by (subst skip_blank.simps) auto
  qed
qed

section \<open>White space and comments\<close>

text \<open>Text that is white space and comments only.\<close>

function blank :: "string \<Rightarrow> bool" where
  "blank [] \<longleftrightarrow> True"
| "blank (c # cs) \<longleftrightarrow> (if is_space c then blank cs else c = CHR '';'' \<and> blank (dropWhile (\<lambda>c. c \<noteq> CHR 0x0A) cs))"
  by pat_completeness auto
termination by (relation "measure length") (auto simp: le_imp_less_Suc length_dropWhile_le)

lemma span_simps [simp]: "span s a a = []" "a < b \<Longrightarrow> span s a b = s ! a # span s (a + 1) b" "length (span s a b) = b - a"
  by (simp_all add: span_def upt_conv_Cons)

lemma span_append: "a \<le> b \<Longrightarrow> b \<le> c \<Longrightarrow> span s a b @ span s b c = span s a c"
  unfolding span_def map_append [symmetric] by (metis le_Suc_ex upt_add_eq_append)

lemma skip_line:
  assumes "r = run_while (\<lambda>c. c \<noteq> nl) s n i" and "r \<le> k" and "k \<le> n"
  shows "dropWhile (\<lambda>c. c \<noteq> nl) (span s i k) = span s r k"
proof -
  have le: "i \<le> r" using run_while_bounds(1) assms(1) by simp
  have "dropWhile (\<lambda>c. c \<noteq> nl) (span s i r @ span s r k) = dropWhile (\<lambda>c. c \<noteq> nl) (span s r k)"
  proof (rule dropWhile_append2)
    fix c assume "c \<in> set (span s i r)"
    then obtain j where "i \<le> j" "j < r" "c = s ! j" by (auto simp: span_def)
    then show "c \<noteq> nl" using run_while_all [of i j "\<lambda>c. c \<noteq> nl" s n] assms(1) by simp
  qed
  also have "\<dots> = span s r k"
    using run_while_stop [of "\<lambda>c. c \<noteq> nl" s n i] assms by (cases "r = k") auto
  finally show ?thesis unfolding span_append [OF le assms(2)] .
qed

lemma skip_blank_blank: "i \<le> n \<Longrightarrow> blank (span s i (skip_blank s n i))"
proof (induction s n i rule: skip_blank.induct)
  case (1 s n i)
  let ?nl = "\<lambda>c. c \<noteq> CHR 0x0A"
  consider "i < n" "is_space (s ! i)" | "i < n" "\<not> is_space (s ! i)" "s ! i = CHR '';''"
    | "skip_blank s n i = i" using skip_blank.simps [of s n i] by presburger
  then show ?case
  proof cases
    case 1
    then have k: "skip_blank s n i = skip_blank s n (i + 1)" by (subst skip_blank.simps) simp
    have "i < skip_blank s n (i + 1)" using skip_blank_bounds(1) [of "i + 1" s n] by simp
    then show ?thesis using "1.IH"(1) 1 unfolding k by simp
  next
    case 2
    let ?r = "run_while ?nl s n i"
    have k: "skip_blank s n i = skip_blank s n ?r" using 2 by (subst skip_blank.simps) simp
    have r: "i < ?r" "?r \<le> n" using 2 run_while_bounds(2) [of i n ?nl s] run_while_bounds(3) [of i n ?nl s] by auto
    have s: "?r \<le> skip_blank s n ?r" "skip_blank s n ?r \<le> n" using skip_blank_bounds(1) [of ?r s n] skip_blank_bounds(2) [of ?r n s] r by auto
    have "run_while ?nl s n (i + 1) = ?r" using 2 by (subst (2) run_while.simps) simp
    then have "dropWhile ?nl (span s (i + 1) (skip_blank s n ?r)) = span s ?r (skip_blank s n ?r)"
      using skip_line [of ?r "CHR 0x0A" s n "i + 1" "skip_blank s n ?r"] r s by simp
    moreover have "blank (span s ?r (skip_blank s n ?r))" using "1.IH"(2) 2 r by simp
    ultimately show ?thesis using 2 r s unfolding k by simp
  next
    case 3
    then show ?thesis by simp
  qed
qed

section \<open>One token\<close>

definition is_tok :: "lr_tok \<Rightarrow> bool" where
  "is_tok t = (case t of LR_TOK k \<Rightarrow> k \<in> set lr_tok_enum)"

lemma punctuation_toks: "list_all (\<lambda>(c, k). is_tok (LR_TOK k) \<and> k \<noteq> ''EOF'') punctuation"
  by code_simp

text \<open>The enumerators of the integer types and of the words of the table.\<close>

definition keyword_enumerators :: "nat list" where
  "keyword_enumerators = [
     111, 112, 113, 114, 115, 2, 3, 4, 5, 6, 7, 8, 9, 10, 11, 12, 13, 14, 15, 16, 17, 18, 19, 20, 21, 22, 23,
     24, 25, 26, 27, 28, 29, 30, 31, 32, 33, 34, 35, 36, 37, 38, 39, 40, 41, 42, 43, 44, 45, 46, 47, 48, 49,
     50, 51, 52, 53, 54, 55, 56, 57, 58, 59, 60, 61, 62, 63, 64, 65, 66, 67, 68, 69, 70, 71, 72, 73, 74, 75,
     76, 77, 78, 79, 80, 81, 82, 83, 84, 85, 86, 87, 88, 89, 110, 116, 117, 118, 119, 90, 91, 92, 93, 94, 95,
     96, 97, 98, 99, 100, 101, 102, 103, 104, 105, 106, 107, 108, 109, 139]"

lemma enumerators_toks:
  assumes "map (\<lambda>i. LR_TOK (lr_tok_enum ! i)) is = ts" and "list_all (\<lambda>i. i < length lr_tok_enum) is" and "t \<in> set ts"
  shows "is_tok t"
  using assms by (auto simp: list_all_iff is_tok_def)

lemma keyword_toks: "t \<in> snd ` set (int_types @ keyword_table) \<Longrightarrow> is_tok t"
proof -
  have e: "map (\<lambda>i. LR_TOK (lr_tok_enum ! i)) keyword_enumerators = map snd (int_types @ keyword_table)" by code_simp
  have l: "list_all (\<lambda>i. i < length lr_tok_enum) keyword_enumerators" by code_simp
  assume "t \<in> snd ` set (int_types @ keyword_table)"
  then show ?thesis using enumerators_toks [OF e l] by (simp only: set_map)
qed

lemma lookup_keyword_tok: "is_tok (lookup_keyword w)"
proof -
  have "is_tok (LR_TOK ''EOF'')" by code_simp
  moreover have "map_of (int_types @ keyword_table) w = Some t \<Longrightarrow> is_tok t" for t
    using keyword_toks [of t] by (force dest!: map_of_SomeD simp del: map_of_append)
  ultimately show ?thesis unfolding lookup_keyword_correct by (auto split: option.splits)
qed

lemma named_toks: "is_tok (LR_TOK ''LOCAL_ID'')" "is_tok (LR_TOK ''GLOBAL_ID'')" "is_tok (LR_TOK ''ERROR'')" "is_tok (LR_TOK ''DOTDOTDOT'')"
  "is_tok (LR_TOK ''METADATA_ID'')" "is_tok (LR_TOK ''ATTR_GROUP'')" "is_tok (LR_TOK ''STRING_LIT'')" "is_tok (LR_TOK ''FLOAT_LIT'')"
  "is_tok (LR_TOK ''INT_LIT'')" "is_tok (LR_TOK ''EOF'')"
  by code_simp+

text \<open>The token of a branch covers the text from \<open>s0\<close> to the new position, which is past \<open>s0\<close>.\<close>

definition covers :: "nat \<Rightarrow> nat \<Rightarrow> nat \<times> lr_token \<Rightarrow> bool" where
  "covers n s0 r = (case r of (p, t) \<Rightarrow> s0 < p \<and> p \<le> n \<and> tok_start t = s0 \<and> tok_len t = p - s0 \<and>
     is_tok (tok_kind t) \<and> tok_kind t \<noteq> LR_TOK ''EOF'')"

lemma covers_token_to: "s0 < p \<Longrightarrow> p \<le> n \<Longrightarrow> is_tok k \<Longrightarrow> k \<noteq> LR_TOK ''EOF'' \<Longrightarrow> covers n s0 (token_to k s0 p)"
  by (simp add: covers_def token_to_def make_token_def)

lemma covers_make: "s0 < p \<Longrightarrow> p \<le> n \<Longrightarrow> l = p - s0 \<Longrightarrow> is_tok k \<Longrightarrow> k \<noteq> LR_TOK ''EOF'' \<Longrightarrow> covers n s0 (p, make_token k s0 l)"
  by (simp add: covers_def make_token_def)

lemma covers_update:
  "covers n s0 (p, t) \<Longrightarrow> covers n s0 (p, t\<lparr>int_val := v\<rparr>)" "covers n s0 (p, t) \<Longrightarrow> covers n s0 (p, t\<lparr>float_val := f\<rparr>)"
  by (simp_all add: covers_def)

lemmas scan_bounds = run_while_bounds skip_quoted_bounds

lemma run_past: "s0 < i \<Longrightarrow> s0 < run_while P s n i"
  using run_while_bounds(1) [of i P s n] by linarith

lemma quoted_past: "s0 < i \<Longrightarrow> s0 < skip_quoted s n i"
  using skip_quoted_bounds(1) [of i s n] by linarith

lemmas covers_rules = covers_token_to covers_make covers_update run_past quoted_past run_while_bounds(2) skip_quoted_bounds(2) named_toks

lemma covers_lex_dot: "s0 < i \<Longrightarrow> i \<le> n \<Longrightarrow> i = s0 + 1 \<Longrightarrow> covers n s0 (lex_dot s n s0 i)"
  unfolding lex_dot_def by (auto intro!: covers_rules)

lemma covers_lex_sigil: "s0 < i \<Longrightarrow> i \<le> n \<Longrightarrow> covers n s0 (lex_sigil s n s0 i c)"
  unfolding lex_sigil_def by (auto intro!: covers_rules)

lemma lex_fraction_bounds: "p \<le> lex_fraction s n p" "p \<le> n \<Longrightarrow> lex_fraction s n p \<le> n"
  using run_while_bounds(1) [of "p + 1" is_digit_ascii s n] run_while_bounds(2) [of "p + 1" n is_digit_ascii s]
  by (auto simp: lex_fraction_def)

lemma lex_exponent_bounds: "p \<le> lex_exponent s n p" "p \<le> n \<Longrightarrow> lex_exponent s n p \<le> n"
  using run_while_bounds(1) [of "p + 1" is_digit_ascii s n] run_while_bounds(2) [of "p + 1" n is_digit_ascii s]
    run_while_bounds(1) [of "p + 2" is_digit_ascii s n] run_while_bounds(2) [of "p + 2" n is_digit_ascii s]
  by (auto simp: lex_exponent_def Let_def)

lemma decimal_bounds:
  assumes "s0 < i" and "i \<le> n" and "p = run_while is_digit_ascii s n i"
  shows "s0 < lex_exponent s n (lex_fraction s n p)" and "lex_exponent s n (lex_fraction s n p) \<le> n"
proof -
  have "i \<le> p" "p \<le> n" using run_while_bounds(1,2) assms by auto
  then show "s0 < lex_exponent s n (lex_fraction s n p)" "lex_exponent s n (lex_fraction s n p) \<le> n"
    using lex_fraction_bounds(1) [of p s n] lex_fraction_bounds(2) [of p n s]
      lex_exponent_bounds(1) [of "lex_fraction s n p" s n] lex_exponent_bounds(2) [of "lex_fraction s n p" n s] assms(1)
    by linarith+
qed

lemma covers_lex_number: "i = s0 + 1 \<Longrightarrow> i \<le> n \<Longrightarrow> covers n s0 (lex_number s n s0 i c)"
  using decimal_bounds [of s0 i n _ s, OF _ _ refl] run_past [of s0 i is_digit_ascii s n] run_while_bounds(2) [of i n is_digit_ascii s]
    run_past [of s0 "i + 1" is_hex_digit s n] run_while_bounds(2) [of "i + 1" n is_hex_digit s]
  by (simp add: lex_number_def Let_def covers_update covers_make named_toks)

lemma covers_lex_word: "i = s0 + 1 \<Longrightarrow> i \<le> n \<Longrightarrow> covers n s0 (lex_word s n s0 i c)"
  unfolding lex_word_def Let_def by (auto intro!: covers_rules lookup_keyword_tok)

lemma covers_lex_switch: "i = s0 + 1 \<Longrightarrow> i \<le> n \<Longrightarrow> covers n s0 (lex_switch s n s0 i c)"
proof (cases "map_of punctuation c")
  case (Some k)
  assume "i = s0 + 1" "i \<le> n"
  moreover have "is_tok (LR_TOK k)" "k \<noteq> ''EOF''"
    using punctuation_toks map_of_SomeD [OF Some] by (auto simp: list_all_iff)
  ultimately show ?thesis using Some by (auto simp: lex_switch_def intro!: covers_rules)
next
  case None
  assume "i = s0 + 1" "i \<le> n"
  then show ?thesis
    using run_past [of s0 i is_digit_ascii s n] run_while_bounds(2) [of i n is_digit_ascii s]
      run_past [of s0 i is_ident_char s n] run_while_bounds(2) [of i n is_ident_char s]
      quoted_past [of s0 i s n] skip_quoted_bounds(2) [of i n s] quoted_past [of s0 "i + 1" s n] skip_quoted_bounds(2) [of "i + 1" n s]
    by (simp add: lex_switch_def None covers_lex_dot covers_lex_sigil covers_lex_number covers_lex_word covers_token_to named_toks)
qed

definition lexer_ok :: "lr_lexer \<Rightarrow> bool" where
  "lexer_ok lx \<longleftrightarrow> lex_src_len lx \<le> length (lex_src lx) \<and> lex_pos lx \<le> lex_src_len lx"

lemma lexer_next_facts:
  assumes "lexer_ok lx" and "lr_lexer_next lx = (t, lx')"
  shows "lexer_ok lx' \<and> lex_src lx' = lex_src lx \<and> lex_src_len lx' = lex_src_len lx \<and>
    lex_pos lx \<le> tok_start t \<and> blank (span (lex_src lx) (lex_pos lx) (tok_start t)) \<and>
    tok_start t + tok_len t = lex_pos lx' \<and> is_tok (tok_kind t) \<and>
    (if tok_kind t = LR_TOK ''EOF'' then tok_len t = 0 \<and> lex_pos lx' = lex_src_len lx else 0 < tok_len t)"
proof -
  let ?s = "lex_src lx" and ?n = "lex_src_len lx" and ?i = "lex_pos lx"
  let ?p = "skip_blank ?s ?n ?i"
  have ok: "?n \<le> length ?s" "?i \<le> ?n" using assms(1) by (auto simp: lexer_ok_def)
  have p: "?i \<le> ?p" "?p \<le> ?n" "blank (span ?s ?i ?p)"
    using skip_blank_bounds(1) [of ?i ?s ?n] skip_blank_bounds(2) [of ?i ?n ?s] skip_blank_blank ok(2) by auto
  show ?thesis
  proof (cases "?p = ?n")
    case True
    then show ?thesis using assms(2) p ok
      by (auto simp: lr_lexer_next_def skip_whitespace_and_comments_def lexer_ok_def make_token_def named_toks)
  next
    case False
    then have lt: "?p < ?n" using p(2) by simp
    obtain q u where q: "lex_switch ?s ?n ?p (?p + 1) (?s ! ?p) = (q, u)" by fastforce
    have "covers ?n ?p (q, u)" using covers_lex_switch [of "?p + 1" ?p ?n ?s "?s ! ?p"] lt q by simp
    moreover have "t = u" "lx' = lx\<lparr>lex_pos := q\<rparr>"
      using assms(2) q lt by (auto simp: lr_lexer_next_def skip_whitespace_and_comments_def Let_def)
    ultimately show ?thesis using p ok by (auto simp: covers_def lexer_ok_def)
  qed
qed

text \<open>C29: a call of the lexer skips white space and comments only, returns a token of the enumeration
  whose text reaches from there to the new position, and moves forward: unless the text is at its
  end the token is not empty, and only the end of the text gives the end-of-file token.  The
  position stays inside the text.\<close>

theorem lexer_next_correct:
  assumes "lexer_ok lx" and "lr_lexer_next lx = (t, lx')"
  shows "lexer_ok lx' \<and> lex_src lx' = lex_src lx \<and> lex_src_len lx' = lex_src_len lx \<and>
    lex_pos lx \<le> tok_start t \<and> blank (span (lex_src lx) (lex_pos lx) (tok_start t)) \<and>
    tok_start t + tok_len t = lex_pos lx' \<and> is_tok (tok_kind t) \<and>
    (if tok_kind t = LR_TOK ''EOF'' then tok_len t = 0 \<and> lex_pos lx' = lex_src_len lx else 0 < tok_len t)"
  using lexer_next_facts [OF assms] .

definition sample_text :: string where
  "sample_text = '' ; c'' @ [CHR 0x0A] @ ''add i32 -12''"

theorem lexer_next_correct_witness:
  "\<exists>t lx. lr_lexer_next (lr_lexer_init sample_text 16) = (t, lx) \<and> lexer_ok lx \<and>
     tok_start t + tok_len t = lex_pos lx \<and> is_tok (tok_kind t)"
proof -
  obtain t lx where r: "lr_lexer_next (lr_lexer_init sample_text 16) = (t, lx)" by fastforce
  have "lexer_ok (lr_lexer_init sample_text 16)" by (simp add: lexer_ok_def lr_lexer_init_def sample_text_def)
  then show ?thesis using lexer_next_correct [OF _ r] r by blast
qed

section \<open>A run over the text\<close>

text \<open>The tokens up to the end of the text; \<open>None\<close> when the fuel does not suffice.\<close>

fun lex_all :: "nat \<Rightarrow> lr_lexer \<Rightarrow> lr_token list option" where
  "lex_all 0 lx = None"
| "lex_all (Suc n) lx =
     (let (t, lx') = lr_lexer_next lx
      in if tok_kind t = LR_TOK ''EOF'' then Some [] else map_option (Cons t) (lex_all n lx'))"

text \<open>Tokens that cover the text from \<open>a\<close> to \<open>n\<close>: in order, none empty, with blank text between.\<close>

fun tiles :: "string \<Rightarrow> nat \<Rightarrow> lr_token list \<Rightarrow> nat \<Rightarrow> bool" where
  "tiles s a [] n \<longleftrightarrow> a \<le> n \<and> blank (span s a n)"
| "tiles s a (t # ts) n \<longleftrightarrow> a \<le> tok_start t \<and> blank (span s a (tok_start t)) \<and> 0 < tok_len t \<and>
     tiles s (tok_start t + tok_len t) ts n"

text \<open>C30: lexing a text ends.  Repeated calls reach the end of the text after at most one call per
  character and one more, and the tokens tile the text: each character belongs to one token or
  to white space or a comment between two tokens.\<close>

theorem lex_all_tiles:
  assumes "lexer_ok lx" and "lex_src_len lx - lex_pos lx < n"
  shows "\<exists>ts. lex_all n lx = Some ts \<and> tiles (lex_src lx) (lex_pos lx) ts (lex_src_len lx)"
  using assms
proof (induction n lx rule: lex_all.induct)
  case (2 n lx)
  obtain t lx' where r: "lr_lexer_next lx = (t, lx')" by fastforce
  note nx = lexer_next_facts [OF "2.prems"(1) r]
  show ?case
  proof (cases "tok_kind t = LR_TOK ''EOF''")
    case True
    then show ?thesis using nx r "2.prems"(1) by (auto simp: lexer_ok_def)
  next
    case False
    then have len: "0 < tok_len t" using nx by simp
    then have "lex_src_len lx' - lex_pos lx' < n" using nx "2.prems"(2) by (auto simp: lexer_ok_def)
    then obtain ts where "lex_all n lx' = Some ts" "tiles (lex_src lx) (lex_pos lx') ts (lex_src_len lx)"
      using "2.IH" [OF r [symmetric] refl False] nx by auto
    then show ?thesis using r False len nx by auto
  qed
qed simp

theorem lex_all_tiles_witness:
  "\<exists>ts. lex_all 17 (lr_lexer_init sample_text 16) = Some ts \<and> tiles sample_text 0 ts 16"
  using lex_all_tiles [of "lr_lexer_init sample_text 16" 17]
  by (simp add: lexer_ok_def lr_lexer_init_def sample_text_def)

section \<open>Integer literals\<close>

definition digit_char :: "nat \<Rightarrow> char" where
  "digit_char d = char_of (48 + d)"

fun dec :: "nat \<Rightarrow> string" where
  "dec v = (if v < 10 then [digit_char v] else dec (v div 10) @ [digit_char (v mod 10)])"

declare dec.simps [simp del]

lemma of_char_digit: "d < 10 \<Longrightarrow> of_char (digit_char d) = (48 + of_nat d :: 'a::len word)"
proof -
  assume d: "d < 10"
  have "of_char (digit_char d) = (of_nat (of_char (digit_char d)) :: 'a word)" by (simp add: of_nat_of_char)
  also have "of_char (digit_char d) = (48 + d :: nat)" using d by (simp add: digit_char_def)
  finally show ?thesis by simp
qed

lemma digit_char_class: "d < 10 \<Longrightarrow> is_digit_ascii (digit_char d)"
proof -
  assume d: "d < 10"
  have "(of_char (CHR ''0'') :: u32) = 48" by simp
  then have "(of_char (digit_char d) :: u32) - of_char (CHR ''0'') = of_nat d" using of_char_digit [OF d, where 'a = 32] by simp
  moreover have "unat (of_nat d :: u32) = d" using d by (simp add: unat_of_nat_small)
  ultimately show ?thesis using d by (simp add: is_digit_ascii_def word_less_nat_alt)
qed

lemma dec_digits: "list_all is_digit_ascii (dec v)"
  by (induction v rule: dec.induct) (subst dec.simps, auto simp: digit_char_class)

lemma dec_val_dec: "dec_val (dec v) = of_nat v"
proof (induction v rule: dec.induct)
  case (1 v)
  have z: "(of_char (CHR ''0'') :: u64) = 48" by simp
  show ?case
  proof (cases "v < 10")
    case True
    then show ?thesis using of_char_digit [OF True, where 'a = 64] by (subst dec.simps) (simp add: dec_val_def z)
  next
    case False
    have "dec_val (dec v) = dec_val (dec (v div 10)) * 10 + of_nat (v mod 10)"
      using False of_char_digit [of "v mod 10", where 'a = 64] by (subst dec.simps) (simp add: dec_val_def z)
    also have "\<dots> = of_nat (v div 10 * 10 + v mod 10)" using 1 [OF False] by (simp only: of_nat_add of_nat_mult of_nat_numeral)
    finally show ?thesis by simp
  qed
qed

lemma dec_nonempty: "dec v \<noteq> []"
  by (subst dec.simps) simp

lemma run_while_exact:
  "i \<le> e \<Longrightarrow> e \<le> n \<Longrightarrow> (\<And>j. i \<le> j \<Longrightarrow> j < e \<Longrightarrow> P (s ! j)) \<Longrightarrow> e = n \<or> \<not> P (s ! e) \<Longrightarrow> run_while P s n i = e"
proof (induction P s n i rule: run_while.induct)
  case (1 P s n i)
  then show ?case by (cases "i = e") (subst run_while.simps, auto)+
qed

lemma span_middle: "span (a @ b @ c) (length a) (length a + length b) = b"
  by (intro nth_equalityI) (auto simp: span_def nth_append)

text \<open>A digit or a minus sign is no white space and starts neither a comment nor another token.\<close>

definition starts_number :: "char \<Rightarrow> bool" where
  "starts_number c \<longleftrightarrow> c = CHR ''-'' \<or> is_digit_ascii c"

lemma not_number:
  "\<not> starts_number (CHR '';'')" "\<not> starts_number (CHR '' '')" "\<not> starts_number (CHR 0x09)" "\<not> starts_number (CHR 0x0D)" "\<not> starts_number (CHR 0x0A)" "\<not> starts_number (CHR ''.'')"
  "\<not> starts_number (CHR ''!'')" "\<not> starts_number (CHR ''#'')" "\<not> starts_number (CHR ''%'')" "\<not> starts_number (CHR ''@'')" "\<not> starts_number (CHR 0x22)" "\<not> starts_number (CHR ''c'')"
  "list_all (\<lambda>(c, k). \<not> starts_number c) punctuation"
  by code_simp+

lemma number_switch:
  assumes "starts_number c"
  shows "lex_switch s n s0 i c = lex_number s n s0 i c" and "\<not> is_space c" and "c \<noteq> CHR '';''"
proof -
  have "map_of punctuation c = None"
    unfolding map_of_eq_None_iff using not_number(13) assms by (auto simp: list_all_iff)
  moreover have d: "c \<noteq> x" if "\<not> starts_number x" for x using that assms by auto
  moreover have "c = CHR ''-'' \<or> is_digit_ascii c" using assms by (simp add: starts_number_def)
  ultimately show "lex_switch s n s0 i c = lex_number s n s0 i c"
    using d [OF not_number(6)] d [OF not_number(7)] d [OF not_number(8)] d [OF not_number(9)] d [OF not_number(10)]
      d [OF not_number(11)] d [OF not_number(12)]
    unfolding lex_switch_def by (simp only: option.case if_False simp_thms) simp
  show "\<not> is_space c" using d not_number(2-5) by (auto simp: is_space_def)
  show "c \<noteq> CHR '';''" using d [OF not_number(1)] .
qed

lemma lex_number_dec:
  assumes "s = pre @ sg @ dec v @ rest" and "sg = [] \<or> sg = ''-''" and "rest = [] \<or> \<not> is_ident_char (hd rest)"
    and "s0 = length pre" and "e = length pre + length sg + length (dec v)"
  shows "lex_number s (length s) s0 (s0 + 1) (s ! s0) =
    (e, (make_token (LR_TOK ''INT_LIT'') s0 (e - s0))\<lparr>int_val := if sg = ''-'' then - of_nat v else of_nat v\<rparr>)"
proof -
  obtain d ds where d: "dec v = d # ds" using dec_nonempty [of v] by (cases "dec v") auto
  have dd: "is_digit_ascii d" using dec_digits [of v] d by simp
  have nd: "d \<noteq> CHR ''-''" using dd by (auto simp: is_digit_ascii_def)
  have c: "s ! s0 = (if sg = [] then d else CHR ''-'')" using assms(1,2,4) d by (auto simp: nth_append)
  have digit: "is_digit_ascii (s ! j)" if "length pre + length sg \<le> j" "j < e" for j
  proof -
    have "s ! j = dec v ! (j - (length pre + length sg))" using that assms(1,5) by (auto simp: nth_append)
    then show ?thesis using dec_digits [of v] that assms(5) by (simp add: list_all_length)
  qed
  have e: "e = length s \<or> \<not> is_ident_char (s ! e)" "e \<le> length s" using assms(1,3,5) by (auto simp: nth_append hd_conv_nth)
  have sep: "\<not> is_digit_ascii x" "x \<noteq> CHR ''.''" "x \<noteq> CHR ''e''" "x \<noteq> CHR ''E''" "x \<noteq> CHR ''x''" "x \<noteq> CHR ''X''"
    if "\<not> is_ident_char x" for x
    using that by (auto simp: is_ident_char_def is_alpha_ascii_def)
  have len: "s0 + 1 \<le> e" "length pre + length sg \<le> s0 + 1" using assms(2,4,5) d by auto
  have run: "run_while is_digit_ascii s (length s) (s0 + 1) = e"
    using e sep(1) digit len by (intro run_while_exact) auto
  have "span s (length (pre @ sg)) (length (pre @ sg) + length (dec v)) = dec v"
    using span_middle [of "pre @ sg" "dec v" rest] assms(1) by simp
  then have sp: "span s (if s ! s0 = CHR ''-'' then s0 + 1 else s0) e = dec v"
    using assms(2,4,5) c nd by auto
  have neg: "s ! s0 = CHR ''-'' \<Longrightarrow> s0 + 1 < length s \<and> is_digit_ascii (s ! (s0 + 1))"
    using digit [of "s0 + 1"] c nd assms(2,4,5) d e(2) by (auto split: if_splits)
  have hex: "\<not> (s ! s0 = CHR ''0'' \<and> s0 + 1 < length s \<and> (s ! (s0 + 1) = CHR ''x'' \<or> s ! (s0 + 1) = CHR ''X''))"
  proof
    assume h: "s ! s0 = CHR ''0'' \<and> s0 + 1 < length s \<and> (s ! (s0 + 1) = CHR ''x'' \<or> s ! (s0 + 1) = CHR ''X'')"
    then have "s0 + 1 \<noteq> e" using e(1) sep(5,6) by auto
    then have "is_digit_ascii (s ! (s0 + 1))" using digit len by simp
    then show False using h by (auto simp: is_digit_ascii_def)
  qed
  have fin: "\<not> (e < length s \<and> (s ! e = CHR ''.'' \<or> s ! e = CHR ''e'' \<or> s ! e = CHR ''E''))"
    using e sep by auto
  have sign: "s ! s0 = CHR ''-'' \<longleftrightarrow> sg = ''-''" using c nd assms(2) by auto
  show ?thesis
    unfolding lex_number_def Let_def run using neg hex fin sp dec_val_dec [of v] sign by auto
qed

text \<open>lexing the decimal text of a number, with or without a minus sign and followed by anything an
  identifier cannot contain, gives one integer token whose value is the number modulo \<open>2 ^ 64\<close>.\<close>

theorem int_literal_value:
  assumes "s = pre @ sg @ dec v @ rest" and "sg = [] \<or> sg = ''-''" and "rest = [] \<or> \<not> is_ident_char (hd rest)"
    and "s0 = length pre" and "e = length pre + length sg + length (dec v)"
  shows "lr_lexer_next \<lparr>lex_src = s, lex_src_len = length s, lex_pos = s0\<rparr> =
    (\<lparr>tok_kind = LR_TOK ''INT_LIT'', tok_start = s0, tok_len = e - s0,
      int_val = if sg = ''-'' then - of_nat v else of_nat v, float_val = No_float\<rparr>,
     \<lparr>lex_src = s, lex_src_len = length s, lex_pos = e\<rparr>)"
proof -
  obtain d ds where d: "dec v = d # ds" using dec_nonempty [of v] by (cases "dec v") auto
  have c: "s ! s0 = (if sg = [] then d else CHR ''-'')" and lt: "s0 < length s" using assms(1,2,4) d by (auto simp: nth_append)
  have num: "starts_number (s ! s0)" unfolding c using dec_digits [of v] d by (simp add: starts_number_def)
  have "skip_blank s (length s) s0 = s0" using number_switch(2,3) [OF num] by (subst skip_blank.simps) simp
  then show ?thesis
    using lt lex_number_dec [OF assms] number_switch(1) [OF num]
    by (simp add: lr_lexer_next_def skip_whitespace_and_comments_def make_token_def)
qed

theorem int_literal_value_witness:
  "lr_lexer_next \<lparr>lex_src = ''ret -12,'', lex_src_len = length ''ret -12,'', lex_pos = 4\<rparr> =
    (\<lparr>tok_kind = LR_TOK ''INT_LIT'', tok_start = 4, tok_len = 3, int_val = - 12, float_val = No_float\<rparr>,
     \<lparr>lex_src = ''ret -12,'', lex_src_len = length ''ret -12,'', lex_pos = 7\<rparr>)"
proof -
  have "digit_char 1 = CHR ''1''" "digit_char 2 = CHR ''2''" by code_simp+
  then have t: "dec 12 = ''12''" by (simp add: dec.simps)
  have "\<not> is_ident_char (CHR '','')" by code_simp
  then show ?thesis using int_literal_value [of "''ret -12,''" "''ret ''" "''-''" 12 "'',''" 4 7] by (simp add: t)
qed

section \<open>Locations\<close>

lemma loc_loop_correct:
  "loc_loop cs p line ls = (line + of_nat (length (filter (\<lambda>c. c = CHR 0x0A) cs)),
     if CHR 0x0A \<in> set cs then p + length cs - length (takeWhile (\<lambda>c. c \<noteq> CHR 0x0A) (rev cs)) else ls)"
proof (induction cs arbitrary: p line ls)
  case (Cons c cs)
  have "CHR 0x0A \<notin> set cs \<Longrightarrow> takeWhile (\<lambda>c. c \<noteq> CHR 0x0A) (rev cs @ [c]) = rev cs @ takeWhile (\<lambda>c. c \<noteq> CHR 0x0A) [c]"
    by (rule takeWhile_append2) auto
  moreover have "CHR 0x0A \<in> set cs \<Longrightarrow> takeWhile (\<lambda>c. c \<noteq> CHR 0x0A) (rev cs @ [c]) = takeWhile (\<lambda>c. c \<noteq> CHR 0x0A) (rev cs)"
    by (rule takeWhile_append1 [of "CHR 0x0A"]) auto
  ultimately show ?case using Cons by (auto simp: ac_simps)
qed simp

text \<open>the location of a position: the line is one more than the number of newlines before it, the
  column one more than the number of characters since the last of them.\<close>

theorem compute_loc_correct:
  assumes "lex_src_len lx \<le> length (lex_src lx)" and "before = take (min p (lex_src_len lx)) (lex_src lx)"
  shows "lr_lexer_compute_loc lx p =
    (1 + of_nat (length (filter (\<lambda>c. c = CHR 0x0A) before)), 1 + of_nat (length (takeWhile (\<lambda>c. c \<noteq> CHR 0x0A) (rev before))))"
proof -
  let ?w = "length (takeWhile (\<lambda>c. c \<noteq> CHR 0x0A) (rev before))"
  have e: "(if p \<le> lex_src_len lx then p else lex_src_len lx) = length before" using assms by simp
  have b: "take (length before) (lex_src lx) = before" using assms by simp
  have "lr_lexer_compute_loc lx p = (let (l, ls) = loc_loop before 0 1 0 in (l, of_nat (length before - ls) + 1))"
    unfolding lr_lexer_compute_loc_def e b Let_def by simp
  also have "\<dots> = (1 + of_nat (length (filter (\<lambda>c. c = CHR 0x0A) before)), of_nat ?w + 1)"
  proof (cases "CHR 0x0A \<in> set before")
    case True
    have "?w \<le> length before" using length_takeWhile_le [of _ "rev before"] by simp
    then show ?thesis using True by (simp add: loc_loop_correct)
  next
    case False
    then have "takeWhile (\<lambda>c. c \<noteq> CHR 0x0A) (rev before) = rev before" by (auto simp: takeWhile_eq_all_conv)
    then have "?w = length before" by (metis length_rev)
    then show ?thesis using False by (simp add: loc_loop_correct)
  qed
  finally show ?thesis by (simp add: add.commute)
qed

theorem compute_loc_correct_witness:
  "lr_lexer_compute_loc \<lparr>lex_src = [CHR ''a'', CHR 0x0A, CHR ''b''], lex_src_len = 3, lex_pos = 0\<rparr> 7 = (2, 2)"
  using compute_loc_correct [of "\<lparr>lex_src = [CHR ''a'', CHR 0x0A, CHR ''b''], lex_src_len = 3, lex_pos = 0\<rparr>" "[CHR ''a'', CHR 0x0A, CHR ''b'']" 7]
  by simp

end
