(* ===== verification/Float128.thy ===== *)
theory Float128
  imports Liric_Prelude "HOL-Library.Log_Nat"
begin

text \<open>
  The binary128 soft-float of \<^verbatim>\<open>src/src/lr_float128.c\<close>: 128-bit arithmetic on two 64-bit limbs,
  packing and unpacking, comparison, the arithmetic operations and the conversions.

  A value is its sixteen little-endian bytes.  A \<^verbatim>\<open>double\<close> or \<^verbatim>\<open>float\<close> is its bit pattern.  Signs and
  flags of type \<^verbatim>\<open>int\<close> that hold 0 or 1 are Booleans.  Exponents and shift counts are integers: they
  stay far inside 32 bits.
\<close>

section \<open>128-bit integers\<close>

record u128 =
  lo :: u64
  hi :: u64

definition u128_make :: "u64 \<Rightarrow> u64 \<Rightarrow> u128" where
  "u128_make h l = \<lparr>lo = l, hi = h\<rparr>"

definition u128_from_u64 :: "u64 \<Rightarrow> u128" where
  "u128_from_u64 v = \<lparr>lo = v, hi = 0\<rparr>"

definition u128_zero :: u128 where
  "u128_zero = \<lparr>lo = 0, hi = 0\<rparr>"

definition u128_one :: u128 where
  "u128_one = \<lparr>lo = 1, hi = 0\<rparr>"

definition u128_add :: "u128 \<Rightarrow> u128 \<Rightarrow> u128" where
  "u128_add a b = (let l = lo a + lo b in \<lparr>lo = l, hi = hi a + hi b + (if l < lo a then 1 else 0)\<rparr>)"

definition u128_sub :: "u128 \<Rightarrow> u128 \<Rightarrow> u128" where
  "u128_sub a b = \<lparr>lo = lo a - lo b, hi = hi a - hi b - (if lo a < lo b then 1 else 0)\<rparr>"

definition u128_inc :: "u128 \<Rightarrow> u128" where
  "u128_inc a = (let l = lo a + 1 in \<lparr>lo = l, hi = hi a + (if l = 0 then 1 else 0)\<rparr>)"

definition u128_and :: "u128 \<Rightarrow> u128 \<Rightarrow> u128" where
  "u128_and a b = \<lparr>lo = lo a AND lo b, hi = hi a AND hi b\<rparr>"

definition u128_or :: "u128 \<Rightarrow> u128 \<Rightarrow> u128" where
  "u128_or a b = \<lparr>lo = lo a OR lo b, hi = hi a OR hi b\<rparr>"

definition u128_not :: "u128 \<Rightarrow> u128" where
  "u128_not a = \<lparr>lo = NOT (lo a), hi = NOT (hi a)\<rparr>"

definition u128_shl :: "u128 \<Rightarrow> int \<Rightarrow> u128" where
  "u128_shl a n =
     (if n \<le> 0 then a
      else if 128 \<le> n then u128_zero
      else if 64 \<le> n then \<lparr>lo = 0, hi = push_bit (nat (n - 64)) (lo a)\<rparr>
      else \<lparr>lo = push_bit (nat n) (lo a), hi = push_bit (nat n) (hi a) OR drop_bit (nat (64 - n)) (lo a)\<rparr>)"

definition u128_shr :: "u128 \<Rightarrow> int \<Rightarrow> u128" where
  "u128_shr a n =
     (if n \<le> 0 then a
      else if 128 \<le> n then u128_zero
      else if 64 \<le> n then \<lparr>lo = drop_bit (nat (n - 64)) (hi a), hi = 0\<rparr>
      else \<lparr>lo = drop_bit (nat n) (lo a) OR push_bit (nat (64 - n)) (hi a), hi = drop_bit (nat n) (hi a)\<rparr>)"

definition u128_gt :: "u128 \<Rightarrow> u128 \<Rightarrow> bool" where
  "u128_gt a b \<longleftrightarrow> hi b < hi a \<or> (hi a = hi b \<and> lo b < lo a)"

definition u128_gte :: "u128 \<Rightarrow> u128 \<Rightarrow> bool" where
  "u128_gte a b \<longleftrightarrow> hi b < hi a \<or> (hi a = hi b \<and> lo b \<le> lo a)"

definition u128_lt :: "u128 \<Rightarrow> u128 \<Rightarrow> bool" where
  "u128_lt a b = u128_gt b a"

definition u128_eq :: "u128 \<Rightarrow> u128 \<Rightarrow> bool" where
  "u128_eq a b \<longleftrightarrow> hi a = hi b \<and> lo a = lo b"

definition u128_is_zero :: "u128 \<Rightarrow> bool" where
  "u128_is_zero a \<longleftrightarrow> lo a = 0 \<and> hi a = 0"

definition u128_bit :: "u128 \<Rightarrow> int \<Rightarrow> bool" where
  "u128_bit a n \<longleftrightarrow> (if 64 \<le> n then drop_bit (nat (n - 64)) (hi a) AND 1 \<noteq> 0 else drop_bit (nat n) (lo a) AND 1 \<noteq> 0)"

definition u128_shl1 :: "u128 \<Rightarrow> u128" where
  "u128_shl1 a = \<lparr>lo = push_bit 1 (lo a), hi = push_bit 1 (hi a) OR drop_bit 63 (lo a)\<rparr>"

text \<open>The compiler's count of leading zeros, of a word that is not zero.\<close>

definition builtin_clz :: "'a::len word \<Rightarrow> int" where
  "builtin_clz v = int LENGTH('a) - bitlen (uint v)"

definition lf_clz64 :: "u64 \<Rightarrow> int" where
  "lf_clz64 v = (if v \<noteq> 0 then builtin_clz v else 64)"

definition lf_clz32 :: "u32 \<Rightarrow> int" where
  "lf_clz32 v = (if v \<noteq> 0 then builtin_clz v else 32)"

definition u128_clz :: "u128 \<Rightarrow> int" where
  "u128_clz v = (if hi v \<noteq> 0 then lf_clz64 (hi v) else if lo v \<noteq> 0 then 64 + lf_clz64 (lo v) else 128)"

definition mul64x64 :: "u64 \<Rightarrow> u64 \<Rightarrow> u128" where
  "mul64x64 a b =
     (let a_lo = a AND 0xFFFFFFFF; a_hi = drop_bit 32 a;
          b_lo = b AND 0xFFFFFFFF; b_hi = drop_bit 32 b;
          p0 = a_lo * b_lo; p1 = a_lo * b_hi; p2 = a_hi * b_lo; p3 = a_hi * b_hi;
          mid = drop_bit 32 p0 + (p1 AND 0xFFFFFFFF) + (p2 AND 0xFFFFFFFF)
      in \<lparr>lo = push_bit 32 mid OR (p0 AND 0xFFFFFFFF), hi = p3 + drop_bit 32 p1 + drop_bit 32 p2 + drop_bit 32 mid\<rparr>)"

definition u128_mul128 :: "u128 \<Rightarrow> u128 \<Rightarrow> u128 \<times> u128" where
  "u128_mul128 a b =
     (let c00 = mul64x64 (lo a) (lo b); c01 = mul64x64 (lo a) (hi b);
          c10 = mul64x64 (hi a) (lo b); c11 = mul64x64 (hi a) (hi b);
          m0 = hi c00;
          m1 = m0 + lo c01; mc1 = (if m1 < m0 then 1 else 0);
          m2 = m1 + lo c10; mc2 = (if m2 < m1 then 1 else 0);
          h0 = lo c11;
          h1 = h0 + hi c01; hc1 = (if h1 < h0 then 1 else 0);
          h2 = h1 + hi c10; hc2 = (if h2 < h1 then 1 else 0);
          h3 = h2 + (mc1 + mc2); hc3 = (if h3 < h2 then 1 else 0)
      in (\<lparr>lo = h3, hi = hi c11 + (hc1 + hc2 + hc3)\<rparr>, \<lparr>lo = lo c00, hi = m2\<rparr>))"

section \<open>Values\<close>

type_synonym lr_f128 = bytes

record f128_parts =
  p_sign :: bool
  p_exp :: int
  p_mant :: u128
  is_nan :: bool
  is_inf :: bool
  is_zero :: bool

definition f128_lo :: "lr_f128 \<Rightarrow> u64" where
  "f128_lo v = le_join (take 8 v)"

definition f128_hi :: "lr_f128 \<Rightarrow> u64" where
  "f128_hi v = le_join (take 8 (drop 8 v))"

definition f128_store :: "u64 \<Rightarrow> u64 \<Rightarrow> lr_f128" where
  "f128_store h l = le_split 8 l @ le_split 8 h"

definition parts_zero :: f128_parts where
  "parts_zero = \<lparr>p_sign = False, p_exp = 0, p_mant = u128_zero, is_nan = False, is_inf = False, is_zero = False\<rparr>"

definition f128_unpack :: "lr_f128 \<Rightarrow> f128_parts" where
  "f128_unpack v =
     (let l = f128_lo v; h = f128_hi v;
          p = parts_zero\<lparr>p_sign := (drop_bit 63 h \<noteq> 0)\<rparr>;
          biased = uint (drop_bit 48 h AND 0x7FFF);
          mhi = h AND 0x0000FFFFFFFFFFFF; mlo = l
      in if biased = 0x7FFF
         then if mhi \<noteq> 0 \<or> mlo \<noteq> 0 then p\<lparr>is_nan := True\<rparr> else p\<lparr>is_inf := True\<rparr>
         else if biased = 0 \<and> mhi = 0 \<and> mlo = 0 then p\<lparr>is_zero := True\<rparr>
         else if biased \<noteq> 0 then p\<lparr>p_mant := u128_make (mhi OR push_bit 48 1) mlo, p_exp := biased - 16383\<rparr>
         else p\<lparr>p_mant := u128_make mhi mlo, p_exp := - 16382\<rparr>)"

definition sign_bit63 :: "bool \<Rightarrow> u64" where
  "sign_bit63 s = push_bit 63 (of_bool s)"

text \<open>Normalisation: the mantissa with its leading bit at position 112, rounded to even.\<close>

definition pack_normalize :: "int \<Rightarrow> u128 \<Rightarrow> int \<times> u128" where
  "pack_normalize e mant =
     (let shift = u128_clz mant - (127 - 112)
      in if 0 < shift then (e - shift, u128_shl mant shift)
         else if shift < 0
         then let rsh = - shift;
                  sticky = u128_and mant (u128_sub (u128_shl u128_one rsh) u128_one);
                  m1 = u128_shr mant rsh;
                  half = u128_shl u128_one (rsh - 1);
                  m2 = (if u128_gt sticky half \<or> (u128_eq sticky half \<and> \<not> u128_is_zero (u128_and m1 u128_one))
                        then u128_inc m1 else m1);
                  (e3, m3) = (if \<not> u128_is_zero (u128_shr m2 113) then (e + 1, u128_shr m2 1) else (e, m2))
              in (e3 + rsh, m3)
         else (e, mant))"

definition f128_pack_parts :: "bool \<Rightarrow> int \<Rightarrow> u128 \<Rightarrow> lr_f128" where
  "f128_pack_parts sign e0 mant0 =
     (if u128_is_zero mant0 then f128_store (sign_bit63 sign) 0
      else let (e, mant) = pack_normalize e0 mant0
           in if e \<le> - 16383
              then let subnorm_shift = - 16382 - e + 1
                   in if 113 \<le> subnorm_shift then f128_store (sign_bit63 sign) 0
                      else let m = u128_shr mant subnorm_shift
                           in f128_store (sign_bit63 sign OR (hi m AND 0x0000FFFFFFFFFFFF)) (lo m)
              else let biased = e + 16383
                   in if 0x7FFF \<le> biased then f128_store (sign_bit63 sign OR push_bit 48 0x7FFF) 0
                      else let m = u128_and mant (u128_sub (u128_shl u128_one 112) u128_one)
                           in f128_store (sign_bit63 sign OR push_bit 48 (word_of_int biased) OR (hi m AND 0x0000FFFFFFFFFFFF)) (lo m))"

definition f128_make_nan :: lr_f128 where
  "f128_make_nan = f128_store 0x7FFF800000000000 0"

definition f128_make_inf :: "bool \<Rightarrow> lr_f128" where
  "f128_make_inf sign = f128_store (sign_bit63 sign OR push_bit 48 0x7FFF) 0"

definition f128_make_zero :: "bool \<Rightarrow> lr_f128" where
  "f128_make_zero sign = f128_store (sign_bit63 sign) 0"

definition f128_is_zero :: "lr_f128 \<Rightarrow> bool" where
  "f128_is_zero v = is_zero (f128_unpack v)"

definition f128_const :: "bool \<Rightarrow> u64 \<Rightarrow> u64 \<Rightarrow> u64 \<Rightarrow> lr_f128" where
  "f128_const sign biased mhi mlo = f128_store (sign_bit63 sign OR push_bit 48 biased OR (mhi AND 0x0000FFFFFFFFFFFF)) mlo"

definition f128_one :: lr_f128 where
  "f128_one = f128_const False 16383 0 0"

definition f128_two :: lr_f128 where
  "f128_two = f128_const False 16384 0 0"

definition f128_cmp_internal :: "lr_f128 \<Rightarrow> lr_f128 \<Rightarrow> int" where
  "f128_cmp_internal a b =
     (let pa = f128_unpack a; pb = f128_unpack b
      in if is_nan pa \<or> is_nan pb then 2
         else if is_zero pa \<and> is_zero pb then 0
         else if is_zero pa then (if p_sign pb then 1 else - 1)
         else if is_zero pb then (if p_sign pa then - 1 else 1)
         else if p_sign pa \<noteq> p_sign pb then (if p_sign pa then - 1 else 1)
         else let mag = (if is_inf pa \<and> is_inf pb then 0
                         else if is_inf pa then 1
                         else if is_inf pb then - 1
                         else if p_exp pa \<noteq> p_exp pb then (if p_exp pb < p_exp pa then 1 else - 1)
                         else if u128_gt (p_mant pa) (p_mant pb) then 1
                         else if u128_lt (p_mant pa) (p_mant pb) then - 1 else 0)
              in if p_sign pa then - mag else mag)"

section \<open>Arithmetic\<close>

definition f128_neg :: "lr_f128 \<Rightarrow> lr_f128" where
  "f128_neg a = a[15 := (a ! 15) XOR 0x80]"

definition f128_abs :: "lr_f128 \<Rightarrow> lr_f128" where
  "f128_abs a = a[15 := (a ! 15) AND 0x7F]"

definition f128_add_same_sign :: "f128_parts \<Rightarrow> f128_parts \<Rightarrow> lr_f128" where
  "f128_add_same_sign pa pb =
     (let shift = p_exp pa - p_exp pb;
          mb = (if shift < 128 then u128_shr (p_mant pb) shift else u128_zero);
          sum = u128_add (p_mant pa) mb
      in if \<not> u128_is_zero (u128_shr sum 113) then f128_pack_parts (p_sign pa) (p_exp pa + 1) (u128_shr sum 1)
         else f128_pack_parts (p_sign pa) (p_exp pa) sum)"

definition f128_sub_mag :: "f128_parts \<Rightarrow> f128_parts \<Rightarrow> bool \<Rightarrow> lr_f128" where
  "f128_sub_mag pa pb result_sign =
     (let shift = p_exp pa - p_exp pb;
          mb = (if shift < 128 then u128_shr (p_mant pb) shift else u128_zero)
      in f128_pack_parts result_sign (p_exp pa) (u128_sub (p_mant pa) mb))"

definition f128_add :: "lr_f128 \<Rightarrow> lr_f128 \<Rightarrow> lr_f128" where
  "f128_add a b =
     (let pa0 = f128_unpack a; pb0 = f128_unpack b
      in if is_nan pa0 then a
         else if is_nan pb0 then b
         else if is_inf pa0 \<and> is_inf pb0 then (if p_sign pa0 \<noteq> p_sign pb0 then f128_make_nan else a)
         else if is_inf pa0 then a
         else if is_inf pb0 then b
         else if is_zero pa0 \<and> is_zero pb0 then f128_make_zero (p_sign pa0 \<and> p_sign pb0)
         else if is_zero pa0 then b
         else if is_zero pb0 then a
         else let (pa, pb) = (if p_exp pa0 < p_exp pb0 \<or> (p_exp pa0 = p_exp pb0 \<and> u128_lt (p_mant pa0) (p_mant pb0))
                              then (pb0, pa0) else (pa0, pb0))
              in if p_sign pa = p_sign pb then f128_add_same_sign pa pb
                 else if u128_eq (p_mant pa) (p_mant pb) \<and> p_exp pa = p_exp pb then f128_make_zero False
                 else f128_sub_mag pa pb (p_sign pa))"

definition f128_sub :: "lr_f128 \<Rightarrow> lr_f128 \<Rightarrow> lr_f128" where
  "f128_sub a b = f128_add a (f128_neg b)"

text \<open>The 256-bit product shifted to 113 bits and rounded to even.\<close>

definition round_up :: "bool \<Rightarrow> u128 \<Rightarrow> u128 \<Rightarrow> u128" where
  "round_up round_bit sticky m =
     (if round_bit \<and> (\<not> u128_is_zero sticky \<or> \<not> u128_is_zero (u128_and m u128_one)) then u128_inc m else m)"

definition mul_round :: "u128 \<Rightarrow> u128 \<Rightarrow> int \<Rightarrow> u128" where
  "mul_round prod_hi prod_lo rsh =
     (if 128 \<le> rsh
      then let rsh2 = rsh - 128;
               sticky = (if 1 < rsh2 then u128_and prod_hi (u128_sub (u128_shl u128_one (rsh2 - 1)) u128_one) else u128_zero)
           in round_up (if 0 < rsh2 then u128_bit prod_hi (rsh2 - 1) else u128_bit prod_lo 127)
                (u128_or sticky prod_lo) (u128_shr prod_hi rsh2)
      else round_up (u128_bit prod_lo (rsh - 1)) (u128_and prod_lo (u128_sub (u128_shl u128_one (rsh - 1)) u128_one))
             (u128_or (u128_shl prod_hi (128 - rsh)) (u128_shr prod_lo rsh)))"

definition f128_mul :: "lr_f128 \<Rightarrow> lr_f128 \<Rightarrow> lr_f128" where
  "f128_mul a b =
     (let pa = f128_unpack a; pb = f128_unpack b; rsign = (p_sign pa \<noteq> p_sign pb)
      in if is_nan pa then a
         else if is_nan pb then b
         else if is_inf pa \<or> is_inf pb then (if is_zero pa \<or> is_zero pb then f128_make_nan else f128_make_inf rsign)
         else if is_zero pa \<or> is_zero pb then f128_make_zero rsign
         else let (prod_hi, prod_lo) = u128_mul128 (p_mant pa) (p_mant pb);
                  rsh = 255 - u128_clz prod_hi - 112
              in f128_pack_parts rsign (p_exp pa + p_exp pb + (rsh - 112)) (mul_round prod_hi prod_lo rsh))"

fun div_loop :: "nat \<Rightarrow> u128 \<Rightarrow> u128 \<Rightarrow> u128 \<Rightarrow> u128 \<times> u128" where
  "div_loop 0 mant_b r q = (r, q)"
| "div_loop (Suc n) mant_b r q =
     (let r1 = u128_shl1 r; q1 = u128_shl1 q
      in if u128_gte r1 mant_b then div_loop n mant_b (u128_sub r1 mant_b) (u128_or q1 u128_one)
         else div_loop n mant_b r1 q1)"

definition f128_div :: "lr_f128 \<Rightarrow> lr_f128 \<Rightarrow> lr_f128" where
  "f128_div a b =
     (let pa = f128_unpack a; pb = f128_unpack b; rsign = (p_sign pa \<noteq> p_sign pb)
      in if is_nan pa then a
         else if is_nan pb then b
         else if is_zero pb then (if is_zero pa then f128_make_nan else f128_make_inf rsign)
         else if is_inf pa then (if is_inf pb then f128_make_nan else f128_make_inf rsign)
         else if is_zero pa then f128_make_zero rsign
         else if is_inf pb then f128_make_zero rsign
         else let (r, q) = div_loop 113 (p_mant pb) (p_mant pa) u128_zero;
                  quotient = (if u128_gte (u128_shl1 r) (p_mant pb) then u128_inc q else q)
              in f128_pack_parts rsign (p_exp pa - p_exp pb - 1) quotient)"

section \<open>Conversions\<close>

definition f128_from_f64 :: "u64 \<Rightarrow> lr_f128" where
  "f128_from_f64 bits =
     (let sign = (drop_bit 63 bits \<noteq> 0);
          dexp = uint (drop_bit 52 bits AND 0x7FF);
          dmant = bits AND 0x000FFFFFFFFFFFFF
      in if dexp = 0x7FF then (if dmant \<noteq> 0 then f128_make_nan else f128_make_inf sign)
         else if dexp = 0 \<and> dmant = 0 then f128_make_zero sign
         else if dexp \<noteq> 0
         then f128_pack_parts sign (dexp - 1023) (u128_shl (u128_from_u64 (dmant OR push_bit 52 1)) (112 - 52))
         else f128_pack_parts sign (- 1022 - 52) (u128_shl (u128_from_u64 dmant) (112 - 52)))"

definition f128_from_f32 :: "u32 \<Rightarrow> lr_f128" where
  "f128_from_f32 bits =
     (let sign = (drop_bit 31 bits \<noteq> 0);
          fexp = uint (drop_bit 23 bits AND 0xFF);
          fmant = bits AND 0x007FFFFF
      in if fexp = 0xFF then (if fmant \<noteq> 0 then f128_make_nan else f128_make_inf sign)
         else if fexp = 0 \<and> fmant = 0 then f128_make_zero sign
         else if fexp \<noteq> 0
         then f128_pack_parts sign (fexp - 127) (u128_shl (u128_from_u64 (ucast (fmant OR push_bit 23 1))) (112 - 23))
         else f128_pack_parts sign (- 126 - 23) (u128_shl (u128_from_u64 (ucast fmant)) (112 - 23)))"

definition f128_to_f64 :: "lr_f128 \<Rightarrow> u64" where
  "f128_to_f64 a =
     (let p = f128_unpack a
      in if is_nan p then 0x7FF8000000000000
         else if is_inf p then sign_bit63 (p_sign p) OR 0x7FF0000000000000
         else if is_zero p then sign_bit63 (p_sign p)
         else let dexp = p_exp p + 1023
              in if 0x7FF \<le> dexp then sign_bit63 (p_sign p) OR 0x7FF0000000000000
                 else if dexp \<le> 0
                 then let rsh = (112 - 52) + (1 - dexp)
                      in if 128 \<le> rsh then sign_bit63 (p_sign p)
                         else sign_bit63 (p_sign p) OR lo (u128_shr (p_mant p) rsh)
                 else let rsh = 112 - 52;
                          dmant = lo (u128_shr (p_mant p) rsh) AND 0x000FFFFFFFFFFFFF;
                          round_bit = u128_bit (p_mant p) (rsh - 1);
                          sticky = u128_and (p_mant p) (u128_sub (u128_shl u128_one (rsh - 1)) u128_one);
                          d1 = (if round_bit \<and> (\<not> u128_is_zero sticky \<or> dmant AND 1 \<noteq> 0) then dmant + 1 else dmant);
                          (d2, e2) = (if drop_bit 52 d1 \<noteq> 0 then (drop_bit 1 d1, dexp + 1) else (d1, dexp))
                      in sign_bit63 (p_sign p) OR push_bit 52 (word_of_int e2) OR d2)"

definition f128_from_i32 :: "u32 \<Rightarrow> lr_f128" where
  "f128_from_i32 x =
     (if x = 0 then f128_make_zero False
      else let sign = (sint x < 0);
               abs_x = (if sign then - scast x else ucast x :: u64);
               lz32 = lf_clz32 (ucast abs_x)
           in f128_pack_parts sign (31 - lz32) (u128_shl (u128_from_u64 abs_x) (112 - (31 - lz32))))"

definition f128_from_i64 :: "u64 \<Rightarrow> lr_f128" where
  "f128_from_i64 x =
     (if x = 0 then f128_make_zero False
      else let sign = (sint x < 0);
               abs_x = (if sign then - x else x);
               e = 63 - lf_clz64 abs_x
           in f128_pack_parts sign e (u128_shl (u128_from_u64 abs_x) (112 - e)))"

definition f128_to_i32 :: "lr_f128 \<Rightarrow> u32" where
  "f128_to_i32 a =
     (let p = f128_unpack a
      in if is_nan p \<or> is_inf p \<or> is_zero p then 0
         else if p_exp p < 0 then 0
         else if 30 < p_exp p then (if p_sign p then 0x80000000 else 0x7FFFFFFF)
         else let v = ucast (lo (u128_shr (p_mant p) (112 - p_exp p))) in if p_sign p then - v else v)"

definition f128_to_i64 :: "lr_f128 \<Rightarrow> u64" where
  "f128_to_i64 a =
     (let p = f128_unpack a
      in if is_nan p \<or> is_inf p \<or> is_zero p then 0
         else if p_exp p < 0 then 0
         else if 62 < p_exp p then (if p_sign p then 0x8000000000000000 else 0x7FFFFFFFFFFFFFFF)
         else let v = lo (u128_shr (p_mant p) (112 - p_exp p)) in if p_sign p then - v else v)"

section \<open>Functions\<close>

fun newton :: "nat \<Rightarrow> lr_f128 \<Rightarrow> lr_f128 \<Rightarrow> lr_f128" where
  "newton 0 a x = x"
| "newton (Suc n) a x = newton n a (f128_div (f128_add x (f128_div a x)) f128_two)"

definition f128_sqrt :: "lr_f128 \<Rightarrow> lr_f128" where
  "f128_sqrt a =
     (let p = f128_unpack a
      in if is_nan p \<or> p_sign p then f128_make_nan
         else if is_zero p then a
         else if is_inf p then a
         else newton 7 a (f128_pack_parts False (p_exp p div 2) (u128_shl u128_one 112)))"

definition f128_trunc :: "lr_f128 \<Rightarrow> lr_f128" where
  "f128_trunc a =
     (let p = f128_unpack a
      in if is_nan p \<or> is_inf p \<or> is_zero p then a
         else if 112 \<le> p_exp p then a
         else if p_exp p < 0 then f128_make_zero (p_sign p)
         else let mask' = u128_not (u128_sub (u128_shl u128_one (112 - p_exp p)) u128_one)
              in f128_pack_parts (p_sign p) (p_exp p) (u128_and (p_mant p) mask'))"

definition f128_mod :: "lr_f128 \<Rightarrow> lr_f128 \<Rightarrow> lr_f128" where
  "f128_mod a b = f128_sub a (f128_mul (f128_trunc (f128_div a b)) b)"

function pow_loop :: "u64 \<Rightarrow> lr_f128 \<Rightarrow> lr_f128 \<Rightarrow> lr_f128" where
  "pow_loop m result b =
     (if m \<noteq> 0 then pow_loop (drop_bit 1 m) (if m AND 1 \<noteq> 0 then f128_mul result b else result) (f128_mul b b) else result)"
  by pat_completeness auto
termination
proof (relation "measure (\<lambda>(m, _, _). unat m)")
  fix m :: u64 and result b
  assume "m \<noteq> 0"
  then have "0 < unat m" by (simp add: unat_gt_0)
  moreover have "unat (drop_bit 1 m) = unat m div 2" by (simp add: unsigned_drop_bit_eq drop_bit_Suc unat_div_distrib)
  ultimately show "((drop_bit 1 m, (if m AND 1 \<noteq> 0 then f128_mul result b else result), f128_mul b b), m, result, b)
      \<in> measure (\<lambda>(m, _, _). unat m)" by simp
qed auto

declare pow_loop.simps [simp del]

definition f128_pow :: "lr_f128 \<Rightarrow> lr_f128 \<Rightarrow> lr_f128" where
  "f128_pow base exp_v =
     (if f128_is_zero exp_v then f128_one
      else let ep = f128_unpack exp_v
           in if is_nan ep \<or> is_inf ep then f128_make_nan
              else let n = f128_to_i64 exp_v;
                       neg = (sint n < 0);
                       result = pow_loop (if neg then - n else n) f128_one base
                   in if neg then f128_div f128_one result else result)"

section \<open>Entry points\<close>

definition lr_f128_eq :: "lr_f128 \<Rightarrow> lr_f128 \<Rightarrow> bool" where
  "lr_f128_eq a b \<longleftrightarrow> f128_cmp_internal a b = 0"

definition lr_f128_ne :: "lr_f128 \<Rightarrow> lr_f128 \<Rightarrow> bool" where
  "lr_f128_ne a b \<longleftrightarrow> (let c = f128_cmp_internal a b in if c = 2 then True else c \<noteq> 0)"

definition lr_f128_lt :: "lr_f128 \<Rightarrow> lr_f128 \<Rightarrow> bool" where
  "lr_f128_lt a b \<longleftrightarrow> (let c = f128_cmp_internal a b in if c = 2 then False else c < 0)"

definition lr_f128_le :: "lr_f128 \<Rightarrow> lr_f128 \<Rightarrow> bool" where
  "lr_f128_le a b \<longleftrightarrow> (let c = f128_cmp_internal a b in if c = 2 then False else c \<le> 0)"

definition lr_f128_gt :: "lr_f128 \<Rightarrow> lr_f128 \<Rightarrow> bool" where
  "lr_f128_gt a b \<longleftrightarrow> (let c = f128_cmp_internal a b in if c = 2 then False else 0 < c)"

definition lr_f128_ge :: "lr_f128 \<Rightarrow> lr_f128 \<Rightarrow> bool" where
  "lr_f128_ge a b \<longleftrightarrow> (let c = f128_cmp_internal a b in if c = 2 then False else 0 \<le> c)"

end
