(* ===== verification/Float128_Limbs.thy ===== *)
theory Float128_Limbs
  imports Float128
begin

text \<open>
  The two-limb arithmetic of \<^verbatim>\<open>src/src/lr_float128.c\<close> refines arithmetic of 128-bit words.
\<close>

named_theorems limb_simps \<open>operations on limbs as operations on 128-bit words\<close>

definition u128_word :: "u128 \<Rightarrow> 128 word" where
  "u128_word a = push_bit 64 (ucast (hi a)) OR ucast (lo a)"

lemma bit_u128_word: "bit (u128_word a) n \<longleftrightarrow> (if n < 64 then bit (lo a) n else bit (hi a) (n - 64))"
  by (auto simp: u128_word_def bit_simps dest: bit_imp_le_length)

lemma u128_word_int: "u128_word a = of_int (uint (hi a) * 2 ^ 64 + uint (lo a))"
proof -
  have "push_bit 64 (ucast (hi a)) OR ucast (lo a) = push_bit 64 (ucast (hi a)) + (ucast (lo a) :: 128 word)"
    by (rule disjunctive_add_eq_or [symmetric], rule bit_eqI) (auto simp: bit_simps dest: bit_imp_le_length)
  then show ?thesis by (simp add: u128_word_def push_bit_eq_mult)
qed

lemma uint_u128_word: "uint (u128_word a) = uint (hi a) * 2 ^ 64 + uint (lo a)"
proof -
  have "uint (hi a) < 2 ^ 64" "uint (lo a) < 2 ^ 64" using uint_lt2p [of "hi a"] uint_lt2p [of "lo a"] by simp_all
  then have "uint (hi a) * 2 ^ 64 + uint (lo a) < 2 ^ 128" by simp
  moreover have "0 \<le> uint (hi a) * 2 ^ 64 + uint (lo a)" by simp
  ultimately have "take_bit LENGTH(128) (uint (hi a) * 2 ^ 64 + uint (lo a)) = uint (hi a) * 2 ^ 64 + uint (lo a)"
    by (intro take_bit_int_eq_self) simp_all
  then show ?thesis unfolding u128_word_int uint_word_of_int_eq .
qed

lemma u128_word_inject: "u128_word a = u128_word b \<longleftrightarrow> a = b"
proof
  assume "u128_word a = u128_word b"
  then have b: "(if n < 64 then bit (lo a) n else bit (hi a) (n - 64)) = (if n < 64 then bit (lo b) n else bit (hi b) (n - 64))" for n
    by (simp only: bit_u128_word [symmetric])
  have "lo a = lo b"
  proof (rule bit_eqI)
    fix n
    show "bit (lo a) n = bit (lo b) n" using b [of n] by (cases "n < 64") (auto dest: bit_imp_le_length)
  qed
  moreover have "hi a = hi b"
  proof (rule bit_eqI)
    fix n
    show "bit (hi a) n = bit (hi b) n" using b [of "64 + n"] by simp
  qed
  ultimately show "a = b" by (cases a, cases b) simp
qed simp

text \<open>The high limb counts modulo \<open>2 ^ 64\<close>, which is enough modulo \<open>2 ^ 128\<close>.\<close>

lemma high_limb: "(of_int (uint (of_int x :: u64) * 2 ^ 64) :: 128 word) = of_int (x * 2 ^ 64)"
proof -
  have "uint (of_int x :: u64) * 2 ^ 64 = take_bit 64 x * 2 ^ 64" by (simp add: uint_word_of_int_eq)
  also have "\<dots> = take_bit 128 (x * 2 ^ 64)" using mod_mult_mult2 [of x "2 ^ 64" "2 ^ 64"] by (simp add: take_bit_eq_mod)
  finally show ?thesis by (simp only: word_of_int_eq_iff) simp
qed

lemma u128_word_add: "u128_word (u128_add a b) = u128_word a + u128_word b"
proof -
  let ?l = "lo a + lo b" and ?c = "if lo a + lo b < lo a then 1 else 0 :: int"
  have l: "uint ?l = uint (lo a) + uint (lo b) - ?c * 2 ^ 64"
    by (simp add: uint_plus_if' word_less_def) (use uint_lt2p [of "lo a"] uint_lt2p [of "lo b"] in auto)
  have h: "hi a + hi b + (if ?l < lo a then 1 else 0) = of_int (uint (hi a) + uint (hi b) + ?c)" by simp
  have "u128_word (u128_add a b) = of_int (uint (of_int (uint (hi a) + uint (hi b) + ?c) :: u64) * 2 ^ 64 + uint ?l)"
    unfolding u128_word_int u128_add_def Let_def by (simp only: u128.select_convs h)
  also have "\<dots> = of_int ((uint (hi a) + uint (hi b) + ?c) * 2 ^ 64) + of_int (uint ?l)"
    by (subst of_int_add) (simp only: high_limb)
  also have "\<dots> = u128_word a + u128_word b" unfolding l u128_word_int by (simp add: algebra_simps)
  finally show ?thesis .
qed

lemma u128_word_sub: "u128_word (u128_sub a b) = u128_word a - u128_word b"
proof -
  let ?c = "if lo a < lo b then 1 else 0 :: int"
  have l: "uint (lo a - lo b) = uint (lo a) - uint (lo b) + ?c * 2 ^ 64"
    by (simp add: uint_sub_if' word_less_def)
  have h: "hi a - hi b - (if lo a < lo b then 1 else 0) = of_int (uint (hi a) - uint (hi b) - ?c)" by simp
  have "u128_word (u128_sub a b) = of_int (uint (of_int (uint (hi a) - uint (hi b) - ?c) :: u64) * 2 ^ 64 + uint (lo a - lo b))"
    unfolding u128_word_int u128_sub_def by (simp only: u128.select_convs h)
  also have "\<dots> = of_int ((uint (hi a) - uint (hi b) - ?c) * 2 ^ 64) + of_int (uint (lo a - lo b))"
    by (subst of_int_add) (simp only: high_limb)
  also have "\<dots> = u128_word a - u128_word b" unfolding l u128_word_int by (simp add: algebra_simps)
  finally show ?thesis .
qed

lemma u128_word_consts: "u128_word u128_zero = 0" "u128_word u128_one = 1"
  by (simp_all add: u128_word_int u128_zero_def u128_one_def)

lemma u128_inc_add: "u128_inc a = u128_add a u128_one"
proof -
  have "lo a + 1 < lo a \<longleftrightarrow> lo a + 1 = 0"
    using unsigned_less [of "lo a", where 'a = nat] by (auto simp: word_less_nat_alt unat_plus_if' word_unat_eq_iff)
  then show ?thesis by (simp add: u128_inc_def u128_add_def u128_one_def)
qed

lemma u128_word_and: "u128_word (u128_and a b) = u128_word a AND u128_word b"
  by (rule bit_eqI) (simp add: bit_u128_word bit_simps u128_and_def)

lemma u128_word_or: "u128_word (u128_or a b) = u128_word a OR u128_word b"
  by (rule bit_eqI) (simp add: bit_u128_word bit_simps u128_or_def)

lemma u128_word_not: "u128_word (u128_not a) = NOT (u128_word a)"
  by (rule bit_eqI) (auto simp: bit_u128_word bit_simps u128_not_def)

lemma shift_counts: "nat (int j - 64) = j - 64" "nat (64 - int j) = 64 - j"
  by simp_all

lemma u128_word_shl: "u128_word (u128_shl a (int j)) = push_bit j (u128_word a)"
proof (rule bit_word_eqI)
  fix k assume k: "k < LENGTH(128)"
  consider "j = 0" | "0 < j" "j < 64" | "64 \<le> j" "j < 128" | "128 \<le> j" by linarith
  then show "bit (u128_word (u128_shl a (int j))) k = bit (push_bit j (u128_word a)) k"
  proof cases
    case 2
    then have "k < 64 \<or> (64 - j) + (k - 64) = k - j" "k - (64 + j) = k - (j + 64)" by linarith+
    then show ?thesis using 2 k by (auto simp: u128_shl_def bit_u128_word bit_simps shift_counts dest: bit_imp_le_length)
  next
    case 3
    then have "k < 64 \<or> (k - 64 - (j - 64) = k - j \<and> (j - 64 \<le> k - 64 \<longleftrightarrow> j \<le> k))" by linarith
    then show ?thesis using 3 k by (auto simp: u128_shl_def bit_u128_word bit_simps shift_counts dest: bit_imp_le_length)
  qed (use k in \<open>auto simp: u128_shl_def u128_word_consts bit_simps\<close>)
qed

lemma u128_word_shr: "u128_word (u128_shr a (int j)) = drop_bit j (u128_word a)"
proof (rule bit_word_eqI)
  fix k assume k: "k < LENGTH(128)"
  consider "j = 0" | "0 < j" "j < 64" | "64 \<le> j" "j < 128" | "128 \<le> j" by linarith
  then show "bit (u128_word (u128_shr a (int j))) k = bit (drop_bit j (u128_word a)) k"
  proof cases
    case 2
    then have "j + k < 64 \<or> k - (64 - j) = j + k - 64" "k < 64 \<or> j + (k - 64) = j + k - 64" by linarith+
    then show ?thesis using 2 k by (auto simp: u128_shr_def bit_u128_word bit_simps shift_counts dest: bit_imp_le_length)
  next
    case 3
    then have "j - 64 + k = j + k - 64" by linarith
    then show ?thesis using 3 k by (auto simp: u128_shr_def bit_u128_word bit_simps shift_counts dest: bit_imp_le_length)
  qed (use k in \<open>auto simp: u128_shr_def u128_word_consts bit_simps bit_u128_word dest: bit_imp_le_length\<close>)
qed

lemma limbs_less:
  fixes h g l k B :: int
  assumes "0 \<le> l" "l < B" "0 \<le> k" "k < B"
  shows "h * B + l < g * B + k \<longleftrightarrow> h < g \<or> h = g \<and> l < k"
proof -
  consider "h < g" | "h = g" | "g < h" by linarith
  then show ?thesis
  proof cases
    case 1
    then have "(h + 1) * B \<le> g * B" using assms by (intro mult_right_mono) auto
    then show ?thesis using 1 assms by (simp add: distrib_right)
  next
    case 3
    then have "(g + 1) * B \<le> h * B" using assms by (intro mult_right_mono) auto
    then show ?thesis using 3 assms by (simp add: distrib_right)
  qed simp
qed

lemma u128_gt_word: "u128_gt a b \<longleftrightarrow> u128_word b < u128_word a"
proof -
  have "uint (hi b) * 2 ^ 64 + uint (lo b) < uint (hi a) * 2 ^ 64 + uint (lo a)
      \<longleftrightarrow> uint (hi b) < uint (hi a) \<or> uint (hi b) = uint (hi a) \<and> uint (lo b) < uint (lo a)"
    using uint_lt2p [of "lo a"] uint_lt2p [of "lo b"] by (intro limbs_less) simp_all
  then show ?thesis unfolding u128_gt_def word_less_def uint_u128_word word_uint_eq_iff by metis
qed

lemma u128_cmp_word:
  "u128_lt a b \<longleftrightarrow> u128_word a < u128_word b" "u128_eq a b \<longleftrightarrow> a = b" "u128_gte a b \<longleftrightarrow> u128_word b \<le> u128_word a"
  "u128_is_zero a \<longleftrightarrow> u128_word a = 0"
proof -
  show "u128_lt a b \<longleftrightarrow> u128_word a < u128_word b" by (simp add: u128_lt_def u128_gt_word)
  show eq: "u128_eq a b \<longleftrightarrow> a = b" by (cases a, cases b) (auto simp: u128_eq_def)
  have "u128_gte a b \<longleftrightarrow> u128_gt a b \<or> u128_eq a b" by (auto simp: u128_gte_def u128_gt_def u128_eq_def)
  then show "u128_gte a b \<longleftrightarrow> u128_word b \<le> u128_word a"
    by (auto simp: u128_gt_word eq order.order_iff_strict u128_word_inject)
  have "u128_is_zero a \<longleftrightarrow> a = u128_zero" by (cases a) (auto simp: u128_is_zero_def u128_zero_def)
  then show "u128_is_zero a \<longleftrightarrow> u128_word a = 0" by (metis u128_word_consts(1) u128_word_inject)
qed

lemma u128_word_bit: "j < 128 \<Longrightarrow> u128_bit a (int j) \<longleftrightarrow> bit (u128_word a) j"
proof -
  have b: "(drop_bit k w AND 1 \<noteq> 0) = bit (w :: u64) k" for k w
    by (simp add: and_one_eq bit_iff_odd_drop_bit odd_iff_mod_2_eq_one)
  show ?thesis unfolding u128_bit_def b bit_u128_word by (auto simp: nat_diff_distrib)
qed

lemma u128_word_shl1: "u128_word (u128_shl1 a) = push_bit 1 (u128_word a)"
proof -
  have "u128_shl1 a = u128_shl a 1" by (simp add: u128_shl1_def u128_shl_def)
  then show ?thesis using u128_word_shl [of a 1] by simp
qed

lemma u128_word_make: "u128_word (u128_make h l) = push_bit 64 (ucast h) OR ucast l" "u128_word (u128_from_u64 v) = ucast v"
  by (simp_all add: u128_make_def u128_from_u64_def u128_word_def)

text \<open>Counting leading zeros.\<close>

lemma bitlen_shift: "0 < h \<Longrightarrow> 0 \<le> l \<Longrightarrow> l < 2 ^ k \<Longrightarrow> bitlen (h * 2 ^ k + l) = bitlen h + int k"
proof (induction k arbitrary: l)
  case (Suc k)
  have "(h * 2 ^ Suc k + l) div 2 = h * 2 ^ k + l div 2" by simp
  moreover have "0 < h * 2 ^ Suc k + l" using Suc.prems by (simp add: add_pos_nonneg)
  moreover have "0 \<le> l div 2" "l div 2 < 2 ^ k" using Suc.prems by auto
  ultimately show ?case using Suc.IH [of "l div 2"] Suc.prems(1) compute_bitlen [of "h * 2 ^ Suc k + l"] by simp
next
  case 0
  then have "l = 0" by simp
  then show ?case by simp
qed

lemma uint_pos: "0 < uint w \<longleftrightarrow> w \<noteq> 0"
  by (metis less_le uint_0_iff uint_ge_0)

lemma u128_clz_word: "u128_clz a = 128 - bitlen (uint (u128_word a))"
proof (cases "hi a = 0")
  case True
  then show ?thesis by (simp add: u128_clz_def uint_u128_word lf_clz64_def builtin_clz_def)
next
  case False
  then have "bitlen (uint (hi a) * 2 ^ 64 + uint (lo a)) = bitlen (uint (hi a)) + int 64"
    using uint_lt2p [of "lo a"] by (intro bitlen_shift) (auto simp: uint_pos)
  then show ?thesis using False by (simp add: u128_clz_def uint_u128_word lf_clz64_def builtin_clz_def)
qed

section \<open>Multiplication\<close>

lemma unat_low32: "unat (w AND 0xFFFFFFFF :: u64) = unat w mod 2 ^ 32"
proof -
  have "(0xFFFFFFFF :: u64) = mask 32" by (simp add: mask_eq_exp_minus_1)
  then have "w AND 0xFFFFFFFF = take_bit 32 w" by (simp only: take_bit_eq_mask)
  then show ?thesis by (simp only: unsigned_take_bit_eq) (simp add: take_bit_eq_mod)
qed

lemma unat_high32: "unat (drop_bit 32 w :: u64) = unat w div 2 ^ 32"
  by (simp add: drop_bit_eq_div unat_div_distrib)

lemma unat_mult_small: "unat (a :: u64) * unat b < 2 ^ 64 \<Longrightarrow> unat (a * b) = unat a * unat b"
  by (simp add: unat_word_ariths)

lemma unat_add_exact: "unat (a :: u64) + unat b < 2 ^ 64 \<Longrightarrow> unat (a + b) = unat a + unat b"
  by (simp add: unat_word_ariths)

lemma push32_or: "unat (push_bit 32 mid OR (p AND 0xFFFFFFFF) :: u64) = (unat mid mod 2 ^ 32) * 2 ^ 32 + unat p mod 2 ^ 32"
proof -
  have "push_bit 32 mid OR (p AND 0xFFFFFFFF) = push_bit 32 mid + (p AND 0xFFFFFFFF)"
  proof (rule disjunctive_add_eq_or [symmetric], rule bit_eqI)
    fix n
    have "(0xFFFFFFFF :: u64) = mask 32" by (simp add: mask_eq_exp_minus_1)
    then have "bit (0xFFFFFFFF :: u64) n \<longleftrightarrow> n < 32" by (simp only: bit_mask_iff) auto
    then show "bit (push_bit 32 mid AND (p AND 0xFFFFFFFF)) n = bit 0 n" by (auto simp: bit_simps)
  qed
  moreover have "unat (push_bit 32 mid) = (unat mid mod 2 ^ 32) * 2 ^ 32"
  proof -
    have "unat (push_bit 32 mid) = unat mid * 2 ^ 32 mod (2 ^ 32 * 2 ^ 32)"
      by (simp add: push_bit_eq_mult unat_word_ariths)
    then show ?thesis by (simp only: mod_mult_mult2)
  qed
  moreover have "unat mid mod 2 ^ 32 < 2 ^ 32" "unat p mod 2 ^ 32 < 2 ^ 32" by simp_all
  then have "(unat mid mod 2 ^ 32) * 2 ^ 32 + unat p mod 2 ^ 32 < 2 ^ 64" by simp
  ultimately show ?thesis using unat_low32 [of p] by (simp add: unat_add_exact)
qed

lemma mul32_small: "(x :: nat) < 2 ^ 32 \<Longrightarrow> y < 2 ^ 32 \<Longrightarrow> x * y \<le> (2 ^ 32 - 1) * (2 ^ 32 - 1)"
  by (intro mult_mono) auto

lemma mul_limbs:
  fixes B p0 p1 p2 p3 m :: nat
  assumes "m = p0 div B + p1 mod B + p2 mod B"
  shows "(p3 + p1 div B + p2 div B + m div B) * (B * B) + (m mod B * B + p0 mod B) = p3 * (B * B) + (p1 + p2) * B + p0"
proof -
  have e: "x div B * (B * B) + x mod B * B = x * B" for x
    using arg_cong [OF div_mult_mod_eq [of x B], of "\<lambda>y. y * B"] by (simp only: distrib_right mult.assoc)
  have "m * B = p0 div B * B + p1 mod B * B + p2 mod B * B" unfolding assms by (simp only: distrib_right)
  then have "m div B * (B * B) + m mod B * B = p0 div B * B + p1 mod B * B + p2 mod B * B" using e [of m] by simp
  then show ?thesis unfolding distrib_right using e [of p1] e [of p2] div_mult_mod_eq [of p0 B] by linarith
qed

lemma mul64x64_correct: "unat (hi (mul64x64 a b)) * 2 ^ 64 + unat (lo (mul64x64 a b)) = unat a * unat b"
proof -
  let ?B = "2 ^ 32 :: nat"
  define a0 a1 b0 b1 where "a0 = unat a mod ?B" and "a1 = unat a div ?B" and "b0 = unat b mod ?B" and "b1 = unat b div ?B"
  have a: "unat a = a1 * ?B + a0" and b: "unat b = b1 * ?B + b0" by (simp_all add: a0_def a1_def b0_def b1_def)
  have "unat a < ?B * ?B" "unat b < ?B * ?B" using unsigned_less [of a, where 'a = nat] unsigned_less [of b, where 'a = nat] by simp_all
  then have lt: "a0 < ?B" "a1 < ?B" "b0 < ?B" "b1 < ?B" by (simp_all add: a0_def a1_def b0_def b1_def less_mult_imp_div_less)
  note p = mul32_small [OF lt(1) lt(3)] mul32_small [OF lt(1) lt(4)] mul32_small [OF lt(2) lt(3)] mul32_small [OF lt(2) lt(4)]
  let ?p0 = "(a AND 0xFFFFFFFF) * (b AND 0xFFFFFFFF)" and ?p1 = "(a AND 0xFFFFFFFF) * drop_bit 32 b"
    and ?p2 = "drop_bit 32 a * (b AND 0xFFFFFFFF)" and ?p3 = "drop_bit 32 a * drop_bit 32 b"
  have u: "unat ?p0 = a0 * b0" "unat ?p1 = a0 * b1" "unat ?p2 = a1 * b0" "unat ?p3 = a1 * b1"
    using p by (simp_all add: unat_mult_small unat_low32 unat_high32 a0_def a1_def b0_def b1_def)
  let ?mid = "drop_bit 32 ?p0 + (?p1 AND 0xFFFFFFFF) + (?p2 AND 0xFFFFFFFF)"
  have "a0 * b0 div ?B < ?B" using p(1) by (simp add: less_mult_imp_div_less)
  moreover have "a0 * b1 mod ?B < ?B" "a1 * b0 mod ?B < ?B" by simp_all
  ultimately have mid: "unat ?mid = a0 * b0 div ?B + a0 * b1 mod ?B + a1 * b0 mod ?B"
    by (simp add: unat_add_exact unat_low32 unat_high32 u)
  let ?S = "a1 * b1 + a0 * b1 div ?B + a1 * b0 div ?B + unat ?mid div ?B"
  have "?S * (?B * ?B) + (unat ?mid mod ?B * ?B + a0 * b0 mod ?B) = a1 * b1 * (?B * ?B) + (a0 * b1 + a1 * b0) * ?B + a0 * b0"
    by (rule mul_limbs [OF mid])
  also have "\<dots> = unat a * unat b" unfolding a b by (simp add: algebra_simps)
  finally have prod: "?S * (?B * ?B) + (unat ?mid mod ?B * ?B + a0 * b0 mod ?B) = unat a * unat b" .
  have "unat a * unat b < (?B * ?B) * (?B * ?B)"
    using \<open>unat a < ?B * ?B\<close> \<open>unat b < ?B * ?B\<close> by (intro mult_strict_mono) auto
  then have S: "?S < ?B * ?B" using prod by (metis add_lessD1 mult_less_cancel2)
  have "unat (?p3 + drop_bit 32 ?p1 + drop_bit 32 ?p2 + drop_bit 32 ?mid) = ?S"
    using S u by (simp add: unat_add_exact unat_high32)
  then have h: "unat (hi (mul64x64 a b)) = ?S" by (simp add: mul64x64_def Let_def)
  have l: "unat (lo (mul64x64 a b)) = unat ?mid mod ?B * ?B + a0 * b0 mod ?B"
    using push32_or [of ?mid ?p0] u(1) by (simp add: mul64x64_def Let_def)
  show ?thesis using prod unfolding h l by (simp add: power_add [symmetric])
qed

text \<open>A sum of two limbs and its carry.\<close>

definition carry :: "u64 \<Rightarrow> u64 \<Rightarrow> nat" where
  "carry a b = (if a + b < a then 1 else 0)"

lemma carry_le: "carry a b \<le> 1"
  by (simp add: carry_def)

lemma unat_of_nat_carries: "n \<le> 3 \<Longrightarrow> unat (of_nat n :: u64) = n"
  by (simp add: unat_of_nat_small)

lemma unat_add_carry: "unat (a + b) + carry a b * 2 ^ 64 = unat a + unat b"
proof -
  have "unat a < 2 ^ 64" "unat b < 2 ^ 64" using unsigned_less [of a, where 'a = nat] unsigned_less [of b, where 'a = nat] by simp_all
  then show ?thesis by (auto simp: carry_def word_less_nat_alt unat_plus_if')
qed

definition u128_nat :: "u128 \<Rightarrow> nat" where
  "u128_nat a = unat (hi a) * 2 ^ 64 + unat (lo a)"

lemma u128_nat_word: "u128_nat a = unat (u128_word a)"
proof -
  have "int (u128_nat a) = uint (u128_word a)" by (simp add: u128_nat_def uint_u128_word)
  then show ?thesis by (metis int_eq_iff unat_eq_nat_uint)
qed

lemma u128_nat_less: "u128_nat a < 2 ^ 128"
  unfolding u128_nat_word using unsigned_less [of "u128_word a", where 'a = nat] by simp

lemma u128_mul128_correct:
  assumes "u128_mul128 a b = (h, l)"
  shows "u128_nat h * 2 ^ 128 + u128_nat l = u128_nat a * u128_nat b"
proof -
  let ?B = "2 ^ 64 :: nat"
  define c00 c01 c10 c11 where c: "c00 = mul64x64 (lo a) (lo b)" "c01 = mul64x64 (lo a) (hi b)"
    "c10 = mul64x64 (hi a) (lo b)" "c11 = mul64x64 (hi a) (hi b)"
  let ?m1 = "hi c00 + lo c01" and ?h1 = "lo c11 + hi c01"
  let ?m2 = "?m1 + lo c10" and ?h2 = "?h1 + hi c10"
  let ?mc = "carry (hi c00) (lo c01) + carry ?m1 (lo c10)"
  let ?h3 = "?h2 + of_nat ?mc"
  let ?hc = "carry (lo c11) (hi c01) + carry ?h1 (hi c10) + carry ?h2 (of_nat ?mc)"
  have r: "l = \<lparr>lo = lo c00, hi = ?m2\<rparr>" "h = \<lparr>lo = ?h3, hi = hi c11 + of_nat ?hc\<rparr>"
    using assms unfolding u128_mul128_def c [symmetric] by (auto simp: carry_def Let_def)
  have mc: "unat (of_nat ?mc :: u64) = ?mc"
    using carry_le [of "hi c00" "lo c01"] carry_le [of ?m1 "lo c10"] by (intro unat_of_nat_carries) linarith
  have m: "unat ?m2 + ?mc * ?B = unat (hi c00) + unat (lo c01) + unat (lo c10)"
    using unat_add_carry [of "hi c00" "lo c01"] unat_add_carry [of ?m1 "lo c10"] by (simp add: distrib_right)
  have h3: "unat ?h3 + ?hc * ?B = unat (lo c11) + unat (hi c01) + unat (hi c10) + ?mc"
    using unat_add_carry [of "lo c11" "hi c01"] unat_add_carry [of ?h1 "hi c10"] unat_add_carry [of ?h2 "of_nat ?mc"] mc
    by (simp only: distrib_right)
  note p = mul64x64_correct [of "lo a" "lo b"] mul64x64_correct [of "lo a" "hi b"] mul64x64_correct [of "hi a" "lo b"]
    mul64x64_correct [of "hi a" "hi b"]
  have "u128_nat a * u128_nat b = unat (hi a) * unat (hi b) * (?B * ?B)
      + (unat (lo a) * unat (hi b) + unat (hi a) * unat (lo b)) * ?B + unat (lo a) * unat (lo b)"
    unfolding u128_nat_def by (simp only: distrib_left distrib_right ac_simps)
  then have prod: "u128_nat a * u128_nat b = (unat (hi c11) + ?hc) * (?B * ?B * ?B) + unat ?h3 * (?B * ?B) + unat ?m2 * ?B + unat (lo c00)"
    unfolding p [symmetric, folded c] using m h3 by (simp add: distrib_right)
  have "u128_nat a * u128_nat b < (?B * ?B) * (?B * ?B)"
    using u128_nat_less [of a] u128_nat_less [of b] by (intro mult_strict_mono) simp_all
  then have "unat (hi c11) + ?hc < ?B" unfolding prod by simp
  moreover have "unat (of_nat ?hc :: u64) = ?hc" 
    using carry_le [of "lo c11" "hi c01"] carry_le [of ?h1 "hi c10"] carry_le [of ?h2 "of_nat ?mc"]
    by (intro unat_of_nat_carries) linarith
  ultimately have "unat (hi c11 + of_nat ?hc) = unat (hi c11) + ?hc"
    using unat_add_exact [of "hi c11" "of_nat ?hc"] by simp
  then have "u128_nat h * 2 ^ 128 + u128_nat l =
      (unat (hi c11) + ?hc) * (?B * ?B * ?B) + unat ?h3 * (?B * ?B) + unat ?m2 * ?B + unat (lo c00)"
    unfolding u128_nat_def r by (simp add: distrib_right)
  then show ?thesis using prod by (simp only:)
qed

lemma u128_word_inc: "u128_word (u128_inc a) = u128_word a + 1"
  by (simp add: u128_inc_add u128_word_add u128_word_consts)

text \<open>C31: the two-limb integers are 128-bit words: addition, subtraction and increment with their
  carries, the bitwise operations, shifts by any count, comparisons and the count of leading zeros
  agree with the operations of 128-bit words, and the product of two is exact in 256 bits.\<close>

theorem limbs_refine_words:
  "u128_word (u128_add a b) = u128_word a + u128_word b \<and>
   u128_word (u128_sub a b) = u128_word a - u128_word b \<and>
   u128_word (u128_inc a) = u128_word a + 1 \<and>
   u128_word (u128_and a b) = u128_word a AND u128_word b \<and>
   u128_word (u128_or a b) = u128_word a OR u128_word b \<and>
   u128_word (u128_not a) = NOT (u128_word a) \<and>
   u128_word (u128_shl a (int j)) = push_bit j (u128_word a) \<and>
   u128_word (u128_shr a (int j)) = drop_bit j (u128_word a) \<and>
   (u128_gt a b = (u128_word b < u128_word a)) \<and>
   (u128_gte a b = (u128_word b \<le> u128_word a)) \<and>
   (u128_eq a b = (u128_word a = u128_word b)) \<and>
   u128_clz a = 128 - bitlen (uint (u128_word a)) \<and>
   (case u128_mul128 a b of (h, l) \<Rightarrow>
      unat (u128_word h) * 2 ^ 128 + unat (u128_word l) = unat (u128_word a) * unat (u128_word b))"
proof -
  have "case u128_mul128 a b of (h, l) \<Rightarrow>
      unat (u128_word h) * 2 ^ 128 + unat (u128_word l) = unat (u128_word a) * unat (u128_word b)"
    using u128_mul128_correct [of a b] unfolding u128_nat_word by (cases "u128_mul128 a b") auto
  then show ?thesis
    by (simp add: u128_word_add u128_word_sub u128_word_inc u128_word_and u128_word_or u128_word_not u128_word_shl
        u128_word_shr u128_gt_word u128_cmp_word u128_clz_word u128_word_inject)
qed

end
