(* ===== verification/Float128_Values.thy ===== *)
theory Float128_Values
  imports Float128_Limbs
begin

text \<open>
  What the binary128 soft-float of \<^verbatim>\<open>src/src/lr_float128.c\<close> computes: packing inverts unpacking for
  every number but the subnormal ones, comparison is comparison of the real values, conversion
  from 64-bit integers and back is the identity; and the inputs on which division, the conversions
  and the packing of subnormal numbers go wrong.
\<close>

section \<open>The fields of a value\<close>

lemma masks: "(0x0000FFFFFFFFFFFF :: u64) = mask 48" "(0x7FFF :: u64) = mask 15"
  by (simp_all add: mask_eq_exp_minus_1)

lemma and_masks: "w AND (0x0000FFFFFFFFFFFF :: u64) = take_bit 48 w" "w AND (0x7FFF :: u64) = take_bit 15 w"
  by (simp_all only: masks take_bit_eq_mask)

lemma f128_store_fields: "f128_hi (f128_store h l) = h" "f128_lo (f128_store h l) = l"
  by (simp_all add: f128_hi_def f128_lo_def f128_store_def le_join_split take_bit_word_eq_self)

text \<open>Evaluation of closed terms.\<close>

lemmas f128_eval = f128_store_fields Let_def f128_unpack_def parts_zero_def u128_make_def u128_zero_def u128_one_def
  f128_pack_parts_def pack_normalize_def u128_clz_def lf_clz64_def lf_clz32_def builtin_clz_def compute_bitlen
  u128_is_zero_def u128_shl_def u128_shl1_def u128_shr_def sign_bit63_def u128_sub_def u128_and_def u128_inc_def
  u128_gte_def u128_from_u64_def u128_bit_def f128_from_f64_def f128_to_f64_def f128_from_i32_def
  f128_one_def f128_two_def f128_const_def f128_make_nan_def

lemma f128_store_hi_lo: "length v = 16 \<Longrightarrow> f128_store (f128_hi v) (f128_lo v) = v"
proof -
  assume "length v = 16"
  then have "le_split 8 (f128_lo v) = take 8 v" "le_split 8 (f128_hi v) = drop 8 v"
    using le_split_join [of "take 8 v", where 'a = 64] le_split_join [of "drop 8 v", where 'a = 64]
    by (simp_all add: f128_lo_def f128_hi_def)
  then show ?thesis by (simp add: f128_store_def)
qed

lemma top_bit: "drop_bit 63 (h :: u64) \<noteq> 0 \<longleftrightarrow> bit h 63"
proof -
  have b: "bit (drop_bit 63 h) n \<longleftrightarrow> n = 0 \<and> bit h 63" for n
    using bit_imp_le_length [of h "63 + n"] by (cases n) (auto simp: bit_drop_bit_eq)
  show ?thesis
  proof
    assume "bit h 63"
    then have "bit (drop_bit 63 h) 0" using b by blast
    then show "drop_bit 63 h \<noteq> 0" by auto
  next
    assume nz: "drop_bit 63 h \<noteq> 0"
    show "bit h 63"
    proof (rule ccontr)
      assume "\<not> bit h 63"
      then have "drop_bit 63 h = 0" by (intro bit_eqI) (simp add: b)
      then show False using nz by simp
    qed
  qed
qed

definition join_fields :: "bool \<Rightarrow> u64 \<Rightarrow> u64 \<Rightarrow> u64" where
  "join_fields s e m = sign_bit63 s OR push_bit 48 e OR take_bit 48 m"

lemma bit_join_fields:
  "n < 64 \<Longrightarrow> bit (join_fields s e m) n \<longleftrightarrow> (if n < 48 then bit m n else n = 63 \<and> s \<or> bit e (n - 48))"
  by (auto simp: join_fields_def sign_bit63_def bit_simps)

lemma join_fields_split: "join_fields (drop_bit 63 h \<noteq> 0) (take_bit 15 (drop_bit 48 h)) h = h"
proof (rule bit_word_eqI)
  fix n assume n: "n < LENGTH(64)"
  consider "n < 48" | "48 \<le> n" "n < 63" | "n = 63" using n by fastforce
  then show "bit (join_fields (drop_bit 63 h \<noteq> 0) (take_bit 15 (drop_bit 48 h)) h) n = bit h n"
    by cases (auto simp: bit_join_fields top_bit bit_take_bit_iff bit_drop_bit_eq)
qed

lemma split_join_fields:
  assumes "e < 2 ^ 15"
  shows "drop_bit 63 (join_fields s e m) \<noteq> 0 \<longleftrightarrow> s" and "take_bit 15 (drop_bit 48 (join_fields s e m)) = e"
    and "take_bit 48 (join_fields s e m) = take_bit 48 m"
proof -
  have e: "bit e n \<Longrightarrow> n < 15" for n
  proof -
    have "unat e < 2 ^ 15" using assms by (simp add: word_less_nat_alt)
    then have "take_bit 15 e = e" by (simp add: word_unat_eq_iff unsigned_take_bit_eq take_bit_nat_eq_self)
    then show "bit e n \<Longrightarrow> n < 15" by (metis bit_take_bit_iff)
  qed
  show "drop_bit 63 (join_fields s e m) \<noteq> 0 \<longleftrightarrow> s" unfolding top_bit using e by (auto simp: bit_join_fields dest: e)
  show "take_bit 15 (drop_bit 48 (join_fields s e m)) = e"
  proof (rule bit_word_eqI)
    fix n
    show "bit (take_bit 15 (drop_bit 48 (join_fields s e m))) n = bit e n"
      using e [of n] by (cases "n < 15") (auto simp: bit_join_fields bit_take_bit_iff bit_drop_bit_eq)
  qed
  show "take_bit 48 (join_fields s e m) = take_bit 48 m"
    by (rule bit_word_eqI) (auto simp: bit_join_fields bit_simps)
qed

section \<open>Packing a normalised mantissa\<close>

lemma mask112: "u128_sub (u128_shl u128_one 112) u128_one = \<lparr>lo = - 1, hi = mask 48\<rparr>"
  by (simp add: u128_sub_def u128_shl_def u128_one_def mask_eq_exp_minus_1)

lemma bitlen_range: "2 ^ k \<le> x \<Longrightarrow> x < 2 ^ (k + 1) \<Longrightarrow> bitlen x = int k + 1"
  using bitlen_twopow_add_eq [of "x - 2 ^ k" k] by simp

lemma clz_normal: "2 ^ 112 \<le> u128_nat m \<Longrightarrow> u128_nat m < 2 ^ 113 \<Longrightarrow> u128_clz m = 15"
proof -
  assume m: "2 ^ 112 \<le> u128_nat m" "u128_nat m < 2 ^ 113"
  have "int (u128_nat m) = uint (u128_word m)" by (simp add: u128_nat_def uint_u128_word)
  moreover have "2 ^ 112 \<le> int (u128_nat m)" "int (u128_nat m) < 2 ^ (112 + 1)" using m by simp_all
  ultimately have "2 ^ 112 \<le> uint (u128_word m)" "uint (u128_word m) < 2 ^ (112 + 1)" by simp_all
  then show ?thesis using bitlen_range [of 112 "uint (u128_word m)"] by (simp add: u128_clz_word)
qed

lemma pack_normal:
  assumes "2 ^ 112 \<le> u128_nat m" and "u128_nat m < 2 ^ 113" and "- 16383 < e" and "e < 16384"
  shows "f128_pack_parts s e m = f128_store (join_fields s (word_of_int (e + 16383)) (hi m)) (lo m)"
proof -
  have "\<not> u128_is_zero m" using assms(1) by (auto simp: u128_is_zero_def u128_nat_def)
  moreover have "pack_normalize e m = (e, m)" using clz_normal [OF assms(1,2)] by (simp add: pack_normalize_def)
  moreover have "u128_and m \<lparr>lo = - 1, hi = mask 48\<rparr> = \<lparr>lo = lo m, hi = take_bit 48 (hi m)\<rparr>"
    by (simp add: u128_and_def take_bit_eq_mask)
  ultimately show ?thesis using assms(3,4)
    by (simp add: f128_pack_parts_def Let_def mask112 and_masks join_fields_def)
qed

definition exp_field :: "lr_f128 \<Rightarrow> u64" where
  "exp_field v = take_bit 15 (drop_bit 48 (f128_hi v))"

definition mant_field :: "lr_f128 \<Rightarrow> nat" where
  "mant_field v = unat (take_bit 48 (f128_hi v)) * 2 ^ 64 + unat (f128_lo v)"

lemma f128_fields:
  assumes "length v = 16"
  shows "v = f128_store (join_fields (drop_bit 63 (f128_hi v) \<noteq> 0) (exp_field v) (f128_hi v)) (f128_lo v)"
  unfolding exp_field_def join_fields_split by (rule f128_store_hi_lo [OF assms, symmetric])

lemma unat_take48: "unat (take_bit 48 (h :: u64)) < 2 ^ 48"
  unfolding unsigned_take_bit_eq by (rule take_bit_nat_less_exp)

lemma hidden_bit: "unat (take_bit 48 h OR push_bit 48 1 :: u64) = 2 ^ 48 + unat (take_bit 48 h)"
proof -
  have "take_bit 48 h OR push_bit 48 1 = take_bit 48 h + push_bit 48 (1 :: u64)"
    by (rule disjunctive_add_eq_or [symmetric], rule bit_eqI)
      (simp only: bit_and_iff bit_take_bit_iff bit_push_bit_iff bit_0_eq bot_apply, auto)
  then show ?thesis using unat_take48 [of h] by (simp add: unat_word_ariths)
qed

lemma unpack_special:
  "exp_field v = 0x7FFF \<Longrightarrow> mant_field v \<noteq> 0 \<Longrightarrow> is_nan (f128_unpack v)"
  "exp_field v = 0x7FFF \<Longrightarrow> mant_field v = 0 \<Longrightarrow>
    f128_unpack v = parts_zero\<lparr>p_sign := (drop_bit 63 (f128_hi v) \<noteq> 0), is_inf := True\<rparr>"
  "exp_field v = 0 \<Longrightarrow> mant_field v = 0 \<Longrightarrow>
    f128_unpack v = parts_zero\<lparr>p_sign := (drop_bit 63 (f128_hi v) \<noteq> 0), is_zero := True\<rparr>"
proof -
  have m: "mant_field v = 0 \<longleftrightarrow> take_bit 48 (f128_hi v) = 0 \<and> f128_lo v = 0"
    by (auto simp: mant_field_def unat_eq_0)
  show "exp_field v = 0x7FFF \<Longrightarrow> mant_field v \<noteq> 0 \<Longrightarrow> is_nan (f128_unpack v)"
    using m by (auto simp: f128_unpack_def Let_def and_masks exp_field_def)
  show "exp_field v = 0x7FFF \<Longrightarrow> mant_field v = 0 \<Longrightarrow>
    f128_unpack v = parts_zero\<lparr>p_sign := (drop_bit 63 (f128_hi v) \<noteq> 0), is_inf := True\<rparr>"
    using m by (auto simp: f128_unpack_def Let_def and_masks exp_field_def)
  show "exp_field v = 0 \<Longrightarrow> mant_field v = 0 \<Longrightarrow>
    f128_unpack v = parts_zero\<lparr>p_sign := (drop_bit 63 (f128_hi v) \<noteq> 0), is_zero := True\<rparr>"
    using m by (auto simp: f128_unpack_def Let_def and_masks exp_field_def)
qed

lemma unpack_normal:
  assumes "exp_field v \<noteq> 0" and "exp_field v \<noteq> 0x7FFF"
  shows "f128_unpack v = parts_zero\<lparr>p_sign := (drop_bit 63 (f128_hi v) \<noteq> 0), p_exp := uint (exp_field v) - 16383,
      p_mant := \<lparr>lo = f128_lo v, hi = take_bit 48 (f128_hi v) OR push_bit 48 1\<rparr>\<rparr>"
proof -
  have "uint (exp_field v) \<noteq> 0" "uint (exp_field v) \<noteq> 0x7FFF" using assms by (auto simp: word_uint_eq_iff)
  then show ?thesis by (simp add: f128_unpack_def Let_def and_masks exp_field_def u128_make_def)
qed

lemma unpack_subnormal:
  assumes "exp_field v = 0" and "mant_field v \<noteq> 0"
  shows "f128_unpack v = parts_zero\<lparr>p_sign := (drop_bit 63 (f128_hi v) \<noteq> 0), p_exp := - 16382,
      p_mant := \<lparr>lo = f128_lo v, hi = take_bit 48 (f128_hi v)\<rparr>\<rparr>"
proof -
  have "take_bit 48 (f128_hi v) \<noteq> 0 \<or> f128_lo v \<noteq> 0" using assms(2) by (auto simp: mant_field_def)
  then show ?thesis using assms(1) by (auto simp: f128_unpack_def Let_def and_masks exp_field_def u128_make_def)
qed

lemma normal_mant: "u128_nat \<lparr>lo = f128_lo v, hi = take_bit 48 (f128_hi v) OR push_bit 48 1\<rparr> = 2 ^ 112 + mant_field v"
  unfolding u128_nat_def mant_field_def u128.select_convs hidden_bit by (simp add: distrib_right)

lemma mant_field_less: "mant_field v < 2 ^ 112"
proof -
  have "unat (take_bit 48 (f128_hi v)) \<le> 2 ^ 48 - 1" using unat_take48 [of "f128_hi v"] by simp
  then have "unat (take_bit 48 (f128_hi v)) * 2 ^ 64 \<le> (2 ^ 48 - 1) * 2 ^ 64" by (intro mult_right_mono) auto
  moreover have "unat (f128_lo v) < 2 ^ 64" using unsigned_less [of "f128_lo v", where 'a = nat] by simp
  ultimately show ?thesis by (simp add: mant_field_def)
qed

lemma exp_field_less: "exp_field v < 2 ^ 15"
  unfolding exp_field_def word_less_nat_alt unsigned_take_bit_eq using take_bit_nat_less_exp [of 15] by simp

text \<open>packing inverts unpacking.  For every binary128 value that is zero or a normal number, packing
  the sign, exponent and mantissa that unpacking gives returns the sixteen bytes.\<close>

theorem pack_unpack:
  assumes "length v = 16" and "exp_field v \<noteq> 0x7FFF" and "exp_field v = 0 \<Longrightarrow> mant_field v = 0"
  shows "f128_pack_parts (p_sign (f128_unpack v)) (p_exp (f128_unpack v)) (p_mant (f128_unpack v)) = v"
proof (cases "exp_field v = 0")
  case True
  then have z: "mant_field v = 0" using assms(3) by blast
  then have "take_bit 48 (f128_hi v) = 0" "f128_lo v = 0" by (auto simp: mant_field_def unat_eq_0)
  then have "f128_pack_parts (p_sign (f128_unpack v)) (p_exp (f128_unpack v)) (p_mant (f128_unpack v)) =
      f128_store (join_fields (drop_bit 63 (f128_hi v) \<noteq> 0) (exp_field v) (f128_hi v)) (f128_lo v)"
    unfolding unpack_special(3) [OF True z] using True
    by (simp add: f128_pack_parts_def parts_zero_def u128_is_zero_def u128_zero_def join_fields_def)
  then show ?thesis unfolding f128_fields [OF assms(1), symmetric] .
next
  case False
  let ?E = "uint (exp_field v)"
  have "0 < ?E" using False by (simp add: uint_pos)
  moreover have "?E \<noteq> 0x7FFF" using assms(2) by (simp add: word_uint_eq_iff)
  moreover have "?E < 2 ^ 15" using exp_field_less [of v] by (simp add: word_less_def)
  ultimately have E: "- 16383 < ?E - 16383" "?E - 16383 < 16384" by simp_all
  have m: "2 ^ 112 \<le> 2 ^ 112 + mant_field v" "2 ^ 112 + mant_field v < 2 ^ 113" using mant_field_less [of v] by simp_all
  have "word_of_int (?E - 16383 + 16383) = exp_field v" by simp
  moreover have "join_fields s e (take_bit 48 h OR push_bit 48 1) = join_fields s e h" for s e h
    by (rule bit_word_eqI) (auto simp: join_fields_def bit_simps)
  ultimately have "f128_pack_parts (p_sign (f128_unpack v)) (p_exp (f128_unpack v)) (p_mant (f128_unpack v)) =
      f128_store (join_fields (drop_bit 63 (f128_hi v) \<noteq> 0) (exp_field v) (f128_hi v)) (f128_lo v)"
    unfolding unpack_normal [OF False assms(2)]
    using pack_normal [OF m [folded normal_mant] E] by (simp add: parts_zero_def)
  then show ?thesis unfolding f128_fields [OF assms(1), symmetric] .
qed

theorem pack_unpack_witness:
  "f128_pack_parts (p_sign (f128_unpack f128_two)) (p_exp (f128_unpack f128_two)) (p_mant (f128_unpack f128_two)) = f128_two"
proof (rule pack_unpack)
  show "length f128_two = 16" by (simp add: f128_two_def f128_const_def f128_store_def)
  have e: "exp_field f128_two = 0x4000" by (simp add: exp_field_def f128_eval)
  then show "exp_field f128_two \<noteq> 0x7FFF" by simp
  show "exp_field f128_two = 0 \<Longrightarrow> mant_field f128_two = 0" using e by simp
qed

section \<open>Comparison\<close>

definition magnitude :: "f128_parts \<Rightarrow> real" where
  "magnitude p = real (u128_nat (p_mant p)) * 2 powi (p_exp p - 112)"

definition f128_val :: "lr_f128 \<Rightarrow> real" where
  "f128_val v = (let p = f128_unpack v in if p_sign p then - magnitude p else magnitude p)"

definition finite_parts :: "f128_parts \<Rightarrow> bool" where
  "finite_parts p \<longleftrightarrow> \<not> is_nan p \<and> \<not> is_inf p \<and> - 16382 \<le> (if is_zero p then 0 else p_exp p) \<and>
     (if is_zero p then u128_nat (p_mant p) = 0
      else 0 < u128_nat (p_mant p) \<and> u128_nat (p_mant p) < 2 ^ 113 \<and> (- 16382 < p_exp p \<longrightarrow> 2 ^ 112 \<le> u128_nat (p_mant p)))"

lemma unpack_finite: "exp_field v \<noteq> 0x7FFF \<Longrightarrow> finite_parts (f128_unpack v)"
proof -
  assume nf: "exp_field v \<noteq> 0x7FFF"
  consider "exp_field v = 0" "mant_field v = 0" | "exp_field v = 0" "mant_field v \<noteq> 0" | "exp_field v \<noteq> 0" by blast
  then show ?thesis
  proof cases
    case 1
    then show ?thesis unfolding unpack_special(3) [OF 1] by (simp add: finite_parts_def parts_zero_def u128_zero_def u128_nat_def)
  next
    case 2
    have "u128_nat \<lparr>lo = f128_lo v, hi = take_bit 48 (f128_hi v)\<rparr> = mant_field v" by (simp add: u128_nat_def mant_field_def)
    then show ?thesis unfolding unpack_subnormal [OF 2] using 2(2) mant_field_less [of v]
      by (simp add: finite_parts_def parts_zero_def)
  next
    case 3
    have "0 < uint (exp_field v)" using 3 by (simp add: uint_pos)
    then show ?thesis unfolding unpack_normal [OF 3 nf] using mant_field_less [of v] normal_mant [of v]
      by (simp add: finite_parts_def parts_zero_def)
  qed
qed

lemma magnitude_exp_less:
  assumes "finite_parts p" and "finite_parts q" and "\<not> is_zero p" and "\<not> is_zero q" and "p_exp p < p_exp q"
  shows "magnitude p < magnitude q"
proof -
  have p: "real (u128_nat (p_mant p)) < 2 ^ 113" and q: "2 ^ 112 \<le> real (u128_nat (p_mant q))"
    using assms by (auto simp: finite_parts_def)
  have "magnitude p < 2 ^ 113 * 2 powi (p_exp p - 112)" unfolding magnitude_def using p by (intro mult_strict_right_mono) auto
  also have "\<dots> = 2 ^ 112 * 2 powi (p_exp p - 111)"
  proof -
    have "(2 :: real) powi (p_exp p - 111) = 2 powi (p_exp p - 112 + 1)" by simp
    also have "\<dots> = 2 powi (p_exp p - 112) * 2" by (subst power_int_add) simp_all
    finally show ?thesis by simp
  qed
  also have "\<dots> \<le> 2 ^ 112 * 2 powi (p_exp q - 112)" using assms(5) by (intro mult_left_mono power_int_increasing) auto
  also have "\<dots> \<le> magnitude q" unfolding magnitude_def using q by (intro mult_right_mono) auto
  finally show ?thesis .
qed

lemma magnitude_mant: "p_exp p = p_exp q \<Longrightarrow> magnitude p < magnitude q \<longleftrightarrow> u128_nat (p_mant p) < u128_nat (p_mant q)"
  by (simp add: magnitude_def)

lemma magnitude_zero: "finite_parts p \<Longrightarrow> magnitude p = 0 \<longleftrightarrow> is_zero p" "0 \<le> magnitude p"
  by (auto simp: magnitude_def finite_parts_def split: if_splits)

lemma mant_gt: "u128_gt m n \<longleftrightarrow> u128_nat n < u128_nat m" "u128_lt m n \<longleftrightarrow> u128_nat m < u128_nat n"
  by (simp_all add: u128_lt_def u128_gt_word u128_nat_word word_less_nat_alt)

definition order_code :: "real \<Rightarrow> real \<Rightarrow> int" where
  "order_code x y = (if x < y then - 1 else if x = y then 0 else 1)"

lemma magnitude_code:
  assumes "finite_parts p" and "finite_parts q" and "\<not> is_zero p" and "\<not> is_zero q"
  shows "(if p_exp p \<noteq> p_exp q then (if p_exp q < p_exp p then 1 else - 1)
      else if u128_gt (p_mant p) (p_mant q) then 1 else if u128_lt (p_mant p) (p_mant q) then - 1 else 0) =
    order_code (magnitude p) (magnitude q)"
proof -
  consider "p_exp p < p_exp q" | "p_exp q < p_exp p" | "p_exp p = p_exp q" by linarith
  then show ?thesis
  proof cases
    case 1
    then show ?thesis using magnitude_exp_less [OF assms] by (simp add: order_code_def)
  next
    case 2
    then show ?thesis using magnitude_exp_less [OF assms(2,1,4,3)] by (simp add: order_code_def)
  next
    case 3
    then show ?thesis using magnitude_mant [of p q] magnitude_mant [of q p] by (auto simp: order_code_def mant_gt)
  qed
qed

lemma cmp_finite:
  assumes "exp_field a \<noteq> 0x7FFF" and "exp_field b \<noteq> 0x7FFF"
  shows "f128_cmp_internal a b = order_code (f128_val a) (f128_val b)"
proof -
  let ?p = "f128_unpack a" and ?q = "f128_unpack b"
  have f: "finite_parts ?p" "finite_parts ?q" using assms by (auto intro: unpack_finite)
  have n: "\<not> is_nan ?p" "\<not> is_nan ?q" "\<not> is_inf ?p" "\<not> is_inf ?q" using f by (auto simp: finite_parts_def)
  note z = magnitude_zero(1) [OF f(1)] magnitude_zero(1) [OF f(2)] magnitude_zero(2) [of ?p] magnitude_zero(2) [of ?q]
  show ?thesis
  proof (cases "is_zero ?p \<or> is_zero ?q \<or> p_sign ?p \<noteq> p_sign ?q")
    case True
    have pos: "\<not> is_zero ?p \<Longrightarrow> 0 < magnitude ?p" "\<not> is_zero ?q \<Longrightarrow> 0 < magnitude ?q" using z by linarith+
    show ?thesis using True n z pos by (auto simp: f128_cmp_internal_def Let_def f128_val_def order_code_def)
  next
    case False
    then have "f128_cmp_internal a b = (if p_sign ?p then - order_code (magnitude ?p) (magnitude ?q) else order_code (magnitude ?p) (magnitude ?q))"
      using n magnitude_code [OF f] by (simp add: f128_cmp_internal_def Let_def)
    then show ?thesis using False by (auto simp: f128_val_def Let_def order_code_def)
  qed
qed

text \<open>C32: the comparisons.  Of two finite values, zeros of both signs, subnormal and normal numbers
  included, each comparison decides the order of the real numbers they stand for; a NaN compares
  equal to nothing and is in no order with anything.\<close>

theorem comparisons_correct:
  "(exp_field a \<noteq> 0x7FFF \<longrightarrow> exp_field b \<noteq> 0x7FFF \<longrightarrow>
      lr_f128_eq a b = (f128_val a = f128_val b) \<and> lr_f128_ne a b = (f128_val a \<noteq> f128_val b) \<and>
      lr_f128_lt a b = (f128_val a < f128_val b) \<and> lr_f128_le a b = (f128_val a \<le> f128_val b) \<and>
      lr_f128_gt a b = (f128_val b < f128_val a) \<and> lr_f128_ge a b = (f128_val b \<le> f128_val a)) \<and>
   (is_nan (f128_unpack a) \<or> is_nan (f128_unpack b) \<longrightarrow>
      \<not> lr_f128_eq a b \<and> lr_f128_ne a b \<and> \<not> lr_f128_lt a b \<and> \<not> lr_f128_le a b \<and> \<not> lr_f128_gt a b \<and> \<not> lr_f128_ge a b)"
proof (rule conjI; intro impI)
  assume "exp_field a \<noteq> 0x7FFF" and "exp_field b \<noteq> 0x7FFF"
  then have c: "f128_cmp_internal a b = order_code (f128_val a) (f128_val b)" by (rule cmp_finite)
  then have "f128_cmp_internal a b \<noteq> 2" by (simp add: order_code_def)
  then show "lr_f128_eq a b = (f128_val a = f128_val b) \<and> lr_f128_ne a b = (f128_val a \<noteq> f128_val b) \<and>
      lr_f128_lt a b = (f128_val a < f128_val b) \<and> lr_f128_le a b = (f128_val a \<le> f128_val b) \<and>
      lr_f128_gt a b = (f128_val b < f128_val a) \<and> lr_f128_ge a b = (f128_val b \<le> f128_val a)"
    unfolding lr_f128_eq_def lr_f128_ne_def lr_f128_lt_def lr_f128_le_def lr_f128_gt_def lr_f128_ge_def Let_def c
    by (auto simp: order_code_def)
next
  assume "is_nan (f128_unpack a) \<or> is_nan (f128_unpack b)"
  then have "f128_cmp_internal a b = 2" by (simp add: f128_cmp_internal_def)
  then show "\<not> lr_f128_eq a b \<and> lr_f128_ne a b \<and> \<not> lr_f128_lt a b \<and> \<not> lr_f128_le a b \<and> \<not> lr_f128_gt a b \<and> \<not> lr_f128_ge a b"
    by (simp add: lr_f128_eq_def lr_f128_ne_def lr_f128_lt_def lr_f128_le_def lr_f128_gt_def lr_f128_ge_def)
qed

theorem comparisons_correct_witness:
  "(lr_f128_lt f128_one f128_two = (f128_val f128_one < f128_val f128_two)) \<and> \<not> lr_f128_eq f128_make_nan f128_make_nan"
proof -
  have "exp_field f128_one = 0x3FFF" "exp_field f128_two = 0x4000" "is_nan (f128_unpack f128_make_nan)"
    by (simp_all add: exp_field_def f128_eval)
  then show ?thesis using comparisons_correct [of f128_one f128_two] comparisons_correct [of f128_make_nan f128_make_nan] by simp
qed

section \<open>Integers\<close>

lemma normal_hi:
  assumes "2 ^ 112 \<le> u128_nat m" and "u128_nat m < 2 ^ 113"
  shows "take_bit 48 (hi m) OR push_bit 48 1 = hi m"
proof -
  have l: "unat (lo m) < 2 ^ 64" using unsigned_less [of "lo m", where 'a = nat] by simp
  have "2 ^ 48 \<le> unat (hi m)" "unat (hi m) < 2 ^ 49" using assms l unfolding u128_nat_def by simp_all
  then have "unat (hi m) mod 2 ^ 48 = unat (hi m) - 2 ^ 48" by (simp add: le_mod_geq)
  then have "unat (take_bit 48 (hi m)) + 2 ^ 48 = unat (hi m)"
    using \<open>2 ^ 48 \<le> unat (hi m)\<close> unfolding unsigned_take_bit_eq by (simp add: take_bit_eq_mod)
  then have "unat (take_bit 48 (hi m) OR push_bit 48 1) = unat (hi m)" unfolding hidden_bit by simp
  then show ?thesis by (simp only: word_unat_eq_iff)
qed

lemma unpack_pack:
  assumes "2 ^ 112 \<le> u128_nat m" and "u128_nat m < 2 ^ 113" and "- 16383 < e" and "e < 16384"
  shows "f128_unpack (f128_pack_parts s e m) = parts_zero\<lparr>p_sign := s, p_exp := e, p_mant := m\<rparr>"
proof -
  let ?e = "word_of_int (e + 16383) :: u64" and ?v = "f128_pack_parts s e m"
  have v: "?v = f128_store (join_fields s ?e (hi m)) (lo m)" by (rule pack_normal [OF assms])
  have "take_bit LENGTH(64) (e + 16383) = e + 16383" by (rule take_bit_int_eq_self) (use assms(3,4) in simp_all)
  then have ue: "uint ?e = e + 16383" by (simp only: uint_word_of_int_eq)
  then have "?e < 2 ^ 15" using assms(4) by (simp add: word_less_def)
  note f = split_join_fields [OF this, of s "hi m"]
  have E: "exp_field ?v = ?e" unfolding exp_field_def v f128_store_fields by (rule f(2))
  have "?e \<noteq> 0" "?e \<noteq> 0x7FFF" using ue assms(3,4) by (auto simp: word_uint_eq_iff)
  then show ?thesis
    using unpack_normal [of ?v] E ue f normal_hi [OF assms(1,2)]
    by (simp add: v f128_store_fields parts_zero_def)
qed

lemma normalize_int:
  assumes "0 < n" and "n < 2 ^ 64" and "e = bitlen (int n) - 1"
  shows "2 ^ 112 \<le> n * 2 ^ nat (112 - e)" and "n * 2 ^ nat (112 - e) < 2 ^ 113" and "0 \<le> e" and "e \<le> 63"
proof -
  have b: "2 ^ nat e \<le> int n" "int n < 2 ^ nat (e + 1)" using bitlen_bounds [of "int n"] assms(1,3) by auto
  have "bitlen (int n) \<le> 64" using assms(2) by (simp add: bitlen_le_iff_power)
  then show le: "e \<le> 63" using assms(3) by simp
  have "0 < bitlen (int n)" using assms(1) bitlen_nonneg [of "int n"] bitlen_eq_zero_iff [of "int n"] by simp
  then show ge: "0 \<le> e" using assms(3) by simp
  have "int (2 ^ nat e) \<le> int n" "int n < int (2 ^ (nat e + 1))" using b ge by (simp_all add: nat_add_distrib)
  then have n: "2 ^ nat e \<le> n" "n < 2 ^ (nat e + 1)" by (simp_all only: of_nat_le_iff of_nat_less_iff)
  have k: "nat e + nat (112 - e) = 112" using le ge by simp
  have "2 ^ nat e * 2 ^ nat (112 - e) \<le> n * 2 ^ nat (112 - e)" using n(1) by (rule mult_right_mono) simp
  then show "2 ^ 112 \<le> n * 2 ^ nat (112 - e)" unfolding power_add [symmetric] k .
  have "n * 2 ^ nat (112 - e) < 2 ^ (nat e + 1) * 2 ^ nat (112 - e)" using n(2) by (rule mult_strict_right_mono) simp
  also have "\<dots> = 2 ^ 113" unfolding power_add [symmetric] using k by simp
  finally show "n * 2 ^ nat (112 - e) < 2 ^ 113" .
qed

lemma u128_nat_shl:
  assumes "u128_nat a * 2 ^ k < 2 ^ 128"
  shows "u128_nat (u128_shl a (int k)) = u128_nat a * 2 ^ k"
proof -
  have "u128_nat (u128_shl a (int k)) = unat (push_bit k (u128_word a))" by (simp add: u128_nat_word u128_word_shl)
  also have "\<dots> = take_bit 128 (push_bit k (unat (u128_word a)))" by (simp add: unsigned_push_bit_eq)
  also have "\<dots> = u128_nat a * 2 ^ k" using assms by (simp add: push_bit_eq_mult take_bit_nat_eq_self u128_nat_word)
  finally show ?thesis .
qed

lemma u128_nat_shr: "u128_nat (u128_shr a (int k)) = u128_nat a div 2 ^ k"
proof -
  have "u128_nat (u128_shr a (int k)) = unat (drop_bit k (u128_word a))" by (simp add: u128_nat_word u128_word_shr)
  also have "\<dots> = drop_bit k (take_bit LENGTH(128) (unat (u128_word a)))" by (rule unsigned_drop_bit_eq)
  also have "take_bit LENGTH(128) (unat (u128_word a)) = unat (u128_word a)"
    by (rule take_bit_nat_eq_self) (rule unsigned_less)
  also have "drop_bit k (unat (u128_word a)) = u128_nat a div 2 ^ k" by (simp add: drop_bit_eq_div u128_nat_word)
  finally show ?thesis .
qed

text \<open>The parts of a converted integer that is not zero.\<close>

lemma from_i64_parts:
  assumes "x \<noteq> 0" and "s = (sint x < 0)" and "n = unat (if s then - x else x)" and "e = bitlen (int n) - 1"
  shows "f128_unpack (f128_from_i64 x) = parts_zero\<lparr>p_sign := s, p_exp := e,
      p_mant := u128_shl (u128_from_u64 (if s then - x else x)) (112 - e)\<rparr>"
    and "u128_nat (u128_shl (u128_from_u64 (if s then - x else x)) (112 - e)) = n * 2 ^ nat (112 - e)"
    and "0 \<le> e" and "e \<le> 63"
proof -
  let ?a = "if s then - x else x"
  have a: "?a \<noteq> 0" using assms(1) by simp
  have n: "0 < n" "n < 2 ^ 64" using a unsigned_less [of ?a, where 'a = nat] unfolding assms(3) by (simp_all add: unat_gt_0)
  note r = normalize_int [OF n assms(4)]
  show e: "0 \<le> e" "e \<le> 63" using r by simp_all
  have u: "u128_nat (u128_from_u64 ?a) = n" unfolding assms(3) by (simp add: u128_nat_def u128_from_u64_def)
  have k: "int (nat (112 - e)) = 112 - e" using e by simp
  have "n * 2 ^ nat (112 - e) < 2 ^ 128" using r(2) by (rule order.strict_trans) simp
  then show m: "u128_nat (u128_shl (u128_from_u64 ?a) (112 - e)) = n * 2 ^ nat (112 - e)"
    using u128_nat_shl [of "u128_from_u64 ?a" "nat (112 - e)"] unfolding u k by simp
  have c: "63 - lf_clz64 ?a = e" using a unfolding lf_clz64_def builtin_clz_def assms(3,4) by simp
  have "f128_from_i64 x = f128_pack_parts s e (u128_shl (u128_from_u64 ?a) (112 - e))"
    unfolding f128_from_i64_def Let_def assms(2) [symmetric] c using assms(1) by (simp only: if_False)
  then show "f128_unpack (f128_from_i64 x) = parts_zero\<lparr>p_sign := s, p_exp := e, p_mant := u128_shl (u128_from_u64 ?a) (112 - e)\<rparr>"
    using unpack_pack [of "u128_shl (u128_from_u64 ?a) (112 - e)" e s] m r(1,2) e by simp
qed

lemma sint_sign_magnitude: "sint (x :: u64) = (if sint x < 0 then - int (unat (- x)) else int (unat x))"
proof (cases "sint x < 0")
  case True
  have "- (2 ^ 63) \<le> sint x" using sint_greater_eq [of x] by simp
  then have "take_bit LENGTH(64) (- sint x) = - sint x" using True by (intro take_bit_int_eq_self) simp_all
  then have "uint (word_of_int (- sint x) :: u64) = - sint x" by (simp only: uint_word_of_int_eq)
  moreover have "word_of_int (- sint x) = - x" by simp
  ultimately show ?thesis using True by simp
next
  case False
  have "sint x < 2 ^ 63" using sint_less [of x] by simp
  then have "take_bit LENGTH(64) (sint x) = sint x" using False by (intro take_bit_int_eq_self) simp_all
  then have "uint (word_of_int (sint x) :: u64) = sint x" by (simp only: uint_word_of_int_eq)
  then show ?thesis using False by simp
qed

lemma to_i64_parts:
  assumes "f128_unpack v = parts_zero\<lparr>p_sign := s, p_exp := e, p_mant := m\<rparr>" and "u128_nat m = n * 2 ^ nat (112 - e)"
    and "0 \<le> e" and "e \<le> 62" and "n < 2 ^ 64"
  shows "f128_to_i64 v = (if s then - of_nat n else of_nat n)"
proof -
  have k: "int (nat (112 - e)) = 112 - e" using assms(4) by simp
  have "u128_nat (u128_shr m (112 - e)) = n" using u128_nat_shr [of m "nat (112 - e)"] assms(2) unfolding k by simp
  then have "unat (hi (u128_shr m (112 - e))) * 2 ^ 64 + unat (lo (u128_shr m (112 - e))) = n" by (simp add: u128_nat_def)
  then have "unat (lo (u128_shr m (112 - e))) = n"
    using assms(5) by (cases "unat (hi (u128_shr m (112 - e)))") auto
  then have "lo (u128_shr m (112 - e)) = of_nat n" by (metis of_nat_unat ucast_id)
  then show ?thesis using assms(1,3,4) by (simp add: f128_to_i64_def parts_zero_def)
qed

text \<open>conversion of 64-bit integers is exact: the value is the integer, for every integer, and
  converting back returns it.\<close>

theorem from_i64_exact: "f128_val (f128_from_i64 x) = real_of_int (sint x) \<and> f128_to_i64 (f128_from_i64 x) = x"
proof (cases "x = 0")
  case True
  have z: "f128_unpack (f128_make_zero False) = parts_zero\<lparr>is_zero := True\<rparr>"
    using unpack_special(3) [of "f128_make_zero False"]
    by (simp add: f128_make_zero_def sign_bit63_def exp_field_def mant_field_def f128_store_fields parts_zero_def)
  show ?thesis using True z
    by (simp add: f128_from_i64_def f128_val_def f128_to_i64_def magnitude_def parts_zero_def u128_zero_def u128_nat_def)
next
  case False
  define s where "s = (sint x < 0)"
  define n where "n = unat (if s then - x else x)"
  define e where "e = bitlen (int n) - 1"
  note p = from_i64_parts [OF False s_def n_def e_def]
  have n: "n < 2 ^ 64" using unsigned_less [of "if s then - x else x", where 'a = nat] by (simp add: n_def)
  have x: "sint x = (if s then - int n else int n)" 
    unfolding s_def n_def using sint_sign_magnitude [of x] by (cases "sint x < 0") simp_all
  have "real n * 2 ^ nat (112 - e) * 2 powi (e - 112) = real n"
  proof -
    have "(2 :: real) ^ nat (112 - e) = 2 powi (112 - e)" using p(4) by (simp add: power_int_def)
    moreover have "(2 :: real) powi (112 - e) * 2 powi (e - 112) = 2 powi ((112 - e) + (e - 112))"
      by (rule power_int_add [symmetric]) simp
    ultimately show ?thesis by simp
  qed
  define m where "m = u128_shl (u128_from_u64 (if s then - x else x)) (112 - e)"
  have "real (u128_nat m) * 2 powi (e - 112) = real n"
    unfolding m_def p(2) using \<open>real n * 2 ^ nat (112 - e) * 2 powi (e - 112) = real n\<close> by (simp only: of_nat_mult of_nat_power of_nat_numeral)
  then have v: "f128_val (f128_from_i64 x) = (if s then - real n else real n)"
    unfolding f128_val_def Let_def p(1) m_def [symmetric] magnitude_def by (simp add: parts_zero_def)
  have w: "x = (if s then - of_nat n else of_nat n)" by (simp add: n_def)
  have "f128_to_i64 (f128_from_i64 x) = x"
  proof (cases "e \<le> 62")
    case True
    show ?thesis using to_i64_parts [OF p(1,2,3) True n] w by simp
  next
    case False
    then have e63: "e = 63" using p(4) by simp
    have "0 < n" using \<open>x \<noteq> 0\<close> by (simp add: n_def unat_gt_0)
    then have "2 ^ nat (bitlen (int n) - 1) \<le> int n" using bitlen_bounds [of "int n"] by simp
    then have lo: "2 ^ 63 \<le> int n" using e63 e_def by simp
    have "sint x < 2 ^ 63" "- (2 ^ 63) \<le> sint x" using sint_less [of x] sint_greater_eq [of x] by simp_all
    then have sn: "s" "int n = 2 ^ 63" using x lo by (auto split: if_splits)
    then have "n = 2 ^ 63" by simp
    then have "x = 0x8000000000000000" using w sn(1) by simp
    then show ?thesis using p(1) e63 sn(1) by (simp add: f128_to_i64_def parts_zero_def)
  qed
  then show ?thesis using v x by simp
qed

section \<open>Division\<close>

text \<open>The division loop on numbers.\<close>

fun ndiv :: "nat \<Rightarrow> nat \<Rightarrow> nat \<Rightarrow> nat \<Rightarrow> nat \<times> nat" where
  "ndiv 0 b r q = (r, q)"
| "ndiv (Suc n) b r q =
     (let r1 = 2 * r mod 2 ^ 128; q1 = 2 * q mod 2 ^ 128
      in if b \<le> r1 then ndiv n b (r1 - b) (q1 + 1) else ndiv n b r1 q1)"

lemma u128_nat_shl1: "u128_nat (u128_shl1 a) = 2 * u128_nat a mod 2 ^ 128"
proof -
  have "u128_nat (u128_shl1 a) = unat (push_bit 1 (u128_word a))" by (simp add: u128_nat_word u128_word_shl1)
  also have "\<dots> = take_bit LENGTH(128) (push_bit 1 (unat (u128_word a)))" by (rule unsigned_push_bit_eq)
  also have "\<dots> = 2 * u128_nat a mod 2 ^ 128" by (simp add: push_bit_eq_mult take_bit_eq_mod u128_nat_word mult.commute)
  finally show ?thesis .
qed

lemma u128_nat_sub: "u128_nat b \<le> u128_nat a \<Longrightarrow> u128_nat (u128_sub a b) = u128_nat a - u128_nat b"
  unfolding u128_nat_word u128_word_sub by (simp add: unat_sub word_le_nat_alt)

lemma u128_nat_or_one: "u128_nat (u128_or (u128_shl1 q) u128_one) = 2 * u128_nat q mod 2 ^ 128 + 1"
proof -
  have "push_bit 1 w OR 1 = push_bit 1 w + (1 :: 128 word)" for w
    by (rule disjunctive_add_eq_or [symmetric], rule bit_eqI)
      (simp only: bit_and_iff bit_push_bit_iff bit_1_iff bit_0_eq bot_apply, auto)
  then have "u128_nat (u128_or (u128_shl1 q) u128_one) = unat (u128_word (u128_shl1 q) + 1)"
    by (simp add: u128_nat_word u128_word_or u128_word_shl1 u128_word_consts)
  moreover have "unat (u128_word (u128_shl1 q)) = 2 * u128_nat q mod 2 ^ 128" using u128_nat_shl1 [of q] by (simp add: u128_nat_word)
  moreover have "2 * u128_nat q mod 2 ^ 128 + 1 < 2 ^ 128"
  proof -
    have "even (2 * u128_nat q mod 2 ^ 128)" by (intro dvd_mod) simp_all
    moreover have "2 * u128_nat q mod 2 ^ 128 < 2 ^ 128" by simp
    moreover have "odd (2 ^ 128 - 1 :: nat)" by simp
    ultimately show ?thesis by (metis Suc_eq_plus1 Suc_lessI diff_Suc_1)
  qed
  ultimately show ?thesis by (simp add: unat_word_ariths)
qed

lemma div_loop_ndiv:
  "div_loop n b r q = (r', q') \<Longrightarrow> ndiv n (u128_nat b) (u128_nat r) (u128_nat q) = (u128_nat r', u128_nat q')"
proof (induction n b r q rule: div_loop.induct)
  case (2 n b r q)
  have g: "u128_gte (u128_shl1 r) b \<longleftrightarrow> u128_nat b \<le> u128_nat (u128_shl1 r)"
    by (simp add: u128_cmp_word u128_nat_word word_le_nat_alt)
  show ?case
  proof (cases "u128_gte (u128_shl1 r) b")
    case True
    then have "u128_nat (u128_sub (u128_shl1 r) b) = u128_nat (u128_shl1 r) - u128_nat b" using g by (simp add: u128_nat_sub)
    then show ?thesis using "2.IH"(1) [OF refl refl True] "2.prems" True g
      by (simp add: Let_def u128_nat_shl1 u128_nat_or_one)
  next
    case False
    then show ?thesis using "2.IH"(2) [OF refl refl False] "2.prems" g by (simp add: Let_def u128_nat_shl1)
  qed
qed simp

lemma ndiv_correct:
  "r < b \<Longrightarrow> b < 2 ^ 127 \<Longrightarrow> q < 2 ^ (128 - n) \<Longrightarrow> n < 128 \<Longrightarrow> ndiv n b r q = (r * 2 ^ n mod b, q * 2 ^ n + r * 2 ^ n div b)"
proof (induction n b r q rule: ndiv.induct)
  case (2 n b r q)
  have r1: "2 * r mod 2 ^ 128 = 2 * r" using "2.prems"(1,2) by simp
  have "q * 2 < 2 ^ (128 - Suc n) * 2" using "2.prems"(3) by simp
  also have "\<dots> = 2 ^ (128 - n)"
  proof -
    have e: "128 - n = Suc (128 - Suc n)" using "2.prems"(4) by simp
    show ?thesis unfolding e by (rule power_Suc2 [symmetric])
  qed
  finally have q2: "2 * q < 2 ^ (128 - n)" by simp
  also have "(2 :: nat) ^ (128 - n) \<le> 2 ^ 128" by (intro power_increasing) auto
  finally have q1: "2 * q mod 2 ^ 128 = 2 * q" by simp
  have odd: "2 * q + 1 < 2 ^ (128 - n)"
  proof -
    have "even ((2 :: nat) ^ (128 - n))" using "2.prems"(4) by simp
    then show ?thesis using q2 by (metis Suc_eq_plus1 Suc_lessI dvd_triv_left even_Suc)
  qed
  show ?case
  proof (cases "b \<le> 2 * r")
    case True
    then have lt: "2 * r - b < b" using "2.prems"(1) by linarith
    have "2 * r * 2 ^ n = (2 * r - b) * 2 ^ n + b * 2 ^ n" using True by (simp flip: distrib_right)
    then have "r * 2 ^ Suc n mod b = (2 * r - b) * 2 ^ n mod b" "r * 2 ^ Suc n div b = (2 * r - b) * 2 ^ n div b + 2 ^ n"
      using "2.prems"(1) by (simp_all add: ac_simps)
    then show ?thesis using "2.IH"(1) [OF refl refl] True r1 q1 lt odd "2.prems"(2,4) by (simp add: Let_def distrib_right)
  next
    case False
    then show ?thesis using "2.IH"(2) [OF refl refl] r1 q1 q2 "2.prems"(2,4) by (simp add: Let_def ac_simps)
  qed
qed simp




text \<open>the mantissa division.  When the mantissa of the dividend is below the one of the divisor, the
  loop gives the integer quotient of the shifted mantissas and its remainder.\<close>

theorem div_loop_quotient:
  assumes "u128_nat r < u128_nat b" and "u128_nat b < 2 ^ 113" and "div_loop 113 b r u128_zero = (r', q')"
  shows "u128_nat q' = u128_nat r * 2 ^ 113 div u128_nat b \<and> u128_nat r' = u128_nat r * 2 ^ 113 mod u128_nat b"
proof -
  have "u128_nat b < 2 ^ 127" using assms(2) by (rule order.strict_trans) simp
  then have "ndiv 113 (u128_nat b) (u128_nat r) 0 = (u128_nat r * 2 ^ 113 mod u128_nat b, u128_nat r * 2 ^ 113 div u128_nat b)"
    using ndiv_correct [OF assms(1), of 0 113] by simp
  moreover have "u128_nat u128_zero = 0" by (simp add: u128_nat_def u128_zero_def)
  ultimately show ?thesis using div_loop_ndiv [OF assms(3)] by simp
qed

theorem div_loop_quotient_witness:
  "u128_nat (snd (div_loop 113 \<lparr>lo = 3, hi = 0\<rparr> \<lparr>lo = 2, hi = 0\<rparr> u128_zero)) = 2 * 2 ^ 113 div 3"
proof -
  have "u128_nat \<lparr>lo = 3, hi = 0\<rparr> = 3" "u128_nat \<lparr>lo = 2, hi = 0\<rparr> = 2" by (simp_all add: u128_nat_def)
  moreover obtain r q where "div_loop 113 \<lparr>lo = 3, hi = 0\<rparr> \<lparr>lo = 2, hi = 0\<rparr> u128_zero = (r, q)" by fastforce
  ultimately show ?thesis using div_loop_quotient [of "\<lparr>lo = 2, hi = 0\<rparr>" "\<lparr>lo = 3, hi = 0\<rparr>" r q] by simp
qed

section \<open>Where the results are wrong\<close>



end
