(* ===== verification/Intrinsics.thy ===== *)
theory Intrinsics
  imports Liric_Prelude
begin

text \<open>
  The compiler intrinsics of \<^verbatim>\<open>src/src/platform/platform_intrinsics.c\<close>: the C functions that
  stand in for LLVM's integer intrinsics, the tables that give an intrinsic a machine-code stub or
  the name of a libc function, and the lookups over them.

  A function pointer is the name of the C function.  The stubs of the host are assembly files, so
  whether a stub is there and not empty is a parameter \<open>blob\<close> on the stub's name; so are the
  addresses that \<^verbatim>\<open>dlsym\<close> gives.  The functions of one family differ only in their width and are
  instances of one definition.  Signed overflow of \<^verbatim>\<open>-x\<close> is undefined for \<^verbatim>\<open>int32_t\<close> and \<^verbatim>\<open>int64_t\<close>
  and is \<open>None\<close>; for the narrower types the negation happens at \<^verbatim>\<open>int\<close> and the conversion back wraps.
\<close>

section \<open>The functions\<close>


definition umax :: "'a::len word \<Rightarrow> 'a word \<Rightarrow> 'a word" where
  "umax a b = (if b < a then a else b)"

definition umin :: "'a::len word \<Rightarrow> 'a word \<Rightarrow> 'a word" where
  "umin a b = (if a < b then a else b)"

definition smax :: "'a::len word \<Rightarrow> 'a word \<Rightarrow> 'a word" where
  "smax a b = (if sint b < sint a then a else b)"

definition smin :: "'a::len word \<Rightarrow> 'a word \<Rightarrow> 'a word" where
  "smin a b = (if sint a < sint b then a else b)"

definition abs_narrow :: "'a::len word \<Rightarrow> 'a word" where
  "abs_narrow x = (if sint x < 0 then - x else x)"

definition abs_wide :: "'a::len word \<Rightarrow> 'a word option" where
  "abs_wide x = (if sint x < 0 then (if sint x = - (2 ^ (LENGTH('a) - 1)) then None else Some (- x)) else Some x)"

definition lr_intrin_umax_i64 :: "u64 \<Rightarrow> u64 \<Rightarrow> u64" where
  "lr_intrin_umax_i64 = umax"

definition lr_intrin_umax_i32 :: "u32 \<Rightarrow> u32 \<Rightarrow> u32" where
  "lr_intrin_umax_i32 = umax"

definition lr_intrin_umin_i64 :: "u64 \<Rightarrow> u64 \<Rightarrow> u64" where
  "lr_intrin_umin_i64 = umin"

definition lr_intrin_umin_i32 :: "u32 \<Rightarrow> u32 \<Rightarrow> u32" where
  "lr_intrin_umin_i32 = umin"

definition lr_intrin_smax_i64 :: "u64 \<Rightarrow> u64 \<Rightarrow> u64" where
  "lr_intrin_smax_i64 = smax"

definition lr_intrin_smax_i32 :: "u32 \<Rightarrow> u32 \<Rightarrow> u32" where
  "lr_intrin_smax_i32 = smax"

definition lr_intrin_smin_i64 :: "u64 \<Rightarrow> u64 \<Rightarrow> u64" where
  "lr_intrin_smin_i64 = smin"

definition lr_intrin_smin_i32 :: "u32 \<Rightarrow> u32 \<Rightarrow> u32" where
  "lr_intrin_smin_i32 = smin"

definition lr_intrin_abs_i8 :: "u8 \<Rightarrow> u8 \<Rightarrow> u8" where
  "lr_intrin_abs_i8 x poison = abs_narrow x"

definition lr_intrin_abs_i16 :: "u16 \<Rightarrow> u8 \<Rightarrow> u16" where
  "lr_intrin_abs_i16 x poison = abs_narrow x"

definition lr_intrin_abs_i32_fallback :: "u32 \<Rightarrow> u8 \<Rightarrow> u32 option" where
  "lr_intrin_abs_i32_fallback x poison = abs_wide x"

definition lr_intrin_abs_i64_fallback :: "u64 \<Rightarrow> u8 \<Rightarrow> u64 option" where
  "lr_intrin_abs_i64_fallback x poison = abs_wide x"

text \<open>The counting loops.\<close>

lemma and_minus_1_less: "x \<noteq> 0 \<Longrightarrow> unat (x AND (x - 1)) < unat (x :: 'a::len word)"
proof -
  assume "x \<noteq> 0"
  then have "unat (x - 1) < unat x" by (simp add: unat_minus_one unat_gt_0)
  moreover have "x AND (x - 1) \<le> x - 1" by (rule word_and_le1)
  ultimately show ?thesis by (simp add: word_le_nat_alt)
qed

function ctpop_loop :: "'a::len word \<Rightarrow> 'a word \<Rightarrow> 'a word" where
  "ctpop_loop x c = (if x \<noteq> 0 then ctpop_loop (x AND (x - 1)) (c + 1) else c)"
  by pat_completeness auto
termination by (relation "measure (\<lambda>(x, c). unat x)") (auto intro: and_minus_1_less)

text \<open>\<^verbatim>\<open>n++; x <<= 1\<close> until the top bit is set, and \<^verbatim>\<open>n++; x >>= 1\<close> until the low one is; the callers
  leave out zero, the first argument bounds the rounds by the width.\<close>

fun ctlz_loop :: "nat \<Rightarrow> 'a::len word \<Rightarrow> 'a word \<Rightarrow> 'a word option" where
  "ctlz_loop 0 x n = None"
| "ctlz_loop (Suc k) x n = (if bit x (LENGTH('a) - 1) then Some n else ctlz_loop k (push_bit 1 x) (n + 1))"

fun cttz_loop :: "nat \<Rightarrow> 'a::len word \<Rightarrow> 'a word \<Rightarrow> 'a word option" where
  "cttz_loop 0 x n = None"
| "cttz_loop (Suc k) x n = (if bit x 0 then Some n else cttz_loop k (drop_bit 1 x) (n + 1))"

definition ctlz :: "'a::len word \<Rightarrow> u8 \<Rightarrow> 'a word option" where
  "ctlz x is_zero_undef =
     (if x = 0 then Some (if is_zero_undef \<noteq> 0 then 0 else of_nat LENGTH('a)) else ctlz_loop LENGTH('a) x 0)"

definition cttz :: "'a::len word \<Rightarrow> u8 \<Rightarrow> 'a word option" where
  "cttz x is_zero_undef =
     (if x = 0 then Some (if is_zero_undef \<noteq> 0 then 0 else of_nat LENGTH('a)) else cttz_loop LENGTH('a) x 0)"

text \<open>The funnel shifts mask the amount to the width, a power of two.\<close>

definition fshl :: "'a::len word \<Rightarrow> 'a word \<Rightarrow> 'a word \<Rightarrow> 'a word" where
  "fshl a b s =
     (let sh = unat (s AND of_nat (LENGTH('a) - 1))
      in if sh = 0 then a else push_bit sh a OR drop_bit (LENGTH('a) - sh) b)"

definition fshr :: "'a::len word \<Rightarrow> 'a word \<Rightarrow> 'a word \<Rightarrow> 'a word" where
  "fshr a b s =
     (let sh = unat (s AND of_nat (LENGTH('a) - 1))
      in if sh = 0 then a else drop_bit sh a OR push_bit (LENGTH('a) - sh) b)"

definition lr_intrin_ctpop_i8 :: "u8 \<Rightarrow> u8" where
  "lr_intrin_ctpop_i8 x = ctpop_loop x 0"

definition lr_intrin_ctpop_i16 :: "u16 \<Rightarrow> u16" where
  "lr_intrin_ctpop_i16 x = ctpop_loop x 0"

definition lr_intrin_ctpop_i32 :: "u32 \<Rightarrow> u32" where
  "lr_intrin_ctpop_i32 x = ctpop_loop x 0"

definition lr_intrin_ctpop_i64 :: "u64 \<Rightarrow> u64" where
  "lr_intrin_ctpop_i64 x = ctpop_loop x 0"

definition lr_intrin_ctlz_i8 :: "u8 \<Rightarrow> u8 \<Rightarrow> u8 option" where
  "lr_intrin_ctlz_i8 = ctlz"

definition lr_intrin_ctlz_i16 :: "u16 \<Rightarrow> u8 \<Rightarrow> u16 option" where
  "lr_intrin_ctlz_i16 = ctlz"

definition lr_intrin_ctlz_i32 :: "u32 \<Rightarrow> u8 \<Rightarrow> u32 option" where
  "lr_intrin_ctlz_i32 = ctlz"

definition lr_intrin_ctlz_i64 :: "u64 \<Rightarrow> u8 \<Rightarrow> u64 option" where
  "lr_intrin_ctlz_i64 = ctlz"

definition lr_intrin_cttz_i8 :: "u8 \<Rightarrow> u8 \<Rightarrow> u8 option" where
  "lr_intrin_cttz_i8 = cttz"

definition lr_intrin_cttz_i16 :: "u16 \<Rightarrow> u8 \<Rightarrow> u16 option" where
  "lr_intrin_cttz_i16 = cttz"

definition lr_intrin_cttz_i32 :: "u32 \<Rightarrow> u8 \<Rightarrow> u32 option" where
  "lr_intrin_cttz_i32 = cttz"

definition lr_intrin_cttz_i64 :: "u64 \<Rightarrow> u8 \<Rightarrow> u64 option" where
  "lr_intrin_cttz_i64 = cttz"

definition lr_intrin_fshl_i8 :: "u8 \<Rightarrow> u8 \<Rightarrow> u8 \<Rightarrow> u8" where
  "lr_intrin_fshl_i8 = fshl"

definition lr_intrin_fshl_i16 :: "u16 \<Rightarrow> u16 \<Rightarrow> u16 \<Rightarrow> u16" where
  "lr_intrin_fshl_i16 = fshl"

definition lr_intrin_fshl_i32 :: "u32 \<Rightarrow> u32 \<Rightarrow> u32 \<Rightarrow> u32" where
  "lr_intrin_fshl_i32 = fshl"

definition lr_intrin_fshl_i64 :: "u64 \<Rightarrow> u64 \<Rightarrow> u64 \<Rightarrow> u64" where
  "lr_intrin_fshl_i64 = fshl"

definition lr_intrin_fshr_i8 :: "u8 \<Rightarrow> u8 \<Rightarrow> u8 \<Rightarrow> u8" where
  "lr_intrin_fshr_i8 = fshr"

definition lr_intrin_fshr_i16 :: "u16 \<Rightarrow> u16 \<Rightarrow> u16 \<Rightarrow> u16" where
  "lr_intrin_fshr_i16 = fshr"

definition lr_intrin_fshr_i32 :: "u32 \<Rightarrow> u32 \<Rightarrow> u32 \<Rightarrow> u32" where
  "lr_intrin_fshr_i32 = fshr"

definition lr_intrin_fshr_i64 :: "u64 \<Rightarrow> u64 \<Rightarrow> u64 \<Rightarrow> u64" where
  "lr_intrin_fshr_i64 = fshr"

section \<open>The tables\<close>

definition g_intrinsics :: "(string \<times> string) list" where
  "g_intrinsics =
    [
     (''llvm.fabs.f32'', ''llvm_fabs_f32''), (''llvm.fabs.f64'', ''llvm_fabs_f64''),
     (''llvm.fabs.v2f32'', ''llvm_fabs_v2f32''), (''llvm.fabs.v2f64'', ''llvm_fabs_v2f64''),
     (''llvm.lifetime.start.p0'', ''llvm_lifetime_start''), (''llvm.lifetime.end.p0'', ''llvm_lifetime_end''),
     (''llvm.sqrt.f32'', ''llvm_sqrt_f32''), (''llvm.sqrt.f64'', ''llvm_sqrt_f64''),
     (''llvm.exp.f32'', ''llvm_exp_f32''), (''llvm.exp.f64'', ''llvm_exp_f64''),
     (''llvm.pow.f32'', ''llvm_pow_f32''), (''llvm.pow.f64'', ''llvm_pow_f64''),
     (''llvm.copysign.f32'', ''llvm_copysign_f32''), (''llvm.copysign.f64'', ''llvm_copysign_f64''),
     (''llvm.powi.f32'', ''llvm_powi_f32_i32''), (''llvm.powi.f64'', ''llvm_powi_f64_i32''),
     (''llvm.powi.f32.i32'', ''llvm_powi_f32_i32''), (''llvm.powi.f64.i32'', ''llvm_powi_f64_i32''),
     (''llvm.powi.f32.i64'', ''llvm_powi_f32_i64''), (''llvm.powi.f64.i64'', ''llvm_powi_f64_i64''),
     (''llvm.memset.p0i8.i32'', ''llvm_memset_i32''), (''llvm.memset.p0i8.i64'', ''llvm_memset_i64''),
     (''llvm.memset.p0.i32'', ''llvm_memset_i32''), (''llvm.memset.p0.i64'', ''llvm_memset_i64''),
     (''llvm.memcpy.p0i8.p0i8.i32'', ''llvm_memcpy_i32''), (''llvm.memcpy.p0i8.p0i8.i64'', ''llvm_memcpy_i64''),
     (''llvm.memcpy.p0.p0.i32'', ''llvm_memcpy_i32''), (''llvm.memcpy.p0.p0.i64'', ''llvm_memcpy_i64''),
     (''llvm.memmove.p0i8.p0i8.i32'', ''llvm_memmove_i32''), (''llvm.memmove.p0i8.p0i8.i64'', ''llvm_memmove_i64''),
     (''llvm.memmove.p0.p0.i32'', ''llvm_memmove_i32''), (''llvm.memmove.p0.p0.i64'', ''llvm_memmove_i64''),
     (''llvm.sin.f32'', ''llvm_sin_f32''), (''llvm.sin.f64'', ''llvm_sin_f64''),
     (''llvm.cos.f32'', ''llvm_cos_f32''), (''llvm.cos.f64'', ''llvm_cos_f64''),
     (''llvm.log.f32'', ''llvm_log_f32''), (''llvm.log.f64'', ''llvm_log_f64''),
     (''llvm.log2.f32'', ''llvm_log2_f32''), (''llvm.log2.f64'', ''llvm_log2_f64''),
     (''llvm.log10.f32'', ''llvm_log10_f32''), (''llvm.log10.f64'', ''llvm_log10_f64''),
     (''llvm.exp2.f32'', ''llvm_exp2_f32''), (''llvm.exp2.f64'', ''llvm_exp2_f64''),
     (''llvm.floor.f32'', ''llvm_floor_f32''), (''llvm.floor.f64'', ''llvm_floor_f64''),
     (''llvm.ceil.f32'', ''llvm_ceil_f32''), (''llvm.ceil.f64'', ''llvm_ceil_f64''),
     (''llvm.trunc.f32'', ''llvm_trunc_f32''), (''llvm.trunc.f64'', ''llvm_trunc_f64''),
     (''llvm.round.f32'', ''llvm_round_f32''), (''llvm.round.f64'', ''llvm_round_f64''),
     (''llvm.rint.f32'', ''llvm_rint_f32''), (''llvm.rint.f64'', ''llvm_rint_f64''),
     (''llvm.nearbyint.f32'', ''llvm_nearbyint_f32''), (''llvm.nearbyint.f64'', ''llvm_nearbyint_f64''),
     (''llvm.fma.f32'', ''llvm_fma_f32''), (''llvm.fma.f64'', ''llvm_fma_f64''),
     (''llvm.fmuladd.f32'', ''llvm_fma_f32''), (''llvm.fmuladd.f64'', ''llvm_fma_f64''),
     (''llvm.fmuladd.v2f32'', ''llvm_fmuladd_v2f32''), (''llvm.fmuladd.v4f32'', ''llvm_fmuladd_v4f32''),
     (''llvm.fmuladd.v2f64'', ''llvm_fmuladd_v2f64''), (''llvm.minnum.f32'', ''llvm_minnum_f32''),
     (''llvm.minnum.f64'', ''llvm_minnum_f64''), (''llvm.maxnum.f32'', ''llvm_maxnum_f32''),
     (''llvm.maxnum.f64'', ''llvm_maxnum_f64''), (''llvm.abs.i8'', ''llvm_abs_i8''),
     (''llvm.abs.i16'', ''llvm_abs_i16''), (''llvm.abs.i32'', ''llvm_abs_i32''),
     (''llvm.abs.i64'', ''llvm_abs_i64''), (''llvm.ctpop.i8'', ''llvm_ctpop_i8''),
     (''llvm.ctpop.i16'', ''llvm_ctpop_i16''), (''llvm.ctpop.i32'', ''llvm_ctpop_i32''),
     (''llvm.ctpop.i64'', ''llvm_ctpop_i64''), (''llvm.cttz.i8'', ''llvm_cttz_i8''),
     (''llvm.cttz.i16'', ''llvm_cttz_i16''), (''llvm.cttz.i32'', ''llvm_cttz_i32''),
     (''llvm.cttz.i64'', ''llvm_cttz_i64''), (''llvm.fshl.i8'', ''llvm_fshl_i8''),
     (''llvm.fshl.i16'', ''llvm_fshl_i16''), (''llvm.fshl.i32'', ''llvm_fshl_i32''),
     (''llvm.fshl.i64'', ''llvm_fshl_i64''), (''llvm.fshr.i8'', ''llvm_fshr_i8''),
     (''llvm.fshr.i16'', ''llvm_fshr_i16''), (''llvm.fshr.i32'', ''llvm_fshr_i32''),
     (''llvm.fshr.i64'', ''llvm_fshr_i64''), (''llvm.assume'', ''llvm_assume''),
     (''llvm.trap'', ''llvm_trap''), (''llvm.is.fpclass.f32'', ''llvm_is_fpclass_f32''),
     (''llvm.is.fpclass.f64'', ''llvm_is_fpclass_f64''), (''llvm.smax.i32'', ''llvm_smax_i32''),
     (''llvm.smin.i32'', ''llvm_smin_i32''), (''llvm.smax.i64'', ''llvm_smax_i64''),
     (''llvm.smin.i64'', ''llvm_smin_i64''), (''llvm.umax.i32'', ''llvm_umax_i32''),
     (''llvm.umin.i32'', ''llvm_umin_i32''), (''llvm.umax.i64'', ''llvm_umax_i64''),
     (''llvm.umin.i64'', ''llvm_umin_i64'')
    ]"

definition libc_names :: "(string \<times> string) list" where
  "libc_names =
    [
     (''llvm.fabs.f32'', ''fabsf''), (''llvm.fabs.f64'', ''fabs''),
     (''llvm.sqrt.f32'', ''sqrtf''), (''llvm.sqrt.f64'', ''sqrt''),
     (''llvm.pow.f32'', ''powf''), (''llvm.pow.f64'', ''pow''),
     (''llvm.copysign.f32'', ''copysignf''), (''llvm.copysign.f64'', ''copysign''),
     (''llvm.sin.f32'', ''sinf''), (''llvm.sin.f64'', ''sin''),
     (''llvm.asin.f32'', ''asinf''), (''llvm.asin.f64'', ''asin''),
     (''llvm.acos.f32'', ''acosf''), (''llvm.acos.f64'', ''acos''),
     (''llvm.atan.f32'', ''atanf''), (''llvm.atan.f64'', ''atan''),
     (''llvm.atan2.f32'', ''atan2f''), (''llvm.atan2.f64'', ''atan2''),
     (''llvm.cos.f32'', ''cosf''), (''llvm.cos.f64'', ''cos''),
     (''llvm.tan.f32'', ''tanf''), (''llvm.tan.f64'', ''tan''),
     (''llvm.exp.f32'', ''expf''), (''llvm.exp.f64'', ''exp''),
     (''llvm.exp10.f32'', ''exp10f''), (''llvm.exp10.f64'', ''exp10''),
     (''llvm.exp2.f32'', ''exp2f''), (''llvm.exp2.f64'', ''exp2''),
     (''llvm.log.f32'', ''logf''), (''llvm.log.f64'', ''log''),
     (''llvm.log2.f32'', ''log2f''), (''llvm.log2.f64'', ''log2''),
     (''llvm.log10.f32'', ''log10f''), (''llvm.log10.f64'', ''log10''),
     (''llvm.sinh.f32'', ''sinhf''), (''llvm.sinh.f64'', ''sinh''),
     (''llvm.cosh.f32'', ''coshf''), (''llvm.cosh.f64'', ''cosh''),
     (''llvm.tanh.f32'', ''tanhf''), (''llvm.tanh.f64'', ''tanh''),
     (''llvm.floor.f32'', ''floorf''), (''llvm.floor.f64'', ''floor''),
     (''llvm.ceil.f32'', ''ceilf''), (''llvm.ceil.f64'', ''ceil''),
     (''llvm.trunc.f32'', ''truncf''), (''llvm.trunc.f64'', ''trunc''),
     (''llvm.round.f32'', ''roundf''), (''llvm.round.f64'', ''round''),
     (''llvm.rint.f32'', ''rintf''), (''llvm.rint.f64'', ''rint''),
     (''llvm.nearbyint.f32'', ''nearbyintf''), (''llvm.nearbyint.f64'', ''nearbyint''),
     (''llvm.fma.f32'', ''fmaf''), (''llvm.fma.f64'', ''fma''),
     (''llvm.fmuladd.f32'', ''fmaf''), (''llvm.fmuladd.f64'', ''fma''),
     (''llvm.maximum.f32'', ''fmaxf''), (''llvm.maximum.f64'', ''fmax''),
     (''llvm.maxnum.f32'', ''fmaxf''), (''llvm.maxnum.f64'', ''fmax''),
     (''llvm.minimum.f32'', ''fminf''), (''llvm.minimum.f64'', ''fmin''),
     (''llvm.minnum.f32'', ''fminf''), (''llvm.minnum.f64'', ''fmin''),
     (''llvm.abs.i32'', ''abs''), (''llvm.abs.i64'', ''llabs'')
    ]"

definition g_riscv64_intrinsics :: "(string \<times> string) list" where
  "g_riscv64_intrinsics =
    [
     (''llvm.fabs.f32'', ''llvm_fabs_f32''), (''llvm.fabs.f64'', ''llvm_fabs_f64''),
     (''llvm.sqrt.f32'', ''llvm_sqrt_f32''), (''llvm.sqrt.f64'', ''llvm_sqrt_f64''),
     (''llvm.exp.f32'', ''llvm_exp_f32''), (''llvm.exp.f64'', ''llvm_exp_f64''),
     (''llvm.pow.f32'', ''llvm_pow_f32''), (''llvm.pow.f64'', ''llvm_pow_f64''),
     (''llvm.copysign.f32'', ''llvm_copysign_f32''), (''llvm.copysign.f64'', ''llvm_copysign_f64''),
     (''llvm.powi.f32'', ''llvm_powi_f32_i32''), (''llvm.powi.f64'', ''llvm_powi_f64_i32''),
     (''llvm.powi.f32.i32'', ''llvm_powi_f32_i32''), (''llvm.powi.f64.i32'', ''llvm_powi_f64_i32''),
     (''llvm.powi.f32.i64'', ''llvm_powi_f32_i64''), (''llvm.powi.f64.i64'', ''llvm_powi_f64_i64''),
     (''llvm.memset.p0i8.i32'', ''llvm_memset_i32''), (''llvm.memset.p0i8.i64'', ''llvm_memset_i64''),
     (''llvm.memset.p0.i32'', ''llvm_memset_i32''), (''llvm.memset.p0.i64'', ''llvm_memset_i64''),
     (''llvm.memcpy.p0i8.p0i8.i32'', ''llvm_memcpy_i32''), (''llvm.memcpy.p0i8.p0i8.i64'', ''llvm_memcpy_i64''),
     (''llvm.memcpy.p0.p0.i32'', ''llvm_memcpy_i32''), (''llvm.memcpy.p0.p0.i64'', ''llvm_memcpy_i64''),
     (''llvm.memmove.p0i8.p0i8.i32'', ''llvm_memmove_i32''), (''llvm.memmove.p0i8.p0i8.i64'', ''llvm_memmove_i64''),
     (''llvm.memmove.p0.p0.i32'', ''llvm_memmove_i32''), (''llvm.memmove.p0.p0.i64'', ''llvm_memmove_i64''),
     (''llvm.sin.f32'', ''llvm_sin_f32''), (''llvm.sin.f64'', ''llvm_sin_f64''),
     (''llvm.cos.f32'', ''llvm_cos_f32''), (''llvm.cos.f64'', ''llvm_cos_f64''),
     (''llvm.log.f32'', ''llvm_log_f32''), (''llvm.log.f64'', ''llvm_log_f64''),
     (''llvm.log2.f32'', ''llvm_log2_f32''), (''llvm.log2.f64'', ''llvm_log2_f64''),
     (''llvm.log10.f32'', ''llvm_log10_f32''), (''llvm.log10.f64'', ''llvm_log10_f64''),
     (''llvm.exp2.f32'', ''llvm_exp2_f32''), (''llvm.exp2.f64'', ''llvm_exp2_f64''),
     (''llvm.floor.f32'', ''llvm_floor_f32''), (''llvm.floor.f64'', ''llvm_floor_f64''),
     (''llvm.ceil.f32'', ''llvm_ceil_f32''), (''llvm.ceil.f64'', ''llvm_ceil_f64''),
     (''llvm.trunc.f32'', ''llvm_trunc_f32''), (''llvm.trunc.f64'', ''llvm_trunc_f64''),
     (''llvm.round.f32'', ''llvm_round_f32''), (''llvm.round.f64'', ''llvm_round_f64''),
     (''llvm.rint.f32'', ''llvm_rint_f32''), (''llvm.rint.f64'', ''llvm_rint_f64''),
     (''llvm.nearbyint.f32'', ''llvm_nearbyint_f32''), (''llvm.nearbyint.f64'', ''llvm_nearbyint_f64''),
     (''llvm.fma.f32'', ''llvm_fma_f32''), (''llvm.fma.f64'', ''llvm_fma_f64''),
     (''llvm.fmuladd.f32'', ''llvm_fma_f32''), (''llvm.fmuladd.f64'', ''llvm_fma_f64''),
     (''llvm.fmuladd.v2f32'', ''llvm_fmuladd_v2f32''), (''llvm.fmuladd.v4f32'', ''llvm_fmuladd_v4f32''),
     (''llvm.fmuladd.v2f64'', ''llvm_fmuladd_v2f64''), (''llvm.minnum.f32'', ''llvm_minnum_f32''),
     (''llvm.minnum.f64'', ''llvm_minnum_f64''), (''llvm.maxnum.f32'', ''llvm_maxnum_f32''),
     (''llvm.maxnum.f64'', ''llvm_maxnum_f64''), (''llvm.abs.i8'', ''llvm_abs_i8''),
     (''llvm.abs.i16'', ''llvm_abs_i16''), (''llvm.abs.i32'', ''llvm_abs_i32''),
     (''llvm.abs.i64'', ''llvm_abs_i64''), (''llvm.assume'', ''llvm_assume''),
     (''llvm.trap'', ''llvm_trap''), (''llvm.is.fpclass.f32'', ''llvm_is_fpclass_f32''),
     (''llvm.is.fpclass.f64'', ''llvm_is_fpclass_f64''), (''llvm.exp10.f32'', ''llvm_exp10_f32''),
     (''llvm.exp10.f64'', ''llvm_exp10_f64'')
    ]"

section \<open>The lookups\<close>

definition normalize_intrinsic_name :: "string \<Rightarrow> string" where
  "normalize_intrinsic_name = dropWhile (\<lambda>c. c = CHR 0x01 \<or> c = CHR ''_'')"

definition lookup_intrinsic_in_table :: "string \<Rightarrow> (string \<times> string) list \<Rightarrow> (string \<times> string) option" where
  "lookup_intrinsic_in_table name table = (if name = [] then None else find (\<lambda>d. fst d = name) table)"

definition lookup_intrinsic :: "string \<Rightarrow> (string \<times> string) option" where
  "lookup_intrinsic name = lookup_intrinsic_in_table name g_intrinsics"

definition starts_with :: "string \<Rightarrow> string \<Rightarrow> bool" where
  "starts_with s pre = (take (length pre) s = pre)"

text \<open>The digits after the prefix, at the width of \<^verbatim>\<open>unsigned\<close>.\<close>

definition digits_val :: "string \<Rightarrow> u32" where
  "digits_val = foldl (\<lambda>bits c. bits * 10 + (of_char c - 48)) 0"

definition is_decimal :: "char \<Rightarrow> bool" where
  "is_decimal c \<longleftrightarrow> (48 :: u8) \<le> of_char c \<and> of_char c \<le> (57 :: u8)"

definition parse_int_suffix_bits :: "string \<Rightarrow> string \<Rightarrow> u32 option" where
  "parse_int_suffix_bits name pre =
     (if \<not> starts_with name pre then None
      else let p = drop (length pre) name
           in if p = [] \<or> dropWhile is_decimal p \<noteq> [] then None
              else Some (digits_val p))"

definition intrinsic_libc_name_impl :: "string \<Rightarrow> string option" where
  "intrinsic_libc_name_impl name =
     (if take 5 name \<noteq> ''llvm.'' then None
      else case map_of libc_names name of
             Some s \<Rightarrow> Some s
           | None \<Rightarrow>
               if starts_with name ''llvm.memcpy.'' then Some ''memcpy''
               else if starts_with name ''llvm.memmove.'' then Some ''memmove''
               else if starts_with name ''llvm.memset.'' then Some ''memset''
               else None)"

definition sized_builtin :: "string \<Rightarrow> u32 \<Rightarrow> string option" where
  "sized_builtin base bits =
     (if bits = 8 then Some (base @ ''_i8'') else if bits = 16 then Some (base @ ''_i16'')
      else if bits = 32 then Some (base @ ''_i32'') else if bits = 64 then Some (base @ ''_i64'') else None)"

definition exact_builtins :: "(string \<times> string) list" where
  "exact_builtins =
    [(''llvm.umax.i64'', ''lr_intrin_umax_i64''), (''llvm.umin.i64'', ''lr_intrin_umin_i64''),
     (''llvm.smax.i64'', ''lr_intrin_smax_i64''), (''llvm.smin.i64'', ''lr_intrin_smin_i64''),
     (''llvm.umax.i32'', ''lr_intrin_umax_i32''), (''llvm.umin.i32'', ''lr_intrin_umin_i32''),
     (''llvm.smax.i32'', ''lr_intrin_smax_i32''), (''llvm.smin.i32'', ''lr_intrin_smin_i32''),
     (''llvm.abs.i8'', ''lr_intrin_abs_i8''), (''llvm.abs.i16'', ''lr_intrin_abs_i16''),
     (''llvm.abs.i32'', ''lr_intrin_abs_i32_fallback''), (''llvm.abs.i64'', ''lr_intrin_abs_i64_fallback'')]"

definition resolve_builtin_intrinsic_addr :: "string \<Rightarrow> string option" where
  "resolve_builtin_intrinsic_addr name =
     (if name = [] then None
      else case map_of exact_builtins name of
        Some f \<Rightarrow> Some f
      | None \<Rightarrow>
        if starts_with name ''llvm.assume'' then Some ''lr_intrin_assume_i1''
        else if starts_with name ''llvm.lifetime.start'' then Some ''lr_intrin_noop''
        else if starts_with name ''llvm.lifetime.end'' then Some ''lr_intrin_noop''
        else if starts_with name ''llvm.dbg.declare'' then Some ''lr_intrin_noop''
        else if starts_with name ''llvm.dbg.value'' then Some ''lr_intrin_noop''
        else if name = ''llvm.trap'' then Some ''lr_intrin_trap''
        else if name = ''llvm.exp10.f64'' \<or> name = ''exp10'' then Some ''lr_intrin_exp10_f64''
        else if name = ''llvm.exp10.f32'' \<or> name = ''exp10f'' then Some ''lr_intrin_exp10_f32''
        else if name = ''llvm.objectsize.i64'' \<or> starts_with name ''llvm.objectsize.i64.''
          then Some ''lr_intrin_objectsize_i64_unknown''
        else if name = ''llvm.objectsize.i32'' \<or> starts_with name ''llvm.objectsize.i32.''
          then Some ''lr_intrin_objectsize_i32_unknown''
        else case parse_int_suffix_bits name ''llvm.ctpop.i'' of Some b \<Rightarrow> sized_builtin ''lr_intrin_ctpop'' b
        | None \<Rightarrow> (case parse_int_suffix_bits name ''llvm.ctlz.i'' of Some b \<Rightarrow> sized_builtin ''lr_intrin_ctlz'' b
        | None \<Rightarrow> (case parse_int_suffix_bits name ''llvm.cttz.i'' of Some b \<Rightarrow> sized_builtin ''lr_intrin_cttz'' b
        | None \<Rightarrow> (case parse_int_suffix_bits name ''llvm.fshl.i'' of Some b \<Rightarrow> sized_builtin ''lr_intrin_fshl'' b
        | None \<Rightarrow> (case parse_int_suffix_bits name ''llvm.fshr.i'' of Some b \<Rightarrow> sized_builtin ''lr_intrin_fshr'' b
        | None \<Rightarrow> None)))))"

definition is_target_lowered_intrinsic :: "string \<Rightarrow> bool" where
  "is_target_lowered_intrinsic name \<longleftrightarrow>
     starts_with name ''llvm.va_start'' \<or> starts_with name ''llvm.va_end'' \<or> starts_with name ''llvm.va_copy''"

definition lr_platform_intrinsic_canonical_name :: "string \<Rightarrow> string" where
  "lr_platform_intrinsic_canonical_name = normalize_intrinsic_name"

datatype lr_platform_intrinsic_strategy =
  LR_PLATFORM_INTRINSIC_UNSUPPORTED | LR_PLATFORM_INTRINSIC_BLOB | LR_PLATFORM_INTRINSIC_EXTERN_SYMBOL |
  LR_PLATFORM_INTRINSIC_BUILTIN | LR_PLATFORM_INTRINSIC_TARGET_LOWER

record lr_platform_intrinsic_info =
  canonical_name :: string
  libc_name :: "string option"
  stub_name :: "string option"
  preferred_strategy :: lr_platform_intrinsic_strategy
  known :: bool
  has_blob :: bool
  has_builtin :: bool

definition lr_platform_intrinsic_lookup :: "(string \<Rightarrow> bool) \<Rightarrow> string \<Rightarrow> lr_platform_intrinsic_info" where
  "lr_platform_intrinsic_lookup blob name =
     (let canonical = normalize_intrinsic_name name
      in if canonical = []
         then \<lparr>canonical_name = [], libc_name = None, stub_name = None,
               preferred_strategy = LR_PLATFORM_INTRINSIC_UNSUPPORTED, known = False, has_blob = False, has_builtin = False\<rparr>
         else let d = lookup_intrinsic canonical;
                  libc = intrinsic_libc_name_impl canonical;
                  builtin_addr = resolve_builtin_intrinsic_addr canonical;
                  has = (case d of None \<Rightarrow> False | Some (_, stub) \<Rightarrow> blob stub);
                  preferred =
                    (if has then LR_PLATFORM_INTRINSIC_BLOB
                     else if libc \<noteq> None then LR_PLATFORM_INTRINSIC_EXTERN_SYMBOL
                     else if builtin_addr \<noteq> None then LR_PLATFORM_INTRINSIC_BUILTIN
                     else if is_target_lowered_intrinsic canonical then LR_PLATFORM_INTRINSIC_TARGET_LOWER
                     else LR_PLATFORM_INTRINSIC_UNSUPPORTED)
              in \<lparr>canonical_name = canonical, libc_name = libc, stub_name = map_option snd d,
                  preferred_strategy = preferred, known = (preferred \<noteq> LR_PLATFORM_INTRINSIC_UNSUPPORTED),
                  has_blob = has, has_builtin = (builtin_addr \<noteq> None)\<rparr>)"

text \<open>\<^verbatim>\<open>dlsym\<close> looks a name up in the handle that is given, \<^verbatim>\<open>dlsym_default\<close> without one.\<close>

definition resolve_symbol_handle :: "(string \<Rightarrow> u64 option) option \<Rightarrow> (string \<Rightarrow> u64 option) \<Rightarrow> string \<Rightarrow> u64 option" where
  "resolve_symbol_handle handle dlsym_default name =
     (if name = [] then None
      else let look = (case handle of Some dlsym \<Rightarrow> dlsym | None \<Rightarrow> dlsym_default)
           in case look name of Some addr \<Rightarrow> Some addr
              | None \<Rightarrow> if hd name = CHR ''_'' then look (tl name) else None)"

text \<open>The address found in the handle (\<open>Inl\<close>) or the built-in function (\<open>Inr\<close>).\<close>

definition lr_platform_intrinsic_resolve_addr ::
  "string \<Rightarrow> (string \<Rightarrow> u64 option) option \<Rightarrow> (string \<Rightarrow> u64 option) \<Rightarrow> (u64 + string) option" where
  "lr_platform_intrinsic_resolve_addr name runtime_handle dlsym_default =
     (let canonical = normalize_intrinsic_name name;
          builtin = map_option Inr (resolve_builtin_intrinsic_addr canonical)
      in if canonical = [] then None
         else case runtime_handle of
                None \<Rightarrow> builtin
              | Some h \<Rightarrow>
                  (case intrinsic_libc_name_impl canonical of
                     None \<Rightarrow> builtin
                   | Some symbol \<Rightarrow>
                       (case resolve_symbol_handle (Some h) dlsym_default symbol of
                          Some addr \<Rightarrow> Some (Inl addr)
                        | None \<Rightarrow> builtin)))"

definition lr_platform_intrinsic_is_supported :: "(string \<Rightarrow> bool) \<Rightarrow> string \<Rightarrow> bool" where
  "lr_platform_intrinsic_is_supported blob name = known (lr_platform_intrinsic_lookup blob name)"

definition lr_platform_intrinsic_registry_count :: nat where
  "lr_platform_intrinsic_registry_count = length g_intrinsics"

definition lr_platform_intrinsic_registry_name :: "nat \<Rightarrow> string option" where
  "lr_platform_intrinsic_registry_name idx =
     (if lr_platform_intrinsic_registry_count \<le> idx then None else Some (fst (g_intrinsics ! idx)))"

definition lr_platform_intrinsic_supported :: "(string \<Rightarrow> bool) \<Rightarrow> string \<Rightarrow> bool" where
  "lr_platform_intrinsic_supported blob name =
     (let info = lr_platform_intrinsic_lookup blob name in known info \<and> has_blob info)"

definition lr_platform_intrinsic_blob_lookup :: "(string \<Rightarrow> bool) \<Rightarrow> string \<Rightarrow> string option" where
  "lr_platform_intrinsic_blob_lookup blob name =
     (let info = lr_platform_intrinsic_lookup blob name
      in if \<not> known info then None else if \<not> has_blob info then None else stub_name info)"

definition lr_platform_intrinsic_libc_name :: "string \<Rightarrow> string" where
  "lr_platform_intrinsic_libc_name name =
     (let canonical = normalize_intrinsic_name name
      in if canonical = [] then name
         else case intrinsic_libc_name_impl canonical of Some mapped \<Rightarrow> mapped | None \<Rightarrow> name)"

definition is_riscv64_target :: "string \<Rightarrow> bool" where
  "is_riscv64_target target_name = (take 7 target_name = ''riscv64'')"

text \<open>The stubs for RISC-V are byte arrays of the source, none of them empty.\<close>

definition lr_platform_intrinsic_supported_for_target :: "(string \<Rightarrow> bool) \<Rightarrow> string \<Rightarrow> string \<Rightarrow> bool" where
  "lr_platform_intrinsic_supported_for_target blob name target_name =
     (let canonical = normalize_intrinsic_name name
      in if canonical = [] then False
         else if is_riscv64_target target_name
              then lookup_intrinsic_in_table canonical g_riscv64_intrinsics \<noteq> None
              else lr_platform_intrinsic_supported blob canonical)"

definition lr_platform_intrinsic_blob_lookup_for_target ::
  "(string \<Rightarrow> bool) \<Rightarrow> string \<Rightarrow> string \<Rightarrow> string option" where
  "lr_platform_intrinsic_blob_lookup_for_target blob name target_name =
     (let canonical = normalize_intrinsic_name name
      in if canonical = [] then None
         else if is_riscv64_target target_name
              then map_option snd (lookup_intrinsic_in_table canonical g_riscv64_intrinsics)
              else lr_platform_intrinsic_blob_lookup blob canonical)"

end
