(* ===== verification/Intrinsics_Correct.thy ===== *)
theory Intrinsics_Correct
  imports Intrinsics
begin

text \<open>
  What the intrinsic functions compute: the counting loops return the number of set, leading or
  trailing bits, the funnel shifts a window of the concatenation of their operands, and the
  lookups are stable under the renaming of intrinsics to libc names.
\<close>

section \<open>Set bits\<close>

lemma finite_bits_nat [simp]: "finite {i. bit (n :: nat) i}"
proof (rule finite_subset)
  have "i < n" if "bit n i" for i
  proof -
    have "n div 2 ^ i \<noteq> 0" using that unfolding bit_iff_odd by (intro notI) simp
    then have "2 ^ i \<le> n" by (simp add: div_eq_0_iff)
    then show ?thesis using less_exp [of i] by linarith
  qed
  then show "{i. bit n i} \<subseteq> {..< n}" by auto
qed simp

lemma card_bits_double: "card {i. bit (2 * n :: nat) i} = card {i. bit n i}"
proof -
  have "{i. bit (2 * n) i} = Suc ` {i. bit n i}"
    by (auto simp: bit_double_iff image_iff) (metis Suc_pred)
  then show ?thesis by (simp add: card_image)
qed

lemma card_bits_Suc_double: "card {i. bit (Suc (2 * n)) i} = Suc (card {i. bit n i})"
proof -
  have "bit (Suc (2 * n)) i \<longleftrightarrow> i = 0 \<or> bit (2 * n) i" for i
    using even_bit_succ_iff [of "2 * n" i] by auto
  then have "{i. bit (Suc (2 * n)) i} = insert 0 {i. bit (2 * n) i}" by auto
  then show ?thesis by (simp add: card_bits_double bit_0)
qed

lemma card_bits_clear_lowest: "0 < n \<Longrightarrow> Suc (card {i. bit (n AND (n - 1) :: nat) i}) = card {i. bit n i}"
proof (induction n rule: nat_bit_induct)
  case (even n)
  have "2 * n AND (2 * n - 1) = 2 * (n AND (n - 1))"
  proof (rule bit_eqI)
    fix i
    have "2 * n - 1 = Suc (2 * (n - 1))" using even.hyps by simp
    moreover have "bit (Suc (2 * (n - 1))) i \<longleftrightarrow> i = 0 \<or> bit (2 * (n - 1)) i"
      using even_bit_succ_iff [of "2 * (n - 1)" i] by auto
    ultimately show "bit (2 * n AND (2 * n - 1)) i = bit (2 * (n AND (n - 1))) i"
      by (auto simp: bit_simps)
  qed
  then show ?case using even by (simp add: card_bits_double)
next
  case (odd n)
  have "Suc (2 * n) AND (2 * n) = 2 * n"
    using even_bit_succ_iff [of "2 * n"] by (intro bit_eqI) (auto simp: bit_simps)
  then show ?case by (simp add: card_bits_double card_bits_Suc_double)
qed simp

lemma ctpop_loop_card: "ctpop_loop x c = c + of_nat (card {i. bit x i})"
proof (induction x c rule: ctpop_loop.induct)
  case (1 x c)
  show ?case
  proof (cases "x = 0")
    case False
    have "unat (x - 1) = unat x - 1" using False by (simp add: unat_minus_one)
    then have "Suc (card {i. bit (unat (x AND (x - 1))) i}) = card {i. bit (unat x) i}"
      using card_bits_clear_lowest [of "unat x"] False by (simp add: unat_gt_0 unsigned_and_eq)
    then have "Suc (card {i. bit (x AND (x - 1)) i}) = card {i. bit x i}" by (simp add: bit_unsigned_iff bit_imp_possible_bit cong: conj_cong)
    then show ?thesis using 1 False by (simp add: ac_simps flip: of_nat_Suc)
  qed simp
qed

section \<open>Leading and trailing zeros\<close>

lemma ctlz_loop_eq:
  fixes x :: "'a::len word"
  assumes "bit x (LENGTH('a) - 1 - j)" and "\<And>i. LENGTH('a) - 1 - j < i \<Longrightarrow> \<not> bit x i" and "j < LENGTH('a)" and "j < k"
  shows "ctlz_loop k x n = Some (n + of_nat j)"
  using assms
proof (induction j arbitrary: k x n)
  case (Suc j)
  obtain k' where k: "k = Suc k'" "j < k'" using Suc.prems(4) by (cases k) auto
  have "ctlz_loop k' (push_bit 1 x) (n + 1) = Some (n + 1 + of_nat j)"
  proof (rule Suc.IH)
    have "LENGTH('a) - 1 - j - 1 = LENGTH('a) - 1 - Suc j" by simp
    then show "bit (push_bit 1 x) (LENGTH('a) - 1 - j)"
      using Suc.prems(1,3) unfolding bit_push_bit_iff by simp
    show "\<not> bit (push_bit 1 x) i" if "LENGTH('a) - 1 - j < i" for i
      using that Suc.prems(2) [of "i - 1"] Suc.prems(3) unfolding bit_push_bit_iff by (intro notI) linarith
  qed (use Suc.prems(3) k in auto)
  moreover have "\<not> bit x (LENGTH('a) - 1)" using Suc.prems(2,3) by simp
  ultimately show ?case using k by (simp add: ac_simps)
next
  case 0
  then show ?case by (cases k) auto
qed

lemma cttz_loop_eq:
  fixes x :: "'a::len word"
  assumes "bit x j" and "\<And>i. i < j \<Longrightarrow> \<not> bit x i" and "j < k"
  shows "cttz_loop k x n = Some (n + of_nat j)"
  using assms
proof (induction j arbitrary: k x n)
  case (Suc j)
  obtain k' where k: "k = Suc k'" "j < k'" using Suc.prems(3) by (cases k) auto
  have "cttz_loop k' (drop_bit 1 x) (n + 1) = Some (n + 1 + of_nat j)"
    using Suc.prems k by (intro Suc.IH) (auto simp: bit_drop_bit_eq)
  moreover have "\<not> bit x 0" using Suc.prems(2) by blast
  ultimately show ?case using k by (simp add: ac_simps)
next
  case 0
  then show ?case by (cases k) auto
qed

lemma bits_word:
  fixes x :: "'a::len word"
  assumes "x \<noteq> 0"
  shows "finite {i. bit x i}" and "{i. bit x i} \<noteq> {}" and "\<And>i. bit x i \<Longrightarrow> i < LENGTH('a)"
proof -
  show l: "i < LENGTH('a)" if "bit x i" for i using that by (rule bit_imp_le_length)
  then have "{i. bit x i} \<subseteq> {..< LENGTH('a)}" by blast
  then show "finite {i. bit x i}" using finite_lessThan by (rule finite_subset)
  show "{i. bit x i} \<noteq> {}"
  proof
    assume "{i. bit x i} = {}"
    then have "x = 0" by (intro bit_word_eqI) auto
    then show False using assms by blast
  qed
qed

lemma ctlz_eq:
  "ctlz (x :: 'a::len word) u = Some (if x = 0 then if u \<noteq> 0 then 0 else of_nat LENGTH('a)
     else of_nat (LENGTH('a) - 1 - Max {i. bit x i}))"
proof (cases "x = 0")
  case False
  note b = bits_word [OF False]
  define m where "m = Max {i. bit x i}"
  have m: "bit x m" using Max_in [OF b(1,2)] by (simp add: m_def)
  then have l: "LENGTH('a) - 1 - (LENGTH('a) - 1 - m) = m" using b(3) [OF m] by simp
  have "\<not> bit x i" if "m < i" for i using that Max_ge [OF b(1), of i] by (metis leD mem_Collect_eq m_def)
  then have "ctlz_loop LENGTH('a) x 0 = Some (0 + of_nat (LENGTH('a) - 1 - m))"
    using m l by (intro ctlz_loop_eq) (simp_all add: less_diff_conv2)
  then show ?thesis unfolding ctlz_def m_def using False by (simp only: if_False add_0)
qed (simp add: ctlz_def)

lemma cttz_eq:
  "cttz (x :: 'a::len word) u = Some (if x = 0 then if u \<noteq> 0 then 0 else of_nat LENGTH('a) else of_nat (Min {i. bit x i}))"
proof (cases "x = 0")
  case False
  note b = bits_word [OF False]
  let ?m = "Min {i. bit x i}"
  have m: "bit x ?m" using Min_in [OF b(1,2)] by simp
  have "\<not> bit x i" if "i < ?m" for i using that Min_le [OF b(1), of i] by (metis leD mem_Collect_eq)
  then have "cttz_loop LENGTH('a) x 0 = Some (0 + of_nat ?m)" using m b(3) by (intro cttz_loop_eq)
  then show ?thesis unfolding cttz_def using False by (simp only: if_False add_0)
qed (simp add: cttz_def)

text \<open>the counting intrinsics, at each of their four widths: the population count is the number of set
  bits, the leading-zero count is measured from the highest set bit and the trailing-zero count is
  the position of the lowest one.  The loops end on every input; at zero the result is the width,
  or zero when the caller declares it undefined.\<close>

theorem bit_counts_correct:
  "lr_intrin_ctpop_i8 a = of_nat (card {i. bit a i}) \<and> lr_intrin_ctpop_i16 b = of_nat (card {i. bit b i}) \<and>
   lr_intrin_ctpop_i32 c = of_nat (card {i. bit c i}) \<and> lr_intrin_ctpop_i64 d = of_nat (card {i. bit d i}) \<and>
   lr_intrin_ctlz_i8 a u = Some (if a = 0 then if u \<noteq> 0 then 0 else 8 else of_nat (7 - Max {i. bit a i})) \<and>
   lr_intrin_ctlz_i16 b u = Some (if b = 0 then if u \<noteq> 0 then 0 else 16 else of_nat (15 - Max {i. bit b i})) \<and>
   lr_intrin_ctlz_i32 c u = Some (if c = 0 then if u \<noteq> 0 then 0 else 32 else of_nat (31 - Max {i. bit c i})) \<and>
   lr_intrin_ctlz_i64 d u = Some (if d = 0 then if u \<noteq> 0 then 0 else 64 else of_nat (63 - Max {i. bit d i})) \<and>
   lr_intrin_cttz_i8 a u = Some (if a = 0 then if u \<noteq> 0 then 0 else 8 else of_nat (Min {i. bit a i})) \<and>
   lr_intrin_cttz_i16 b u = Some (if b = 0 then if u \<noteq> 0 then 0 else 16 else of_nat (Min {i. bit b i})) \<and>
   lr_intrin_cttz_i32 c u = Some (if c = 0 then if u \<noteq> 0 then 0 else 32 else of_nat (Min {i. bit c i})) \<and>
   lr_intrin_cttz_i64 d u = Some (if d = 0 then if u \<noteq> 0 then 0 else 64 else of_nat (Min {i. bit d i}))"
  unfolding lr_intrin_ctpop_i8_def lr_intrin_ctpop_i16_def lr_intrin_ctpop_i32_def lr_intrin_ctpop_i64_def
    lr_intrin_ctlz_i8_def lr_intrin_ctlz_i16_def lr_intrin_ctlz_i32_def lr_intrin_ctlz_i64_def
    lr_intrin_cttz_i8_def lr_intrin_cttz_i16_def lr_intrin_cttz_i32_def lr_intrin_cttz_i64_def
    ctpop_loop_card ctlz_eq cttz_eq
  by simp

section \<open>Funnel shifts\<close>

lemma or_disjoint_eq_plus:
  fixes a b :: "'a::len word"
  shows "a AND b = 0 \<Longrightarrow> a OR b = a + b"
  by (simp add: disjunctive_add_eq_or)

lemma unat_push_bit: "unat (push_bit k (a :: 'a::len word)) = unat a * 2 ^ k mod 2 ^ LENGTH('a)"
  unfolding unsigned_push_bit_eq by (simp only: push_bit_eq_mult take_bit_eq_mod)

lemma unat_drop_bit: "unat (drop_bit k (a :: 'a::len word)) = unat a div 2 ^ k"
  unfolding unat_drop_bit_eq by (simp only: drop_bit_eq_div)

lemma window_of_pair:
  fixes a b :: "'a::len word"
  assumes "k \<le> LENGTH('a)"
  shows "unat (push_bit k a OR drop_bit (LENGTH('a) - k) b) =
    (unat a * 2 ^ LENGTH('a) + unat b) div 2 ^ (LENGTH('a) - k) mod 2 ^ LENGTH('a)"
proof -
  let ?L = "LENGTH('a)"
  have "push_bit k a AND drop_bit (?L - k) b = 0"
    by (rule bit_word_eqI) (auto simp: bit_simps dest: bit_imp_le_length)
  then have "unat (push_bit k a OR drop_bit (?L - k) b) = unat (push_bit k a + drop_bit (?L - k) b)"
    by (simp add: or_disjoint_eq_plus)
  also have "\<dots> = (unat a * 2 ^ k + unat b div 2 ^ (?L - k)) mod 2 ^ ?L"
    by (simp only: unat_word_ariths unat_push_bit unat_drop_bit mod_add_left_eq)
  also have "unat a * 2 ^ k + unat b div 2 ^ (?L - k) = (unat b + unat a * 2 ^ k * 2 ^ (?L - k)) div 2 ^ (?L - k)"
    by simp
  also have "unat a * 2 ^ k * 2 ^ (?L - k) = unat a * 2 ^ ?L"
    using assms by (simp add: mult.assoc flip: power_add)
  finally show ?thesis by (simp only: add.commute)
qed

lemma shift_amount:
  assumes "LENGTH('a::len) = 2 ^ m"
  shows "unat (s AND of_nat (LENGTH('a) - 1) :: 'a word) = unat s mod LENGTH('a)"
proof -
  have "of_nat (LENGTH('a) - 1) = (mask m :: 'a word)"
    by (simp add: assms mask_eq_exp_minus_1 of_nat_diff)
  then have "unat (s AND of_nat (LENGTH('a) - 1) :: 'a word) = take_bit m (unat s)"
    by (simp only: take_bit_eq_mask [symmetric] unsigned_take_bit_eq)
  then show ?thesis by (simp only: take_bit_eq_mod assms)
qed

lemma fshl_eq:
  assumes "LENGTH('a::len) = 2 ^ m"
  shows "unat (fshl (a :: 'a word) b s) =
    (unat a * 2 ^ LENGTH('a) + unat b) div 2 ^ (LENGTH('a) - unat s mod LENGTH('a)) mod 2 ^ LENGTH('a)"
proof -
  have "unat s mod LENGTH('a) \<le> LENGTH('a)" by (rule less_imp_le) simp
  moreover have "(unat a * 2 ^ LENGTH('a) + unat b) div 2 ^ LENGTH('a) mod 2 ^ LENGTH('a) = unat a"
    using unsigned_less [of a, where 'a = nat] unsigned_less [of b, where 'a = nat] by simp
  ultimately show ?thesis using window_of_pair [of "unat s mod LENGTH('a)" a b]
    unfolding fshl_def Let_def shift_amount [OF assms] by simp
qed

lemma fshr_eq:
  assumes "LENGTH('a::len) = 2 ^ m"
  shows "unat (fshr (a :: 'a word) b s) =
    (unat b * 2 ^ LENGTH('a) + unat a) div 2 ^ (unat s mod LENGTH('a)) mod 2 ^ LENGTH('a)"
proof -
  have l: "unat s mod LENGTH('a) < LENGTH('a)" by simp
  have "(unat b * 2 ^ LENGTH('a) + unat a) mod 2 ^ LENGTH('a) = unat a"
    using unsigned_less [of a, where 'a = nat] by simp
  then show ?thesis using window_of_pair [of "LENGTH('a) - unat s mod LENGTH('a)" b a] l
    unfolding fshr_def Let_def shift_amount [OF assms] by (simp add: or.commute)
qed

lemma widths: "LENGTH(8) = 8" "LENGTH(16) = 16" "LENGTH(32) = 32" "LENGTH(64) = 64"
  "((8 :: nat) = 2 ^ 3) = True" "((16 :: nat) = 2 ^ 4) = True" "((32 :: nat) = 2 ^ 5) = True" "((64 :: nat) = 2 ^ 6) = True"
  by simp_all

text \<open>C34: the funnel shifts.  A left funnel shift gives the upper half of the concatenation of its first two
  operands, the first one high, shifted left by the amount modulo the width.  A right funnel shift
  gives the lower half of the concatenation with the \<^emph>\<open>second\<close> operand high, shifted right; LLVM
  defines it with the first operand high, so the two operands are exchanged.\<close>

theorem funnel_shifts:
  "unat (lr_intrin_fshl_i8 a b s) = (unat a * 2 ^ 8 + unat b) div 2 ^ (8 - unat s mod 8) mod 2 ^ 8 \<and>
   unat (lr_intrin_fshl_i16 c d t) = (unat c * 2 ^ 16 + unat d) div 2 ^ (16 - unat t mod 16) mod 2 ^ 16 \<and>
   unat (lr_intrin_fshl_i32 e f u) = (unat e * 2 ^ 32 + unat f) div 2 ^ (32 - unat u mod 32) mod 2 ^ 32 \<and>
   unat (lr_intrin_fshl_i64 g h v) = (unat g * 2 ^ 64 + unat h) div 2 ^ (64 - unat v mod 64) mod 2 ^ 64 \<and>
   unat (lr_intrin_fshr_i8 a b s) = (unat b * 2 ^ 8 + unat a) div 2 ^ (unat s mod 8) mod 2 ^ 8 \<and>
   unat (lr_intrin_fshr_i16 c d t) = (unat d * 2 ^ 16 + unat c) div 2 ^ (unat t mod 16) mod 2 ^ 16 \<and>
   unat (lr_intrin_fshr_i32 e f u) = (unat f * 2 ^ 32 + unat e) div 2 ^ (unat u mod 32) mod 2 ^ 32 \<and>
   unat (lr_intrin_fshr_i64 g h v) = (unat h * 2 ^ 64 + unat g) div 2 ^ (unat v mod 64) mod 2 ^ 64"
  unfolding lr_intrin_fshl_i8_def lr_intrin_fshl_i16_def lr_intrin_fshl_i32_def lr_intrin_fshl_i64_def
    lr_intrin_fshr_i8_def lr_intrin_fshr_i16_def lr_intrin_fshr_i32_def lr_intrin_fshr_i64_def
  using fshl_eq [of 3 a b s] fshl_eq [of 4 c d t] fshl_eq [of 5 e f u] fshl_eq [of 6 g h v]
    fshr_eq [of 3 a b s] fshr_eq [of 4 c d t] fshr_eq [of 5 e f u] fshr_eq [of 6 g h v] unfolding widths
  by (intro conjI) (simp_all only: simp_thms)

section \<open>Names\<close>

lemma libc_result_plain:
  assumes "intrinsic_libc_name_impl n = Some s"
  shows "intrinsic_libc_name_impl (normalize_intrinsic_name s) = None"
proof -
  have "s \<in> snd ` set libc_names \<or> s = ''memcpy'' \<or> s = ''memmove'' \<or> s = ''memset''"
    using assms map_of_SomeD [of libc_names n]
    by (auto simp: intrinsic_libc_name_impl_def image_iff split: if_splits option.splits) force+
  moreover have "list_all (\<lambda>s. take 5 (normalize_intrinsic_name s) \<noteq> ''llvm.'')
      (''memcpy'' # ''memmove'' # ''memset'' # map snd libc_names)"
    by (simp add: libc_names_def normalize_intrinsic_name_def)
  ultimately have "take 5 (normalize_intrinsic_name s) \<noteq> ''llvm.''" by (auto simp: list_all_iff)
  then show ?thesis by (simp add: intrinsic_libc_name_impl_def)
qed

text \<open>renaming an intrinsic to its libc name is stable: applying it again changes nothing, and a name
  that is renamed is one that the registry knows.\<close>

theorem libc_name_stable:
  "lr_platform_intrinsic_libc_name (lr_platform_intrinsic_libc_name name) = lr_platform_intrinsic_libc_name name \<and>
   (lr_platform_intrinsic_libc_name name = name \<or> lr_platform_intrinsic_is_supported blob name)"
proof (cases "normalize_intrinsic_name name = [] \<or> intrinsic_libc_name_impl (normalize_intrinsic_name name) = None")
  case True
  then have "lr_platform_intrinsic_libc_name name = name" by (auto simp: lr_platform_intrinsic_libc_name_def Let_def)
  then show ?thesis by simp
next
  case False
  then obtain s where s: "intrinsic_libc_name_impl (normalize_intrinsic_name name) = Some s"
    "lr_platform_intrinsic_libc_name name = s" by (auto simp: lr_platform_intrinsic_libc_name_def Let_def)
  moreover have "lr_platform_intrinsic_libc_name s = s"
    using libc_result_plain [OF s(1)] by (simp add: lr_platform_intrinsic_libc_name_def Let_def)
  moreover have "lr_platform_intrinsic_is_supported blob name"
    using False s(1) by (simp add: lr_platform_intrinsic_is_supported_def lr_platform_intrinsic_lookup_def Let_def)
  ultimately show ?thesis by simp
qed

lemma abs_fallback_partial:
  "lr_intrin_abs_i32_fallback x p = (if x = 0x80000000 then None else Some (word_of_int \<bar>sint x\<bar>))"
  "lr_intrin_abs_i64_fallback y p = (if y = 0x8000000000000000 then None else Some (word_of_int \<bar>sint y\<bar>))"
proof -
  have "sint x = - (2 ^ 31) \<longleftrightarrow> x = 0x80000000" "sint y = - (2 ^ 63) \<longleftrightarrow> y = 0x8000000000000000"
    using word_eq_iff_signed [where v = x and w = "0x80000000" and 'a = int]
      word_eq_iff_signed [where v = y and w = "0x8000000000000000" and 'a = int] by simp_all
  then show "lr_intrin_abs_i32_fallback x p = (if x = 0x80000000 then None else Some (word_of_int \<bar>sint x\<bar>))"
    "lr_intrin_abs_i64_fallback y p = (if y = 0x8000000000000000 then None else Some (word_of_int \<bar>sint y\<bar>))"
    by (auto simp: lr_intrin_abs_i32_fallback_def lr_intrin_abs_i64_fallback_def abs_wide_def abs_if)
qed

text \<open>The width after the prefix is read at 32 bits, so a width that wraps around is accepted.\<close>

lemma builtin_dispatch:
  "map resolve_builtin_intrinsic_addr
     [''llvm.ctpop.i8'', ''llvm.ctpop.i16'', ''llvm.ctpop.i32'', ''llvm.ctpop.i64'',
      ''llvm.ctlz.i8'', ''llvm.ctlz.i16'', ''llvm.ctlz.i32'', ''llvm.ctlz.i64'',
      ''llvm.cttz.i8'', ''llvm.cttz.i16'', ''llvm.cttz.i32'', ''llvm.cttz.i64'',
      ''llvm.fshl.i8'', ''llvm.fshl.i16'', ''llvm.fshl.i32'', ''llvm.fshl.i64'',
      ''llvm.fshr.i8'', ''llvm.fshr.i16'', ''llvm.fshr.i32'', ''llvm.fshr.i64''] =
   map Some
     [''lr_intrin_ctpop_i8'', ''lr_intrin_ctpop_i16'', ''lr_intrin_ctpop_i32'', ''lr_intrin_ctpop_i64'',
      ''lr_intrin_ctlz_i8'', ''lr_intrin_ctlz_i16'', ''lr_intrin_ctlz_i32'', ''lr_intrin_ctlz_i64'',
      ''lr_intrin_cttz_i8'', ''lr_intrin_cttz_i16'', ''lr_intrin_cttz_i32'', ''lr_intrin_cttz_i64'',
      ''lr_intrin_fshl_i8'', ''lr_intrin_fshl_i16'', ''lr_intrin_fshl_i32'', ''lr_intrin_fshl_i64'',
      ''lr_intrin_fshr_i8'', ''lr_intrin_fshr_i16'', ''lr_intrin_fshr_i32'', ''lr_intrin_fshr_i64'']"
  "resolve_builtin_intrinsic_addr ''llvm.ctpop.i4294967304'' = Some ''lr_intrin_ctpop_i8''"
  by (simp_all add: resolve_builtin_intrinsic_addr_def exact_builtins_def starts_with_def parse_int_suffix_bits_def
      is_decimal_def digits_val_def sized_builtin_def)

end
