(* ===== verification/Obj_Symbols.thy ===== *)
theory Obj_Symbols
  imports Symbol_Table Intrinsics_Correct
begin

text \<open>
  The symbols and relocations of an object file under construction (\<^verbatim>\<open>src/src/objfile.c\<close>,
  \<^verbatim>\<open>src/src/objfile.h\<close>), to which every backend adds while it compiles, and the growing of the
  code and data buffers.

  The symbol array is the list of its live entries, so its length is \<^verbatim>\<open>num_symbols\<close>; likewise the
  relocations.  \<open>calloc n\<close> and \<open>realloc n\<close> tell whether the allocation of an array of \<open>n\<close> entries
  succeeds.  As in \<^verbatim>\<open>Symbol_Table\<close>, \<open>None\<close> stands for a run that does not return.  Interning is
  proved to refine a table without hashes, and is an instance of the same interface as the
  symbol table of a module.
\<close>

section \<open>Relocations\<close>

record lr_obj_reloc =
  or_offset :: u32
  or_symbol_idx :: u32
  or_type :: u8

record lr_obj_symbol =
  os_name :: string
  os_hash :: u32
  os_offset :: u32
  os_section :: u8
  os_defined :: bool
  os_local :: bool
  os_weak :: bool

record lr_objfile_ctx =
  oc_relocs :: "lr_obj_reloc list"
  reloc_cap :: u32
  data_relocs :: "lr_obj_reloc list"
  data_reloc_cap :: u32
  oc_symbols :: "lr_obj_symbol list"
  oc_symbol_cap :: u32
  oc_index :: "u32 list"
  oc_index_cap :: u32
  module_sym_defined :: "bool list"
  module_sym_funcs :: "nat option list"
  module_sym_count :: u32
  preserve_symbol_names :: bool

definition oc_num_symbols :: "lr_objfile_ctx \<Rightarrow> u32" where
  "oc_num_symbols oc = of_nat (length (oc_symbols oc))"

definition OBJ_INITIAL_RELOC_CAP :: u32 where
  "OBJ_INITIAL_RELOC_CAP = 256"

definition OBJ_INITIAL_SYMBOL_CAP :: u32 where
  "OBJ_INITIAL_SYMBOL_CAP = 128"

text \<open>One entry appended to a relocation array; the array and its capacity stay as they are when
  it cannot grow, and the caller is not told.\<close>

definition reloc_append ::
  "(u32 \<Rightarrow> bool) \<Rightarrow> lr_obj_reloc list \<Rightarrow> u32 \<Rightarrow> lr_obj_reloc \<Rightarrow> lr_obj_reloc list \<times> u32" where
  "reloc_append realloc rs cap r =
     (if of_nat (length rs) = cap
      then let new_cap = (if cap = 0 then OBJ_INITIAL_RELOC_CAP else cap * 2)
           in if \<not> realloc new_cap then (rs, cap) else (rs @ [r], new_cap)
      else (rs @ [r], cap))"

definition lr_obj_add_reloc ::
  "(u32 \<Rightarrow> bool) \<Rightarrow> lr_objfile_ctx \<Rightarrow> u32 \<Rightarrow> u32 \<Rightarrow> u8 \<Rightarrow> lr_objfile_ctx" where
  "lr_obj_add_reloc realloc oc offset symbol_idx ty =
     (let (rs, cap) = reloc_append realloc (oc_relocs oc) (reloc_cap oc)
                        \<lparr>or_offset = offset, or_symbol_idx = symbol_idx, or_type = ty\<rparr>
      in oc\<lparr>oc_relocs := rs, reloc_cap := cap\<rparr>)"

definition lr_obj_add_data_reloc ::
  "(u32 \<Rightarrow> bool) \<Rightarrow> lr_objfile_ctx \<Rightarrow> u32 \<Rightarrow> u32 \<Rightarrow> u8 \<Rightarrow> lr_objfile_ctx" where
  "lr_obj_add_data_reloc realloc oc offset symbol_idx ty =
     (let (rs, cap) = reloc_append realloc (data_relocs oc) (data_reloc_cap oc)
                        \<lparr>or_offset = offset, or_symbol_idx = symbol_idx, or_type = ty\<rparr>
      in oc\<lparr>data_relocs := rs, data_reloc_cap := cap\<rparr>)"

section \<open>Symbols\<close>

definition obj_symbol_hash :: "string \<Rightarrow> u32" where
  "obj_symbol_hash name = fold (\<lambda>c h. (h XOR of_char c) * 16777619) name 2166136261"

definition obj_symbol_index_rebuild ::
  "(u32 \<Rightarrow> bool) \<Rightarrow> lr_objfile_ctx \<Rightarrow> u32 \<Rightarrow> (int \<times> lr_objfile_ctx) option" where
  "obj_symbol_index_rebuild calloc oc min_symbols =
     (case grow_cap 33 1 (push_bit 1 min_symbols) of None \<Rightarrow> None
      | Some cap \<Rightarrow>
          if \<not> calloc cap then Some (-1, oc)
          else (case index_fill (replicate (unat cap) 0) cap 0 (map os_hash (oc_symbols oc)) of
                  None \<Rightarrow> None
                | Some new_index \<Rightarrow> Some (0, oc\<lparr>oc_index := new_index, oc_index_cap := cap\<rparr>)))"

definition remap_intrinsic :: "string \<Rightarrow> string" where
  "remap_intrinsic name = lr_platform_intrinsic_libc_name name"

definition k_weak_prefixes :: "string list" where
  "k_weak_prefixes =
     [''__lfortran_module_init_'', ''_copy_'', ''_deepcopy_'', ''_allocate_struct_'', ''_deallocate_struct_'',
      ''_Type_Info_'', ''_VTable_'', ''__module_file_common_block_'', ''.ffc.'']"

definition obj_symbol_should_be_weak :: "string \<Rightarrow> bool" where
  "obj_symbol_should_be_weak name \<longleftrightarrow> name \<noteq> [] \<and> list_ex (\<lambda>pre. take (length pre) name = pre) k_weak_prefixes"

definition oc_hit :: "lr_objfile_ctx \<Rightarrow> string \<Rightarrow> u32 \<Rightarrow> u32 \<Rightarrow> bool" where
  "oc_hit oc name hash i \<longleftrightarrow>
     os_hash (oc_symbols oc ! unat i) = hash \<and> os_name (oc_symbols oc ! unat i) = name"

text \<open>What a hit does to the entry it found: a definition may make it weak, and the first
  definition fixes the place.\<close>

definition os_redeclare :: "lr_obj_symbol \<Rightarrow> string \<Rightarrow> bool \<Rightarrow> u8 \<Rightarrow> u32 \<Rightarrow> lr_obj_symbol" where
  "os_redeclare s name is_defined section offset =
     (let s1 = (if is_defined \<and> obj_symbol_should_be_weak name then s\<lparr>os_weak := True\<rparr> else s)
      in if is_defined \<and> \<not> os_defined s1
         then s1\<lparr>os_defined := True, os_section := section, os_offset := offset\<rparr> else s1)"

definition os_fresh :: "string \<Rightarrow> u32 \<Rightarrow> bool \<Rightarrow> u8 \<Rightarrow> u32 \<Rightarrow> lr_obj_symbol" where
  "os_fresh name hash is_defined section offset =
     \<lparr>os_name = name, os_hash = hash, os_offset = offset, os_section = section, os_defined = is_defined,
      os_local = False, os_weak = (is_defined \<and> obj_symbol_should_be_weak name)\<rparr>"

text \<open>The last part of \<^verbatim>\<open>lr_obj_ensure_symbol\<close>, from the allocation of the id.\<close>

definition oc_append :: "lr_objfile_ctx \<Rightarrow> lr_obj_symbol \<Rightarrow> (u32 \<times> lr_objfile_ctx) option" where
  "oc_append oc s =
     (let idx = oc_num_symbols oc
      in case index_insert (oc_index oc) (oc_index_cap oc) (os_hash s) idx of
           None \<Rightarrow> None
         | Some tab \<Rightarrow> Some (idx, oc\<lparr>oc_symbols := oc_symbols oc @ [s], oc_index := tab\<rparr>))"

definition oc_make_room ::
  "(u32 \<Rightarrow> bool) \<Rightarrow> (u32 \<Rightarrow> bool) \<Rightarrow> lr_objfile_ctx \<Rightarrow> (int \<times> lr_objfile_ctx) option" where
  "oc_make_room calloc realloc oc =
     (let full = (oc_num_symbols oc = oc_symbol_cap oc);
          new_cap = (if oc_symbol_cap oc = 0 then OBJ_INITIAL_SYMBOL_CAP else oc_symbol_cap oc * 2)
      in if full \<and> \<not> realloc new_cap then Some (-1, oc)
         else let oc1 = (if full then oc\<lparr>oc_symbol_cap := new_cap\<rparr> else oc)
              in if oc_index_cap oc1 < (oc_num_symbols oc1 + 1) * 2
                 then obj_symbol_index_rebuild calloc oc1 (oc_num_symbols oc1 + 1)
                 else Some (0, oc1))"

definition lr_obj_ensure_symbol ::
  "(u32 \<Rightarrow> bool) \<Rightarrow> (u32 \<Rightarrow> bool) \<Rightarrow> lr_objfile_ctx \<Rightarrow> string \<Rightarrow> bool \<Rightarrow> u8 \<Rightarrow> u32 \<Rightarrow> (u32 \<times> lr_objfile_ctx) option"
where
  "lr_obj_ensure_symbol calloc realloc oc0 name0 is_defined section offset =
     (let name = (if \<not> preserve_symbol_names oc0 then remap_intrinsic name0 else name0);
          hash = obj_symbol_hash name
      in case (if oc_index_cap oc0 = 0 then obj_symbol_index_rebuild calloc oc0 1 else Some (0, oc0)) of
           None \<Rightarrow> None
         | Some (rc, oc) \<Rightarrow>
             if rc \<noteq> 0 then Some (UINT32_MAX, oc)
             else (case probe (length (oc_index oc)) (oc_hit oc name hash) (oc_index oc) (oc_index_cap oc)
                          (hash AND (oc_index_cap oc - 1)) of
                     None \<Rightarrow> None
                   | Some (Inr i) \<Rightarrow>
                       Some (i, oc\<lparr>oc_symbols := (oc_symbols oc)[unat i :=
                                     os_redeclare (oc_symbols oc ! unat i) name is_defined section offset]\<rparr>)
                   | Some (Inl _) \<Rightarrow>
                       (case oc_make_room calloc realloc oc of
                          None \<Rightarrow> None
                        | Some (rc2, oc2) \<Rightarrow>
                            if rc2 \<noteq> 0 then Some (UINT32_MAX, oc2)
                            else oc_append oc2 (os_fresh name hash is_defined section offset))))"

text \<open>\<^verbatim>\<open>strstr\<close>: the position of the first occurrence.\<close>

fun strstr :: "string \<Rightarrow> string \<Rightarrow> nat option" where
  "strstr [] pat = (if pat = [] then Some 0 else None)"
| "strstr (c # s) pat = (if take (length pat) (c # s) = pat then Some 0 else map_option Suc (strstr s pat))"

definition external_alias_tag :: string where
  "external_alias_tag = ''.__liric_extern.''"

text \<open>The truncated name, \<open>None\<close> when the function returns false and leaves the name alone.\<close>

definition obj_strip_external_alias_in_place :: "string \<Rightarrow> string option" where
  "obj_strip_external_alias_in_place name =
     (if name = [] then None
      else case strstr name external_alias_tag of None \<Rightarrow> None
           | Some i \<Rightarrow> if i = 0 then None else Some (take i name))"

definition finalize_undefined :: "lr_obj_symbol \<Rightarrow> lr_obj_symbol" where
  "finalize_undefined s =
     (if os_defined s \<or> os_name s = [] then s
      else case obj_strip_external_alias_in_place (os_name s) of
             Some stripped \<Rightarrow> s\<lparr>os_name := stripped\<rparr>
           | None \<Rightarrow> s\<lparr>os_name := remap_intrinsic (os_name s)\<rparr>)"

definition obj_finalize_undefined_symbol_names :: "lr_objfile_ctx \<Rightarrow> lr_objfile_ctx" where
  "obj_finalize_undefined_symbol_names ctx = ctx\<lparr>oc_symbols := map finalize_undefined (oc_symbols ctx)\<rparr>"

section \<open>Growing a buffer\<close>

text \<open>\<^verbatim>\<open>while (new_cap < need)\<close> with the guard against overflow.  The capacity doubles, so 65 rounds
  are enough for every start above zero.\<close>

fun grow_loop :: "nat \<Rightarrow> u64 \<Rightarrow> u64 \<Rightarrow> u64 option" where
  "grow_loop 0 new_cap need = None"
| "grow_loop (Suc n) new_cap need =
     (if new_cap < need
      then if 0x7FFFFFFFFFFFFFFF < new_cap then Some need else grow_loop n (new_cap * 2) need
      else Some new_cap)"

text \<open>The buffer is the list of its bytes, its length the capacity; \<open>realloc\<close> tells whether a
  buffer of the size can be had.\<close>

definition obj_grow_buffer :: "(u64 \<Rightarrow> bool) \<Rightarrow> bytes \<Rightarrow> u64 \<Rightarrow> (int \<times> bytes) option" where
  "obj_grow_buffer realloc buf need =
     (let cap = of_nat (length buf)
      in if need \<le> cap then Some (0, buf)
         else if 0xFFFFFFFF < need then Some (-1, buf)
         else case grow_loop 65 (if 0 < cap then cap else 4096) need of
                None \<Rightarrow> None
              | Some new_cap \<Rightarrow>
                  if \<not> realloc new_cap then Some (-1, buf)
                  else Some (0, buf @ replicate (unat new_cap - length buf) 0))"

section \<open>The table without hashes\<close>

definition obj_names :: "lr_objfile_ctx \<Rightarrow> string list" where
  "obj_names oc = map os_name (oc_symbols oc)"

text \<open>Declaring a symbol in a plain list of symbols.\<close>

definition declare_symbol :: "lr_obj_symbol list \<Rightarrow> string \<Rightarrow> bool \<Rightarrow> u8 \<Rightarrow> u32 \<Rightarrow> lr_obj_symbol list" where
  "declare_symbol ss name is_defined section offset =
     (if name \<in> os_name ` set ss
      then map (\<lambda>s. if os_name s = name then os_redeclare s name is_defined section offset else s) ss
      else ss @ [os_fresh name (obj_symbol_hash name) is_defined section offset])"

definition obj_arrays_ok :: "lr_objfile_ctx \<Rightarrow> bool" where
  "obj_arrays_ok oc \<longleftrightarrow>
     map os_hash (oc_symbols oc) = map obj_symbol_hash (obj_names oc) \<and> distinct (obj_names oc) \<and>
     length (oc_symbols oc) \<le> unat (oc_symbol_cap oc)"

definition obj_index_ok :: "lr_objfile_ctx \<Rightarrow> bool" where
  "obj_index_ok oc \<longleftrightarrow>
     unat (oc_index_cap oc) = length (oc_index oc) \<and> 2 * length (oc_symbols oc) \<le> length (oc_index oc) \<and>
     0 < length (oc_index oc) \<and> table_ok (oc_index oc) (map obj_symbol_hash (obj_names oc))"

definition obj_inv :: "lr_objfile_ctx \<Rightarrow> bool" where
  "obj_inv oc \<longleftrightarrow> obj_arrays_ok oc \<and> (oc_index_cap oc = 0 \<and> oc_symbols oc = [] \<or> obj_index_ok oc)"

lemma length_obj_names [simp]: "length (obj_names oc) = length (oc_symbols oc)"
  by (simp add: obj_names_def)

lemma obj_names_updates [simp]:
  "obj_names (oc\<lparr>oc_index := t\<rparr>) = obj_names oc" "obj_names (oc\<lparr>oc_index_cap := c\<rparr>) = obj_names oc"
  "obj_names (oc\<lparr>oc_symbol_cap := c\<rparr>) = obj_names oc"
  by (simp_all add: obj_names_def)

lemma unat_oc_num:
  "length (oc_symbols oc) < 2 ^ 30 \<Longrightarrow> unat (oc_num_symbols oc) = length (oc_symbols oc)"
  "length (oc_symbols oc) < 2 ^ 30 \<Longrightarrow> unat (oc_num_symbols oc + 1) = length (oc_symbols oc) + 1"
  "length (oc_symbols oc) < 2 ^ 30 \<Longrightarrow> unat ((oc_num_symbols oc + 1) * 2) = 2 * (length (oc_symbols oc) + 1)"
  by (simp_all add: oc_num_symbols_def unat_word_ariths unat_of_nat)

lemma os_redeclare_same [simp]:
  "os_name (os_redeclare s n d sec off) = os_name s" "os_hash (os_redeclare s n d sec off) = os_hash s"
  by (simp_all add: os_redeclare_def Let_def)

lemma os_fresh_same [simp]: "os_name (os_fresh n h d sec off) = n" "os_hash (os_fresh n h d sec off) = h"
  by (simp_all add: os_fresh_def)

text \<open>The index is rebuilt, or the allocation fails and nothing changes.\<close>

lemma obj_rebuild_ok:
  assumes "obj_arrays_ok oc" and "length (oc_symbols oc) \<le> unat n" and "unat n \<le> 2 ^ 30" and "0 < n"
  shows "\<exists>cap tab. obj_symbol_index_rebuild calloc oc n =
      Some (if calloc cap then (0, oc\<lparr>oc_index := tab, oc_index_cap := cap\<rparr>) else (-1, oc)) \<and>
    unat cap = length tab \<and> 2 * unat n \<le> length tab \<and> table_ok tab (map obj_symbol_hash (obj_names oc))"
proof -
  have b: "unat (push_bit 1 n :: u32) = 2 * unat n" using assms(3) by (simp add: push_bit_eq_mult unat_word_ariths)
  obtain k where k: "k \<le> 31" "grow_cap 33 1 (push_bit 1 n) = Some (2 ^ k)" "2 * unat n \<le> 2 ^ k"
    using grow_cap_pow2 [of "push_bit 1 n" 0 33] assms(3) b by auto
  have cap: "unat (2 ^ k :: u32) = 2 ^ k" using k by (intro unat_exp) simp
  let ?hs = "map obj_symbol_hash (obj_names oc)"
  have "length ?hs < 2 ^ k"
    using assms(2,4) k(3) unat_gt_0 [of n] by (simp add: word_less_nat_alt)
  then obtain tab where "index_fill (replicate (2 ^ k) 0) (2 ^ k) 0 ?hs = Some tab"
    "length tab = 2 ^ k" "table_ok tab ?hs"
    using index_fill_ok [OF table_ok_empty [of k], of "2 ^ k" ?hs] cap k(1) by auto
  then show ?thesis
    using cap k assms(1) by (intro exI [of _ "2 ^ k"] exI [of _ tab]) (simp add: obj_symbol_index_rebuild_def obj_arrays_ok_def)
qed

lemma obj_search:
  assumes "obj_arrays_ok oc" and "obj_index_ok oc" and "length (oc_symbols oc) \<le> 2 ^ 30"
  shows "(\<exists>i < length (oc_symbols oc). obj_names oc ! i = name \<and>
      probe (length (oc_index oc)) (oc_hit oc name (obj_symbol_hash name)) (oc_index oc) (oc_index_cap oc)
        (obj_symbol_hash name AND (oc_index_cap oc - 1)) = Some (Inr (of_nat i))) \<or>
    (name \<notin> set (obj_names oc) \<and>
      (\<exists>s. probe (length (oc_index oc)) (oc_hit oc name (obj_symbol_hash name)) (oc_index oc) (oc_index_cap oc)
        (obj_symbol_hash name AND (oc_index_cap oc - 1)) = Some (Inl s)))"
proof -
  have hit: "oc_hit oc name (obj_symbol_hash name) (of_nat i) \<longleftrightarrow> obj_names oc ! i = name"
    if "i < length (oc_symbols oc)" for i
  proof -
    have "unat (of_nat i :: u32) = i" using that assms(3) by (intro unat_of_nat_small) simp
    moreover have "os_hash (oc_symbols oc ! i) = obj_symbol_hash (obj_names oc ! i)"
      using assms(1) that by (metis nth_map obj_arrays_ok_def length_obj_names)
    ultimately show ?thesis using that by (auto simp: oc_hit_def obj_names_def)
  qed
  have "length (oc_symbols oc) < length (oc_index oc)" using assms(2) unfolding obj_index_ok_def by linarith
  then show ?thesis
    using probe_table [of "oc_index oc" "map obj_symbol_hash (obj_names oc)" "oc_index_cap oc"
        "oc_hit oc name (obj_symbol_hash name)" "obj_symbol_hash name"] assms(2) hit
    by (auto simp: obj_index_ok_def in_set_conv_nth)
qed

lemma oc_append_ok:
  assumes "obj_arrays_ok oc" and "obj_index_ok oc" and "length (oc_symbols oc) < unat (oc_symbol_cap oc)"
    and "2 * (length (oc_symbols oc) + 1) \<le> length (oc_index oc)" and "os_name s \<notin> set (obj_names oc)"
    and "os_hash s = obj_symbol_hash (os_name s)"
  shows "\<exists>tab. oc_append oc s = Some (of_nat (length (oc_symbols oc)), oc\<lparr>oc_symbols := oc_symbols oc @ [s], oc_index := tab\<rparr>) \<and>
    obj_inv (oc\<lparr>oc_symbols := oc_symbols oc @ [s], oc_index := tab\<rparr>)"
proof -
  let ?hs = "map obj_symbol_hash (obj_names oc)"
  have "length ?hs < length (oc_index oc)" using assms(4) by simp
  then obtain tab where tab: "index_insert (oc_index oc) (oc_index_cap oc) (os_hash s) (of_nat (length ?hs)) = Some tab"
    "length tab = length (oc_index oc)" "table_ok tab (?hs @ [os_hash s])"
    using index_insert_ok [of "oc_index oc" ?hs "oc_index_cap oc" "os_hash s"] assms(2) by (auto simp: obj_index_ok_def)
  then show ?thesis using assms
    by (intro exI [of _ tab])
       (auto simp: oc_append_def oc_num_symbols_def obj_inv_def obj_arrays_ok_def obj_index_ok_def obj_names_def)
qed

lemma oc_make_room_ok:
  assumes "obj_arrays_ok oc" and "obj_index_ok oc" and n: "length (oc_symbols oc) < 2 ^ 30"
  shows "\<exists>rc oc'. oc_make_room calloc realloc oc = Some (rc, oc') \<and> obj_arrays_ok oc' \<and> obj_index_ok oc' \<and>
    oc_symbols oc' = oc_symbols oc \<and> preserve_symbol_names oc' = preserve_symbol_names oc \<and>
    (rc = 0 \<and> length (oc_symbols oc) < unat (oc_symbol_cap oc') \<and> 2 * (length (oc_symbols oc) + 1) \<le> length (oc_index oc') \<or>
     rc \<noteq> 0 \<and> (\<exists>k. \<not> calloc k \<or> \<not> realloc k))"
proof -
  let ?full = "oc_num_symbols oc = oc_symbol_cap oc"
  define new_cap where "new_cap = (if oc_symbol_cap oc = 0 then OBJ_INITIAL_SYMBOL_CAP else oc_symbol_cap oc * 2)"
  define oc1 where "oc1 = (if ?full then oc\<lparr>oc_symbol_cap := new_cap\<rparr> else oc)"
  show ?thesis
  proof (cases "?full \<and> \<not> realloc new_cap")
    case True
    then have "oc_make_room calloc realloc oc = Some (-1, oc)" by (simp add: oc_make_room_def new_cap_def Let_def)
    then show ?thesis using assms True by auto
  next
    case False
    have cap: "unat (oc_symbol_cap oc * 2) = 2 * unat (oc_symbol_cap oc)" if ?full
      using that n unat_oc_num(1) [OF n] by (simp add: unat_word_ariths)
    have same: "oc_symbols oc1 = oc_symbols oc" "oc_index oc1 = oc_index oc" "oc_index_cap oc1 = oc_index_cap oc"
      "obj_names oc1 = obj_names oc" "preserve_symbol_names oc1 = preserve_symbol_names oc"
      by (simp_all add: oc1_def)
    have lt: "length (oc_symbols oc) < unat (oc_symbol_cap oc1)"
    proof (cases ?full)
      case True
      then show ?thesis using cap unat_oc_num(1) [OF n] by (auto simp: oc1_def new_cap_def OBJ_INITIAL_SYMBOL_CAP_def unat_eq_0)
    next
      case False
      then have "length (oc_symbols oc) \<noteq> unat (oc_symbol_cap oc)"
        using unat_oc_num(1) [OF n] by (auto simp: word_unat_eq_iff)
      then show ?thesis using False assms(1) by (simp add: oc1_def obj_arrays_ok_def)
    qed
    then have ok1: "obj_arrays_ok oc1" "obj_index_ok oc1"
      using assms(1,2) same by (simp_all add: obj_arrays_ok_def obj_index_ok_def)
    have num: "oc_num_symbols oc1 = oc_num_symbols oc" by (simp add: oc_num_symbols_def same)
    have run: "oc_make_room calloc realloc oc = (if oc_index_cap oc1 < (oc_num_symbols oc1 + 1) * 2
        then obj_symbol_index_rebuild calloc oc1 (oc_num_symbols oc1 + 1) else Some (0, oc1))"
      using False by (auto simp: oc_make_room_def new_cap_def oc1_def Let_def)
    show ?thesis
    proof (cases "oc_index_cap oc1 < (oc_num_symbols oc1 + 1) * 2")
      case True
      have pre: "length (oc_symbols oc1) \<le> unat (oc_num_symbols oc1 + 1)" "unat (oc_num_symbols oc1 + 1) \<le> 2 ^ 30"
        "0 < oc_num_symbols oc1 + 1"
        unfolding num same word_less_nat_alt using unat_oc_num(2) [OF n] n by simp_all
      obtain c tab where "obj_symbol_index_rebuild calloc oc1 (oc_num_symbols oc1 + 1) =
          Some (if calloc c then (0, oc1\<lparr>oc_index := tab, oc_index_cap := c\<rparr>) else (-1, oc1))"
        "unat c = length tab" "2 * unat (oc_num_symbols oc1 + 1) \<le> length tab"
        "table_ok tab (map obj_symbol_hash (obj_names oc1))"
        using obj_rebuild_ok [OF ok1(1) pre] by blast
      then show ?thesis using True run ok1 same lt num unat_oc_num(2) [OF n]
        by (cases "calloc c") (auto simp: obj_arrays_ok_def obj_index_ok_def)
    next
      case False
      then have "2 * (length (oc_symbols oc) + 1) \<le> length (oc_index oc)"
        using unat_oc_num(3) [OF n] num same assms(2) by (simp add: word_less_nat_alt obj_index_ok_def)
      then show ?thesis using False run ok1 same lt by auto
    qed
  qed
qed

text \<open>What a call of \<^const>\<open>lr_obj_ensure_symbol\<close> may do: fail for want of memory, or declare the symbol.\<close>

definition linked_name :: "lr_objfile_ctx \<Rightarrow> string \<Rightarrow> string" where
  "linked_name oc name = (if preserve_symbol_names oc then name else remap_intrinsic name)"

definition ensured ::
  "(u32 \<Rightarrow> bool) \<Rightarrow> (u32 \<Rightarrow> bool) \<Rightarrow> lr_objfile_ctx \<Rightarrow> string \<Rightarrow> bool \<Rightarrow> u8 \<Rightarrow> u32 \<Rightarrow> u32 \<Rightarrow> lr_objfile_ctx \<Rightarrow> bool" where
  "ensured calloc realloc oc name d sec off i oc' \<longleftrightarrow>
     obj_inv oc' \<and> preserve_symbol_names oc' = preserve_symbol_names oc \<and>
     (if i = UINT32_MAX then (\<exists>k. \<not> calloc k \<or> \<not> realloc k) \<and> oc_symbols oc' = oc_symbols oc
      else oc_symbols oc' = declare_symbol (oc_symbols oc) (linked_name oc name) d sec off \<and>
           unat i < length (oc_symbols oc') \<and> obj_names oc' ! unat i = linked_name oc name)"

lemma declare_known:
  assumes "distinct (map os_name ss)" and "i < length ss" and "os_name (ss ! i) = name"
  shows "declare_symbol ss name d sec off = ss[i := os_redeclare (ss ! i) name d sec off]"
proof (rule nth_equalityI)
  show "length (declare_symbol ss name d sec off) = length (ss[i := os_redeclare (ss ! i) name d sec off])"
    using assms by (auto simp: declare_symbol_def)
  fix j assume "j < length (declare_symbol ss name d sec off)"
  moreover have "name \<in> os_name ` set ss" using assms(2,3) by force
  ultimately show "declare_symbol ss name d sec off ! j = ss[i := os_redeclare (ss ! i) name d sec off] ! j"
    using assms nth_eq_iff_index_eq [OF assms(1), of i j] by (auto simp: declare_symbol_def nth_list_update)
qed

lemma length_declare_symbol: "length ss \<le> length (declare_symbol ss name d sec off)"
  by (simp add: declare_symbol_def)

lemma not_UINT32_MAX: "n \<le> 2 ^ 30 \<Longrightarrow> (of_nat n :: u32) \<noteq> UINT32_MAX"
  using unat_of_nat_small [of n, where 'a = 32] by (auto simp: word_unat_eq_iff)

lemma ensure_indexed:
  assumes "obj_arrays_ok oc" and "obj_index_ok oc" and "oc_index_cap oc \<noteq> 0" and n: "length (oc_symbols oc) < 2 ^ 30"
  shows "\<exists>i oc'. lr_obj_ensure_symbol calloc realloc oc name0 d sec off = Some (i, oc') \<and>
    ensured calloc realloc oc name0 d sec off i oc'"
proof -
  define name where "name = linked_name oc name0"
  let ?probe = "probe (length (oc_index oc)) (oc_hit oc name (obj_symbol_hash name)) (oc_index oc) (oc_index_cap oc)
      (obj_symbol_hash name AND (oc_index_cap oc - 1))"
  note s = obj_search [OF assms(1,2) less_imp_le [OF n], of name]
  have nm: "(if \<not> preserve_symbol_names oc then remap_intrinsic name0 else name0) = name"
    by (simp add: name_def linked_name_def)
  have inv: "obj_inv oc" using assms(1,2) by (simp add: obj_inv_def)
  have run: "lr_obj_ensure_symbol calloc realloc oc name0 d sec off =
      (case ?probe of None \<Rightarrow> None
       | Some (Inr i) \<Rightarrow> Some (i, oc\<lparr>oc_symbols := (oc_symbols oc)[unat i := os_redeclare (oc_symbols oc ! unat i) name d sec off]\<rparr>)
       | Some (Inl _) \<Rightarrow> (case oc_make_room calloc realloc oc of None \<Rightarrow> None
          | Some (rc2, oc2) \<Rightarrow> if rc2 \<noteq> 0 then Some (UINT32_MAX, oc2)
              else oc_append oc2 (os_fresh name (obj_symbol_hash name) d sec off)))"
    unfolding lr_obj_ensure_symbol_def Let_def nm using assms(3) by simp
  show ?thesis
  proof (cases "name \<in> set (obj_names oc)")
    case True
    then obtain i where i: "i < length (oc_symbols oc)" "obj_names oc ! i = name" "?probe = Some (Inr (of_nat i))"
      using s by auto
    have u: "unat (of_nat i :: u32) = i" using i(1) n by (intro unat_of_nat_small) simp
    let ?oc = "oc\<lparr>oc_symbols := (oc_symbols oc)[i := os_redeclare (oc_symbols oc ! i) name d sec off]\<rparr>"
    have names: "obj_names ?oc = obj_names oc" "map os_hash (oc_symbols ?oc) = map os_hash (oc_symbols oc)"
      using i(1) by (auto simp: obj_names_def map_update list_update_same_conv)
    have "obj_inv ?oc" using inv names i(1) unfolding obj_inv_def obj_arrays_ok_def obj_index_ok_def by auto
    moreover have "oc_symbols ?oc = declare_symbol (oc_symbols oc) name d sec off"
      using declare_known [of "oc_symbols oc" i name d sec off] i assms(1)
      by (simp add: obj_arrays_ok_def obj_names_def)
    ultimately have "ensured calloc realloc oc name0 d sec off (of_nat i) ?oc"
      using i names(1) u not_UINT32_MAX [of i] n
        length_declare_symbol [of "oc_symbols oc" name d sec off]
      by (auto simp: ensured_def name_def [symmetric] intro: less_le_trans)
    then show ?thesis using run i(3) u by (intro exI [of _ "of_nat i"] exI [of _ ?oc]) simp
  next
    case False
    then obtain t where t: "?probe = Some (Inl t)" using s by (auto simp: in_set_conv_nth)
    obtain rc oc2 where r: "oc_make_room calloc realloc oc = Some (rc, oc2)" "obj_arrays_ok oc2" "obj_index_ok oc2"
      "oc_symbols oc2 = oc_symbols oc" "preserve_symbol_names oc2 = preserve_symbol_names oc"
      "rc = 0 \<and> length (oc_symbols oc) < unat (oc_symbol_cap oc2) \<and> 2 * (length (oc_symbols oc) + 1) \<le> length (oc_index oc2) \<or>
       rc \<noteq> 0 \<and> (\<exists>k. \<not> calloc k \<or> \<not> realloc k)"
      using oc_make_room_ok [OF assms(1,2) n] by metis
    show ?thesis
    proof (cases "rc = 0")
      case True
      let ?s = "os_fresh name (obj_symbol_hash name) d sec off"
      have "name \<notin> set (obj_names oc2)" using False r(4) by (simp add: obj_names_def)
      then obtain tab where tab: "oc_append oc2 ?s = Some (of_nat (length (oc_symbols oc2)), oc2\<lparr>oc_symbols := oc_symbols oc2 @ [?s], oc_index := tab\<rparr>)"
        "obj_inv (oc2\<lparr>oc_symbols := oc_symbols oc2 @ [?s], oc_index := tab\<rparr>)"
        using oc_append_ok [OF r(2,3), of ?s] r(4,6) True by auto
      have "declare_symbol (oc_symbols oc) name d sec off = oc_symbols oc @ [?s]"
        using False by (simp add: declare_symbol_def obj_names_def)
      moreover have "unat (of_nat (length (oc_symbols oc)) :: u32) = length (oc_symbols oc)"
        using n by (intro unat_of_nat_small) simp
      ultimately show ?thesis
        using run t r(1,4,5) True tab not_UINT32_MAX [of "length (oc_symbols oc)"] n
        by (auto simp: ensured_def name_def [symmetric] obj_names_def nth_append)
    next
      case rc: False
      then show ?thesis using run t r by (auto simp: ensured_def obj_inv_def)
    qed
  qed
qed

lemma ensure_outcomes:
  assumes "obj_inv oc" and n: "length (oc_symbols oc) < 2 ^ 30"
  shows "\<exists>i oc'. lr_obj_ensure_symbol calloc realloc oc name d sec off = Some (i, oc') \<and>
    ensured calloc realloc oc name d sec off i oc'"
proof (cases "oc_index_cap oc = 0")
  case False
  then show ?thesis using ensure_indexed assms by (auto simp: obj_inv_def)
next
  case True
  then have arr: "obj_arrays_ok oc" and empty: "oc_symbols oc = []"
    using assms(1) by (auto simp: obj_inv_def obj_index_ok_def)
  obtain cap tab where r: "obj_symbol_index_rebuild calloc oc 1 =
      Some (if calloc cap then (0, oc\<lparr>oc_index := tab, oc_index_cap := cap\<rparr>) else (-1, oc))"
    "unat cap = length tab" "2 * unat (1 :: u32) \<le> length tab" "table_ok tab (map obj_symbol_hash (obj_names oc))"
    using obj_rebuild_ok [OF arr, of 1 calloc] empty by auto
  show ?thesis
  proof (cases "calloc cap")
    case c: True
    let ?oc = "oc\<lparr>oc_index := tab, oc_index_cap := cap\<rparr>"
    have cap: "cap \<noteq> 0" using r(2,3) by auto
    have "obj_arrays_ok ?oc" "obj_index_ok ?oc"
      using arr r empty by (auto simp: obj_arrays_ok_def obj_index_ok_def)
    then obtain i oc' where i: "lr_obj_ensure_symbol calloc realloc ?oc name d sec off = Some (i, oc')"
      "ensured calloc realloc ?oc name d sec off i oc'"
      using ensure_indexed [of ?oc calloc realloc name d sec off] cap empty by auto
    moreover have "lr_obj_ensure_symbol calloc realloc oc name d sec off = lr_obj_ensure_symbol calloc realloc ?oc name d sec off"
      using r(1) c True cap by (simp add: lr_obj_ensure_symbol_def Let_def)
    moreover have "ensured calloc realloc oc name d sec off i oc'" 
    proof -
      have "linked_name ?oc name = linked_name oc name" by (simp add: linked_name_def)
      then show ?thesis using i(2) unfolding ensured_def by (auto split: if_splits)
    qed
    ultimately show ?thesis by metis
  next
    case False
    then have "lr_obj_ensure_symbol calloc realloc oc name d sec off = Some (UINT32_MAX, oc)"
      using r(1) True by (simp add: lr_obj_ensure_symbol_def Let_def)
    moreover have "ensured calloc realloc oc name d sec off UINT32_MAX oc" using assms(1) False by (auto simp: ensured_def)
    ultimately show ?thesis by blast
  qed
qed

section \<open>The object file as an interner\<close>

text \<open>With \<^verbatim>\<open>preserve_symbol_names\<close> and memory that does not run out, references are interned just as
  the symbols of a module are; the interface and its lemmas are those of \<^verbatim>\<open>Symbol_Table\<close>.\<close>

lemma declare_reference:
  "map os_name (declare_symbol ss name d sec off) = (if name \<in> set (map os_name ss) then map os_name ss else map os_name ss @ [name])"
  by (simp add: declare_symbol_def if_distrib comp_def cong: map_cong)

interpretation objtab: interner "\<lambda>oc name. lr_obj_ensure_symbol (\<lambda>_. True) (\<lambda>_. True) oc name False 0 0"
  "\<lambda>oc. obj_inv oc \<and> preserve_symbol_names oc" obj_names "2 ^ 30"
proof unfold_locales
  fix oc name assume v: "obj_inv oc \<and> preserve_symbol_names oc" and "length (obj_names oc) < 2 ^ 30"
  then obtain i oc' where i: "lr_obj_ensure_symbol (\<lambda>_. True) (\<lambda>_. True) oc name False 0 0 = Some (i, oc')"
    "ensured (\<lambda>_. True) (\<lambda>_. True) oc name False 0 0 i oc'"
    using ensure_outcomes [of oc "\<lambda>_. True" "\<lambda>_. True" name False 0 0] by auto
  then show "\<exists>i oc'. lr_obj_ensure_symbol (\<lambda>_. True) (\<lambda>_. True) oc name False 0 0 = Some (i, oc') \<and>
      (obj_inv oc' \<and> preserve_symbol_names oc') \<and>
      obj_names oc' = (if name \<in> set (obj_names oc) then obj_names oc else obj_names oc @ [name]) \<and>
      unat i < length (obj_names oc') \<and> obj_names oc' ! unat i = name"
    using v declare_reference [of "oc_symbols oc" name False 0 0]
    by (intro exI [of _ i] exI [of _ oc']) (auto simp: ensured_def linked_name_def obj_names_def split: if_splits)
qed (simp add: obj_inv_def obj_arrays_ok_def)

section \<open>Growing\<close>

lemma grow_loop_ok:
  assumes "0 < unat c" and "unat need < 2 ^ 32" and "2 ^ 32 \<le> unat c * 2 ^ n"
  shows "\<exists>c'. grow_loop (Suc n) c need = Some c' \<and> need \<le> c' \<and> c \<le> c'"
  using assms(1,3)
proof (induction n arbitrary: c)
  case 0
  then show ?case using assms(2) by (auto simp: word_less_nat_alt word_le_nat_alt)
next
  case (Suc n)
  show ?case
  proof (cases "c < need")
    case True
    then have c: "unat c < 2 ^ 32" using assms(2) by (simp add: word_less_nat_alt)
    then have d: "unat (c * 2) = 2 * unat c" by (simp add: unat_word_ariths)
    then obtain c' where "grow_loop (Suc n) (c * 2) need = Some c'" "need \<le> c'" "c * 2 \<le> c'"
      using Suc.IH [of "c * 2"] Suc.prems by (auto simp: mult.assoc mult.commute mult.left_commute)
    then show ?thesis using True c d by (auto simp: word_less_nat_alt word_le_nat_alt)
  qed auto
qed

text \<open>growing a buffer returns: with success exactly when the bytes needed fit the limit of 4 GB and
  memory is there (or nothing had to grow), and then the buffer holds at least the bytes needed,
  the old contents first and zeros after them; otherwise it is unchanged.\<close>

theorem grow_buffer_correct:
  assumes "length buf < 2 ^ 32"
  shows "\<exists>rc buf'. obj_grow_buffer realloc buf need = Some (rc, buf') \<and>
    (if rc = 0 then unat need \<le> length buf' \<and> (\<exists>n. buf' = buf @ replicate n 0)
     else buf' = buf \<and> length buf < unat need \<and> (2 ^ 32 \<le> unat need \<or> (\<exists>n. need \<le> n \<and> \<not> realloc n)))"
proof -
  let ?cap = "of_nat (length buf) :: u64" and ?start = "if 0 < (of_nat (length buf) :: u64) then of_nat (length buf) else 4096 :: u64"
  have cap: "unat ?cap = length buf" using assms by (intro unat_of_nat_small) simp
  show ?thesis
  proof (cases "need \<le> ?cap")
    case True
    then show ?thesis using cap by (auto simp: obj_grow_buffer_def Let_def word_le_nat_alt intro: exI [of _ 0])
  next
    case False
    then have lt: "length buf < unat need" using cap by (simp add: word_le_nat_alt)
    show ?thesis
    proof (cases "0xFFFFFFFF < need")
      case True
      then have "2 ^ 32 \<le> unat need" by (simp add: word_less_nat_alt)
      then show ?thesis using False True lt by (simp add: obj_grow_buffer_def Let_def)
    next
      case small: False
      then have "unat need < 2 ^ 32" by (simp add: word_less_nat_alt)
      moreover have "0 < unat ?start" using cap by (simp add: word_less_nat_alt)
      moreover have "2 ^ 32 \<le> unat ?start * 2 ^ 64"
        using \<open>0 < unat ?start\<close> by (cases "unat ?start") simp_all
      ultimately obtain c where c: "grow_loop 65 ?start need = Some c" "need \<le> c"
        using grow_loop_ok [of ?start need 64] by auto
      then have "unat need \<le> unat c" by (simp add: word_le_nat_alt)
      then show ?thesis using False small c lt
        by (cases "realloc c") (auto simp: obj_grow_buffer_def Let_def)
    qed
  qed
qed

theorem grow_buffer_correct_witness:
  "\<exists>rc buf'. obj_grow_buffer (\<lambda>_. True) [7, 8] 9 = Some (rc, buf') \<and> rc = 0 \<and> 9 \<le> length buf' \<and> take 2 buf' = [7, 8]"
  using grow_buffer_correct [of "[7, 8]" "\<lambda>_. True" 9] by (auto split: if_splits)

section \<open>Properties\<close>

text \<open>C15: declaring a symbol.  With fewer than \<open>2 ^ 30\<close> symbols the call returns and keeps the invariant of
  the hashed table.  Either memory ran out, the index is \<^verbatim>\<open>UINT32_MAX\<close> and no symbol changed; or the
  symbols are those of the list without hashes, where a name occurs once, the first definition
  fixes its place and a definition of a mergeable name makes it weak, and the index is the one of
  the name (its libc name for an intrinsic, unless names are preserved).\<close>

theorem ensure_symbol_correct:
  assumes "obj_inv oc" and "length (oc_symbols oc) < 2 ^ 30"
  shows "\<exists>i oc'. lr_obj_ensure_symbol calloc realloc oc name is_defined section offset = Some (i, oc') \<and>
    ensured calloc realloc oc name is_defined section offset i oc'"
  using assms by (rule ensure_outcomes)

definition empty_objfile :: lr_objfile_ctx where
  "empty_objfile = \<lparr>oc_relocs = [], reloc_cap = 0, data_relocs = [], data_reloc_cap = 0, oc_symbols = [], oc_symbol_cap = 0,
     oc_index = [], oc_index_cap = 0, module_sym_defined = [], module_sym_funcs = [], module_sym_count = 0,
     preserve_symbol_names = False\<rparr>"

theorem ensure_symbol_correct_witness:
  "\<exists>i oc'. lr_obj_ensure_symbol (\<lambda>_. True) (\<lambda>_. True) empty_objfile ''_copy_t'' True 1 8 = Some (i, oc') \<and>
    map os_name (oc_symbols oc') = [''_copy_t''] \<and> map os_weak (oc_symbols oc') = [True]"
proof -
  have inv: "obj_inv empty_objfile" by (simp add: empty_objfile_def obj_inv_def obj_arrays_ok_def obj_names_def)
  have "linked_name empty_objfile ''_copy_t'' = ''_copy_t''"
    by (simp add: linked_name_def empty_objfile_def remap_intrinsic_def lr_platform_intrinsic_libc_name_def
        normalize_intrinsic_name_def intrinsic_libc_name_impl_def)
  then show ?thesis using ensure_symbol_correct [OF inv, of "\<lambda>_. True" "\<lambda>_. True" "''_copy_t''" True 1 8]
    by (auto simp: ensured_def empty_objfile_def declare_symbol_def os_fresh_def obj_symbol_should_be_weak_def
        k_weak_prefixes_def split: if_splits)
qed

text \<open>references are numbered by their names.  In a table that preserves names, with memory enough, the
  indices given to two references are equal exactly when their names are.\<close>

theorem reference_indices_identify_names:
  assumes "obj_inv oc" and "preserve_symbol_names oc" and "length (obj_names oc) + length ns \<le> 2 ^ 30"
    and "intern_all (\<lambda>oc name. lr_obj_ensure_symbol (\<lambda>_. True) (\<lambda>_. True) oc name False 0 0) oc ns = Some (is, oc')"
    and "a < length ns" and "b < length ns"
  shows "is ! a = is ! b \<longleftrightarrow> ns ! a = ns ! b"
  using objtab.ids_identify_names [of oc ns "is" oc' a b] assms by blast

theorem reference_indices_identify_names_witness:
  "\<exists>is oc'. intern_all (\<lambda>oc name. lr_obj_ensure_symbol (\<lambda>_. True) (\<lambda>_. True) oc name False 0 0)
     (empty_objfile\<lparr>preserve_symbol_names := True\<rparr>) [''f'', ''g'', ''f''] = Some (is, oc') \<and> is ! 0 = is ! 2 \<and> is ! 0 \<noteq> is ! 1"
proof -
  let ?oc = "empty_objfile\<lparr>preserve_symbol_names := True\<rparr>" and ?ns = "[''f'', ''g'', ''f'']"
  have v: "obj_inv ?oc" "preserve_symbol_names ?oc" "length (obj_names ?oc) + length ?ns \<le> 2 ^ 30"
    by (simp_all add: empty_objfile_def obj_inv_def obj_arrays_ok_def obj_names_def)
  obtain "is" oc' where r: "intern_all (\<lambda>oc name. lr_obj_ensure_symbol (\<lambda>_. True) (\<lambda>_. True) oc name False 0 0) ?oc ?ns = Some (is, oc')"
    using objtab.intern_all_ok [of ?oc ?ns] v by auto
  note ids = reference_indices_identify_names [OF v r]
  show ?thesis using r ids [of 0 2] ids [of 0 1] by auto
qed

end
