(* ===== verification/Target_Core.thy ===== *)
theory Target_Core
  imports Ir_Finalize
begin

text \<open>
  What every backend is handed and what the backends share: the descriptors of
  \<^verbatim>\<open>src/src/target.h\<close>, the helpers of \<^verbatim>\<open>src/src/target_common.c\<close>, \<^verbatim>\<open>src/src/target_shared.c\<close> and
  \<^verbatim>\<open>src/src/compile_mode.c\<close>, and the replay of a finalized function through a target's entry points
  (\<^verbatim>\<open>src/src/target_registry.c\<close>).

  A target is a record of its entry points over a type of compile contexts; an entry point that
  is a null pointer is \<open>None\<close>.  An entry point returns its status and the context after it, or
  \<open>None\<close> when the call does not return.  The kinds of operand descriptors have the values of the
  kinds of operands, so one type stands for both.
\<close>

section \<open>Compilation modes\<close>

datatype lr_compile_mode = LR_COMPILE_ISEL | LR_COMPILE_COPY_PATCH | LR_COMPILE_LLVM

definition lr_compile_mode_parse :: "string \<Rightarrow> lr_compile_mode option" where
  "lr_compile_mode_parse text =
     (if text = ''isel'' then Some LR_COMPILE_ISEL
      else if text = ''copy_patch'' then Some LR_COMPILE_COPY_PATCH
      else if text = ''stencil'' then Some LR_COMPILE_COPY_PATCH
      else if text = ''llvm'' then Some LR_COMPILE_LLVM
      else None)"

definition lr_compile_mode_from_env :: "string option \<Rightarrow> lr_compile_mode" where
  "lr_compile_mode_from_env env =
     (case env of None \<Rightarrow> LR_COMPILE_COPY_PATCH
      | Some text \<Rightarrow> (case lr_compile_mode_parse text of Some m \<Rightarrow> m | None \<Rightarrow> LR_COMPILE_COPY_PATCH))"

fun lr_compile_mode_name :: "lr_compile_mode \<Rightarrow> string" where
  "lr_compile_mode_name LR_COMPILE_ISEL = ''isel''"
| "lr_compile_mode_name LR_COMPILE_COPY_PATCH = ''copy_patch''"
| "lr_compile_mode_name LR_COMPILE_LLVM = ''llvm''"

section \<open>Descriptors\<close>

record lr_operand_desc =
  od_kind :: lr_operand_kind
  od_bits :: u64
  od_type :: "lr_type option"
  od_global_offset :: u64

record lr_compile_inst_desc =
  d_op :: lr_opcode
  d_type :: "lr_type option"
  d_dest :: u32
  d_operands :: "lr_operand_desc list"
  d_indices :: "u32 list"
  d_align :: u32
  d_pred :: u32
  d_call_external_abi :: bool
  d_call_vararg :: bool
  d_call_fixed_args :: u32

record lr_compile_func_meta =
  fm_param_vregs :: "u32 list option"
  fm_ret_type :: "lr_type option"
  fm_param_types :: "lr_type option list option"
  fm_num_params :: u32
  fm_vararg :: bool
  fm_num_blocks :: u32
  fm_next_vreg :: u32
  fm_mode :: lr_compile_mode

record ('m, 'c) lr_target =
  t_name :: string
  ptr_size :: u8
  compile_begin :: "(lr_compile_func_meta \<Rightarrow> 'm \<Rightarrow> bytes \<Rightarrow> (int \<times> 'c option) option) option"
  compile_emit :: "('c \<Rightarrow> lr_compile_inst_desc \<Rightarrow> (int \<times> 'c) option) option"
  compile_set_block :: "('c \<Rightarrow> u32 \<Rightarrow> (int \<times> 'c) option) option"
  compile_end :: "('c \<Rightarrow> (int \<times> nat) option) option"
  compile_add_phi_copy :: "('c \<Rightarrow> u32 \<Rightarrow> u32 \<Rightarrow> u32 \<Rightarrow> lr_operand_desc \<Rightarrow> (int \<times> 'c) option) option"

definition lr_target_can_compile :: "('m, 'c) lr_target \<Rightarrow> lr_compile_mode \<Rightarrow> bool" where
  "lr_target_can_compile target mode \<longleftrightarrow>
     compile_begin target \<noteq> None \<and> compile_emit target \<noteq> None \<and> compile_set_block target \<noteq> None \<and>
     compile_end target \<noteq> None \<and> (mode = LR_COMPILE_ISEL \<or> mode = LR_COMPILE_COPY_PATCH)"

section \<open>Shared helpers\<close>

definition lr_target_alloca_uses_static_storage :: "lr_inst option \<Rightarrow> bool" where
  "lr_target_alloca_uses_static_storage inst =
     (case inst of None \<Rightarrow> False
      | Some i \<Rightarrow> if inst_op i \<noteq> LR_OP_ALLOCA then False
                  else (case operands i of [] \<Rightarrow> True
                        | o' # _ \<Rightarrow> opd_kind o' = LR_VAL_IMM_I64 \<and> opd_imm_i64 o' = 1))"

definition lr_target_alloca_elem_size :: "lr_inst option \<Rightarrow> u64 \<Rightarrow> u64" where
  "lr_target_alloca_elem_size inst min_size =
     (let elem_size = (case inst of Some i \<Rightarrow> (if inst_type i \<noteq> None then lr_type_size (inst_type i) else 0) | None \<Rightarrow> 0)
      in if elem_size < min_size then min_size else elem_size)"

definition lr_target_inst_has_result_slot :: "lr_inst option \<Rightarrow> bool" where
  "lr_target_inst_has_result_slot inst =
     (case inst of None \<Rightarrow> False
      | Some i \<Rightarrow>
          if inst_op i \<in> {LR_OP_STORE, LR_OP_BR, LR_OP_CONDBR, LR_OP_RET, LR_OP_RET_VOID, LR_OP_UNREACHABLE} then False
          else (case inst_type i of None \<Rightarrow> False | Some t \<Rightarrow> ty_kind t \<noteq> LR_TYPE_VOID))"

definition lr_target_inst_result_slot_size :: "lr_inst option \<Rightarrow> u64 \<Rightarrow> u64" where
  "lr_target_inst_result_slot_size inst min_size =
     (if \<not> lr_target_inst_has_result_slot inst then 0
      else case inst of None \<Rightarrow> min_size
           | Some i \<Rightarrow>
               if inst_op i = LR_OP_ALLOCA \<or> inst_op i = LR_OP_GEP then min_size
               else if inst_type i \<noteq> None \<and> min_size < lr_type_size (inst_type i) then lr_type_size (inst_type i)
               else min_size)"

datatype lr_cc =
  LR_CC_EQ | LR_CC_NE | LR_CC_UGT | LR_CC_UGE | LR_CC_ULT | LR_CC_ULE | LR_CC_SGT | LR_CC_SGE | LR_CC_SLT | LR_CC_SLE
| LR_CC_O | LR_CC_NO
| LR_CC_FP_OEQ | LR_CC_FP_ONE | LR_CC_FP_OGT | LR_CC_FP_OGE | LR_CC_FP_OLT | LR_CC_FP_OLE | LR_CC_FP_ORD | LR_CC_FP_UNO
| LR_CC_FP_UEQ | LR_CC_FP_UNE | LR_CC_FP_UGT | LR_CC_FP_UGE | LR_CC_FP_ULT | LR_CC_FP_ULE



definition lr_target_lookup_static_alloca_offset :: "u32 list \<Rightarrow> u32 \<Rightarrow> u32" where
  "lr_target_lookup_static_alloca_offset offsets vreg =
     (if length offsets \<le> unat vreg then 0 else offsets ! unat vreg)"

text \<open>The table doubles until it holds the register.  Its capacity is 32 bits wide and wraps to zero,
  so 64 rounds tell a loop that ends from one that does not; the table is then \<open>None\<close>.\<close>

fun grow_offsets :: "nat \<Rightarrow> u32 list \<Rightarrow> u32 \<Rightarrow> u32 \<Rightarrow> u32 list option" where
  "grow_offsets 0 table cap vreg = None"
| "grow_offsets (Suc n) table cap vreg =
     (if cap \<le> vreg
      then let new_cap = (if cap = 0 then 64 else cap * 2)
           in grow_offsets n (take (unat cap) table @ replicate (unat new_cap - unat cap) 0) new_cap vreg
      else Some table)"

definition lr_target_set_static_alloca_offset :: "u32 list \<Rightarrow> u32 \<Rightarrow> u32 \<Rightarrow> u32 list option" where
  "lr_target_set_static_alloca_offset offsets vreg offset =
     (case grow_offsets 64 offsets (of_nat (length offsets)) vreg of None \<Rightarrow> None
      | Some table \<Rightarrow> Some (table[unat vreg := offset]))"

section \<open>Replaying a function\<close>

text \<open>Every kind is handled, so the default branch of the source, an error, is not reached.\<close>

definition operand_to_desc :: "lr_operand \<Rightarrow> lr_operand_desc" where
  "operand_to_desc op =
     \<lparr>od_kind = opd_kind op,
      od_bits = (case opd_kind op of
                   LR_VAL_VREG \<Rightarrow> ucast (opd_vreg op) | LR_VAL_IMM_I64 \<Rightarrow> opd_imm_i64 op | LR_VAL_IMM_F64 \<Rightarrow> opd_bits op
                 | LR_VAL_BLOCK \<Rightarrow> ucast (opd_block_id op) | LR_VAL_GLOBAL \<Rightarrow> ucast (opd_global_id op)
                 | LR_VAL_NULL \<Rightarrow> 0 | LR_VAL_UNDEF \<Rightarrow> 0),
      od_type = opd_type op, od_global_offset = global_offset op\<rparr>"

definition stream_inst_is_terminator :: "lr_inst \<Rightarrow> bool" where
  "stream_inst_is_terminator inst \<longleftrightarrow>
     inst_op inst \<in> {LR_OP_RET, LR_OP_RET_VOID, LR_OP_BR, LR_OP_CONDBR, LR_OP_UNREACHABLE}"

text \<open>The instructions of a block as its array names them; \<open>None\<close> is a read through a null array,
  past its end or of an instruction that is gone.\<close>

definition block_stream :: "lr_block \<Rightarrow> lr_inst list option" where
  "block_stream b =
     (if num_insts b = 0 then Some []
      else case inst_array b of None \<Rightarrow> None
           | Some xs \<Rightarrow> if length xs < unat (num_insts b) then None
                         else those (map (\<lambda>a. find (\<lambda>i. inst_addr i = a) (blk_insts b)) (take (unat (num_insts b)) xs)))"

definition inst_to_desc :: "lr_inst \<Rightarrow> lr_compile_inst_desc" where
  "inst_to_desc inst =
     \<lparr>d_op = inst_op inst, d_type = inst_type inst, d_dest = inst_dest inst,
      d_operands = map operand_to_desc (operands inst), d_indices = inst_indices inst, d_align = inst_align inst,
      d_pred = inst_pred inst, d_call_external_abi = call_external_abi inst, d_call_vararg = call_vararg inst,
      d_call_fixed_args = call_fixed_args inst\<rparr>"

definition fallthrough_desc :: lr_compile_inst_desc where
  "fallthrough_desc =
     \<lparr>d_op = LR_OP_UNREACHABLE, d_type = None, d_dest = 0, d_operands = [], d_indices = [], d_align = 0, d_pred = 0,
      d_call_external_abi = False, d_call_vararg = False, d_call_fixed_args = 0\<rparr>"

text \<open>Calls in sequence: the first status that is not zero ends it as \<open>-1\<close>.\<close>

fun call_all :: "('c \<Rightarrow> 'a \<Rightarrow> (int \<times> 'c) option) \<Rightarrow> 'a list \<Rightarrow> 'c \<Rightarrow> (int \<times> 'c) option" where
  "call_all call [] c = Some (0, c)"
| "call_all call (x # xs) c =
     (case call c x of None \<Rightarrow> None
      | Some (rc, c') \<Rightarrow> if rc \<noteq> 0 then Some (-1, c') else call_all call xs c')"

text \<open>The copies of one block, in the order of its phi instructions and their operand pairs.\<close>

fun operand_pairs :: "lr_operand list \<Rightarrow> (lr_operand \<times> lr_operand) list" where
  "operand_pairs (v # p # ops) = (v, p) # operand_pairs ops"
| "operand_pairs _ = []"

definition phi_copies :: "lr_block \<Rightarrow> lr_inst list \<Rightarrow> (u32 \<times> u32 \<times> u32 \<times> lr_operand_desc) list" where
  "phi_copies b insts =
     concat (map (\<lambda>i. map (\<lambda>(v, p). (opd_block_id p, blk_id b, inst_dest i, operand_to_desc v)) (operand_pairs (operands i)))
               (filter (\<lambda>i. inst_op i = LR_OP_PHI) insts))"

text \<open>The walk over the block array; an empty slot is skipped.\<close>

definition slot_copies :: "lr_func \<Rightarrow> u32 option \<Rightarrow> (u32 \<times> u32 \<times> u32 \<times> lr_operand_desc) list option" where
  "slot_copies f e =
     (case e of None \<Rightarrow> Some []
      | Some bid \<Rightarrow>
          (case find_block f bid of None \<Rightarrow> None
           | Some b \<Rightarrow> map_option (phi_copies b) (block_stream b)))"

definition replay_phi_copies :: "('m, 'c) lr_target \<Rightarrow> 'c \<Rightarrow> lr_func \<Rightarrow> (int \<times> 'c) option" where
  "replay_phi_copies target c f =
     (case compile_add_phi_copy target of None \<Rightarrow> Some (0, c)
      | Some add \<Rightarrow>
          if num_blocks f = 0 then Some (0, c)
          else (case block_array f of None \<Rightarrow> None
                | Some arr \<Rightarrow>
                    (case those (map (slot_copies f) (take (unat (num_blocks f)) arr)) of None \<Rightarrow> None
                     | Some copies \<Rightarrow> call_all (\<lambda>c (p, s, d, v). add c p s d v) (concat copies) c)))"

definition replay_block :: "('m, 'c) lr_target \<Rightarrow> 'c \<Rightarrow> lr_block \<Rightarrow> (int \<times> 'c) option" where
  "replay_block target c b =
     (case (compile_set_block target, compile_emit target, block_stream b) of
        (Some set_block, Some emit, Some insts) \<Rightarrow>
          (case set_block c (blk_id b) of None \<Rightarrow> None
           | Some (rc, c1) \<Rightarrow>
               if rc \<noteq> 0 then Some (-1, c1)
               else (case call_all emit (map inst_to_desc insts) c1 of None \<Rightarrow> None
                     | Some (rc2, c2) \<Rightarrow>
                         if rc2 \<noteq> 0 then Some (-1, c2)
                         else if list_ex stream_inst_is_terminator insts then Some (0, c2)
                         else (case emit c2 fallthrough_desc of None \<Rightarrow> None
                               | Some (rc3, c3) \<Rightarrow> Some (if rc3 \<noteq> 0 then -1 else 0, c3))))
      | _ \<Rightarrow> None)"

text \<open>\<open>calloc n\<close> tells whether the scratch arrays, as long as the longest operand and index lists, can be had.\<close>

definition lr_replay_function_stream ::
  "(nat \<Rightarrow> bool) \<Rightarrow> ('m, 'c) lr_target \<Rightarrow> 'c \<Rightarrow> lr_func \<Rightarrow> (int \<times> 'c) option" where
  "lr_replay_function_stream calloc target c f =
     (if compile_set_block target = None \<or> compile_emit target = None then Some (-1, c)
      else case replay_phi_copies target c f of None \<Rightarrow> None
        | Some (rc, c1) \<Rightarrow>
            if rc \<noteq> 0 then Some (-1, c1)
            else (case those (map block_stream (blocks f)) of None \<Rightarrow> None
                  | Some streams \<Rightarrow>
                      let max_operands = foldr (\<lambda>i. max (length (operands i))) (concat streams) 0;
                          max_indices = foldr (\<lambda>i. max (length (inst_indices i))) (concat streams) 0
                      in if 0 < max_operands \<and> \<not> calloc max_operands then Some (-1, c1)
                         else if 0 < max_indices \<and> \<not> calloc max_indices then Some (-1, c1)
                         else call_all (replay_block target) (blocks f) c1))"

section \<open>Backends as an interface\<close>

text \<open>What the replay needs to know of a target: an invariant of its contexts that every entry
  point keeps, whatever status it returns.\<close>

locale backend =
  fixes target :: "('m, 'c) lr_target"
    and inv :: "'c \<Rightarrow> bool"
  assumes emit_keeps: "compile_emit target = Some emit \<Longrightarrow> emit c d = Some (rc, c') \<Longrightarrow> inv c \<Longrightarrow> inv c'"
    and set_block_keeps: "compile_set_block target = Some set_block \<Longrightarrow> set_block c i = Some (rc, c') \<Longrightarrow> inv c \<Longrightarrow> inv c'"
    and phi_copy_keeps: "compile_add_phi_copy target = Some add \<Longrightarrow> add c p s v x = Some (rc, c') \<Longrightarrow> inv c \<Longrightarrow> inv c'"
begin

lemma call_all_keeps:
  assumes "\<And>c x rc c'. call c x = Some (rc, c') \<Longrightarrow> inv c \<Longrightarrow> inv c'"
    and "call_all call xs c = Some (rc, c')" and "inv c"
  shows "inv c'"
  using assms(2,3)
proof (induction xs arbitrary: c)
  case (Cons x xs)
  then show ?case using assms(1) by (auto split: option.splits if_splits)
qed simp

lemma replay_phi_copies_keeps: "replay_phi_copies target c f = Some (rc, c') \<Longrightarrow> inv c \<Longrightarrow> inv c'"
  using phi_copy_keeps
  by (auto simp: replay_phi_copies_def split: option.splits if_splits elim!: call_all_keeps [rotated])

lemma replay_block_keeps: "replay_block target c b = Some (rc, c') \<Longrightarrow> inv c \<Longrightarrow> inv c'"
  using emit_keeps set_block_keeps call_all_keeps
  by (auto simp: replay_block_def split: option.splits if_splits) blast+

lemma replay_keeps:
  assumes "lr_replay_function_stream calloc target c f = Some (rc, c')" and "inv c"
  shows "inv c'"
proof (cases "replay_phi_copies target c f")
  case None
  then show ?thesis using assms by (auto simp: lr_replay_function_stream_def split: if_splits)
next
  case (Some r)
  obtain rc1 c1 where r: "r = (rc1, c1)" by (cases r)
  then have "inv c1" using Some assms(2) replay_phi_copies_keeps by blast
  moreover have "call_all (replay_block target) (blocks f) c1 = Some (rc, c') \<Longrightarrow> inv c'"
    using call_all_keeps [of "replay_block target"] replay_block_keeps calculation by blast
  ultimately show ?thesis using assms Some r
    by (auto simp: lr_replay_function_stream_def Let_def split: if_splits option.splits)
qed

end

section \<open>Condition codes and offsets\<close>






lemma grow_offsets_ok:
  assumes "unat vreg < 2 ^ 31" and "length table = unat cap" and "cap \<noteq> 0" and "2 ^ 31 \<le> unat cap * 2 ^ n"
  shows "\<exists>t. grow_offsets (Suc n) table cap vreg = Some t \<and> unat vreg < length t \<and>
    (\<exists>k. t = table @ replicate k 0)"
  using assms(2-4)
proof (induction n arbitrary: table cap)
  case 0
  then show ?case using assms(1) by (auto simp: word_le_nat_alt intro: exI [of _ 0])
next
  case (Suc n)
  show ?case
  proof (cases "cap \<le> vreg")
    case True
    then have u: "unat (cap * 2) = 2 * unat cap" using assms(1) by (simp add: word_le_nat_alt unat_word_ariths)
    let ?t = "table @ replicate (unat (cap * 2) - unat cap) 0"
    have "length ?t = unat (cap * 2)" using u Suc.prems(1) by simp
    moreover have "cap * 2 \<noteq> 0" using u Suc.prems(2) by (metis mult_eq_0_iff unat_0 unat_eq_0 zero_neq_numeral)
    moreover have "2 ^ 31 \<le> unat (cap * 2) * 2 ^ n" using u Suc.prems(3) by (simp add: mult.assoc mult.left_commute)
    ultimately obtain t k where "grow_offsets (Suc n) ?t (cap * 2) vreg = Some t" "unat vreg < length t" "t = ?t @ replicate k 0"
      using Suc.IH [of ?t "cap * 2"] by blast
    then show ?thesis using True Suc.prems(1,2) by (auto simp: Let_def simp flip: replicate_add)
  next
    case False
    then show ?thesis using Suc.prems(1) by (auto simp: word_le_nat_alt intro: exI [of _ 0])
  qed
qed

text \<open>the static stack slots of a function.  For registers below \<open>2 ^ 31\<close>, setting an offset returns, and
  looking offsets up afterwards gives the new one for the register and the old ones, zero where
  none was set, for all others.\<close>

theorem static_alloca_offsets:
  assumes "length offsets = 0 \<or> 64 \<le> length offsets" and "length offsets < 2 ^ 32" and "unat vreg < 2 ^ 31"
  shows "\<exists>t. lr_target_set_static_alloca_offset offsets vreg offset = Some t \<and>
    lr_target_lookup_static_alloca_offset t v = (if v = vreg then offset else lr_target_lookup_static_alloca_offset offsets v)"
proof -
  let ?n = "of_nat (length offsets) :: u32"
  have n: "unat ?n = length offsets" using assms(2) by (intro unat_of_nat_small) simp
  have "\<exists>t. grow_offsets 64 offsets ?n vreg = Some t \<and> unat vreg < length t \<and> (\<exists>k. t = offsets @ replicate k 0)"
  proof (cases "offsets = []")
    case True
    have "unat (64 :: u32) * 2 ^ 62 = 2 ^ 68" by simp
    then obtain t k where "grow_offsets 63 (replicate 64 0) 64 vreg = Some t" "unat vreg < length t" "t = replicate 64 0 @ replicate k 0"
      using grow_offsets_ok [OF assms(3), of "replicate 64 0" 64 62] by auto
    moreover have "grow_offsets 64 [] 0 vreg = grow_offsets 63 (replicate 64 0) 64 vreg"
      using grow_offsets.simps(2) [of 63 "[]" 0 vreg] by simp
    ultimately show ?thesis using True by (auto simp flip: replicate_add)
  next
    case False
    then have "64 \<le> unat ?n" using assms(1) n by simp
    then have "2 ^ 31 \<le> unat ?n * 2 ^ 63" by (simp add: order_trans [of _ "64 * 2 ^ 63"])
    moreover have "?n \<noteq> 0" using \<open>64 \<le> unat ?n\<close> by auto
    ultimately show ?thesis using grow_offsets_ok [OF assms(3) _ _ , of offsets ?n 63] n by simp
  qed
  then obtain t k where t: "grow_offsets 64 offsets ?n vreg = Some t" "unat vreg < length t" "t = offsets @ replicate k 0" by blast
  have "lr_target_lookup_static_alloca_offset t v = lr_target_lookup_static_alloca_offset offsets v"
    unfolding t(3) lr_target_lookup_static_alloca_offset_def by (simp add: nth_append)
  then show ?thesis using t(1,2)
    by (auto simp: lr_target_set_static_alloca_offset_def lr_target_lookup_static_alloca_offset_def word_unat_eq_iff)
qed

theorem static_alloca_offsets_witness:
  "\<exists>t. lr_target_set_static_alloca_offset [] 70 8 = Some t \<and> lr_target_lookup_static_alloca_offset t 70 = 8"
  using static_alloca_offsets [of "[]" 70 8 70] by simp

end
