(* ===== verification/Riscv_Emit.thy ===== *)
theory Riscv_Emit
  imports Target_Core Obj_Symbols
begin

text \<open>
  The RISC-V backend (\<^verbatim>\<open>src/src/target_riscv64.c\<close>): instruction encoders, the loading of immediates,
  the mapping of virtual registers to machine registers, and the entry points the session calls
  for every function, block and instruction.

  The code buffer is the list of its \<^verbatim>\<open>buflen\<close> bytes and the vreg map the list of its \<^verbatim>\<open>vmap_n\<close>
  entries.  Allocation is a parameter (\<open>alloc\<close>).  Integers of the source keep their width; signed
  additions wrap around.  A context operation returns its status and the context after it, also
  when it fails; \<open>None\<close> stands for a loop that does not end or a read outside an array.
\<close>

section \<open>Registers and opcodes\<close>

definition RV_OPCODE_OP :: u8 where "RV_OPCODE_OP = 0x33"
definition RV_OPCODE_OPIMM :: u8 where "RV_OPCODE_OPIMM = 0x13"
definition RV_OPCODE_LUI :: u8 where "RV_OPCODE_LUI = 0x37"
definition RV_OPCODE_JAL :: u8 where "RV_OPCODE_JAL = 0x6F"
definition RV_OPCODE_JALR :: u8 where "RV_OPCODE_JALR = 0x67"
definition RV_OPCODE_OPFP :: u8 where "RV_OPCODE_OPFP = 0x53"

definition RV_X0 :: u8 where "RV_X0 = 0"
definition RV_RA :: u8 where "RV_RA = 1"
definition RV_T0 :: u8 where "RV_T0 = 5"
definition RV_T1 :: u8 where "RV_T1 = 6"
definition RV_T2 :: u8 where "RV_T2 = 7"
definition RV_S1 :: u8 where "RV_S1 = 9"
definition RV_A0 :: u8 where "RV_A0 = 10"
definition RV_A7 :: u8 where "RV_A7 = 17"
definition RV_FT0 :: u8 where "RV_FT0 = 0"
definition RV_FT1 :: u8 where "RV_FT1 = 1"
definition RV_FA0 :: u8 where "RV_FA0 = 10"
definition RV_FA7 :: u8 where "RV_FA7 = 17"

lemmas rv_const_defs =
  RV_OPCODE_OP_def RV_OPCODE_OPIMM_def RV_OPCODE_LUI_def RV_OPCODE_JAL_def RV_OPCODE_JALR_def RV_OPCODE_OPFP_def
  RV_X0_def RV_RA_def RV_T0_def RV_T1_def RV_T2_def RV_S1_def RV_A0_def RV_A7_def
  RV_FT0_def RV_FT1_def RV_FA0_def RV_FA7_def

definition rv_gpr_tmp_pool :: "u8 list" where
  "rv_gpr_tmp_pool = [28, 29, 30, 31, 18, 19, 20, 21, 22, 23, 24, 25, 26, 27]"

definition rv_fpr_tmp_pool :: "u8 list" where
  "rv_fpr_tmp_pool = [0, 1, 2, 3, 4, 5, 6, 7, 28, 29, 30, 31, 18, 19, 20, 21]"

definition RV_REGCLS_GPR :: u8 where "RV_REGCLS_GPR = 1"
definition RV_REGCLS_FPR :: u8 where "RV_REGCLS_FPR = 2"

definition RV_ERR_UNSUPPORTED_OP :: int where "RV_ERR_UNSUPPORTED_OP = -2"

section \<open>Encoders\<close>

record rv_emit_ctx =
  ec_buf :: bytes
  ec_pos :: nat

definition rv_emit32 :: "rv_emit_ctx \<Rightarrow> u32 \<Rightarrow> int \<times> rv_emit_ctx" where
  "rv_emit32 ec insn =
     (if length (ec_buf ec) < ec_pos ec + 4 then (-1, ec)
      else (0, ec\<lparr>ec_buf := overwrite (ec_buf ec) (ec_pos ec)
                     [ucast insn, ucast (drop_bit 8 insn), ucast (drop_bit 16 insn), ucast (drop_bit 24 insn)],
                  ec_pos := ec_pos ec + 4\<rparr>))"

definition rv_enc_r :: "u8 \<Rightarrow> u8 \<Rightarrow> u8 \<Rightarrow> u8 \<Rightarrow> u8 \<Rightarrow> u8 \<Rightarrow> u32" where
  "rv_enc_r funct7 rs2 rs1 funct3 rd opcode =
     push_bit 25 (ucast (funct7 AND 0x7F)) OR push_bit 20 (ucast (rs2 AND 0x1F)) OR
     push_bit 15 (ucast (rs1 AND 0x1F)) OR push_bit 12 (ucast (funct3 AND 0x7)) OR
     push_bit 7 (ucast (rd AND 0x1F)) OR ucast (opcode AND 0x7F)"

definition rv_enc_i :: "u32 \<Rightarrow> u8 \<Rightarrow> u8 \<Rightarrow> u8 \<Rightarrow> u8 \<Rightarrow> u32" where
  "rv_enc_i imm rs1 funct3 rd opcode =
     push_bit 20 (imm AND 0xFFF) OR push_bit 15 (ucast (rs1 AND 0x1F)) OR push_bit 12 (ucast (funct3 AND 0x7)) OR
     push_bit 7 (ucast (rd AND 0x1F)) OR ucast (opcode AND 0x7F)"

definition rv_enc_u :: "u32 \<Rightarrow> u8 \<Rightarrow> u8 \<Rightarrow> u32" where
  "rv_enc_u imm20 rd opcode = (imm20 AND 0xFFFFF000) OR push_bit 7 (ucast (rd AND 0x1F)) OR ucast (opcode AND 0x7F)"

definition rv_enc_j :: "u8 \<Rightarrow> u8 \<Rightarrow> u32" where
  "rv_enc_j rd opcode = push_bit 7 (ucast (rd AND 0x1F)) OR ucast (opcode AND 0x7F)"

definition rv_type_is_fp :: "lr_type option \<Rightarrow> bool" where
  "rv_type_is_fp t = (case t of None \<Rightarrow> False | Some t' \<Rightarrow> ty_kind t' = LR_TYPE_FLOAT \<or> ty_kind t' = LR_TYPE_DOUBLE)"

definition rv_type_is_intlike :: "lr_type option \<Rightarrow> bool" where
  "rv_type_is_intlike t =
     (case t of None \<Rightarrow> False
      | Some t' \<Rightarrow> ty_kind t' \<in> {LR_TYPE_I1, LR_TYPE_I8, LR_TYPE_I16, LR_TYPE_I32, LR_TYPE_I64, LR_TYPE_PTR})"

text \<open>\<^verbatim>\<open>if (... != 0) return -1;\<close>\<close>

definition rv_then :: "int \<times> rv_emit_ctx \<Rightarrow> (rv_emit_ctx \<Rightarrow> int \<times> rv_emit_ctx) \<Rightarrow> int \<times> rv_emit_ctx" where
  "rv_then r k = (case r of (rc, ec) \<Rightarrow> if rc \<noteq> 0 then (-1, ec) else k ec)"

definition rv_emit_shift_imm :: "rv_emit_ctx \<Rightarrow> u8 \<Rightarrow> u8 \<Rightarrow> u8 \<Rightarrow> u8 \<Rightarrow> int \<times> rv_emit_ctx" where
  "rv_emit_shift_imm ec rd rs funct3 shamt = rv_emit32 ec (rv_enc_i (ucast (shamt AND 0x3F)) rs funct3 rd RV_OPCODE_OPIMM)"

definition rv_emit_mv :: "rv_emit_ctx \<Rightarrow> u8 \<Rightarrow> u8 \<Rightarrow> int \<times> rv_emit_ctx" where
  "rv_emit_mv ec rd rs = rv_emit32 ec (rv_enc_i 0 rs 0 rd RV_OPCODE_OPIMM)"

definition rv_emit_li32 :: "rv_emit_ctx \<Rightarrow> u8 \<Rightarrow> u32 \<Rightarrow> int \<times> rv_emit_ctx" where
  "rv_emit_li32 ec rd imm =
     (if -2048 \<le> sint imm \<and> sint imm \<le> 2047
      then rv_emit32 ec (rv_enc_i imm RV_X0 0 rd RV_OPCODE_OPIMM)
      else let hi20 = (imm + 0x800) AND NOT 0xFFF;
               lo12 = imm - hi20
           in rv_then (rv_emit32 ec (rv_enc_u hi20 rd RV_OPCODE_LUI))
                (\<lambda>ec. rv_emit32 ec (rv_enc_i lo12 rd 0 rd RV_OPCODE_OPIMM)))"

definition rv_emit_li64 :: "rv_emit_ctx \<Rightarrow> u8 \<Rightarrow> u8 \<Rightarrow> u64 \<Rightarrow> int \<times> rv_emit_ctx" where
  "rv_emit_li64 ec rd scratch imm =
     (if -2147483648 \<le> sint imm \<and> sint imm \<le> 2147483647 then rv_emit_li32 ec rd (ucast imm)
      else if rd = scratch then (-1, ec)
      else let hi = ucast (drop_bit 32 imm);
               lo = ucast imm
           in rv_then (rv_emit_li32 ec rd hi)
                (\<lambda>ec. rv_then (rv_emit_shift_imm ec rd rd 1 32)
                (\<lambda>ec. rv_then (rv_emit_li32 ec scratch lo)
                (\<lambda>ec. rv_then (rv_emit_shift_imm ec scratch scratch 1 32)
                (\<lambda>ec. rv_then (rv_emit_shift_imm ec scratch scratch 5 32)
                (\<lambda>ec. rv_emit32 ec (rv_enc_r 0 scratch rd 0 rd RV_OPCODE_OP)))))))"

definition rv_emit_fp_move :: "rv_emit_ctx \<Rightarrow> u8 \<Rightarrow> u8 \<Rightarrow> bool \<Rightarrow> int \<times> rv_emit_ctx" where
  "rv_emit_fp_move ec rd rs is_double =
     rv_emit32 ec (rv_enc_r (if is_double then 0x11 else 0x10) rs rs 0 rd RV_OPCODE_OPFP)"

definition rv_emit_fmv_w_x :: "rv_emit_ctx \<Rightarrow> u8 \<Rightarrow> u8 \<Rightarrow> int \<times> rv_emit_ctx" where
  "rv_emit_fmv_w_x ec fd rs = rv_emit32 ec (rv_enc_r 0x78 0 rs 0 fd RV_OPCODE_OPFP)"

definition rv_emit_fmv_d_x :: "rv_emit_ctx \<Rightarrow> u8 \<Rightarrow> u8 \<Rightarrow> int \<times> rv_emit_ctx" where
  "rv_emit_fmv_d_x ec fd rs = rv_emit32 ec (rv_enc_r 0x79 0 rs 0 fd RV_OPCODE_OPFP)"

section \<open>Operands\<close>

record rv_vreg_map =
  in_use :: bool
  cls :: u8
  reg :: u8

record rv_features =
  feat_name :: string
  ext_m :: bool
  ext_f :: bool
  ext_d :: bool

text \<open>The register an operand is read from, \<open>None\<close> for the status \<open>-1\<close>.\<close>

definition vmap_reg :: "rv_vreg_map list \<Rightarrow> u8 \<Rightarrow> u32 \<Rightarrow> u8 option" where
  "vmap_reg vm c v =
     (if length vm \<le> unat v \<or> \<not> in_use (vm ! unat v) \<or> cls (vm ! unat v) \<noteq> c then None else Some (reg (vm ! unat v)))"

definition rv_operand_gpr ::
  "rv_emit_ctx \<Rightarrow> lr_operand \<Rightarrow> rv_vreg_map list \<Rightarrow> u8 \<Rightarrow> u8 \<Rightarrow> u8 option \<times> rv_emit_ctx" where
  "rv_operand_gpr ec op vm scratch1 scratch2 =
     (if opd_kind op = LR_VAL_VREG then (vmap_reg vm RV_REGCLS_GPR (opd_vreg op), ec)
      else if opd_kind op = LR_VAL_IMM_I64
      then (case rv_emit_li64 ec scratch1 scratch2 (opd_imm_i64 op) of
              (rc, ec') \<Rightarrow> (if rc \<noteq> 0 then None else Some scratch1, ec'))
      else (None, ec))"

text \<open>The conversion from \<^verbatim>\<open>double\<close> to \<^verbatim>\<open>float\<close> on the bits, to nearest with ties to even.\<close>

definition f64_to_f32 :: "u64 \<Rightarrow> u32" where
  "f64_to_f32 b =
     (let s = push_bit 31 (ucast (drop_bit 63 b)) :: u32;
          e = uint (take_bit 11 (drop_bit 52 b));
          m = uint (take_bit 52 b);
          E = e - 896;
          sh = (if 1 \<le> E then 29 else nat (30 - E));
          full = m + 2 ^ 52;
          q = full div 2 ^ sh;
          r = full mod 2 ^ sh;
          q' = (if 2 * r > 2 ^ sh \<or> 2 * r = 2 ^ sh \<and> odd q then q + 1 else q)
      in s OR (if e = 0x7FF then (if m = 0 then 0x7F800000 else 0x7FC00000 OR ucast (drop_bit 29 (take_bit 52 b)))
               else if e = 0 \<or> E < - 23 then 0
               else if 255 \<le> E then 0x7F800000
               else word_of_int (if 1 \<le> E then (E - 1) * 2 ^ 23 + q' else q')))"

definition fp_imm ::
  "rv_emit_ctx \<Rightarrow> u8 \<Rightarrow> u8 \<Rightarrow> u8 \<Rightarrow> u64 \<Rightarrow> (rv_emit_ctx \<Rightarrow> u8 \<Rightarrow> u8 \<Rightarrow> int \<times> rv_emit_ctx) \<Rightarrow> u8 option \<times> rv_emit_ctx" where
  "fp_imm ec gpr_s1 gpr_s2 fpr_s bits fmv =
     (case rv_then (rv_emit_li64 ec gpr_s1 gpr_s2 bits) (\<lambda>ec. fmv ec fpr_s gpr_s1) of
        (rc, ec') \<Rightarrow> (if rc \<noteq> 0 then None else Some fpr_s, ec'))"

definition rv_operand_fpr ::
  "rv_emit_ctx \<Rightarrow> lr_operand \<Rightarrow> rv_vreg_map list \<Rightarrow> u8 \<Rightarrow> u8 \<Rightarrow> u8 \<Rightarrow> rv_features \<Rightarrow> u8 option \<times> rv_emit_ctx" where
  "rv_operand_fpr ec op vm gpr_s1 gpr_s2 fpr_s feat =
     (if \<not> ext_f feat then (None, ec)
      else if opd_kind op = LR_VAL_VREG then (vmap_reg vm RV_REGCLS_FPR (opd_vreg op), ec)
      else if opd_kind op = LR_VAL_IMM_F64
      then (case opd_type op of None \<Rightarrow> (None, ec)
            | Some t \<Rightarrow>
                if ty_kind t = LR_TYPE_FLOAT
                then fp_imm ec gpr_s1 gpr_s2 fpr_s (scast (f64_to_f32 (opd_bits op))) rv_emit_fmv_w_x
                else if ty_kind t = LR_TYPE_DOUBLE
                then if \<not> ext_d feat then (None, ec)
                     else fp_imm ec gpr_s1 gpr_s2 fpr_s (opd_bits op) rv_emit_fmv_d_x
                else (None, ec))
      else (None, ec))"

section \<open>The compile context\<close>

record rv_direct_ctx =
  dc_ec :: rv_emit_ctx
  vmap :: "rv_vreg_map list"
  gpr_next :: nat
  fpr_next :: nat
  dc_mod :: lr_module
  dc_obj :: "lr_objfile_ctx option"
  dc_mode :: lr_compile_mode
  dc_feat :: rv_features
  current_block_id :: u32
  has_current_block :: bool
  ra_saved :: bool
  dc_next_vreg :: u32

definition rv_operand_from_desc :: "lr_operand_desc \<Rightarrow> lr_operand" where
  "rv_operand_from_desc desc =
     \<lparr>opd_kind = od_kind desc, opd_type = od_type desc, global_offset = od_global_offset desc,
      opd_bits = (case od_kind desc of
                    LR_VAL_VREG \<Rightarrow> ucast (ucast (od_bits desc) :: u32) | LR_VAL_IMM_I64 \<Rightarrow> od_bits desc
                  | LR_VAL_IMM_F64 \<Rightarrow> od_bits desc | LR_VAL_BLOCK \<Rightarrow> ucast (ucast (od_bits desc) :: u32)
                  | LR_VAL_GLOBAL \<Rightarrow> ucast (ucast (od_bits desc) :: u32) | _ \<Rightarrow> 0)\<rparr>"

definition note_vreg :: "lr_operand_desc \<Rightarrow> u32 \<Rightarrow> u32" where
  "note_vreg o' nv =
     (if od_kind o' = LR_VAL_VREG \<and> nv \<le> ucast (od_bits o') then ucast (od_bits o') + 1 else nv)"

definition rv_direct_note_vregs :: "rv_direct_ctx \<Rightarrow> lr_compile_inst_desc \<Rightarrow> rv_direct_ctx" where
  "rv_direct_note_vregs ctx desc =
     (let nv = (if d_dest desc \<noteq> 0 \<and> dc_next_vreg ctx \<le> d_dest desc then d_dest desc + 1 else dc_next_vreg ctx)
      in ctx\<lparr>dc_next_vreg := fold note_vreg (d_operands desc) nv\<rparr>)"

datatype rv_alloc = Alloc_ctx | Alloc_vmap u32 | Alloc_params u32

text \<open>\<^verbatim>\<open>while (new_n <= vreg) new_n *= 2\<close> at 32 bits: after 32 doublings the size is zero and stays zero.\<close>

fun grow_vmap :: "nat \<Rightarrow> u32 \<Rightarrow> u32 \<Rightarrow> u32 option" where
  "grow_vmap 0 new_n vreg = None"
| "grow_vmap (Suc k) new_n vreg = (if new_n \<le> vreg then grow_vmap k (new_n * 2) vreg else Some new_n)"

definition no_vreg :: rv_vreg_map where
  "no_vreg = \<lparr>in_use = False, cls = 0, reg = 0\<rparr>"

definition rv_direct_ensure_vmap :: "(rv_alloc \<Rightarrow> bool) \<Rightarrow> rv_direct_ctx \<Rightarrow> u32 \<Rightarrow> (int \<times> rv_direct_ctx) option" where
  "rv_direct_ensure_vmap alloc ctx vreg =
     (if unat vreg < length (vmap ctx) then Some (0, ctx)
      else case grow_vmap 33 (if vmap ctx = [] then 64 else of_nat (length (vmap ctx))) vreg of None \<Rightarrow> None
           | Some new_n \<Rightarrow>
               if \<not> alloc (Alloc_vmap new_n) then Some (-1, ctx)
               else Some (0, ctx\<lparr>vmap := vmap ctx @ replicate (unat new_n - length (vmap ctx)) no_vreg\<rparr>))"

definition set_vreg :: "u32 \<Rightarrow> u8 \<Rightarrow> u8 \<Rightarrow> rv_direct_ctx \<Rightarrow> rv_direct_ctx" where
  "set_vreg v c r ctx = ctx\<lparr>vmap := (vmap ctx)[unat v := \<lparr>in_use = True, cls = c, reg = r\<rparr>]\<rparr>"

text \<open>The parameters are bound to the argument registers in order.\<close>

fun rv_bind_params ::
  "(rv_alloc \<Rightarrow> bool) \<Rightarrow> rv_features \<Rightarrow> (u32 \<times> lr_type option) list \<Rightarrow> u8 \<Rightarrow> u8 \<Rightarrow> rv_direct_ctx \<Rightarrow> (int \<times> rv_direct_ctx) option" where
  "rv_bind_params alloc feat [] next_iarg next_farg ctx = Some (0, ctx)"
| "rv_bind_params alloc feat ((v, pt) # ps) next_iarg next_farg ctx =
     (case rv_direct_ensure_vmap alloc ctx v of None \<Rightarrow> None
      | Some (rc, ctx1) \<Rightarrow>
          if rc \<noteq> 0 then Some (-1, ctx1)
          else if rv_type_is_fp pt
          then if (map_option ty_kind pt = Some LR_TYPE_DOUBLE \<and> \<not> ext_d feat) \<or>
                  (map_option ty_kind pt = Some LR_TYPE_FLOAT \<and> \<not> ext_f feat) \<or> RV_FA7 < next_farg
               then Some (-1, ctx1)
               else rv_bind_params alloc feat ps next_iarg (next_farg + 1) (set_vreg v RV_REGCLS_FPR next_farg ctx1)
          else if \<not> rv_type_is_intlike pt \<or> RV_A7 < next_iarg then Some (-1, ctx1)
               else rv_bind_params alloc feat ps (next_iarg + 1) next_farg (set_vreg v RV_REGCLS_GPR next_iarg ctx1))"

fun note_param :: "u32 \<Rightarrow> nat \<Rightarrow> u32" where
  "note_param nv 0 = nv"
| "note_param nv (Suc i) = (let nv' = note_param nv i in if nv' \<le> of_nat i + 1 then of_nat i + 2 else nv')"

text \<open>The module a function is compiled in is given with the object file it is linked into.\<close>

definition rv_compile_begin_common ::
  "(rv_alloc \<Rightarrow> bool) \<Rightarrow> rv_features \<Rightarrow> lr_compile_func_meta \<Rightarrow> lr_module \<times> lr_objfile_ctx option \<Rightarrow> bytes \<Rightarrow>
     (int \<times> rv_direct_ctx option) option" where
  "rv_compile_begin_common alloc feat meta m buf =
     (if \<not> alloc Alloc_ctx then Some (-1, None)
      else let initial_vmap = (if 64 < fm_next_vreg meta then fm_next_vreg meta else 64);
               n = unat (fm_num_params meta);
               made = (fm_param_vregs meta = None \<and> 0 < n);
               vregs = (case fm_param_vregs meta of Some vs \<Rightarrow> vs | None \<Rightarrow> map (\<lambda>i. of_nat i + 1) [0..<n]);
               types = (case fm_param_types meta of Some ts \<Rightarrow> ts | None \<Rightarrow> replicate n None);
               ctx = \<lparr>dc_ec = \<lparr>ec_buf = buf, ec_pos = 0\<rparr>, vmap = replicate (unat initial_vmap) no_vreg,
                      gpr_next = 0, fpr_next = 0, dc_mod = fst m, dc_obj = snd m, dc_mode = fm_mode meta, dc_feat = feat,
                      current_block_id = 0, has_current_block = False, ra_saved = False,
                      dc_next_vreg = (if made then note_param (fm_next_vreg meta) n else fm_next_vreg meta)\<rparr>
           in if \<not> alloc (Alloc_vmap initial_vmap) \<or> made \<and> \<not> alloc (Alloc_params (fm_num_params meta)) then Some (-1, None)
              else if length vregs < n \<or> length types < n then None
              else case rv_bind_params alloc feat (zip (take n vregs) (take n types)) RV_A0 RV_FA0 ctx of
                     None \<Rightarrow> None
                   | Some (rc, ctx') \<Rightarrow> Some (if rc \<noteq> 0 then (-1, None) else (0, Some ctx')))"

section \<open>Emitting an instruction\<close>

definition is_kind :: "lr_type_kind \<Rightarrow> lr_type option \<Rightarrow> bool" where
  "is_kind k t = (map_option ty_kind t = Some k)"

text \<open>The status and context after an emission into the buffer of the context.\<close>

definition with_ec :: "rv_direct_ctx \<Rightarrow> rv_emit_ctx \<Rightarrow> rv_direct_ctx" where
  "with_ec ctx ec = ctx\<lparr>dc_ec := ec\<rparr>"

text \<open>The last step of most cases: the instruction is emitted and the destination bound to its register.\<close>

definition emit_bind :: "rv_direct_ctx \<Rightarrow> rv_emit_ctx \<Rightarrow> u32 \<Rightarrow> u32 \<Rightarrow> u8 \<Rightarrow> u8 \<Rightarrow> int \<times> rv_direct_ctx" where
  "emit_bind ctx ec insn dest c rd =
     (case rv_emit32 ec insn of
        (rc, ec') \<Rightarrow> if rc \<noteq> 0 then (-1, with_ec ctx ec') else (0, set_vreg dest c rd (with_ec ctx ec')))"

fun rv_binop_enc :: "lr_opcode \<Rightarrow> u8 \<Rightarrow> u8 \<Rightarrow> u8 \<Rightarrow> u32" where
  "rv_binop_enc LR_OP_ADD rs2 rs1 rd = rv_enc_r 0x00 rs2 rs1 0 rd RV_OPCODE_OP"
| "rv_binop_enc LR_OP_SUB rs2 rs1 rd = rv_enc_r 0x20 rs2 rs1 0 rd RV_OPCODE_OP"
| "rv_binop_enc LR_OP_MUL rs2 rs1 rd = rv_enc_r 0x01 rs2 rs1 0 rd RV_OPCODE_OP"
| "rv_binop_enc LR_OP_SDIV rs2 rs1 rd = rv_enc_r 0x01 rs2 rs1 4 rd RV_OPCODE_OP"
| "rv_binop_enc LR_OP_SREM rs2 rs1 rd = rv_enc_r 0x01 rs2 rs1 6 rd RV_OPCODE_OP"
| "rv_binop_enc LR_OP_UDIV rs2 rs1 rd = rv_enc_r 0x01 rs2 rs1 5 rd RV_OPCODE_OP"
| "rv_binop_enc LR_OP_UREM rs2 rs1 rd = rv_enc_r 0x01 rs2 rs1 7 rd RV_OPCODE_OP"
| "rv_binop_enc LR_OP_AND rs2 rs1 rd = rv_enc_r 0x00 rs2 rs1 7 rd RV_OPCODE_OP"
| "rv_binop_enc LR_OP_OR rs2 rs1 rd = rv_enc_r 0x00 rs2 rs1 6 rd RV_OPCODE_OP"
| "rv_binop_enc LR_OP_XOR rs2 rs1 rd = rv_enc_r 0x00 rs2 rs1 4 rd RV_OPCODE_OP"
| "rv_binop_enc LR_OP_SHL rs2 rs1 rd = rv_enc_r 0x00 rs2 rs1 1 rd RV_OPCODE_OP"
| "rv_binop_enc LR_OP_LSHR rs2 rs1 rd = rv_enc_r 0x00 rs2 rs1 5 rd RV_OPCODE_OP"
| "rv_binop_enc LR_OP_ASHR rs2 rs1 rd = rv_enc_r 0x20 rs2 rs1 5 rd RV_OPCODE_OP"
| "rv_binop_enc _ rs2 rs1 rd = 0"

definition rv_int_binops :: "lr_opcode set" where
  "rv_int_binops = {LR_OP_ADD, LR_OP_SUB, LR_OP_MUL, LR_OP_SDIV, LR_OP_SREM, LR_OP_UDIV, LR_OP_UREM, LR_OP_AND, LR_OP_OR,
     LR_OP_XOR, LR_OP_SHL, LR_OP_LSHR, LR_OP_ASHR}"

definition rv_emit_binop :: "rv_direct_ctx \<Rightarrow> lr_compile_inst_desc \<Rightarrow> lr_operand list \<Rightarrow> int \<times> rv_direct_ctx" where
  "rv_emit_binop ctx desc ops =
     (if \<not> rv_type_is_intlike (d_type desc) \<or> length (d_operands desc) \<noteq> 2 then (-1, ctx)
      else if d_op desc \<in> {LR_OP_MUL, LR_OP_SDIV, LR_OP_SREM, LR_OP_UDIV, LR_OP_UREM} \<and> \<not> ext_m (dc_feat ctx) then (-1, ctx)
      else if length rv_gpr_tmp_pool \<le> gpr_next ctx then (-1, ctx)
      else let rd = rv_gpr_tmp_pool ! gpr_next ctx;
               ctx1 = ctx\<lparr>gpr_next := gpr_next ctx + 1\<rparr>
           in case rv_operand_gpr (dc_ec ctx1) (ops ! 0) (vmap ctx1) RV_T1 RV_T0 of
                (None, ec) \<Rightarrow> (-1, with_ec ctx1 ec)
              | (Some rs1, ec) \<Rightarrow>
                  (case rv_operand_gpr ec (ops ! 1) (vmap ctx1) RV_T2 RV_T0 of
                     (None, ec') \<Rightarrow> (-1, with_ec ctx1 ec')
                   | (Some rs2, ec') \<Rightarrow>
                       emit_bind ctx1 ec' (rv_binop_enc (d_op desc) rs2 rs1 rd) (d_dest desc) RV_REGCLS_GPR rd))"

fun rv_fp_base :: "lr_opcode \<Rightarrow> u8" where
  "rv_fp_base LR_OP_FADD = 0x00" | "rv_fp_base LR_OP_FSUB = 0x04" | "rv_fp_base LR_OP_FMUL = 0x08"
| "rv_fp_base LR_OP_FDIV = 0x0C" | "rv_fp_base _ = 0"

definition rv_emit_fp :: "rv_direct_ctx \<Rightarrow> lr_compile_inst_desc \<Rightarrow> lr_operand list \<Rightarrow> int \<times> rv_direct_ctx" where
  "rv_emit_fp ctx desc ops =
     (let is_double = is_kind LR_TYPE_DOUBLE (d_type desc);
          is_float = is_kind LR_TYPE_FLOAT (d_type desc);
          feat = dc_feat ctx
      in if (\<not> is_float \<and> \<not> is_double) \<or> (is_double \<and> \<not> ext_d feat) \<or> (is_float \<and> \<not> ext_f feat) then (-1, ctx)
         else if length rv_fpr_tmp_pool \<le> fpr_next ctx then (-1, ctx)
         else let rd = rv_fpr_tmp_pool ! fpr_next ctx;
                  ctx1 = ctx\<lparr>fpr_next := fpr_next ctx + 1\<rparr>
              in if d_op desc = LR_OP_FNEG
                 then if length (d_operands desc) \<noteq> 1 then (-1, ctx1)
                      else (case rv_operand_fpr (dc_ec ctx1) (ops ! 0) (vmap ctx1) RV_T1 RV_T2 RV_FT0 feat of
                              (None, ec) \<Rightarrow> (-1, with_ec ctx1 ec)
                            | (Some rs1, ec) \<Rightarrow>
                                emit_bind ctx1 ec (rv_enc_r (if is_double then 0x11 else 0x10) rs1 rs1 1 rd RV_OPCODE_OPFP)
                                  (d_dest desc) RV_REGCLS_FPR rd)
                 else if length (d_operands desc) \<noteq> 2 then (-1, ctx1)
                 else (case rv_operand_fpr (dc_ec ctx1) (ops ! 0) (vmap ctx1) RV_T1 RV_T2 RV_FT0 feat of
                         (None, ec) \<Rightarrow> (-1, with_ec ctx1 ec)
                       | (Some rs1, ec) \<Rightarrow>
                           (case rv_operand_fpr ec (ops ! 1) (vmap ctx1) RV_T1 RV_T2 RV_FT1 feat of
                              (None, ec') \<Rightarrow> (-1, with_ec ctx1 ec')
                            | (Some rs2, ec') \<Rightarrow>
                                emit_bind ctx1 ec'
                                  (rv_enc_r (rv_fp_base (d_op desc) + (if is_double then 1 else 0)) rs2 rs1 0 rd RV_OPCODE_OPFP)
                                  (d_dest desc) RV_REGCLS_FPR rd)))"

definition rv_emit_sitofp :: "rv_direct_ctx \<Rightarrow> lr_compile_inst_desc \<Rightarrow> lr_operand list \<Rightarrow> int \<times> rv_direct_ctx" where
  "rv_emit_sitofp ctx desc ops =
     (let is_double = is_kind LR_TYPE_DOUBLE (d_type desc);
          is_float = is_kind LR_TYPE_FLOAT (d_type desc);
          feat = dc_feat ctx
      in if (\<not> is_float \<and> \<not> is_double) \<or> length (d_operands desc) \<noteq> 1 \<or> (is_double \<and> \<not> ext_d feat) \<or>
            (is_float \<and> \<not> ext_f feat) \<or> length rv_fpr_tmp_pool \<le> fpr_next ctx then (-1, ctx)
         else case rv_operand_gpr (dc_ec ctx) (ops ! 0) (vmap ctx) RV_T1 RV_T2 of
                (None, ec) \<Rightarrow> (-1, with_ec ctx ec)
              | (Some rs1, ec) \<Rightarrow>
                  let rd = rv_fpr_tmp_pool ! fpr_next ctx
                  in emit_bind (ctx\<lparr>fpr_next := fpr_next ctx + 1\<rparr>) ec
                       (rv_enc_r (if is_double then 0x69 else 0x68) 2 rs1 0 rd RV_OPCODE_OPFP) (d_dest desc) RV_REGCLS_FPR rd)"

definition rv_emit_fptosi :: "rv_direct_ctx \<Rightarrow> lr_compile_inst_desc \<Rightarrow> lr_operand list \<Rightarrow> int \<times> rv_direct_ctx" where
  "rv_emit_fptosi ctx desc ops =
     (if \<not> rv_type_is_intlike (d_type desc) \<or> length (d_operands desc) \<noteq> 1 \<or> length rv_gpr_tmp_pool \<le> gpr_next ctx
      then (-1, ctx)
      else let src_double = is_kind LR_TYPE_DOUBLE (opd_type (ops ! 0));
               src_float = is_kind LR_TYPE_FLOAT (opd_type (ops ! 0));
               feat = dc_feat ctx
           in if (\<not> src_float \<and> \<not> src_double) \<or> (src_double \<and> \<not> ext_d feat) \<or> (src_float \<and> \<not> ext_f feat) then (-1, ctx)
              else case rv_operand_fpr (dc_ec ctx) (ops ! 0) (vmap ctx) RV_T1 RV_T2 RV_FT0 feat of
                     (None, ec) \<Rightarrow> (-1, with_ec ctx ec)
                   | (Some frs, ec) \<Rightarrow>
                       let rd = rv_gpr_tmp_pool ! gpr_next ctx
                       in emit_bind (ctx\<lparr>gpr_next := gpr_next ctx + 1\<rparr>) ec
                            (rv_enc_r (if src_double then 0x61 else 0x60) 2 frs 1 rd RV_OPCODE_OPFP) (d_dest desc) RV_REGCLS_GPR rd)"

definition rv_emit_fpconv :: "rv_direct_ctx \<Rightarrow> lr_compile_inst_desc \<Rightarrow> lr_operand list \<Rightarrow> int \<times> rv_direct_ctx" where
  "rv_emit_fpconv ctx desc ops =
     (let to_double = (d_op desc = LR_OP_FPEXT);
          feat = dc_feat ctx
      in if length (d_operands desc) \<noteq> 1 \<or> length rv_fpr_tmp_pool \<le> fpr_next ctx \<or> \<not> ext_d feat then (-1, ctx)
         else if opd_type (ops ! 0) = None \<or> d_type desc = None then (-1, ctx)
         else if to_double \<and> \<not> (is_kind LR_TYPE_FLOAT (opd_type (ops ! 0)) \<and> is_kind LR_TYPE_DOUBLE (d_type desc)) then (-1, ctx)
         else if \<not> to_double \<and> \<not> (is_kind LR_TYPE_DOUBLE (opd_type (ops ! 0)) \<and> is_kind LR_TYPE_FLOAT (d_type desc)) then (-1, ctx)
         else case rv_operand_fpr (dc_ec ctx) (ops ! 0) (vmap ctx) RV_T1 RV_T2 RV_FT0 feat of
                (None, ec) \<Rightarrow> (-1, with_ec ctx ec)
              | (Some frs, ec) \<Rightarrow>
                  let rd = rv_fpr_tmp_pool ! fpr_next ctx
                  in emit_bind (ctx\<lparr>fpr_next := fpr_next ctx + 1\<rparr>) ec
                       (rv_enc_r (if to_double then 0x21 else 0x20) (if to_double then 0 else 1) frs 0 rd RV_OPCODE_OPFP)
                       (d_dest desc) RV_REGCLS_FPR rd)"

definition rv_emit_cast :: "rv_direct_ctx \<Rightarrow> lr_compile_inst_desc \<Rightarrow> lr_operand list \<Rightarrow> int \<times> rv_direct_ctx" where
  "rv_emit_cast ctx desc ops =
     (if length (d_operands desc) \<noteq> 1 then (-1, ctx)
      else if rv_type_is_intlike (d_type desc) \<and> rv_type_is_intlike (opd_type (ops ! 0))
      then (case rv_operand_gpr (dc_ec ctx) (ops ! 0) (vmap ctx) RV_T1 RV_T2 of
              (None, ec) \<Rightarrow> (-1, with_ec ctx ec)
            | (Some rs, ec) \<Rightarrow>
                if length rv_gpr_tmp_pool \<le> gpr_next ctx then (-1, with_ec ctx ec)
                else let rd = rv_gpr_tmp_pool ! gpr_next ctx;
                         ctx1 = ctx\<lparr>gpr_next := gpr_next ctx + 1\<rparr>
                     in case rv_emit_mv ec rd rs of
                          (rc, ec') \<Rightarrow> if rc \<noteq> 0 then (-1, with_ec ctx1 ec')
                                       else (0, set_vreg (d_dest desc) RV_REGCLS_GPR rd (with_ec ctx1 ec')))
      else (-1, ctx))"

text \<open>The return: \<^verbatim>\<open>mv ra, s1\<close> when the return address was saved, then \<^verbatim>\<open>jalr x0, 0(ra)\<close>.\<close>

definition rv_emit_return :: "bool \<Rightarrow> rv_emit_ctx \<Rightarrow> int \<times> rv_emit_ctx" where
  "rv_emit_return saved ec =
     rv_then (if saved then rv_emit_mv ec RV_RA RV_S1 else (0, ec))
       (\<lambda>ec. rv_then (rv_emit32 ec (rv_enc_i 0 RV_RA 0 RV_X0 RV_OPCODE_JALR)) (\<lambda>ec. (0, ec)))"

definition rv_emit_ret :: "rv_direct_ctx \<Rightarrow> lr_compile_inst_desc \<Rightarrow> lr_operand list \<Rightarrow> int \<times> rv_direct_ctx" where
  "rv_emit_ret ctx desc ops =
     (if length (d_operands desc) \<noteq> 1 then (-1, ctx)
      else let fp = rv_type_is_fp (opd_type (ops ! 0));
               abi = (if fp then RV_FA0 else RV_A0)
           in case (if fp then rv_operand_fpr (dc_ec ctx) (ops ! 0) (vmap ctx) RV_T1 RV_T2 RV_FT0 (dc_feat ctx)
                    else rv_operand_gpr (dc_ec ctx) (ops ! 0) (vmap ctx) RV_T1 RV_T2) of
                (None, ec) \<Rightarrow> (-1, with_ec ctx ec)
              | (Some src, ec) \<Rightarrow>
                  (case rv_then (if src = abi then (0, ec)
                                 else if fp then rv_emit_fp_move ec abi src (is_kind LR_TYPE_DOUBLE (opd_type (ops ! 0)))
                                 else rv_emit_mv ec abi src)
                          (rv_emit_return (ra_saved ctx)) of
                     (rc, ec') \<Rightarrow> (rc, with_ec ctx ec')))"

text \<open>The argument moves of a call, one after the other.  An argument beyond the sixteen converted
  operands is \<open>None\<close>: the source reads past its array.\<close>

fun rv_call_args ::
  "rv_features \<Rightarrow> rv_vreg_map list \<Rightarrow> lr_operand option list \<Rightarrow> u8 \<Rightarrow> u8 \<Rightarrow> rv_emit_ctx \<Rightarrow> (int \<times> rv_emit_ctx) option" where
  "rv_call_args feat vm [] next_iarg next_farg ec = Some (0, ec)"
| "rv_call_args feat vm (None # args) next_iarg next_farg ec = None"
| "rv_call_args feat vm (Some a # args) next_iarg next_farg ec =
     (if rv_type_is_fp (opd_type a)
      then if RV_FA7 < next_farg then Some (-1, ec)
           else (case rv_operand_fpr ec a vm RV_T1 RV_T2 RV_FT0 feat of
                   (None, ec') \<Rightarrow> Some (-1, ec')
                 | (Some src, ec') \<Rightarrow>
                     (case (if src \<noteq> next_farg then rv_emit_fp_move ec' next_farg src (is_kind LR_TYPE_DOUBLE (opd_type a)) else (0, ec')) of
                        (rc, ec'') \<Rightarrow> if rc \<noteq> 0 then Some (-1, ec'')
                                      else rv_call_args feat vm args next_iarg (next_farg + 1) ec''))
      else if RV_A7 < next_iarg then Some (-1, ec)
           else (case rv_operand_gpr ec a vm RV_T1 RV_T0 of
                   (None, ec') \<Rightarrow> Some (-1, ec')
                 | (Some src, ec') \<Rightarrow>
                     (case (if src \<noteq> next_iarg then rv_emit_mv ec' next_iarg src else (0, ec')) of
                        (rc, ec'') \<Rightarrow> if rc \<noteq> 0 then Some (-1, ec'')
                                      else rv_call_args feat vm args (next_iarg + 1) next_farg ec'')))"

definition LR_RELOC_RISCV64_JAL :: u8 where
  "LR_RELOC_RISCV64_JAL = 40"

text \<open>From the jump of a call on: \<open>calloc\<close> and \<open>realloc\<close> are those of the object file's tables.\<close>

definition rv_emit_jump ::
  "(u32 \<Rightarrow> bool) \<Rightarrow> (u32 \<Rightarrow> bool) \<Rightarrow> rv_direct_ctx \<Rightarrow> lr_compile_inst_desc \<Rightarrow> lr_objfile_ctx \<Rightarrow> string \<Rightarrow>
     (int \<times> rv_direct_ctx) option" where
  "rv_emit_jump calloc realloc ctx desc oc callee_name =
     (case lr_obj_ensure_symbol calloc realloc oc callee_name False 0 0 of None \<Rightarrow> None
      | Some (sym_idx, oc1) \<Rightarrow>
          if sym_idx = UINT32_MAX then Some (-1, ctx\<lparr>dc_obj := Some oc1\<rparr>)
          else let jal_off = of_nat (ec_pos (dc_ec ctx))
               in case rv_emit32 (dc_ec ctx) (rv_enc_j RV_RA RV_OPCODE_JAL) of
                    (rc, ec) \<Rightarrow>
                      if rc \<noteq> 0 then Some (-1, with_ec (ctx\<lparr>dc_obj := Some oc1\<rparr>) ec)
                      else let oc2 = lr_obj_add_reloc realloc oc1 jal_off sym_idx LR_RELOC_RISCV64_JAL;
                               ctx2 = with_ec (ctx\<lparr>dc_obj := Some oc2\<rparr>) ec
                           in Some (0, if d_type desc = None \<or> is_kind LR_TYPE_VOID (d_type desc) then ctx2
                                       else if rv_type_is_fp (d_type desc) then set_vreg (d_dest desc) RV_REGCLS_FPR RV_FA0 ctx2
                                       else set_vreg (d_dest desc) RV_REGCLS_GPR RV_A0 ctx2))"

definition rv_emit_call ::
  "(u32 \<Rightarrow> bool) \<Rightarrow> (u32 \<Rightarrow> bool) \<Rightarrow> rv_direct_ctx \<Rightarrow> lr_compile_inst_desc \<Rightarrow> lr_operand list \<Rightarrow> (int \<times> rv_direct_ctx) option" where
  "rv_emit_call calloc realloc ctx desc ops =
     (if d_operands desc = [] \<or> opd_kind (ops ! 0) \<noteq> LR_VAL_GLOBAL then Some (-1, ctx)
      else case (lr_module_symbol_name (dc_mod ctx) (opd_global_id (ops ! 0)), dc_obj ctx) of
             (Some callee_name, Some oc) \<Rightarrow>
               (case (if ra_saved ctx then (0, dc_ec ctx) else rv_emit_mv (dc_ec ctx) RV_S1 RV_RA) of
                  (rc, ec) \<Rightarrow>
                    if rc \<noteq> 0 then Some (-1, with_ec ctx ec)
                    else let ctx1 = ctx\<lparr>ra_saved := True\<rparr>;
                             args = map Some (drop 1 ops) @ replicate (length (d_operands desc) - length ops) None
                         in case rv_call_args (dc_feat ctx1) (vmap ctx1) args RV_A0 RV_FA0 ec of None \<Rightarrow> None
                            | Some (rc2, ec2) \<Rightarrow>
                                if rc2 \<noteq> 0 then Some (-1, with_ec ctx1 ec2)
                                else rv_emit_jump calloc realloc (with_ec ctx1 ec2) desc oc callee_name)
           | _ \<Rightarrow> Some (-1, ctx))"

definition rv_unsupported :: "lr_opcode set" where
  "rv_unsupported = {LR_OP_ALLOCA, LR_OP_BR, LR_OP_CONDBR, LR_OP_EXTRACTVALUE, LR_OP_FCMP, LR_OP_FPTOUI, LR_OP_FREM,
     LR_OP_GEP, LR_OP_ICMP, LR_OP_INSERTVALUE, LR_OP_INTTOPTR, LR_OP_LOAD, LR_OP_PTRTOINT, LR_OP_SELECT, LR_OP_STORE,
     LR_OP_UITOFP, LR_OP_UNREACHABLE}"

definition rv_dispatch ::
  "(u32 \<Rightarrow> bool) \<Rightarrow> (u32 \<Rightarrow> bool) \<Rightarrow> rv_direct_ctx \<Rightarrow> lr_compile_inst_desc \<Rightarrow> lr_operand list \<Rightarrow> (int \<times> rv_direct_ctx) option" where
  "rv_dispatch calloc realloc ctx desc ops =
     (if d_op desc \<in> rv_unsupported then Some (RV_ERR_UNSUPPORTED_OP, ctx)
      else if d_op desc = LR_OP_CALL then rv_emit_call calloc realloc ctx desc ops
      else if d_op desc \<in> rv_int_binops then Some (rv_emit_binop ctx desc ops)
      else if d_op desc \<in> {LR_OP_FADD, LR_OP_FSUB, LR_OP_FMUL, LR_OP_FDIV, LR_OP_FNEG} then Some (rv_emit_fp ctx desc ops)
      else if d_op desc = LR_OP_SITOFP then Some (rv_emit_sitofp ctx desc ops)
      else if d_op desc = LR_OP_FPTOSI then Some (rv_emit_fptosi ctx desc ops)
      else if d_op desc = LR_OP_FPEXT \<or> d_op desc = LR_OP_FPTRUNC then Some (rv_emit_fpconv ctx desc ops)
      else if d_op desc \<in> {LR_OP_TRUNC, LR_OP_ZEXT, LR_OP_SEXT, LR_OP_BITCAST} then Some (rv_emit_cast ctx desc ops)
      else if d_op desc = LR_OP_RET then Some (rv_emit_ret ctx desc ops)
      else if d_op desc = LR_OP_RET_VOID
           then Some (case rv_emit_return (ra_saved ctx) (dc_ec ctx) of (rc, ec) \<Rightarrow> (rc, with_ec ctx ec))
      else if d_op desc = LR_OP_PHI then Some (0, ctx)
      else Some (-1, ctx))"

record rv_memory =
  arena_ok :: "rv_alloc \<Rightarrow> bool"
  calloc_ok :: "u32 \<Rightarrow> bool"
  realloc_ok :: "u32 \<Rightarrow> bool"

definition rv_compile_emit :: "rv_memory \<Rightarrow> rv_direct_ctx \<Rightarrow> lr_compile_inst_desc \<Rightarrow> (int \<times> rv_direct_ctx) option" where
  "rv_compile_emit mem ctx desc =
     (if \<not> has_current_block ctx then Some (-1, ctx)
      else let ctx1 = rv_direct_note_vregs ctx desc;
               ops = map rv_operand_from_desc (take 16 (d_operands desc))
           in case rv_direct_ensure_vmap (arena_ok mem) ctx1 (d_dest desc) of None \<Rightarrow> None
              | Some (rc, ctx2) \<Rightarrow>
                  if rc \<noteq> 0 then Some (-1, ctx2) else rv_dispatch (calloc_ok mem) (realloc_ok mem) ctx2 desc ops)"

section \<open>The other entry points and the targets\<close>

definition rv_compile_set_block :: "rv_direct_ctx \<Rightarrow> u32 \<Rightarrow> (int \<times> rv_direct_ctx) option" where
  "rv_compile_set_block ctx block_id = Some (0, ctx\<lparr>current_block_id := block_id, has_current_block := True\<rparr>)"

definition rv_compile_end :: "rv_direct_ctx \<Rightarrow> (int \<times> nat) option" where
  "rv_compile_end ctx =
     Some (if length (ec_buf (dc_ec ctx)) < ec_pos (dc_ec ctx) then -1 else 0, ec_pos (dc_ec ctx))"

definition rv_compile_add_phi_copy ::
  "rv_direct_ctx \<Rightarrow> u32 \<Rightarrow> u32 \<Rightarrow> u32 \<Rightarrow> lr_operand_desc \<Rightarrow> (int \<times> rv_direct_ctx) option" where
  "rv_compile_add_phi_copy ctx pred_block_id succ_block_id dest_vreg src_op = Some (-1, ctx)"

definition rv_feat_gc :: rv_features where
  "rv_feat_gc = \<lparr>feat_name = ''rv64gc'', ext_m = True, ext_f = True, ext_d = True\<rparr>"

definition rv_feat_im :: rv_features where
  "rv_feat_im = \<lparr>feat_name = ''rv64im'', ext_m = True, ext_f = False, ext_d = False\<rparr>"

definition rv_compile_begin_rv64gc ::
  "rv_memory \<Rightarrow> lr_compile_func_meta \<Rightarrow> lr_module \<times> lr_objfile_ctx option \<Rightarrow> bytes \<Rightarrow> (int \<times> rv_direct_ctx option) option" where
  "rv_compile_begin_rv64gc mem = rv_compile_begin_common (arena_ok mem) rv_feat_gc"

definition rv_compile_begin_rv64im ::
  "rv_memory \<Rightarrow> lr_compile_func_meta \<Rightarrow> lr_module \<times> lr_objfile_ctx option \<Rightarrow> bytes \<Rightarrow> (int \<times> rv_direct_ctx option) option" where
  "rv_compile_begin_rv64im mem = rv_compile_begin_common (arena_ok mem) rv_feat_im"

definition target_riscv64gc :: "rv_memory \<Rightarrow> (lr_module \<times> lr_objfile_ctx option, rv_direct_ctx) lr_target" where
  "target_riscv64gc mem = \<lparr>t_name = ''riscv64gc'', ptr_size = 8, compile_begin = Some (rv_compile_begin_rv64gc mem),
     compile_emit = Some (rv_compile_emit mem), compile_set_block = Some rv_compile_set_block,
     compile_end = Some rv_compile_end, compile_add_phi_copy = Some rv_compile_add_phi_copy\<rparr>"

definition target_riscv64im :: "rv_memory \<Rightarrow> (lr_module \<times> lr_objfile_ctx option, rv_direct_ctx) lr_target" where
  "target_riscv64im mem = \<lparr>t_name = ''riscv64im'', ptr_size = 8, compile_begin = Some (rv_compile_begin_rv64im mem),
     compile_emit = Some (rv_compile_emit mem), compile_set_block = Some rv_compile_set_block,
     compile_end = Some rv_compile_end, compile_add_phi_copy = Some rv_compile_add_phi_copy\<rparr>"

end
