(* ===== verification/Riscv_Exec.thy ===== *)
theory Riscv_Exec
  imports Riscv_Emit
begin

text \<open>
  A semantics of the RV64 integer instructions the backend emits, after the instruction set
  manual, and the proof that the emitted code computes what it should: the encoders are inverted
  by the decoder of the machine, code is appended to the buffer within its bounds, and the
  instruction sequences that load an immediate load it.

  The machine state is the general registers; \<open>None\<close> is an instruction outside the subset.
\<close>

section \<open>The machine\<close>

type_synonym rv_regs = "nat \<Rightarrow> u64"

definition rv_read :: "rv_regs \<Rightarrow> nat \<Rightarrow> u64" where
  "rv_read x r = (if r = 0 then 0 else x r)"

definition rv_write :: "nat \<Rightarrow> u64 \<Rightarrow> rv_regs \<Rightarrow> rv_regs" where
  "rv_write r v x = (if r = 0 then x else x(r := v))"

definition rv_field :: "nat \<Rightarrow> nat \<Rightarrow> u32 \<Rightarrow> nat" where
  "rv_field lo n w = unat (take_bit n (drop_bit lo w))"

definition rv_imm_i :: "u32 \<Rightarrow> u64" where
  "rv_imm_i w = signed_take_bit 11 (ucast (drop_bit 20 w))"

definition rv_imm_u :: "u32 \<Rightarrow> u64" where
  "rv_imm_u w = scast (push_bit 12 (drop_bit 12 w))"

definition rv_div :: "u64 \<Rightarrow> u64 \<Rightarrow> u64" where
  "rv_div a b = (if b = 0 then - 1 else word_of_int (sint a sdiv sint b))"

definition rv_rem :: "u64 \<Rightarrow> u64 \<Rightarrow> u64" where
  "rv_rem a b = (if b = 0 then a else word_of_int (sint a smod sint b))"

definition rv_divu :: "u64 \<Rightarrow> u64 \<Rightarrow> u64" where
  "rv_divu a b = (if b = 0 then - 1 else a div b)"

definition rv_remu :: "u64 \<Rightarrow> u64 \<Rightarrow> u64" where
  "rv_remu a b = (if b = 0 then a else a mod b)"

definition rv_alu :: "nat \<Rightarrow> nat \<Rightarrow> u64 \<Rightarrow> u64 \<Rightarrow> u64 option" where
  "rv_alu f7 f3 a b =
     (if f7 = 0 then
        (if f3 = 0 then Some (a + b) else if f3 = 1 then Some (push_bit (unat (take_bit 6 b)) a)
         else if f3 = 4 then Some (a XOR b) else if f3 = 5 then Some (drop_bit (unat (take_bit 6 b)) a)
         else if f3 = 6 then Some (a OR b) else if f3 = 7 then Some (a AND b) else None)
      else if f7 = 0x20 then
        (if f3 = 0 then Some (a - b) else if f3 = 5 then Some (signed_drop_bit (unat (take_bit 6 b)) a) else None)
      else if f7 = 1 then
        (if f3 = 0 then Some (a * b) else if f3 = 4 then Some (rv_div a b) else if f3 = 5 then Some (rv_divu a b)
         else if f3 = 6 then Some (rv_rem a b) else if f3 = 7 then Some (rv_remu a b) else None)
      else None)"

definition rv_alu_imm :: "u32 \<Rightarrow> u64 \<Rightarrow> u64 option" where
  "rv_alu_imm w a =
     (let f3 = rv_field 12 3 w
      in if f3 = 0 then Some (a + rv_imm_i w)
         else if f3 = 1 \<and> rv_field 26 6 w = 0 then Some (push_bit (rv_field 20 6 w) a)
         else if f3 = 5 \<and> rv_field 26 6 w = 0 then Some (drop_bit (rv_field 20 6 w) a)
         else if f3 = 5 \<and> rv_field 26 6 w = 16 then Some (signed_drop_bit (rv_field 20 6 w) a)
         else None)"

definition rv_exec1 :: "u32 \<Rightarrow> rv_regs \<Rightarrow> rv_regs option" where
  "rv_exec1 w x =
     (let opc = rv_field 0 7 w; rd = rv_field 7 5 w; a = rv_read x (rv_field 15 5 w)
      in if opc = 0x13 then map_option (\<lambda>v. rv_write rd v x) (rv_alu_imm w a)
         else if opc = 0x37 then Some (rv_write rd (rv_imm_u w) x)
         else if opc = 0x33
         then map_option (\<lambda>v. rv_write rd v x) (rv_alu (rv_field 25 7 w) (rv_field 12 3 w) a (rv_read x (rv_field 20 5 w)))
         else None)"

fun rv_exec :: "u32 list \<Rightarrow> rv_regs \<Rightarrow> rv_regs option" where
  "rv_exec [] x = Some x"
| "rv_exec (w # ws) x = (case rv_exec1 w x of None \<Rightarrow> None | Some x' \<Rightarrow> rv_exec ws x')"

text \<open>The instructions in a sequence of bytes.\<close>

fun rv_words :: "bytes \<Rightarrow> u32 list" where
  "rv_words (a # b # c # d # bs) = le_join [a, b, c, d] # rv_words bs"
| "rv_words _ = []"

lemma rv_exec_append: "rv_exec (us @ vs) x = (case rv_exec us x of None \<Rightarrow> None | Some x' \<Rightarrow> rv_exec vs x')"
  by (induction us arbitrary: x) (auto split: option.splits)

section \<open>Decoding what the encoders make\<close>

lemma byte_masks:
  "(b :: u8) AND 0x7F = take_bit 7 b" "(b :: u8) AND 0x1F = take_bit 5 b" "(b :: u8) AND 0x7 = take_bit 3 b"
  "(b :: u8) AND 0x3F = take_bit 6 b"
  by (simp_all add: take_bit_eq_mask mask_eq_exp_minus_1)

lemma imm_masks:
  "(w :: u32) AND 0xFFF = take_bit 12 w" "(w :: u32) AND 0xFFFFF000 = push_bit 12 (drop_bit 12 w)"
  "(w :: u32) AND NOT 0xFFF = push_bit 12 (drop_bit 12 w)"
proof -
  have m: "(0xFFF :: u32) = mask 12" by (simp add: mask_eq_exp_minus_1)
  show "w AND 0xFFF = take_bit 12 w" by (simp add: m take_bit_eq_mask)
  have "w AND NOT (mask 12) = push_bit 12 (drop_bit 12 w)" by (rule and_not_mask_eq)
  moreover have "(0xFFFFF000 :: u32) = NOT 0xFFF" by simp
  ultimately show "w AND 0xFFFFF000 = push_bit 12 (drop_bit 12 w)" "w AND NOT 0xFFF = push_bit 12 (drop_bit 12 w)"
    by (simp_all only: m)
qed

lemma unat_ucast_take: "n \<le> 8 \<Longrightarrow> unat (ucast (take_bit n (b :: u8)) :: u32) = unat (take_bit n b)"
  by (rule unat_ucast_up) simp

lemma enc_r_bits:
  "take_bit 7 (drop_bit 0 (rv_enc_r f7 rs2 rs1 f3 rd opc)) = ucast (take_bit 7 opc)"
  "take_bit 5 (drop_bit 7 (rv_enc_r f7 rs2 rs1 f3 rd opc)) = ucast (take_bit 5 rd)"
  "take_bit 3 (drop_bit 12 (rv_enc_r f7 rs2 rs1 f3 rd opc)) = ucast (take_bit 3 f3)"
  "take_bit 5 (drop_bit 15 (rv_enc_r f7 rs2 rs1 f3 rd opc)) = ucast (take_bit 5 rs1)"
  "take_bit 5 (drop_bit 20 (rv_enc_r f7 rs2 rs1 f3 rd opc)) = ucast (take_bit 5 rs2)"
  "take_bit 7 (drop_bit 25 (rv_enc_r f7 rs2 rs1 f3 rd opc)) = ucast (take_bit 7 f7)"
  unfolding rv_enc_r_def byte_masks
  subgoal by (intro bit_word_eqI) (auto simp: bit_simps)
  subgoal by (intro bit_word_eqI) (auto simp: bit_simps)
  subgoal by (intro bit_word_eqI) (auto simp: bit_simps)
  subgoal by (intro bit_word_eqI) (auto simp: bit_simps)
  subgoal by (intro bit_word_eqI) (auto simp: bit_simps)
  subgoal by (intro bit_word_eqI) (auto simp: bit_simps)
  done

lemma enc_r_fields:
  "rv_field 0 7 (rv_enc_r f7 rs2 rs1 f3 rd opc) = unat (take_bit 7 opc)"
  "rv_field 7 5 (rv_enc_r f7 rs2 rs1 f3 rd opc) = unat (take_bit 5 rd)"
  "rv_field 12 3 (rv_enc_r f7 rs2 rs1 f3 rd opc) = unat (take_bit 3 f3)"
  "rv_field 15 5 (rv_enc_r f7 rs2 rs1 f3 rd opc) = unat (take_bit 5 rs1)"
  "rv_field 20 5 (rv_enc_r f7 rs2 rs1 f3 rd opc) = unat (take_bit 5 rs2)"
  "rv_field 25 7 (rv_enc_r f7 rs2 rs1 f3 rd opc) = unat (take_bit 7 f7)"
  unfolding rv_field_def enc_r_bits by (simp_all only: unat_ucast_take)

lemma enc_i_bits:
  "take_bit 7 (drop_bit 0 (rv_enc_i imm rs1 f3 rd opc)) = ucast (take_bit 7 opc)"
  "take_bit 5 (drop_bit 7 (rv_enc_i imm rs1 f3 rd opc)) = ucast (take_bit 5 rd)"
  "take_bit 3 (drop_bit 12 (rv_enc_i imm rs1 f3 rd opc)) = ucast (take_bit 3 f3)"
  "take_bit 5 (drop_bit 15 (rv_enc_i imm rs1 f3 rd opc)) = ucast (take_bit 5 rs1)"
  "drop_bit 20 (rv_enc_i imm rs1 f3 rd opc) = take_bit 12 imm"
  unfolding rv_enc_i_def byte_masks imm_masks
  subgoal by (intro bit_word_eqI) (auto simp: bit_simps)
  subgoal by (intro bit_word_eqI) (auto simp: bit_simps)
  subgoal by (intro bit_word_eqI) (auto simp: bit_simps)
  subgoal by (intro bit_word_eqI) (auto simp: bit_simps)
  subgoal by (intro bit_word_eqI) (auto simp: bit_simps)
  done

lemma enc_i_fields:
  "rv_field 0 7 (rv_enc_i imm rs1 f3 rd opc) = unat (take_bit 7 opc)"
  "rv_field 7 5 (rv_enc_i imm rs1 f3 rd opc) = unat (take_bit 5 rd)"
  "rv_field 12 3 (rv_enc_i imm rs1 f3 rd opc) = unat (take_bit 3 f3)"
  "rv_field 15 5 (rv_enc_i imm rs1 f3 rd opc) = unat (take_bit 5 rs1)"
  unfolding rv_field_def enc_i_bits by (simp_all only: unat_ucast_take)

lemma enc_u_fields:
  "rv_field 0 7 (rv_enc_u imm rd opc) = unat (take_bit 7 opc)"
  "rv_field 7 5 (rv_enc_u imm rd opc) = unat (take_bit 5 rd)"
  "drop_bit 12 (rv_enc_u imm rd opc) = drop_bit 12 imm"
proof -
  let ?w = "rv_enc_u imm rd opc"
  show "drop_bit 12 ?w = drop_bit 12 imm"
    unfolding rv_enc_u_def byte_masks imm_masks
    by (intro bit_word_eqI) (auto simp: bit_simps dest: bit_imp_le_length)
  have "take_bit 7 (drop_bit 0 ?w) = ucast (take_bit 7 opc)" "take_bit 5 (drop_bit 7 ?w) = ucast (take_bit 5 rd)"
    unfolding rv_enc_u_def byte_masks imm_masks by (intro bit_word_eqI, auto simp: bit_simps)+
  then show "rv_field 0 7 ?w = unat (take_bit 7 opc)" "rv_field 7 5 ?w = unat (take_bit 5 rd)"
    unfolding rv_field_def by (simp_all only: unat_ucast_take)
qed

section \<open>Executing single instructions\<close>

definition rv_reg :: "u8 \<Rightarrow> nat" where
  "rv_reg r = unat (take_bit 5 r)"

lemma opcode_values:
  "unat (take_bit 7 RV_OPCODE_OP) = 0x33" "unat (take_bit 7 RV_OPCODE_OPIMM) = 0x13" "unat (take_bit 7 RV_OPCODE_LUI) = 0x37"
  "unat (take_bit 7 RV_OPCODE_JALR) = 0x67" "unat (take_bit 7 RV_OPCODE_JAL) = 0x6F" "unat (take_bit 7 RV_OPCODE_OPFP) = 0x53"
  by (simp_all add: rv_const_defs)

lemma exec_addi:
  "rv_exec1 (rv_enc_i imm rs 0 rd RV_OPCODE_OPIMM) x =
     Some (rv_write (rv_reg rd) (rv_read x (rv_reg rs) + signed_take_bit 11 (ucast imm)) x)"
proof -
  have "signed_take_bit 11 (ucast (take_bit 12 imm) :: u64) = signed_take_bit 11 (ucast imm)"
    by (rule bit_word_eqI) (auto simp: bit_simps)
  then show ?thesis
    by (simp add: rv_exec1_def rv_alu_imm_def enc_i_fields enc_i_bits opcode_values rv_imm_i_def rv_reg_def)
qed

lemma exec_lui:
  "rv_exec1 (rv_enc_u imm rd RV_OPCODE_LUI) x = Some (rv_write (rv_reg rd) (scast (push_bit 12 (drop_bit 12 imm))) x)"
  by (simp only: rv_exec1_def enc_u_fields opcode_values rv_imm_u_def rv_reg_def Let_def) simp

lemma shift_fields:
  "rv_field 20 6 (rv_enc_i (ucast (take_bit 6 sh :: u8)) rs f3 rd opc) = unat (take_bit 6 sh)"
  "rv_field 26 6 (rv_enc_i (ucast (take_bit 6 sh :: u8)) rs f3 rd opc) = 0"
proof -
  let ?w = "rv_enc_i (ucast (take_bit 6 sh :: u8)) rs f3 rd opc"
  have d: "drop_bit 20 ?w = ucast (take_bit 6 sh)"
    unfolding enc_i_bits by (rule bit_word_eqI) (auto simp: bit_simps)
  then have "take_bit 6 (drop_bit 20 ?w) = ucast (take_bit 6 sh)" by (simp only:) (rule bit_word_eqI, auto simp: bit_simps)
  then show "rv_field 20 6 ?w = unat (take_bit 6 sh)" unfolding rv_field_def by (simp only: unat_ucast_take)
  have "drop_bit 26 ?w = drop_bit 6 (drop_bit 20 ?w)" by simp
  also have "\<dots> = 0" unfolding d by (rule bit_word_eqI) (auto simp: bit_simps)
  finally show "rv_field 26 6 ?w = 0" unfolding rv_field_def by simp
qed

lemma exec_slli:
  "rv_exec1 (rv_enc_i (ucast (sh AND 0x3F :: u8)) rs 1 rd RV_OPCODE_OPIMM) x =
     Some (rv_write (rv_reg rd) (push_bit (unat (take_bit 6 sh)) (rv_read x (rv_reg rs))) x)"
  unfolding byte_masks rv_exec1_def Let_def rv_alu_imm_def enc_i_fields opcode_values shift_fields rv_reg_def by simp

lemma exec_srli:
  "rv_exec1 (rv_enc_i (ucast (sh AND 0x3F :: u8)) rs 5 rd RV_OPCODE_OPIMM) x =
     Some (rv_write (rv_reg rd) (drop_bit (unat (take_bit 6 sh)) (rv_read x (rv_reg rs))) x)"
  unfolding byte_masks rv_exec1_def Let_def rv_alu_imm_def enc_i_fields opcode_values shift_fields rv_reg_def by simp

lemma exec_op:
  "rv_exec1 (rv_enc_r f7 rs2 rs1 f3 rd RV_OPCODE_OP) x =
     map_option (\<lambda>v. rv_write (rv_reg rd) v x)
       (rv_alu (unat (take_bit 7 f7)) (unat (take_bit 3 f3)) (rv_read x (rv_reg rs1)) (rv_read x (rv_reg rs2)))"
  unfolding rv_exec1_def Let_def enc_r_fields opcode_values rv_reg_def by simp

lemma read_write: "rv_read (rv_write r v x) r' = (if r' = r \<and> r \<noteq> 0 then v else rv_read x r')"
  by (simp add: rv_read_def rv_write_def)

lemma write_write: "rv_write r v (rv_write r u x) = rv_write r v x"
  by (simp add: rv_write_def)

section \<open>Loading an immediate\<close>

definition li32_code :: "u8 \<Rightarrow> u32 \<Rightarrow> u32 list" where
  "li32_code rd imm =
     (if -2048 \<le> sint imm \<and> sint imm \<le> 2047 then [rv_enc_i imm RV_X0 0 rd RV_OPCODE_OPIMM]
      else let hi20 = (imm + 0x800) AND NOT 0xFFF
           in [rv_enc_u hi20 rd RV_OPCODE_LUI, rv_enc_i (imm - hi20) rd 0 rd RV_OPCODE_OPIMM])"

definition li64_code :: "u8 \<Rightarrow> u8 \<Rightarrow> u64 \<Rightarrow> u32 list" where
  "li64_code rd scratch imm =
     (if -2147483648 \<le> sint imm \<and> sint imm \<le> 2147483647 then li32_code rd (ucast imm)
      else li32_code rd (ucast (drop_bit 32 imm)) @ [rv_enc_i (ucast (32 AND 0x3F :: u8)) rd 1 rd RV_OPCODE_OPIMM] @
           li32_code scratch (ucast imm) @
           [rv_enc_i (ucast (32 AND 0x3F :: u8)) scratch 1 scratch RV_OPCODE_OPIMM,
            rv_enc_i (ucast (32 AND 0x3F :: u8)) scratch 5 scratch RV_OPCODE_OPIMM,
            rv_enc_r 0 scratch rd 0 rd RV_OPCODE_OP])"

text \<open>The immediates for which the rounding of the upper part leaves the signed range.\<close>

definition li32_wraps :: "u32 \<Rightarrow> bool" where
  "li32_wraps imm \<longleftrightarrow> 0x7FFFF800 \<le> imm \<and> imm \<le> 0x7FFFFFFF"

lemma sext12_of_int:
  "- 2048 \<le> k \<Longrightarrow> k < 2048 \<Longrightarrow> signed_take_bit 11 (ucast (word_of_int k :: u32) :: u64) = word_of_int k"
proof -
  assume "- 2048 \<le> k" "k < 2048"
  then have "signed_take_bit 11 k = k" by (intro signed_take_bit_int_eq_self) simp_all
  moreover have "signed_take_bit 11 (ucast (word_of_int k :: u32) :: u64) = word_of_int (signed_take_bit 11 k)"
    by (rule bit_word_eqI) (auto simp: bit_simps)
  ultimately show ?thesis by simp
qed

lemma low_bits_round: "push_bit 12 (drop_bit 12 w) = w - take_bit 12 (w :: u32)"
proof -
  have "w = push_bit 12 (drop_bit 12 w) + take_bit 12 w" by (simp only: bits_ident)
  then show ?thesis by (metis add_diff_cancel_right')
qed

lemma uint_take_bit_12: "uint (take_bit 12 (w :: u32)) = sint w mod 4096"
proof -
  have "uint (take_bit 12 w) = take_bit 12 (uint w)" by (rule unsigned_take_bit_eq)
  also have "\<dots> = take_bit 12 (sint w)" by (simp add: sint_uint take_bit_signed_take_bit)
  finally show ?thesis by (simp add: take_bit_eq_mod)
qed

lemma scast_of_int: "(scast (w :: u32) :: u64) = word_of_int (sint w)"
  by (rule scast_eq)

lemma ucast_of_int: "(ucast (word_of_int k :: u64) :: u32) = word_of_int k"
  by (rule bit_word_eqI) (auto simp: bit_simps)

text \<open>The two halves of an immediate add up, exactly when the rounding does not wrap around and
  always in the lower 32 bits.\<close>

lemma li32_value:
  fixes imm :: u32
  defines "hi20 \<equiv> (imm + 0x800) AND NOT 0xFFF"
  defines "v \<equiv> scast hi20 + signed_take_bit 11 (ucast (imm - hi20)) :: u64"
  shows "\<not> li32_wraps imm \<Longrightarrow> v = scast imm" and "ucast v = imm"
proof -
  define w where "w = imm + 0x800"
  define t where "t = sint w mod 4096"
  have t: "0 \<le> t" "t < 4096" by (simp_all add: t_def)
  have tw: "take_bit 12 w = word_of_int t" using uint_take_bit_12 [of w] by (metis t_def word_of_int_uint)
  have hi: "hi20 = w - word_of_int t" unfolding hi20_def w_def [symmetric] imm_masks low_bits_round tw by simp
  have lo: "imm - hi20 = word_of_int (t - 2048)" unfolding hi w_def by (simp add: algebra_simps)
  have sext: "signed_take_bit 11 (ucast (imm - hi20)) = (word_of_int (t - 2048) :: u64)"
    unfolding lo using t by (intro sext12_of_int) auto
  have v: "v = word_of_int (sint hi20 + (t - 2048))"
    unfolding v_def sext scast_of_int by (simp only: of_int_add)
  have "ucast v = hi20 + word_of_int (t - 2048)"
    unfolding v ucast_of_int by (simp only: of_int_add of_int_sint scast_id)
  then show "ucast v = imm" using lo by (metis add_diff_cancel_left' diff_add_cancel add.commute)
  show "v = scast imm" if "\<not> li32_wraps imm"
  proof -
    have i: "- (2 ^ 31) \<le> sint imm" "sint imm < 2 ^ 31" using sint_ge [of imm] sint_lt [of imm] by simp_all
    have "\<not> 0x7FFFF800 \<le> sint imm"
    proof
      assume a: "0x7FFFF800 \<le> sint imm"
      then have "uint imm = sint imm" using i(2) by (simp add: uint_sint take_bit_int_eq_self)
      then show False using that a i(2) by (simp add: li32_wraps_def word_le_def)
    qed
    then have "sint w = sint imm + 2048"
      using i by (simp add: w_def sint_word_ariths signed_take_bit_int_eq_self)
    moreover have "sint hi20 = sint w - t"
    proof -
      have "hi20 = word_of_int (sint w - t)" unfolding hi by (simp only: of_int_diff of_int_sint scast_id)
      then have "sint hi20 = signed_take_bit 31 (sint w - t)" by (simp only: signed_of_int) simp
      moreover have "- (2 ^ 31) div 4096 \<le> sint w div 4096" using sint_ge [of w] by (intro zdiv_mono1) simp_all
      then have "- (2 ^ 31) \<le> sint w - t" unfolding t_def by (simp add: minus_mod_eq_mult_div)
      moreover have "sint w < 2 ^ 31" using sint_lt [of w] by simp
      ultimately show ?thesis using t by (simp add: signed_take_bit_int_eq_self)
    qed
    ultimately have "sint hi20 + (t - 2048) = sint imm" by simp
    then show ?thesis unfolding v scast_of_int by (simp only:)
  qed
qed

lemma reg_x0: "rv_reg RV_X0 = 0"
  by (simp add: rv_reg_def rv_const_defs)

lemma exec_li32:
  assumes "rv_reg rd \<noteq> 0"
  shows "\<exists>v. rv_exec (li32_code rd imm) x = Some (rv_write (rv_reg rd) v x) \<and> ucast v = imm \<and>
    (\<not> li32_wraps imm \<longrightarrow> v = scast imm)"
proof (cases "-2048 \<le> sint imm \<and> sint imm \<le> 2047")
  case True
  have "imm = word_of_int (sint imm)" by (simp only: of_int_sint scast_id)
  then have "signed_take_bit 11 (ucast imm) = (word_of_int (sint imm) :: u64)"
    using sext12_of_int [of "sint imm"] True by simp
  then have "signed_take_bit 11 (ucast imm) = (scast imm :: u64)" by (simp only: scast_of_int)
  moreover have "ucast (scast imm :: u64) = imm" unfolding scast_of_int ucast_of_int by (simp only: of_int_sint scast_id)
  ultimately show ?thesis using True
    by (intro exI [of _ "scast imm"]) (simp add: li32_code_def exec_addi reg_x0 rv_read_def)
next
  case False
  let ?hi = "(imm + 0x800) AND NOT 0xFFF"
  have h: "push_bit 12 (drop_bit 12 ?hi) = ?hi" unfolding imm_masks by (rule bit_word_eqI) (auto simp: bit_simps)
  have "rv_exec (li32_code rd imm) x =
      Some (rv_write (rv_reg rd) (scast ?hi + signed_take_bit 11 (ucast (imm - ?hi))) x)"
    using False assms unfolding li32_code_def Let_def
    by (simp only: if_False rv_exec.simps exec_lui h option.case exec_addi read_write write_write simp_thms if_True)
  then show ?thesis using li32_value [of imm] by blast
qed

definition li_ok :: "u64 \<Rightarrow> bool" where
  "li_ok imm \<longleftrightarrow> imm < 0x7FFFF800 \<or> 0x7FFFFFFF < imm"

lemma int32_range:
  assumes "-2147483648 \<le> sint imm" and "sint imm \<le> 2147483647"
  shows "scast (ucast (imm :: u64) :: u32) = imm" and "li_ok imm \<Longrightarrow> \<not> li32_wraps (ucast imm)"
proof -
  have i: "ucast imm = (word_of_int (sint imm) :: u32)"
    using ucast_of_int [of "sint imm"] by (simp only: of_int_sint scast_id)
  then have "sint (ucast imm :: u32) = signed_take_bit 31 (sint imm)" by (simp only: signed_of_int) simp
  then have s: "sint (ucast imm :: u32) = sint imm" using assms by (simp add: signed_take_bit_int_eq_self)
  then show "scast (ucast imm :: u32) = imm" unfolding scast_of_int by (simp only: of_int_sint scast_id)
  show "\<not> li32_wraps (ucast imm)" if ok: "li_ok imm"
  proof
    assume w: "li32_wraps (ucast imm)"
    have "unat (ucast imm :: u32) = unat imm mod 2 ^ 32"
      using unsigned_ucast_eq [of imm, where 'a = nat and 'c = 32] by (simp add: take_bit_eq_mod)
    then have u: "0x7FFFF800 \<le> unat imm mod 2 ^ 32" "unat imm mod 2 ^ 32 \<le> 0x7FFFFFFF"
      using w by (simp_all add: li32_wraps_def word_le_nat_alt)
    have "sint (ucast imm :: u32) = uint (ucast imm :: u32)"
    proof -
      have "uint (ucast imm :: u32) < 2 ^ 31" using w by (simp add: li32_wraps_def word_le_def)
      moreover have "- (2 ^ 31) \<le> uint (ucast imm :: u32)" by (rule order_trans [OF _ unsigned_greater_eq]) simp
      ultimately show ?thesis unfolding sint_uint by (intro signed_take_bit_int_eq_self) simp_all
    qed
    then have "0 \<le> sint imm" using s by simp
    then have "uint imm = sint imm" using assms(2) by (simp add: uint_sint take_bit_int_eq_self)
    then have "unat imm \<le> 0x7FFFFFFF" using assms(2) by (simp add: unat_eq_nat_uint)
    then show False using u ok by (auto simp: li_ok_def word_less_nat_alt)
  qed
qed

lemma exec_shift32:
  "rv_exec1 (rv_enc_i (ucast (32 AND 0x3F :: u8)) rs 1 rd RV_OPCODE_OPIMM) x =
     Some (rv_write (rv_reg rd) (push_bit 32 (rv_read x (rv_reg rs))) x)"
  "rv_exec1 (rv_enc_i (ucast (32 AND 0x3F :: u8)) rs 5 rd RV_OPCODE_OPIMM) x =
     Some (rv_write (rv_reg rd) (drop_bit 32 (rv_read x (rv_reg rs))) x)"
  using exec_slli [of 32 rs rd x] exec_srli [of 32 rs rd x] by simp_all

text \<open>The two words of a 64-bit immediate, whatever the upper bits of the registers they come from.\<close>

lemma join_halves:
  fixes imm a b :: u64
  assumes "ucast a = (ucast (drop_bit 32 imm) :: u32)" and "ucast b = (ucast imm :: u32)"
  shows "push_bit 32 a + drop_bit 32 (push_bit 32 b) = imm"
proof -
  have a: "bit a n = bit imm (n + 32)" if "n < 32" for n
    using arg_cong [OF assms(1), of "\<lambda>w. bit w n"] that by (simp add: bit_simps add.commute)
  have b: "bit b n = bit imm n" if "n < 32" for n
    using arg_cong [OF assms(2), of "\<lambda>w. bit w n"] that by (simp add: bit_simps)
  have "push_bit 32 a AND drop_bit 32 (push_bit 32 b) = 0"
    by (rule bit_word_eqI) (auto simp: bit_simps)
  then have "push_bit 32 a + drop_bit 32 (push_bit 32 b) = push_bit 32 a OR drop_bit 32 (push_bit 32 b)"
    by (simp add: disjunctive_add_eq_or)
  also have "\<dots> = imm"
  proof (rule bit_word_eqI)
    fix n assume "n < LENGTH(64)"
    then show "bit (push_bit 32 a OR drop_bit 32 (push_bit 32 b)) n = bit imm n"
      using a [of "n - 32"] b [of n] by (cases "n < 32") (auto simp: bit_simps)
  qed
  finally show ?thesis .
qed

lemma exec_li64:
  assumes "rv_reg rd \<noteq> 0" and "rv_reg scratch \<noteq> 0" and "rv_reg rd \<noteq> rv_reg scratch" and "li_ok imm"
  shows "\<exists>x'. rv_exec (li64_code rd scratch imm) x = Some x' \<and> rv_read x' (rv_reg rd) = imm \<and>
    (\<forall>r. r \<noteq> rv_reg rd \<longrightarrow> r \<noteq> rv_reg scratch \<longrightarrow> rv_read x' r = rv_read x r)"
proof (cases "-2147483648 \<le> sint imm \<and> sint imm \<le> 2147483647")
  case True
  obtain v where v: "rv_exec (li32_code rd (ucast imm)) x = Some (rv_write (rv_reg rd) v x)"
    "\<not> li32_wraps (ucast imm) \<Longrightarrow> v = scast (ucast imm :: u32)"
    using exec_li32 [OF assms(1), of "ucast imm" x] by blast
  have "v = imm" using v(2) int32_range [of imm] True assms(4) by simp
  then show ?thesis using v(1) True assms(1) by (simp add: li64_code_def read_write)
next
  case False
  obtain a where a: "\<And>x. rv_exec (li32_code rd (ucast (drop_bit 32 imm))) x = Some (rv_write (rv_reg rd) (a x) x)"
    "\<And>x. ucast (a x) = (ucast (drop_bit 32 imm) :: u32)"
    using exec_li32 [OF assms(1), of "ucast (drop_bit 32 imm)"] by metis
  obtain b where b: "\<And>x. rv_exec (li32_code scratch (ucast imm)) x = Some (rv_write (rv_reg scratch) (b x) x)"
    "\<And>x. ucast (b x) = (ucast imm :: u32)"
    using exec_li32 [OF assms(2), of "ucast imm"] by metis
  define x1 where "x1 = rv_write (rv_reg rd) (push_bit 32 (a x)) x"
  define x2 where "x2 = rv_write (rv_reg scratch) (drop_bit 32 (push_bit 32 (b x1))) x1"
  have alu: "rv_alu 0 0 p q = Some (p + q)" for p q by (simp add: rv_alu_def)
  have sum: "push_bit 32 (a x) + drop_bit 32 (push_bit 32 (b x1)) = imm" by (rule join_halves [OF a(2) b(2)])
  have "rv_exec (li64_code rd scratch imm) x = Some (rv_write (rv_reg rd) imm x2)"
    using False assms sum unfolding li64_code_def
    by (simp only: if_False rv_exec_append a(1) b(1) rv_exec.simps exec_shift32 option.case exec_op read_write write_write
        simp_thms if_True x1_def [symmetric] x2_def [symmetric] take_bit_0 unsigned_0 take_bit_of_0 alu option.map)
  then show ?thesis using assms by (simp add: read_write x2_def x1_def)
qed

end
