(* ===== verification/Riscv_Code.thy ===== *)
theory Riscv_Code
  imports Riscv_Exec
begin

text \<open>
  The code buffer of the RISC-V backend: every emission writes whole instructions behind the ones
  that are there, inside the buffer, and changes nothing else.  The sequences of emissions of
  the source are shown to be the emission of a list of instructions, which connects them to the
  machine.
\<close>

section \<open>Lists of instructions\<close>

fun emit_list :: "rv_emit_ctx \<Rightarrow> u32 list \<Rightarrow> int \<times> rv_emit_ctx" where
  "emit_list ec [] = (0, ec)"
| "emit_list ec (w # ws) = rv_then (rv_emit32 ec w) (\<lambda>ec. emit_list ec ws)"

lemma rv_then_assoc: "rv_then (rv_then r f) g = rv_then r (\<lambda>ec. rv_then (f ec) g)"
  by (cases r) (simp add: rv_then_def)

lemma rv_then_0 [simp]: "rv_then (0, ec) k = k ec"
  by (simp add: rv_then_def)

lemma emit_list_append: "rv_then (emit_list ec us) (\<lambda>ec. emit_list ec vs) = emit_list ec (us @ vs)"
  by (induction us arbitrary: ec) (simp_all add: rv_then_assoc)

lemma emit32_list: "rv_emit32 ec w = emit_list ec [w]"
  by (simp add: rv_emit32_def rv_then_def)

lemma emit_li32: "rv_emit_li32 ec rd imm = emit_list ec (li32_code rd imm)"
  unfolding rv_emit_li32_def li32_code_def Let_def emit32_list emit_list_append by simp

lemma emit_li64:
  assumes "rd \<noteq> scratch"
  shows "rv_emit_li64 ec rd scratch imm = emit_list ec (li64_code rd scratch imm)"
  using assms
  by (simp only: rv_emit_li64_def li64_code_def Let_def emit_li32 rv_emit_shift_imm_def emit32_list emit_list_append
      append.simps append_assoc if_False simp_thms if_distrib [of "emit_list ec"])

lemma emit_mv: "rv_emit_mv ec rd rs = emit_list ec [rv_enc_i 0 rs 0 rd RV_OPCODE_OPIMM]"
  unfolding rv_emit_mv_def by (rule emit32_list)

section \<open>The buffer\<close>

definition ec_ok :: "rv_emit_ctx \<Rightarrow> bool" where
  "ec_ok ec \<longleftrightarrow> ec_pos ec \<le> length (ec_buf ec)"

text \<open>\<open>ec'\<close> comes after \<open>ec\<close>: same buffer, code only added behind the position and inside it.\<close>

definition extends :: "rv_emit_ctx \<Rightarrow> rv_emit_ctx \<Rightarrow> bool" where
  "extends ec ec' \<longleftrightarrow>
     length (ec_buf ec') = length (ec_buf ec) \<and> ec_pos ec \<le> ec_pos ec' \<and> ec_pos ec' \<le> length (ec_buf ec') \<and>
     take (ec_pos ec) (ec_buf ec') = take (ec_pos ec) (ec_buf ec) \<and>
     drop (ec_pos ec') (ec_buf ec') = drop (ec_pos ec') (ec_buf ec)"

definition code_between :: "rv_emit_ctx \<Rightarrow> rv_emit_ctx \<Rightarrow> bytes" where
  "code_between ec ec' = take (ec_pos ec' - ec_pos ec) (drop (ec_pos ec) (ec_buf ec'))"

definition emitted :: "rv_emit_ctx \<Rightarrow> u32 list \<Rightarrow> rv_emit_ctx \<Rightarrow> bool" where
  "emitted ec ws ec' \<longleftrightarrow> extends ec ec' \<and> ec_pos ec' = ec_pos ec + 4 * length ws \<and> rv_words (code_between ec ec') = ws"

lemma extends_refl [simp]: "ec_ok ec \<Longrightarrow> extends ec ec"
  by (simp add: extends_def ec_ok_def)

lemma extends_ok: "extends ec ec' \<Longrightarrow> ec_ok ec'"
  by (simp add: extends_def ec_ok_def)

lemma extends_trans:
  assumes "extends a b" and "extends b c"
  shows "extends a c"
proof -
  have ab: "ec_pos a \<le> ec_pos b" using assms by (simp add: extends_def)
  have "take (ec_pos a) (ec_buf c) = take (ec_pos a) (take (ec_pos b) (ec_buf c))"
    using ab by (simp add: min_def)
  also have "\<dots> = take (ec_pos a) (take (ec_pos b) (ec_buf b))" using assms by (simp add: extends_def)
  also have "\<dots> = take (ec_pos a) (ec_buf a)" using assms by (simp add: extends_def min_def)
  finally have t: "take (ec_pos a) (ec_buf c) = take (ec_pos a) (ec_buf a)" .
  have bc: "ec_pos b \<le> ec_pos c" using assms by (simp add: extends_def)
  have "drop (ec_pos c) (ec_buf b) = drop (ec_pos c - ec_pos b) (drop (ec_pos b) (ec_buf b))" using bc by simp
  also have "\<dots> = drop (ec_pos c - ec_pos b) (drop (ec_pos b) (ec_buf a))" using assms by (simp add: extends_def)
  also have "\<dots> = drop (ec_pos c) (ec_buf a)" using bc by simp
  finally show ?thesis using assms t by (simp add: extends_def)
qed

lemma rv_words_append: "length xs = 4 * n \<Longrightarrow> rv_words (xs @ ys) = rv_words xs @ rv_words ys"
proof (induction n arbitrary: xs)
  case (Suc n)
  then obtain a b c d xs' where "xs = a # b # c # d # xs'" "length xs' = 4 * n"
    by (auto simp: length_Suc_conv eval_nat_numeral)
  then show ?case using Suc.IH by simp
qed simp

lemma code_between_append:
  assumes "extends a b" and "extends b c"
  shows "code_between a c = code_between a b @ code_between b c"
proof -
  have le: "ec_pos a \<le> ec_pos b" "ec_pos b \<le> ec_pos c" "ec_pos c \<le> length (ec_buf c)"
    using assms by (simp_all add: extends_def)
  have "code_between a c = drop (ec_pos a) (take (ec_pos b) (ec_buf c)) @ take (ec_pos c - ec_pos b) (drop (ec_pos b) (ec_buf c))"
    unfolding code_between_def using le take_add [of "ec_pos b - ec_pos a" "ec_pos c - ec_pos b" "drop (ec_pos a) (ec_buf c)"]
    by (simp add: drop_take)
  moreover have "take (ec_pos b) (ec_buf c) = take (ec_pos b) (ec_buf b)" using assms(2) by (simp add: extends_def)
  ultimately show ?thesis by (simp add: code_between_def drop_take)
qed

lemma emitted_append:
  assumes "emitted a us b" and "emitted b vs c"
  shows "emitted a (us @ vs) c"
proof -
  have e: "extends a b" "extends b c" using assms by (simp_all add: emitted_def)
  have "length (code_between a b) = 4 * length us" using assms(1) by (auto simp: emitted_def extends_def code_between_def)
  then have "rv_words (code_between a c) = us @ vs"
    using assms unfolding code_between_append [OF e] by (simp add: emitted_def rv_words_append)
  then show ?thesis using extends_trans [OF e] assms by (simp add: emitted_def)
qed

lemma word_of_bytes:
  "le_join [ucast w, ucast (drop_bit 8 w), ucast (drop_bit 16 w), ucast (drop_bit 24 w)] = (w :: u32)"
proof -
  have "le_split (Suc (Suc (Suc (Suc 0)))) w = [ucast w, ucast (drop_bit 8 w), ucast (drop_bit 16 w), ucast (drop_bit 24 w)]"
    by simp
  moreover have "le_join (le_split (Suc (Suc (Suc (Suc 0)))) w) = take_bit (8 * Suc (Suc (Suc (Suc 0)))) w"
    by (rule le_join_split) simp
  moreover have "take_bit 32 w = w" by (rule bit_word_eqI) (simp add: bit_simps)
  ultimately show ?thesis by simp
qed

lemma emit32_emitted:
  assumes "ec_ok ec" and "rv_emit32 ec w = (0, ec')"
  shows "emitted ec [w] ec'"
proof -
  let ?bs = "[ucast w, ucast (drop_bit 8 w), ucast (drop_bit 16 w), ucast (drop_bit 24 w)] :: bytes"
  have l: "ec_pos ec + 4 \<le> length (ec_buf ec)" and e: "ec' = ec\<lparr>ec_buf := overwrite (ec_buf ec) (ec_pos ec) ?bs, ec_pos := ec_pos ec + 4\<rparr>"
    using assms(2) by (auto simp: rv_emit32_def split: if_splits)
  have "overwrite (ec_buf ec) (ec_pos ec) ?bs = take (ec_pos ec) (ec_buf ec) @ ?bs @ drop (ec_pos ec + 4) (ec_buf ec)"
    unfolding overwrite_def by (simp add: eval_nat_numeral)
  then have "take (ec_pos ec) (ec_buf ec') = take (ec_pos ec) (ec_buf ec)" "drop (ec_pos ec') (ec_buf ec') = drop (ec_pos ec') (ec_buf ec)"
    "code_between ec ec' = ?bs"
    using l by (simp_all add: e code_between_def)
  then show ?thesis using l word_of_bytes [of w] by (simp add: emitted_def extends_def e)
qed

lemma emit32_status: "rv_emit32 ec w = (rc, ec') \<Longrightarrow> rc = 0 \<or> rc = -1 \<and> ec' = ec"
  by (auto simp: rv_emit32_def split: if_splits)

lemma emitted_Nil [simp]: "ec_ok ec \<Longrightarrow> emitted ec [] ec"
  by (simp add: emitted_def code_between_def)

lemma emit_list_result:
  assumes "ec_ok ec" and "emit_list ec ws = (rc, ec')"
  shows "extends ec ec' \<and> (rc = 0 \<and> emitted ec ws ec' \<or> rc = -1)"
  using assms
proof (induction ws arbitrary: ec)
  case (Cons w ws)
  obtain rc1 ec1 where 1: "rv_emit32 ec w = (rc1, ec1)" by fastforce
  show ?case
  proof (cases "rc1 = 0")
    case True
    then have e: "emitted ec [w] ec1" using emit32_emitted Cons.prems(1) 1 by blast
    then have x: "extends ec ec1" "ec_ok ec1" by (auto simp: emitted_def dest: extends_ok)
    have "emit_list ec1 ws = (rc, ec')" using Cons.prems(2) 1 True by (simp add: rv_then_def)
    then have "extends ec1 ec' \<and> (rc = 0 \<and> emitted ec1 ws ec' \<or> rc = -1)" by (rule Cons.IH [OF x(2)])
    then show ?thesis using extends_trans [OF x(1)] emitted_append [OF e] by auto
  next
    case False
    then have "rc = -1" "ec' = ec" using Cons.prems(2) 1 emit32_status [OF 1] by (auto simp: rv_then_def)
    then show ?thesis using Cons.prems(1) by simp
  qed
qed simp

lemma emit_list_0: "ec_ok ec \<Longrightarrow> emit_list ec ws = (0, ec') \<Longrightarrow> emitted ec ws ec'"
  using emit_list_result by fastforce

end
