(* ===== verification/Riscv_Safety.thy ===== *)
theory Riscv_Safety
  imports Riscv_Code
begin

text \<open>
  The RISC-V backend never writes outside its buffer: every entry point, whether it succeeds or
  fails, keeps the buffer's length, keeps the code before the position it started at, and writes
  only between that position and the one it ends at.  The entry points are an instance of the
  interface of a backend, so the replay of a whole function has the same property.
\<close>

section \<open>Emissions\<close>

lemma emit_list_extends: "emit_list ec ws = (rc, ec') \<Longrightarrow> ec_ok ec \<Longrightarrow> extends ec ec'"
  using emit_list_result by blast

lemma emit32_extends: "rv_emit32 ec w = (rc, ec') \<Longrightarrow> ec_ok ec \<Longrightarrow> extends ec ec'"
  by (simp add: emit32_list emit_list_extends del: emit_list.simps)

lemma emit_mv_extends: "rv_emit_mv ec rd rs = (rc, ec') \<Longrightarrow> ec_ok ec \<Longrightarrow> extends ec ec'"
  by (simp add: rv_emit_mv_def emit32_extends)

lemma emit_fp_move_extends: "rv_emit_fp_move ec rd rs dbl = (rc, ec') \<Longrightarrow> ec_ok ec \<Longrightarrow> extends ec ec'"
  by (simp add: rv_emit_fp_move_def emit32_extends)

lemma emit_li64_extends: "rv_emit_li64 ec rd scratch imm = (rc, ec') \<Longrightarrow> ec_ok ec \<Longrightarrow> extends ec ec'"
proof (cases "rd = scratch")
  case True
  assume "rv_emit_li64 ec rd scratch imm = (rc, ec')" and ok: "ec_ok ec"
  then have "emit_list ec (li32_code rd (ucast imm)) = (rc, ec') \<or> ec' = ec"
    using True by (auto simp: rv_emit_li64_def emit_li32 split: if_splits)
  then show ?thesis using ok emit_list_extends by auto
qed (simp add: emit_li64 emit_list_extends)

lemma then_extends:
  assumes "rv_then r k = (rc, ec')" and "extends ec (snd r)" and "\<And>e rc e'. k e = (rc, e') \<Longrightarrow> ec_ok e \<Longrightarrow> extends e e'"
  shows "extends ec ec'"
proof -
  obtain rc1 ec1 where r: "r = (rc1, ec1)" by (cases r)
  have "ec' = ec1 \<or> k ec1 = (rc, ec')" using assms(1) r by (auto simp: rv_then_def split: if_splits)
  moreover have "k ec1 = (rc, ec') \<Longrightarrow> extends ec1 ec'" using assms(2) r by (auto intro: assms(3) extends_ok)
  ultimately show ?thesis using assms(2) r extends_trans by auto
qed

lemma operand_gpr_extends: "rv_operand_gpr ec op vm s1 s2 = (r, ec') \<Longrightarrow> ec_ok ec \<Longrightarrow> extends ec ec'"
  by (auto simp: rv_operand_gpr_def split: if_splits prod.splits dest: emit_li64_extends)

lemma fp_imm_extends:
  assumes "\<And>e a b rc e'. fmv e a b = (rc, e') \<Longrightarrow> ec_ok e \<Longrightarrow> extends e e'"
    and "fp_imm ec g1 g2 f bits fmv = (r, ec')" and "ec_ok ec"
  shows "extends ec ec'"
proof -
  obtain rc where "rv_then (rv_emit_li64 ec g1 g2 bits) (\<lambda>ec. fmv ec f g1) = (rc, ec')"
    using assms(2) by (auto simp: fp_imm_def split: prod.splits)
  then show ?thesis
    by (rule then_extends) (use assms emit_li64_extends [of ec g1 g2 bits] in \<open>auto simp: prod_eq_iff\<close>)
qed

lemma operand_fpr_extends: "rv_operand_fpr ec op vm g1 g2 f feat = (r, ec') \<Longrightarrow> ec_ok ec \<Longrightarrow> extends ec ec'"
  by (auto simp: rv_operand_fpr_def rv_emit_fmv_w_x_def rv_emit_fmv_d_x_def split: if_splits option.splits
      dest: emit32_extends elim!: fp_imm_extends [rotated])

lemma emit_return_extends: "rv_emit_return saved ec = (rc, ec') \<Longrightarrow> ec_ok ec \<Longrightarrow> extends ec ec'"
proof -
  assume r: "rv_emit_return saved ec = (rc, ec')" and ok: "ec_ok ec"
  obtain rc1 ec1 where 1: "(if saved then rv_emit_mv ec RV_RA RV_S1 else (0, ec)) = (rc1, ec1)" by (meson surj_pair)
  then have "extends ec ec1" using ok emit_mv_extends by (auto split: if_splits)
  moreover have "extends e (snd (rv_emit32 e w))" if "ec_ok e" for e w
    using that emit32_extends by (metis surjective_pairing)
  ultimately show ?thesis using r unfolding rv_emit_return_def 1
    by (elim then_extends) (auto simp: rv_then_def split: prod.splits if_splits)
qed

lemmas emission_extends = emit32_extends emit_mv_extends emit_fp_move_extends operand_gpr_extends operand_fpr_extends emit_return_extends

text \<open>One argument: the operand is brought into a register and moved.\<close>

lemma arg_move_extends:
  assumes "extends ec ec1"
  shows "rv_emit_mv ec1 d r = (rc, ec2) \<Longrightarrow> extends ec ec2" and "rv_emit_fp_move ec1 d r dbl = (rc, ec2) \<Longrightarrow> extends ec ec2"
  using extends_trans [OF assms] extends_ok [OF assms] emit_mv_extends emit_fp_move_extends by blast+

lemma call_args_extends: "rv_call_args feat vm args ni nf ec = Some (rc, ec') \<Longrightarrow> ec_ok ec \<Longrightarrow> extends ec ec'"
proof (induction args arbitrary: ni nf ec)
  case (Cons oa args)
  have step: "extends ec ec'" if "extends ec e2" and "rv_call_args feat vm args i f e2 = Some (rc, ec')" for e2 i f
    using Cons.IH [OF that(2) extends_ok [OF that(1)]] extends_trans [OF that(1)] by blast
  obtain a where a: "oa = Some a" using Cons.prems(1) by (cases oa) auto
  obtain r ec1 where o: "rv_operand_fpr ec a vm RV_T1 RV_T2 RV_FT0 feat = (r, ec1)" by fastforce
  obtain r' ec1' where o': "rv_operand_gpr ec a vm RV_T1 RV_T0 = (r', ec1')" by fastforce
  have e1: "extends ec ec1" and e1': "extends ec ec1'"
    using o o' Cons.prems(2) operand_fpr_extends operand_gpr_extends by blast+
  show ?case
  proof (cases "rv_type_is_fp (opd_type a)")
    case True
    then show ?thesis using Cons.prems o e1 unfolding a
      by (auto split: if_splits option.splits prod.splits dest!: arg_move_extends [OF e1] intro: step)
  next
    case False
    then show ?thesis using Cons.prems o' e1' unfolding a
      by (auto split: if_splits option.splits prod.splits dest!: arg_move_extends [OF e1'] intro: step)
  qed
qed auto

section \<open>Instructions\<close>

lemma ec_simps [simp]:
  "dc_ec (with_ec ctx ec) = ec" "dc_ec (set_vreg v c r ctx) = dc_ec ctx" "dc_ec (rv_direct_note_vregs ctx desc) = dc_ec ctx"
  by (simp_all add: with_ec_def set_vreg_def rv_direct_note_vregs_def Let_def)

text \<open>\<open>safe ec r\<close>: the context of \<open>r\<close> extends \<open>ec\<close>.\<close>

definition safe :: "rv_emit_ctx \<Rightarrow> int \<times> rv_direct_ctx \<Rightarrow> bool" where
  "safe ec r \<longleftrightarrow> extends ec (dc_ec (snd r))"

lemma safe_pair [simp]: "safe ec (rc, ctx) \<longleftrightarrow> extends ec (dc_ec ctx)"
  by (simp add: safe_def)

lemma emit_bind_safe: "extends ec ec1 \<Longrightarrow> safe ec (emit_bind ctx ec1 w v c r)"
  using emit32_extends [of ec1 w] extends_ok extends_trans
  by (fastforce simp: emit_bind_def split: prod.splits if_splits)

lemma emit_binop_safe: "ec_ok (dc_ec ctx) \<Longrightarrow> safe (dc_ec ctx) (rv_emit_binop ctx desc ops)"
  by (auto simp: rv_emit_binop_def Let_def split: prod.splits option.splits
      intro!: emit_bind_safe elim: extends_trans dest!: operand_gpr_extends dest: extends_ok)

lemma emit_fp_safe: "ec_ok (dc_ec ctx) \<Longrightarrow> safe (dc_ec ctx) (rv_emit_fp ctx desc ops)"
  by (auto simp: rv_emit_fp_def Let_def split: prod.splits option.splits
      intro!: emit_bind_safe elim: extends_trans dest!: operand_fpr_extends dest: extends_ok)

lemma emit_conversions_safe:
  assumes "ec_ok (dc_ec ctx)"
  shows "safe (dc_ec ctx) (rv_emit_sitofp ctx desc ops)" and "safe (dc_ec ctx) (rv_emit_fptosi ctx desc ops)"
    and "safe (dc_ec ctx) (rv_emit_fpconv ctx desc ops)"
  using assms
  by (auto simp: rv_emit_sitofp_def rv_emit_fptosi_def rv_emit_fpconv_def Let_def split: prod.splits option.splits
      intro!: emit_bind_safe dest!: operand_fpr_extends operand_gpr_extends)

lemma emit_cast_safe: "ec_ok (dc_ec ctx) \<Longrightarrow> safe (dc_ec ctx) (rv_emit_cast ctx desc ops)"
  by (auto simp: rv_emit_cast_def Let_def split: prod.splits option.splits
      dest!: operand_gpr_extends dest: arg_move_extends)

lemma return_after_extends:
  assumes "extends ec e"
  shows "rv_emit_return saved e = (rc, ec') \<Longrightarrow> extends ec ec'"
    and "rv_then (rv_emit_mv e d q) (rv_emit_return saved) = (rc, ec') \<Longrightarrow> extends ec ec'"
    and "rv_then (rv_emit_fp_move e d q dbl) (rv_emit_return saved) = (rc, ec') \<Longrightarrow> extends ec ec'"
proof -
  show "rv_emit_return saved e = (rc, ec') \<Longrightarrow> extends ec ec'"
    using extends_trans [OF assms] extends_ok [OF assms] emit_return_extends by blast
  have "extends ec (snd (rv_emit_mv e d q))" "extends ec (snd (rv_emit_fp_move e d q dbl))"
    using arg_move_extends [OF assms] by (metis surjective_pairing)+
  then show "rv_then (rv_emit_mv e d q) (rv_emit_return saved) = (rc, ec') \<Longrightarrow> extends ec ec'"
    and "rv_then (rv_emit_fp_move e d q dbl) (rv_emit_return saved) = (rc, ec') \<Longrightarrow> extends ec ec'"
    using then_extends emit_return_extends by blast+
qed

lemma emit_ret_safe:
  assumes "ec_ok (dc_ec ctx)"
  shows "safe (dc_ec ctx) (rv_emit_ret ctx desc ops)"
  using assms unfolding rv_emit_ret_def Let_def
  by (auto split: prod.splits option.splits if_splits dest!: operand_gpr_extends operand_fpr_extends dest: return_after_extends)

lemma emit_jump_safe:
  assumes "rv_emit_jump calloc realloc ctx desc oc name = Some r" and "ec_ok (dc_ec ctx)"
  shows "safe (dc_ec ctx) r"
  using assms emit32_extends [of "dc_ec ctx"]
  by (auto simp: rv_emit_jump_def Let_def split: option.splits prod.splits if_splits)

lemma emit_call_safe:
  assumes "rv_emit_call calloc realloc ctx desc ops = Some r" and "ec_ok (dc_ec ctx)"
  shows "safe (dc_ec ctx) r"
proof -
  obtain rc ec where 1: "(if ra_saved ctx then (0, dc_ec ctx) else rv_emit_mv (dc_ec ctx) RV_S1 RV_RA) = (rc, ec)" by (meson surj_pair)
  have e: "extends (dc_ec ctx) ec" using 1 assms(2) by (auto split: if_splits dest: emit_mv_extends)
  have args: "extends (dc_ec ctx) ec2" if "rv_call_args feat vm args i f ec = Some (rc2, ec2)" for feat vm args i f rc2 ec2
    using call_args_extends [OF that extends_ok [OF e]] extends_trans [OF e] by blast
  have jump: "safe (dc_ec ctx) r" if "extends (dc_ec ctx) ec2" and "rv_emit_jump calloc realloc (with_ec c1 ec2) desc oc nm = Some r" for ec2 c1 oc nm
    using emit_jump_safe [OF that(2)] extends_ok [OF that(1)] extends_trans [OF that(1)] by (simp add: safe_def)
  show ?thesis using assms(1) e unfolding rv_emit_call_def Let_def 1
    by (auto simp: assms(2) split: if_splits option.splits prod.splits dest!: args intro: jump)
qed

lemma dispatch_safe:
  assumes "rv_dispatch calloc realloc ctx desc ops = Some r" and "ec_ok (dc_ec ctx)"
  shows "safe (dc_ec ctx) r"
proof -
  have "safe (dc_ec ctx) (case rv_emit_return (ra_saved ctx) (dc_ec ctx) of (rc, ec) \<Rightarrow> (rc, with_ec ctx ec))"
    using assms(2) emit_return_extends by (auto split: prod.splits)
  then show ?thesis using assms emit_call_safe [of calloc realloc ctx desc ops]
      emit_binop_safe emit_fp_safe emit_conversions_safe emit_cast_safe emit_ret_safe
    unfolding rv_dispatch_def by (simp split: if_split_asm) auto
qed

lemma ensure_vmap_ec: "rv_direct_ensure_vmap alloc ctx v = Some (rc, ctx') \<Longrightarrow> dc_ec ctx' = dc_ec ctx"
  by (auto simp: rv_direct_ensure_vmap_def split: if_splits option.splits)

lemma compile_emit_extends:
  assumes "rv_compile_emit mem ctx desc = Some (rc, ctx')" and "ec_ok (dc_ec ctx)"
  shows "extends (dc_ec ctx) (dc_ec ctx')"
proof (cases "has_current_block ctx")
  case True
  then obtain rc1 ctx1 where e: "rv_direct_ensure_vmap (arena_ok mem) (rv_direct_note_vregs ctx desc) (d_dest desc) = Some (rc1, ctx1)"
    using assms(1) by (auto simp: rv_compile_emit_def Let_def split: option.splits)
  then have ec: "dc_ec ctx1 = dc_ec ctx" using ensure_vmap_ec by fastforce
  show ?thesis using assms True e ec dispatch_safe [of "calloc_ok mem" "realloc_ok mem" ctx1 desc]
    by (auto simp: rv_compile_emit_def Let_def split: if_splits)
qed (use assms in \<open>auto simp: rv_compile_emit_def\<close>)

section \<open>The backend as an instance of the interface\<close>

text \<open>Both targets have the same entry points after the start of a function.\<close>

interpretation gc: backend "target_riscv64gc mem" "\<lambda>c. extends ec0 (dc_ec c)" for mem ec0
  by unfold_locales
    (auto simp: target_riscv64gc_def rv_compile_set_block_def rv_compile_add_phi_copy_def
      intro: extends_trans compile_emit_extends extends_ok)

interpretation im: backend "target_riscv64im mem" "\<lambda>c. extends ec0 (dc_ec c)" for mem ec0
  by unfold_locales
    (auto simp: target_riscv64im_def rv_compile_set_block_def rv_compile_add_phi_copy_def
      intro: extends_trans compile_emit_extends extends_ok)

lemma bind_params_ec: "rv_bind_params alloc feat ps i f ctx = Some (rc, ctx') \<Longrightarrow> dc_ec ctx' = dc_ec ctx"
  by (induction alloc feat ps i f ctx rule: rv_bind_params.induct) (auto split: if_splits option.splits dest: ensure_vmap_ec)

lemma begin_ec: "rv_compile_begin_common alloc feat meta m buf = Some (0, Some ctx) \<Longrightarrow> dc_ec ctx = \<lparr>ec_buf = buf, ec_pos = 0\<rparr>"
  by (auto simp: rv_compile_begin_common_def Let_def split: if_splits option.splits dest: bind_params_ec)

section \<open>An example and the property\<close>

text \<open>The function \<open>(a + 70000) * b\<close>, compiled into a buffer of 64 bytes.\<close>

definition demo_i64 :: "lr_type option" where
  "demo_i64 = Some (TScalar 1 SI64)"

definition demo_vreg :: "u64 \<Rightarrow> lr_operand" where
  "demo_vreg v = \<lparr>opd_kind = LR_VAL_VREG, opd_type = demo_i64, global_offset = 0, opd_bits = v\<rparr>"

definition demo_imm :: "u64 \<Rightarrow> lr_operand" where
  "demo_imm v = \<lparr>opd_kind = LR_VAL_IMM_I64, opd_type = demo_i64, global_offset = 0, opd_bits = v\<rparr>"

definition demo_inst :: "nat \<Rightarrow> lr_opcode \<Rightarrow> u32 \<Rightarrow> lr_operand list \<Rightarrow> lr_inst" where
  "demo_inst a op dest ops = \<lparr>inst_addr = a, inst_op = op, inst_type = demo_i64, inst_dest = dest, operands = ops, inst_pred = 0,
     inst_indices = [], inst_align = 0, call_external_abi = False, call_vararg = False, call_fixed_args = 0\<rparr>"

definition demo_body :: "lr_inst list" where
  "demo_body = [demo_inst 8 LR_OP_ADD 3 [demo_vreg 1, demo_imm 70000], demo_inst 16 LR_OP_MUL 4 [demo_vreg 3, demo_vreg 2]]"

definition demo_ret :: lr_inst where
  "demo_ret = demo_inst 24 LR_OP_RET 0 [demo_vreg 4]"

definition demo_block :: lr_block where
  "demo_block = \<lparr>blk_name = ''entry'', blk_id = 0, blk_insts = demo_body @ [demo_ret], inst_array = Some [8, 16, 24], num_insts = 3\<rparr>"

definition demo_rv_func :: lr_func where
  "demo_rv_func = \<lparr>fn_name = ''f'', symbol_id = 0, fn_type = None, ret_type = demo_i64, param_types = [], param_vregs = [1, 2],
     fn_vararg = False, is_decl = False, uses_llvm_abi = False, blocks = [demo_block], block_array = Some [Some 0],
     linear_inst_array = None, block_inst_offsets = None, num_linear_insts = 0, num_blocks = 1, next_vreg = 5\<rparr>"

definition demo_meta :: lr_compile_func_meta where
  "demo_meta = \<lparr>fm_param_vregs = Some [1, 2], fm_ret_type = demo_i64, fm_param_types = Some [demo_i64, demo_i64], fm_num_params = 2,
     fm_vararg = False, fm_num_blocks = 1, fm_next_vreg = 5, fm_mode = LR_COMPILE_ISEL\<rparr>"

definition demo_mem :: rv_memory where
  "demo_mem = \<lparr>arena_ok = \<lambda>_. True, calloc_ok = \<lambda>_. True, realloc_ok = \<lambda>_. True\<rparr>"

definition demo_begin :: "(int \<times> rv_direct_ctx option) option" where
  "demo_begin = rv_compile_begin_common (arena_ok demo_mem) rv_feat_gc demo_meta (lr_module_create id, None) (replicate 64 0)"

definition demo_ctx :: rv_direct_ctx where
  "demo_ctx = (case demo_begin of Some (_, Some c) \<Rightarrow> c)"

definition demo_replay :: "(int \<times> rv_direct_ctx) option" where
  "demo_replay = lr_replay_function_stream (\<lambda>_. True) (target_riscv64gc demo_mem) demo_ctx demo_rv_func"

definition rv_ok :: "('a \<Rightarrow> bool) \<Rightarrow> (int \<times> 'a) option \<Rightarrow> bool" where
  "rv_ok P r = (case r of Some (rc, a) \<Rightarrow> rc = 0 \<and> P a | None \<Rightarrow> False)"

lemma demo_begins: "demo_begin = Some (0, Some demo_ctx)"
proof -
  have "rv_ok (\<lambda>c. c \<noteq> None) demo_begin" by code_simp
  then obtain c where c: "demo_begin = Some (0, Some c)" by (auto simp: rv_ok_def split: option.splits)
  show ?thesis unfolding demo_ctx_def c by simp
qed

definition demo_code :: rv_direct_ctx where
  "demo_code = snd (the demo_replay)"

lemma demo_replays: "demo_replay = Some (0, demo_code)"
proof -
  have "rv_ok (\<lambda>c. True) demo_replay" by code_simp
  then obtain c where c: "demo_replay = Some (0, c)" by (auto simp: rv_ok_def split: option.splits)
  show ?thesis unfolding demo_code_def c by simp
qed

text \<open>Compiling a function stays in its buffer.  A function is begun and replayed into a buffer; whatever the
  status, the buffer keeps its length, only the bytes before the final position were written,
  that position is in the buffer, and the end of the compilation reports it with success.\<close>

theorem replay_stays_in_buffer:
  assumes "rv_compile_begin_common (arena_ok mem) feat meta m buf = Some (0, Some ctx)"
    and "t = target_riscv64gc mem \<or> t = target_riscv64im mem"
    and "lr_replay_function_stream calloc t ctx f = Some (rc, ctx')"
  shows "length (ec_buf (dc_ec ctx')) = length buf \<and> ec_pos (dc_ec ctx') \<le> length buf \<and>
    drop (ec_pos (dc_ec ctx')) (ec_buf (dc_ec ctx')) = drop (ec_pos (dc_ec ctx')) buf \<and>
    rv_compile_end ctx' = Some (0, ec_pos (dc_ec ctx'))"
proof -
  let ?ec = "\<lparr>ec_buf = buf, ec_pos = 0\<rparr> :: rv_emit_ctx"
  have "extends ?ec (dc_ec ctx)" using begin_ec [OF assms(1)] by (simp add: ec_ok_def)
  then have "extends ?ec (dc_ec ctx')" using assms(2,3) gc.replay_keeps im.replay_keeps by blast
  then show ?thesis by (auto simp: extends_def rv_compile_end_def)
qed

theorem replay_in_buffer_example:
  "length (ec_buf (dc_ec demo_code)) = 64 \<and> rv_compile_end demo_code = Some (0, 24)"
proof -
  have "ec_pos (dc_ec demo_code) = 24" by code_simp
  then show ?thesis
    using replay_stays_in_buffer [OF demo_begins [unfolded demo_begin_def] disjI1 [OF refl] demo_replays [unfolded demo_replay_def]]
    by simp
qed

end
