(* ===== verification/Riscv_Correct.thy ===== *)
theory Riscv_Correct
  imports Riscv_Safety
begin

text \<open>
  Correctness of the RISC-V backend on straight-line 64-bit integer functions: the code that
  replaying such a function leaves in the buffer, run on the machine with the arguments in the
  argument registers, returns to its caller with the value of the function in \<^verbatim>\<open>a0\<close>.  The value is
  that of the IR semantics the folder is proved against (\<open>Ir_Fold\<close>).

  The proof is a simulation: after every instruction, each virtual register that is bound to a
  machine register is bound to an argument register or to one already taken from the pool, and
  that register holds its value.
\<close>

section \<open>Running a function\<close>

text \<open>The result is the address control goes to and the registers there.\<close>

fun rv_call :: "u32 list \<Rightarrow> rv_regs \<Rightarrow> (u64 \<times> rv_regs) option" where
  "rv_call [] x = None"
| "rv_call (w # ws) x =
     (if rv_field 0 7 w = 0x67 \<and> rv_field 12 3 w = 0 \<and> rv_field 7 5 w = 0
      then Some ((rv_read x (rv_field 15 5 w) + rv_imm_i w) AND NOT 1, x)
      else case rv_exec1 w x of None \<Rightarrow> None | Some x' \<Rightarrow> rv_call ws x')"

lemma exec1_not_jump: "rv_exec1 w x = Some x' \<Longrightarrow> rv_field 0 7 w \<noteq> 0x67"
  by (auto simp: rv_exec1_def Let_def)

lemma rv_call_append: "rv_exec ws x = Some x' \<Longrightarrow> rv_call (ws @ vs) x = rv_call vs x'"
  by (induction ws arbitrary: x) (auto split: option.splits dest: exec1_not_jump)

abbreviation ret_word :: u32 where
  "ret_word \<equiv> rv_enc_i 0 RV_RA 0 RV_X0 RV_OPCODE_JALR"

lemma rv_call_ret: "rv_call [ret_word] x = Some (rv_read x 1 AND NOT 1, x)"
proof -
  have "rv_imm_i ret_word = 0" unfolding rv_imm_i_def enc_i_bits by simp
  then show ?thesis by (simp add: enc_i_fields rv_const_defs)
qed

section \<open>Binary operations\<close>

lemma word_of_take_bit: "(word_of_int (take_bit 64 k) :: u64) = word_of_int k"
  by (rule bit_word_eqI) (simp add: bit_simps)

lemma sval_word: "sval 64 (uint (a :: u64)) = sint a"
  by (simp add: sval_def sint_uint)

lemma rv_shift_amount:
  fixes b :: u64
  assumes "uint b < 64"
  shows "unat (take_bit 6 b) = unat b"
proof -
  have "unat b < 64" unfolding unat_eq_nat_uint using assms by linarith
  then have "unat b < 2 ^ 6" by simp
  then have "take_bit 6 (unat b) = unat b" by (simp only: take_bit_nat_eq_self)
  then show ?thesis by (simp only: unsigned_take_bit_eq)
qed

lemma word_shifts:
  fixes a :: u64
  shows "word_of_int (uint a * 2 ^ n) = push_bit n a" and "word_of_int (uint a div 2 ^ n) = drop_bit n a"
    and "word_of_int (sint a div 2 ^ n) = signed_drop_bit n a"
proof -
  show "word_of_int (uint a * 2 ^ n) = push_bit n a" by (simp add: push_bit_eq_mult)
  have "uint (drop_bit n a) = uint a div 2 ^ n"
    using unsigned_less [of a, where 'a = int] unfolding unsigned_drop_bit_eq by (simp add: drop_bit_eq_div take_bit_below)
  then show "word_of_int (uint a div 2 ^ n) = drop_bit n a" by (metis word_of_int_uint)
  have "sint (signed_drop_bit n a) = sint a div 2 ^ n" by (simp only: sint_signed_drop_bit_eq drop_bit_eq_div)
  then show "word_of_int (sint a div 2 ^ n) = signed_drop_bit n a" by (metis of_int_sint scast_id)
qed

lemma word_bit_ops:
  fixes a b :: u64
  shows "word_of_int (uint a AND uint b) = a AND b" and "word_of_int (uint a OR uint b) = a OR b"
    and "word_of_int (uint a XOR uint b) = a XOR b"
  by (rule bit_word_eqI, simp add: bit_simps)+

lemma word_div_mod: "word_of_int (uint a div uint b) = (a :: u64) div b" "word_of_int (uint a mod uint b) = (a :: u64) mod b"
  by (simp_all add: word_div_def word_mod_def)

lemma word_arith:
  fixes a b :: u64
  shows "word_of_int (uint a + uint b) = a + b" and "word_of_int (uint a - uint b) = a - b" and "word_of_int (uint a * uint b) = a * b"
  by simp_all

lemma funct_fields:
  "unat (take_bit 7 (0 :: u8)) = 0" "unat (take_bit 7 (1 :: u8)) = 1" "unat (take_bit 7 (0x20 :: u8)) = 0x20"
  "unat (take_bit 3 (0 :: u8)) = 0" "unat (take_bit 3 (1 :: u8)) = 1" "unat (take_bit 3 (4 :: u8)) = 4" "unat (take_bit 3 (5 :: u8)) = 5"
  "unat (take_bit 3 (6 :: u8)) = 6" "unat (take_bit 3 (7 :: u8)) = 7"
  by simp_all

lemma exec_binop:
  assumes "op \<in> rv_int_binops" and "rv_read x (rv_reg rs1) = a" and "rv_read x (rv_reg rs2) = b"
    and "ir_binop 64 op (uint a) (uint b) = Some v"
  shows "rv_exec1 (rv_binop_enc op rs2 rs1 rd) x = Some (rv_write (rv_reg rd) (word_of_int v) x)"
proof -
  have b0: "uint b = 0 \<longleftrightarrow> b = 0" by (simp add: unsigned_eq_0_iff)
  have sh: "nat (uint b) = unat b" by (simp only: unat_eq_nat_uint)
  note rules = exec_op funct_fields assms(2,3) rv_alu_def word_of_take_bit word_arith word_bit_ops
  show ?thesis
  proof (cases "op \<in> {LR_OP_ADD, LR_OP_SUB, LR_OP_MUL, LR_OP_AND, LR_OP_OR, LR_OP_XOR}")
    case True
    then show ?thesis using assms(4) by (auto simp only: rules ir_binop_def rv_binop_enc.simps insert_iff empty_iff lr_opcode.case option.inject) simp_all
  next
    case False
    then consider "op = LR_OP_SHL" | "op = LR_OP_LSHR" | "op = LR_OP_ASHR" | "op \<in> {LR_OP_SDIV, LR_OP_SREM, LR_OP_UDIV, LR_OP_UREM}"
      using assms(1) by (auto simp: rv_int_binops_def)
    then show ?thesis
    proof cases
      case 1
      then have "uint b < 64" "v = take_bit 64 (uint a * 2 ^ unat b)" using assms(4) sh by (auto simp: ir_binop_def split: if_splits)
      then show ?thesis unfolding 1 by (simp add: rules rv_shift_amount word_shifts del: of_int_mult)
    next
      case 2
      then have "uint b < 64" "v = uint a div 2 ^ unat b" using assms(4) sh by (auto simp: ir_binop_def split: if_splits)
      then show ?thesis unfolding 2 by (simp add: rules rv_shift_amount word_shifts)
    next
      case 3
      then have "uint b < 64" "v = take_bit 64 (sint a div 2 ^ unat b)" using assms(4) sh by (auto simp: ir_binop_def sval_word split: if_splits)
      then show ?thesis unfolding 3 by (simp add: rules rv_shift_amount word_shifts)
    next
      case 4
      then show ?thesis using assms(4)
        by (auto simp: ir_binop_def sval_word rules word_div_mod b0 rv_div_def rv_rem_def rv_divu_def rv_remu_def split: if_splits)
    qed
  qed
qed

section \<open>The simulation\<close>

definition safe_regs :: "nat \<Rightarrow> nat set" where
  "safe_regs n = {10..17} \<union> set (take n (map rv_reg rv_gpr_tmp_pool))"

definition agrees :: "rv_vreg_map list \<Rightarrow> nat \<Rightarrow> (u32 \<Rightarrow> u64) \<Rightarrow> rv_regs \<Rightarrow> bool" where
  "agrees vm n val x \<longleftrightarrow>
     (\<forall>v r. vmap_reg vm RV_REGCLS_GPR v = Some r \<longrightarrow> rv_reg r \<in> safe_regs n \<and> rv_read x (rv_reg r) = val v)"

lemma pool_regs: "map rv_reg rv_gpr_tmp_pool = [28, 29, 30, 31, 18, 19, 20, 21, 22, 23, 24, 25, 26, 27]"
  by (simp add: rv_gpr_tmp_pool_def rv_reg_def)

lemma scratch_regs: "rv_reg RV_T0 = 5" "rv_reg RV_T1 = 6" "rv_reg RV_T2 = 7" "rv_reg RV_A0 = 10"
  by (simp_all add: rv_const_defs rv_reg_def)

lemma safe_regs_range: "r \<in> safe_regs n \<Longrightarrow> 10 \<le> r"
proof -
  assume "r \<in> safe_regs n"
  then have "r \<in> {10..17} \<union> set (map rv_reg rv_gpr_tmp_pool)" by (auto simp: safe_regs_def dest: in_set_takeD)
  then show ?thesis unfolding pool_regs by auto
qed

lemma pool_next:
  assumes "n < length rv_gpr_tmp_pool"
  shows "rv_reg (rv_gpr_tmp_pool ! n) \<notin> safe_regs n" and "18 \<le> rv_reg (rv_gpr_tmp_pool ! n)"
    and "safe_regs (Suc n) = insert (rv_reg (rv_gpr_tmp_pool ! n)) (safe_regs n)"
proof -
  let ?p = "map rv_reg rv_gpr_tmp_pool"
  have n: "n < length ?p" "rv_reg (rv_gpr_tmp_pool ! n) = ?p ! n" using assms by simp_all
  have "?p ! n \<in> set ?p" using n(1) by (rule nth_mem)
  then show ge: "18 \<le> rv_reg (rv_gpr_tmp_pool ! n)" unfolding n(2) unfolding pool_regs by auto
  have "distinct ?p" unfolding pool_regs by simp
  then have "?p ! n \<notin> set (take n ?p)"
    using n(1) by (metis distinct_take id_take_nth_drop not_distinct_conv_prefix take_Suc_conv_app_nth)
  then show "rv_reg (rv_gpr_tmp_pool ! n) \<notin> safe_regs n" using ge n(2) by (simp add: safe_regs_def)
  show "safe_regs (Suc n) = insert (rv_reg (rv_gpr_tmp_pool ! n)) (safe_regs n)"
    unfolding safe_regs_def take_Suc_conv_app_nth [OF n(1)] n(2) by auto
qed

text \<open>An operand ends up in a register that holds its value; only the scratch registers change.\<close>

lemma operand_gpr_correct:
  assumes "rv_operand_gpr ec op vm s1 s2 = (Some r, ec')" and "ec_ok ec" and "agrees vm n (regs env) x"
    and "opd_kind op = LR_VAL_IMM_I64 \<longrightarrow> li_ok (opd_imm_i64 op)"
    and "rv_reg s1 \<noteq> 0" and "rv_reg s2 \<noteq> 0" and "rv_reg s1 \<noteq> rv_reg s2"
  shows "\<exists>ws x'. emitted ec ws ec' \<and> rv_exec ws x = Some x' \<and> rv_read x' (rv_reg r) = opd_raw env op \<and>
    (r = s1 \<or> rv_reg r \<in> safe_regs n) \<and> (\<forall>q. q \<noteq> rv_reg s1 \<longrightarrow> q \<noteq> rv_reg s2 \<longrightarrow> rv_read x' q = rv_read x q)"
proof (cases "opd_kind op = LR_VAL_VREG")
  case True
  then have "vmap_reg vm RV_REGCLS_GPR (opd_vreg op) = Some r" "ec' = ec" using assms(1) by (simp_all add: rv_operand_gpr_def)
  then show ?thesis using assms(2,3) True by (intro exI [of _ "[]"] exI [of _ x]) (auto simp: agrees_def opd_raw_def)
next
  case False
  then have k: "opd_kind op = LR_VAL_IMM_I64" using assms(1) by (auto simp: rv_operand_gpr_def split: if_splits)
  then have "rv_emit_li64 ec s1 s2 (opd_imm_i64 op) = (0, ec')" "r = s1"
    using assms(1) by (auto simp: rv_operand_gpr_def split: prod.splits if_splits)
  moreover have "s1 \<noteq> s2" using assms(7) by auto
  ultimately have "emitted ec (li64_code s1 s2 (opd_imm_i64 op)) ec'" using emit_li64 emit_list_0 assms(2) by simp
  then show ?thesis using exec_li64 [OF assms(5-7), of "opd_imm_i64 op" x] assms(4) k \<open>r = s1\<close> by (auto simp: opd_raw_def)
qed

lemma ensure_vmap_agrees:
  assumes "rv_direct_ensure_vmap alloc ctx v = Some (0, ctx')"
  shows "vmap_reg (vmap ctx') c u = vmap_reg (vmap ctx) c u" and "unat v < length (vmap ctx')" and "ctx' = ctx\<lparr>vmap := vmap ctx'\<rparr>"
proof -
  have grow: "grow_vmap k n v = Some m \<Longrightarrow> v < m" for k n m
    by (induction k arbitrary: n) (auto split: if_splits)
  have app: "vmap_reg (vm @ replicate k no_vreg) c u = vmap_reg vm c u" for vm k
    by (auto simp: vmap_reg_def nth_append no_vreg_def)
  show "vmap_reg (vmap ctx') c u = vmap_reg (vmap ctx) c u"
    using assms app app [of "[]"] by (auto simp: rv_direct_ensure_vmap_def split: if_splits option.splits)
  show "unat v < length (vmap ctx')"
    using assms by (auto simp: rv_direct_ensure_vmap_def word_less_nat_alt split: if_splits option.splits dest!: grow)
  show "ctx' = ctx\<lparr>vmap := vmap ctx'\<rparr>"
    using assms by (auto simp: rv_direct_ensure_vmap_def split: if_splits option.splits)
qed

lemma agrees_bind:
  assumes "agrees vm n val x" and "n < length rv_gpr_tmp_pool" and "unat v < length vm" and "rd = rv_gpr_tmp_pool ! n"
    and "\<And>q. q \<in> safe_regs n \<Longrightarrow> rv_read x' q = rv_read x q"
  shows "agrees (vm[unat v := \<lparr>in_use = True, cls = RV_REGCLS_GPR, reg = rd\<rparr>]) (Suc n) (val(v := w)) (rv_write (rv_reg rd) w x')"
  unfolding agrees_def
proof (intro allI impI)
  fix u r
  assume m: "vmap_reg (vm[unat v := \<lparr>in_use = True, cls = RV_REGCLS_GPR, reg = rd\<rparr>]) RV_REGCLS_GPR u = Some r"
  show "rv_reg r \<in> safe_regs (Suc n) \<and> rv_read (rv_write (rv_reg rd) w x') (rv_reg r) = (val(v := w)) u"
  proof (cases "u = v")
    case True
    then have "r = rd" using m assms(3) by (simp add: vmap_reg_def)
    then show ?thesis using True pool_next(2,3) [OF assms(2)] assms(4) by (simp add: read_write)
  next
    case False
    then have "unat u \<noteq> unat v" by (simp add: word_unat_eq_iff)
    then have "vmap_reg vm RV_REGCLS_GPR u = Some r" using m by (auto simp: vmap_reg_def split: if_splits)
    then have "rv_reg r \<in> safe_regs n" "rv_read x (rv_reg r) = val u" using assms(1) by (auto simp: agrees_def)
    moreover have "rv_reg r \<noteq> rv_reg rd" using pool_next(1) [OF assms(2)] assms(4) calculation(1) by auto
    ultimately show ?thesis using False assms(5) pool_next(3) [OF assms(2)] by (simp add: read_write)
  qed
qed

section \<open>Instructions\<close>

lemma ucast_up_down: "(ucast (ucast (w :: u32) :: u64) :: u32) = w"
  by (rule bit_word_eqI) (simp add: bit_simps)

lemma desc_round_trip:
  "opd_kind (rv_operand_from_desc (operand_to_desc o')) = opd_kind o'"
  "opd_type (rv_operand_from_desc (operand_to_desc o')) = opd_type o'"
  "opd_kind o' \<in> {LR_VAL_VREG, LR_VAL_IMM_I64} \<Longrightarrow> opd_raw env (rv_operand_from_desc (operand_to_desc o')) = opd_raw env o'"
  "opd_kind o' = LR_VAL_IMM_I64 \<Longrightarrow> opd_imm_i64 (rv_operand_from_desc (operand_to_desc o')) = opd_imm_i64 o'"
  by (auto simp: rv_operand_from_desc_def operand_to_desc_def opd_raw_def opd_vreg_def opd_imm_i64_def ucast_up_down)

text \<open>The operands and instructions of the theorem: 64 bits wide, with immediates the backend loads.\<close>

definition i64_operand :: "lr_operand \<Rightarrow> bool" where
  "i64_operand o' \<longleftrightarrow>
     \<not> rv_type_is_fp (opd_type o') \<and> ty_bits (opd_type o') = 64 \<and> (opd_kind o' = LR_VAL_IMM_I64 \<longrightarrow> li_ok (opd_imm_i64 o'))"

definition straight :: "lr_inst \<Rightarrow> bool" where
  "straight i \<longleftrightarrow> inst_op i \<in> rv_int_binops \<and> ty_bits (inst_type i) = 64 \<and> list_all i64_operand (operands i)"

fun ir_block :: "ir_env \<Rightarrow> lr_inst list \<Rightarrow> ir_env option" where
  "ir_block env [] = Some env"
| "ir_block env (i # is) =
     (case ir_value env i of None \<Rightarrow> None
      | Some v \<Rightarrow> ir_block (env\<lparr>regs := (regs env)(inst_dest i := word_of_int v)\<rparr>) is)"

lemma opd_val_64: "i64_operand o' \<Longrightarrow> opd_val env o' = uint (opd_raw env o')"
  using unsigned_less [of "opd_raw env o'", where 'a = int]
  by (simp add: opd_val_def i64_operand_def uval_def take_bit_below)

lemma ir_value_binop:
  assumes "straight i" and "operands i = [a, b]"
  shows "ir_value env i = ir_binop 64 (inst_op i) (uint (opd_raw env a)) (uint (opd_raw env b))"
  using assms opd_val_64 [of a env] opd_val_64 [of b env]
  by (auto simp: straight_def ir_value_def rv_int_binops_def)

lemma operand_kinds:
  assumes "rv_operand_gpr ec op vm s1 s2 = (Some r, ec')"
  shows "opd_kind op \<in> {LR_VAL_VREG, LR_VAL_IMM_I64}"
  using assms by (auto simp: rv_operand_gpr_def split: if_splits)

lemma emit_binop_correct:
  fixes i :: lr_inst
  defines "d \<equiv> inst_to_desc i" and "ops \<equiv> map rv_operand_from_desc (take 16 (d_operands (inst_to_desc i)))"
  assumes "rv_emit_binop ctx d ops = (0, ctx')" and "straight i" and "ir_value env i = Some v"
    and "ec_ok (dc_ec ctx)" and "agrees (vmap ctx) (gpr_next ctx) (regs env) x" and "unat (inst_dest i) < length (vmap ctx)"
  shows "\<exists>ws x'. emitted (dc_ec ctx) ws (dc_ec ctx') \<and> rv_exec ws x = Some x' \<and> rv_read x' 1 = rv_read x 1 \<and>
    agrees (vmap ctx') (gpr_next ctx') ((regs env)(inst_dest i := word_of_int v)) x' \<and>
    gpr_next ctx < length rv_gpr_tmp_pool \<and> gpr_next ctx' = Suc (gpr_next ctx) \<and> ra_saved ctx' = ra_saved ctx \<and>
    has_current_block ctx' = has_current_block ctx"
proof -
  let ?rd = "rv_gpr_tmp_pool ! gpr_next ctx"
  have n: "gpr_next ctx < length rv_gpr_tmp_pool" and l2: "length (operands i) = 2"
    using assms(3) by (auto simp: rv_emit_binop_def d_def inst_to_desc_def split: if_splits)
  obtain a b where ab: "operands i = [a, b]" using l2 by (auto simp: length_Suc_conv eval_nat_numeral)
  then have ops: "ops ! 0 = rv_operand_from_desc (operand_to_desc a)" "ops ! 1 = rv_operand_from_desc (operand_to_desc b)"
    by (simp_all add: ops_def inst_to_desc_def)
  have imm: "i64_operand a" "i64_operand b" using assms(4) ab by (simp_all add: straight_def)
  obtain r1 ec1 r2 ec2 where o1: "rv_operand_gpr (dc_ec ctx) (ops ! 0) (vmap ctx) RV_T1 RV_T0 = (Some r1, ec1)"
    and o2: "rv_operand_gpr ec1 (ops ! 1) (vmap ctx) RV_T2 RV_T0 = (Some r2, ec2)"
    and e: "emit_bind (ctx\<lparr>gpr_next := gpr_next ctx + 1\<rparr>) ec2 (rv_binop_enc (inst_op i) r2 r1 ?rd) (inst_dest i) RV_REGCLS_GPR ?rd = (0, ctx')"
    using assms(3) n by (auto simp: rv_emit_binop_def d_def inst_to_desc_def Let_def split: if_splits prod.splits option.splits)
  have k: "opd_kind a \<in> {LR_VAL_VREG, LR_VAL_IMM_I64}" "opd_kind b \<in> {LR_VAL_VREG, LR_VAL_IMM_I64}"
    using operand_kinds [OF o1] operand_kinds [OF o2] unfolding ops desc_round_trip by blast+
  note raw = desc_round_trip(3) [OF k(1)] desc_round_trip(3) [OF k(2)]
  obtain w1 x1 where s1: "emitted (dc_ec ctx) w1 ec1" "rv_exec w1 x = Some x1" "rv_read x1 (rv_reg r1) = opd_raw env a"
    "r1 = RV_T1 \<or> rv_reg r1 \<in> safe_regs (gpr_next ctx)" "\<And>q. q \<noteq> 6 \<Longrightarrow> q \<noteq> 5 \<Longrightarrow> rv_read x1 q = rv_read x q"
    using operand_gpr_correct [OF o1 assms(6,7)] imm unfolding ops raw by (auto simp: scratch_regs i64_operand_def desc_round_trip)
  have ok1: "ec_ok ec1" using s1(1) by (auto simp: emitted_def dest: extends_ok)
  have ag1: "agrees (vmap ctx) (gpr_next ctx) (regs env) x1"
    using assms(7) s1(5) safe_regs_range by (fastforce simp: agrees_def)
  obtain w2 x2 where s2: "emitted ec1 w2 ec2" "rv_exec w2 x1 = Some x2" "rv_read x2 (rv_reg r2) = opd_raw env b"
    "\<And>q. q \<noteq> 7 \<Longrightarrow> q \<noteq> 5 \<Longrightarrow> rv_read x2 q = rv_read x1 q"
    using operand_gpr_correct [OF o2 ok1 ag1] imm unfolding ops raw by (auto simp: scratch_regs i64_operand_def desc_round_trip)
  have "rv_reg r1 \<noteq> 7" "rv_reg r1 \<noteq> 5" using s1(4) safe_regs_range [of "rv_reg r1"] by (auto simp: scratch_regs)
  then have v1: "rv_read x2 (rv_reg r1) = opd_raw env a" using s1(3) s2(4) by simp
  have iv: "ir_binop 64 (inst_op i) (uint (opd_raw env a)) (uint (opd_raw env b)) = Some v"
    using ir_value_binop [OF assms(4) ab] assms(5) by simp
  have bo: "inst_op i \<in> rv_int_binops" using assms(4) by (simp add: straight_def)
  note ex = exec_binop [OF bo v1 s2(3) iv, of ?rd]
  obtain ec3 where e3: "rv_emit32 ec2 (rv_binop_enc (inst_op i) r2 r1 ?rd) = (0, ec3)"
    and c: "ctx' = set_vreg (inst_dest i) RV_REGCLS_GPR ?rd (with_ec (ctx\<lparr>gpr_next := gpr_next ctx + 1\<rparr>) ec3)"
    using e by (auto simp: emit_bind_def split: prod.splits if_splits)
  have ok2: "ec_ok ec2" using s2(1) by (auto simp: emitted_def dest: extends_ok)
  have em: "emitted (dc_ec ctx) (w1 @ w2 @ [rv_binop_enc (inst_op i) r2 r1 ?rd]) ec3"
    using emitted_append [OF s1(1) emitted_append [OF s2(1) emit32_emitted [OF ok2 e3]]] .
  have keep: "rv_read x2 q = rv_read x q" if "q \<in> safe_regs (gpr_next ctx)" for q
    using s1(5) s2(4) safe_regs_range [OF that] by simp
  have "rv_read (rv_write (rv_reg ?rd) w x2) 1 = rv_read x 1" for w
    using pool_next(2) [OF n] s1(5) [of 1] s2(4) [of 1] by (simp add: read_write)
  moreover have "rv_exec (w1 @ w2 @ [rv_binop_enc (inst_op i) r2 r1 ?rd]) x = Some (rv_write (rv_reg ?rd) (word_of_int v) x2)"
    using s1(2) s2(2) ex by (simp add: rv_exec_append)
  moreover have "agrees (vmap ctx') (gpr_next ctx') ((regs env)(inst_dest i := word_of_int v)) (rv_write (rv_reg ?rd) (word_of_int v) x2)"
    using agrees_bind [OF assms(7) n assms(8) refl keep] by (simp add: c set_vreg_def with_ec_def)
  ultimately show ?thesis using em n by (intro exI conjI) (auto simp: c set_vreg_def with_ec_def)
qed

lemma compile_emit_binop:
  assumes "rv_compile_emit mem ctx (inst_to_desc i) = Some (0, ctx')" and "straight i"
  shows "\<exists>ctx1. rv_emit_binop ctx1 (inst_to_desc i) (map rv_operand_from_desc (take 16 (d_operands (inst_to_desc i)))) = (0, ctx') \<and>
    (\<forall>c u. vmap_reg (vmap ctx1) c u = vmap_reg (vmap ctx) c u) \<and> unat (inst_dest i) < length (vmap ctx1) \<and>
    dc_ec ctx1 = dc_ec ctx \<and> gpr_next ctx1 = gpr_next ctx \<and> ra_saved ctx1 = ra_saved ctx \<and> has_current_block ctx1 = has_current_block ctx"
proof -
  let ?n = "rv_direct_note_vregs ctx (inst_to_desc i)"
  obtain ctx1 where e: "rv_direct_ensure_vmap (arena_ok mem) ?n (inst_dest i) = Some (0, ctx1)"
    and d: "rv_dispatch (calloc_ok mem) (realloc_ok mem) ctx1 (inst_to_desc i) (map rv_operand_from_desc (take 16 (d_operands (inst_to_desc i)))) = Some (0, ctx')"
    using assms(1) by (auto simp: rv_compile_emit_def Let_def inst_to_desc_def split: if_splits option.splits)
  have "rv_emit_binop ctx1 (inst_to_desc i) (map rv_operand_from_desc (take 16 (d_operands (inst_to_desc i)))) = (0, ctx')"
    using d assms(2) unfolding rv_dispatch_def by (auto simp: straight_def rv_int_binops_def rv_unsupported_def inst_to_desc_def)
  moreover have "vmap ?n = vmap ctx" "gpr_next ?n = gpr_next ctx" "ra_saved ?n = ra_saved ctx" "has_current_block ?n = has_current_block ctx"
    by (simp_all add: rv_direct_note_vregs_def Let_def)
  moreover have "dc_ec ctx1 = dc_ec ?n" "gpr_next ctx1 = gpr_next ?n" "ra_saved ctx1 = ra_saved ?n" "has_current_block ctx1 = has_current_block ?n"
    using ensure_vmap_agrees(3) [OF e] by (metis rv_direct_ctx.select_convs rv_direct_ctx.surjective rv_direct_ctx.update_convs(2))+
  ultimately show ?thesis using ensure_vmap_agrees(1,2) [OF e] by (intro exI [of _ ctx1]) simp
qed

lemma body_correct:
  assumes "call_all (rv_compile_emit mem) (map inst_to_desc body) ctx = Some (0, ctx')" and "list_all straight body"
    and "ir_block env body = Some env'" and "ec_ok (dc_ec ctx)" and "agrees (vmap ctx) (gpr_next ctx) (regs env) x"
  shows "\<exists>ws x'. emitted (dc_ec ctx) ws (dc_ec ctx') \<and> rv_exec ws x = Some x' \<and> rv_read x' 1 = rv_read x 1 \<and>
    agrees (vmap ctx') (gpr_next ctx') (regs env') x' \<and> gpr_next ctx' = gpr_next ctx + length body \<and>
    gpr_next ctx' \<le> max (gpr_next ctx) (length rv_gpr_tmp_pool) \<and> ra_saved ctx' = ra_saved ctx"
  using assms
proof (induction body arbitrary: ctx env x)
  case Nil
  then show ?case by (intro exI [of _ "[]"] exI [of _ x]) simp
next
  case (Cons i body)
  obtain c1 where c1: "rv_compile_emit mem ctx (inst_to_desc i) = Some (0, c1)"
    "call_all (rv_compile_emit mem) (map inst_to_desc body) c1 = Some (0, ctx')"
    using Cons.prems(1) by (auto split: option.splits if_splits)
  obtain v where v: "ir_value env i = Some v" "ir_block (env\<lparr>regs := (regs env)(inst_dest i := word_of_int v)\<rparr>) body = Some env'"
    using Cons.prems(3) by (auto split: option.splits)
  have st: "straight i" "list_all straight body" using Cons.prems(2) by simp_all
  obtain c0 where c0: "rv_emit_binop c0 (inst_to_desc i) (map rv_operand_from_desc (take 16 (d_operands (inst_to_desc i)))) = (0, c1)"
    "\<And>c u. vmap_reg (vmap c0) c u = vmap_reg (vmap ctx) c u" "unat (inst_dest i) < length (vmap c0)"
    "dc_ec c0 = dc_ec ctx" "gpr_next c0 = gpr_next ctx" "ra_saved c0 = ra_saved ctx"
    using compile_emit_binop [OF c1(1) st(1)] by blast
  have ag: "agrees (vmap c0) (gpr_next c0) (regs env) x" using Cons.prems(5) c0(2,5) by (simp add: agrees_def)
  have ok: "ec_ok (dc_ec c0)" using Cons.prems(4) c0(4) by simp
  obtain w1 x1 where s1: "emitted (dc_ec ctx) w1 (dc_ec c1)" "rv_exec w1 x = Some x1" "rv_read x1 1 = rv_read x 1"
    "agrees (vmap c1) (gpr_next c1) ((regs env)(inst_dest i := word_of_int v)) x1" "gpr_next ctx < length rv_gpr_tmp_pool"
    "gpr_next c1 = Suc (gpr_next ctx)" "ra_saved c1 = ra_saved ctx"
    using emit_binop_correct [OF c0(1) st(1) v(1) ok ag c0(3)] unfolding c0(4,5,6) by blast
  have ok1: "ec_ok (dc_ec c1)" using s1(1) by (auto simp: emitted_def dest: extends_ok)
  have ag1: "agrees (vmap c1) (gpr_next c1) (regs (env\<lparr>regs := (regs env)(inst_dest i := word_of_int v)\<rparr>)) x1" using s1(4) by simp
  obtain w2 x2 where s2: "emitted (dc_ec c1) w2 (dc_ec ctx')" "rv_exec w2 x1 = Some x2" "rv_read x2 1 = rv_read x1 1"
    "agrees (vmap ctx') (gpr_next ctx') (regs env') x2" "gpr_next ctx' = gpr_next c1 + length body"
    "gpr_next ctx' \<le> max (gpr_next c1) (length rv_gpr_tmp_pool)" "ra_saved ctx' = ra_saved c1"
    using Cons.IH [OF c1(2) st(2) v(2) ok1 ag1] by blast
  show ?case
    using emitted_append [OF s1(1) s2(1)] s1(2-) s2(2-)
    by (intro exI [of _ "w1 @ w2"] exI [of _ x2]) (simp add: rv_exec_append)
qed

section \<open>Returns and parameters\<close>

lemma emit_ret_correct:
  assumes "rv_emit_ret ctx (inst_to_desc i) (map rv_operand_from_desc (take 16 (d_operands (inst_to_desc i)))) = (0, ctx')"
    and "operands i = [o']" and "i64_operand o'" and "\<not> ra_saved ctx" and "ec_ok (dc_ec ctx)"
    and "agrees (vmap ctx) n (regs env) x"
  shows "\<exists>ws x'. emitted (dc_ec ctx) (ws @ [ret_word]) (dc_ec ctx') \<and> rv_exec ws x = Some x' \<and>
    rv_read x' 10 = opd_raw env o' \<and> rv_read x' 1 = rv_read x 1"
proof -
  let ?o = "rv_operand_from_desc (operand_to_desc o')"
  have fp: "rv_type_is_fp (opd_type ?o) = False" using assms(3) by (simp add: desc_round_trip i64_operand_def)
  have ops: "map rv_operand_from_desc (take 16 (d_operands (inst_to_desc i))) = [?o]" "length (d_operands (inst_to_desc i)) = 1"
    using assms(2) by (simp_all add: inst_to_desc_def)
  obtain r ec1 where o: "rv_operand_gpr (dc_ec ctx) ?o (vmap ctx) RV_T1 RV_T2 = (Some r, ec1)"
    and e: "rv_then (if r = RV_A0 then (0, ec1) else rv_emit_mv ec1 RV_A0 r) (rv_emit_return False) = (0, dc_ec ctx')"
    using assms(1,4) unfolding ops rv_emit_ret_def Let_def nth_Cons_0 fp if_False by (auto split: option.splits prod.splits)
  have raw: "opd_raw env ?o = opd_raw env o'" using operand_kinds [OF o] by (intro desc_round_trip(3)) (simp add: desc_round_trip)
  obtain w1 x1 where s1: "emitted (dc_ec ctx) w1 ec1" "rv_exec w1 x = Some x1" "rv_read x1 (rv_reg r) = opd_raw env o'"
    "\<And>q. q \<noteq> 6 \<Longrightarrow> q \<noteq> 7 \<Longrightarrow> rv_read x1 q = rv_read x q"
    using operand_gpr_correct [OF o assms(5,6)] assms(3) unfolding raw by (auto simp: scratch_regs i64_operand_def desc_round_trip)
  define mv where "mv = (if r = RV_A0 then [] else [rv_enc_i 0 r 0 RV_A0 RV_OPCODE_OPIMM])"
  have ok: "ec_ok ec1" using s1(1) by (auto simp: emitted_def dest: extends_ok)
  have "emit_list ec1 (mv @ [ret_word]) = (0, dc_ec ctx')"
    using e unfolding rv_emit_return_def mv_def emit_mv by (cases "r = RV_A0") (simp_all add: rv_then_assoc)
  then have "emitted (dc_ec ctx) ((w1 @ mv) @ [ret_word]) (dc_ec ctx')"
    using emit_list_0 [OF ok] emitted_append [OF s1(1)] by simp
  moreover have "rv_exec (w1 @ mv) x = Some (if r = RV_A0 then x1 else rv_write 10 (rv_read x1 (rv_reg r)) x1)"
    using s1(2) by (simp add: mv_def rv_exec_append exec_addi scratch_regs)
  ultimately show ?thesis using s1(3) s1(4) [of 1]
    by (intro exI [of _ "w1 @ mv"] exI [of _ "if r = RV_A0 then x1 else rv_write 10 (rv_read x1 (rv_reg r)) x1"])
      (auto simp: read_write scratch_regs)
qed

text \<open>The values of the integer parameters, in their registers from \<open>i\<close> on.\<close>

fun args_in_regs :: "rv_regs \<Rightarrow> (u32 \<Rightarrow> u64) \<Rightarrow> (u32 \<times> lr_type option) list \<Rightarrow> nat \<Rightarrow> bool" where
  "args_in_regs x val [] i \<longleftrightarrow> True"
| "args_in_regs x val ((v, t) # ps) i \<longleftrightarrow>
     (if rv_type_is_fp t then args_in_regs x val ps i else val v = rv_read x i \<and> args_in_regs x val ps (Suc i))"

lemma vmap_reg_update:
  "vmap_reg (vm[unat v := e]) c u =
     (if u = v \<and> unat v < length vm then (if in_use e \<and> cls e = c then Some (reg e) else None) else vmap_reg vm c u)"
proof (cases "u = v")
  case False
  then have "unat u \<noteq> unat v" by (simp add: word_unat_eq_iff)
  then show ?thesis using False by (simp add: vmap_reg_def)
qed (auto simp: vmap_reg_def)

lemma bind_params_agrees:
  assumes "rv_bind_params alloc feat ps ni nf ctx = Some (0, ctx')" and "agrees (vmap ctx) 0 val x"
    and "args_in_regs x val ps (unat ni)" and "10 \<le> unat ni"
  shows "agrees (vmap ctx') 0 val x \<and> gpr_next ctx' = gpr_next ctx \<and> ra_saved ctx' = ra_saved ctx"
  using assms
proof (induction alloc feat ps ni nf ctx rule: rv_bind_params.induct)
  case (2 alloc feat v pt ps ni nf ctx)
  obtain c1 where e: "rv_direct_ensure_vmap alloc ctx v = Some (0, c1)"
    using "2.prems"(1) by (auto split: option.splits if_splits)
  have c1: "agrees (vmap c1) 0 val x" "gpr_next c1 = gpr_next ctx" "ra_saved c1 = ra_saved ctx"
    using ensure_vmap_agrees [OF e] "2.prems"(2) by (auto simp: agrees_def) (metis rv_direct_ctx.select_convs rv_direct_ctx.surjective rv_direct_ctx.update_convs(2))+
  show ?case
  proof (cases "rv_type_is_fp pt")
    case True
    have "agrees (vmap (set_vreg v RV_REGCLS_FPR nf c1)) 0 val x"
      using c1(1) by (auto simp: agrees_def set_vreg_def vmap_reg_update RV_REGCLS_FPR_def RV_REGCLS_GPR_def split: if_splits)
    then show ?thesis using "2.prems" "2.IH"(1) [OF e refl _ True] True e c1(2,3) by (auto simp: set_vreg_def split: if_splits)
  next
    case False
    then have ni: "unat ni \<le> 17" and call: "rv_bind_params alloc feat ps (ni + 1) nf (set_vreg v RV_REGCLS_GPR ni c1) = Some (0, ctx')"
      and ok: "\<not> (\<not> rv_type_is_intlike pt \<or> RV_A7 < ni)"
      using "2.prems"(1) e by (auto simp: RV_A7_def word_less_nat_alt split: if_splits)
    have r: "rv_reg ni = unat ni" using ni by (simp add: rv_reg_def unsigned_take_bit_eq take_bit_nat_eq_self)
    have n1: "unat (ni + 1) = Suc (unat ni)" using ni by (simp add: unat_word_ariths)
    have "agrees (vmap (set_vreg v RV_REGCLS_GPR ni c1)) 0 val x"
      using c1(1) "2.prems"(3,4) False ni r by (auto simp: agrees_def set_vreg_def vmap_reg_update safe_regs_def split: if_splits)
    then show ?thesis using "2.prems"(3,4) "2.IH"(2) [OF e refl _ False ok call] False c1(2,3) n1 by (auto simp: set_vreg_def)
  qed
qed auto

section \<open>Functions\<close>

lemma call_all_append:
  "call_all f (xs @ ys) c =
     (case call_all f xs c of None \<Rightarrow> None | Some (rc, c') \<Rightarrow> if rc \<noteq> 0 then Some (rc, c') else call_all f ys c')"
  by (induction xs arbitrary: c) (auto split: option.splits)

text \<open>A function with phi instructions is refused, so a successful replay starts from the given context.\<close>

lemma replay_one_block:
  assumes "t = target_riscv64gc mem \<or> t = target_riscv64im mem"
    and "lr_replay_function_stream calloc t ctx f = Some (0, ctx')" and "blocks f = [b]"
  shows "replay_block t ctx b = Some (0, ctx')"
proof -
  have add: "compile_add_phi_copy t = Some rv_compile_add_phi_copy" using assms(1) by (auto simp: target_riscv64gc_def target_riscv64im_def)
  have "call_all (\<lambda>c (p, s, d, v). rv_compile_add_phi_copy c p s d v) xs c = Some (0, c') \<Longrightarrow> c' = c" for xs c c'
    by (cases xs) (auto simp: rv_compile_add_phi_copy_def)
  then have "replay_phi_copies t ctx f = Some (0, c1) \<Longrightarrow> c1 = ctx" for c1
    by (auto simp: replay_phi_copies_def add split: if_splits option.splits)
  then show ?thesis using assms(2,3)
    by (auto simp: lr_replay_function_stream_def Let_def split: if_splits option.splits)
qed

lemma begin_agrees:
  assumes "rv_compile_begin_common alloc feat meta m buf = Some (0, Some ctx)"
    and "fm_param_vregs meta = Some vs" and "fm_param_types meta = Some ts"
    and "args_in_regs x val (zip (take (unat (fm_num_params meta)) vs) (take (unat (fm_num_params meta)) ts)) 10"
  shows "agrees (vmap ctx) 0 val x" and "gpr_next ctx = 0" and "\<not> ra_saved ctx"
proof -
  have none: "agrees (replicate k no_vreg) 0 val x" for k by (auto simp: agrees_def vmap_reg_def no_vreg_def)
  have a0: "unat RV_A0 = 10" by (simp add: RV_A0_def)
  obtain c0 where c0: "rv_bind_params alloc feat (zip (take (unat (fm_num_params meta)) vs) (take (unat (fm_num_params meta)) ts)) RV_A0 RV_FA0 c0 = Some (0, ctx)"
    and i: "\<exists>k. vmap c0 = replicate k no_vreg" "gpr_next c0 = 0" "\<not> ra_saved c0"
    using assms(1-3) by (fastforce simp: rv_compile_begin_common_def Let_def split: if_splits option.splits)
  have ag0: "agrees (vmap c0) 0 val x" using i(1) none by auto
  have "agrees (vmap ctx) 0 val x \<and> gpr_next ctx = gpr_next c0 \<and> ra_saved ctx = ra_saved c0"
    by (rule bind_params_agrees [OF c0 ag0]) (use assms(4) a0 in simp_all)
  then show "agrees (vmap ctx) 0 val x" "gpr_next ctx = 0" "\<not> ra_saved ctx" using i by simp_all
qed

lemma replay_block_riscv:
  assumes "t = target_riscv64gc mem \<or> t = target_riscv64im mem" and "replay_block t ctx b = Some (0, ctx')"
    and "block_stream b = Some (body @ [r])" and "inst_op r = LR_OP_RET"
  shows "\<exists>c1 c2. call_all (rv_compile_emit mem) (map inst_to_desc body) c1 = Some (0, c2) \<and>
    rv_compile_emit mem c2 (inst_to_desc r) = Some (0, ctx') \<and>
    dc_ec c1 = dc_ec ctx \<and> vmap c1 = vmap ctx \<and> gpr_next c1 = gpr_next ctx \<and> ra_saved c1 = ra_saved ctx"
proof -
  let ?c1 = "ctx\<lparr>current_block_id := blk_id b, has_current_block := True\<rparr>"
  have entries: "compile_emit t = Some (rv_compile_emit mem)" "compile_set_block t = Some rv_compile_set_block"
    using assms(1) by (auto simp: target_riscv64gc_def target_riscv64im_def)
  have "stream_inst_is_terminator r" using assms(4) by (simp add: stream_inst_is_terminator_def)
  then have "call_all (rv_compile_emit mem) (map inst_to_desc body @ [inst_to_desc r]) ?c1 = Some (0, ctx')"
    using assms(2,3) by (auto simp: replay_block_def entries rv_compile_set_block_def split: if_splits option.splits)
  then obtain c2 where "call_all (rv_compile_emit mem) (map inst_to_desc body) ?c1 = Some (0, c2)"
    "rv_compile_emit mem c2 (inst_to_desc r) = Some (0, ctx')"
    by (auto simp: call_all_append split: option.splits if_splits)
  then show ?thesis by (intro exI [of _ ?c1] exI [of _ c2]) simp
qed

lemma compile_emit_ret:
  assumes "rv_compile_emit mem ctx (inst_to_desc r) = Some (0, ctx')" and "inst_op r = LR_OP_RET"
    and "agrees (vmap ctx) n val x"
  shows "\<exists>ctx1. rv_emit_ret ctx1 (inst_to_desc r) (map rv_operand_from_desc (take 16 (d_operands (inst_to_desc r)))) = (0, ctx') \<and>
    agrees (vmap ctx1) n val x \<and> dc_ec ctx1 = dc_ec ctx \<and> ra_saved ctx1 = ra_saved ctx"
proof -
  let ?n = "rv_direct_note_vregs ctx (inst_to_desc r)"
  obtain ctx1 where e: "rv_direct_ensure_vmap (arena_ok mem) ?n (inst_dest r) = Some (0, ctx1)"
    and d: "rv_dispatch (calloc_ok mem) (realloc_ok mem) ctx1 (inst_to_desc r) (map rv_operand_from_desc (take 16 (d_operands (inst_to_desc r)))) = Some (0, ctx')"
    using assms(1) by (auto simp: rv_compile_emit_def Let_def inst_to_desc_def split: if_splits option.splits)
  have "rv_emit_ret ctx1 (inst_to_desc r) (map rv_operand_from_desc (take 16 (d_operands (inst_to_desc r)))) = (0, ctx')"
    using d assms(2) unfolding rv_dispatch_def by (auto simp: rv_int_binops_def rv_unsupported_def inst_to_desc_def)
  moreover have "dc_ec ctx1 = dc_ec ?n" "ra_saved ctx1 = ra_saved ?n"
    using ensure_vmap_agrees(3) [OF e] by (metis rv_direct_ctx.select_convs rv_direct_ctx.surjective rv_direct_ctx.update_convs(2))+
  moreover have "vmap ?n = vmap ctx" "ra_saved ?n = ra_saved ctx" by (simp_all add: rv_direct_note_vregs_def Let_def)
  ultimately show ?thesis using ensure_vmap_agrees(1) [OF e] assms(3) by (intro exI [of _ ctx1]) (simp add: agrees_def)
qed

text \<open>Compiler correctness, for the replay.  A function of one block, 64-bit integer operations and a return,
  is compiled for one of the RISC-V targets with success.  Whenever its value is defined, the code in
  the buffer, called with the arguments in the argument registers, returns to the address in \<^verbatim>\<open>ra\<close>
  with the value in \<^verbatim>\<open>a0\<close>.  The function has at most fourteen operations, one for each register
  of the pool.\<close>

theorem riscv_replay_correct:
  assumes "rv_compile_begin_common (arena_ok mem) feat meta m buf = Some (0, Some ctx)"
    and "t = target_riscv64gc mem \<or> t = target_riscv64im mem"
    and "lr_replay_function_stream calloc t ctx f = Some (0, ctx')"
    and "blocks f = [b]" and "block_stream b = Some (body @ [r])" and "list_all straight body"
    and "inst_op r = LR_OP_RET" and "operands r = [o']" and "i64_operand o'"
    and "fm_param_vregs meta = Some vs" and "fm_param_types meta = Some ts"
    and "args_in_regs x (regs env) (zip (take (unat (fm_num_params meta)) vs) (take (unat (fm_num_params meta)) ts)) 10"
    and "ir_block env body = Some env'"
  shows "\<exists>n x'. rv_compile_end ctx' = Some (0, n) \<and>
    rv_call (rv_words (take n (ec_buf (dc_ec ctx')))) x = Some (rv_read x 1 AND NOT 1, x') \<and>
    uint (rv_read x' 10) = opd_val env' o' \<and> length body \<le> 14"
proof -
  have ec: "dc_ec ctx = \<lparr>ec_buf = buf, ec_pos = 0\<rparr>" "ec_ok (dc_ec ctx)" using begin_ec [OF assms(1)] by (simp_all add: ec_ok_def)
  note init = begin_agrees [OF assms(1,10,11,12)]
  obtain c1 c2 where c: "call_all (rv_compile_emit mem) (map inst_to_desc body) c1 = Some (0, c2)"
    "rv_compile_emit mem c2 (inst_to_desc r) = Some (0, ctx')"
    "dc_ec c1 = dc_ec ctx" "vmap c1 = vmap ctx" "gpr_next c1 = gpr_next ctx" "ra_saved c1 = ra_saved ctx"
    using replay_block_riscv [OF assms(2) replay_one_block [OF assms(2,3,4)] assms(5,7)] by blast
  obtain w1 x1 where s1: "emitted (dc_ec ctx) w1 (dc_ec c2)" "rv_exec w1 x = Some x1" "rv_read x1 1 = rv_read x 1"
    "agrees (vmap c2) (gpr_next c2) (regs env') x1" "gpr_next c2 = length body" "gpr_next c2 \<le> length rv_gpr_tmp_pool" "\<not> ra_saved c2"
    using body_correct [OF c(1) assms(6,13), of x] c(3-6) ec(2) init by auto
  obtain c3 where c3: "rv_emit_ret c3 (inst_to_desc r) (map rv_operand_from_desc (take 16 (d_operands (inst_to_desc r)))) = (0, ctx')"
    "agrees (vmap c3) (gpr_next c2) (regs env') x1" "dc_ec c3 = dc_ec c2" "\<not> ra_saved c3"
    using compile_emit_ret [OF c(2) assms(7) s1(4)] s1(7) by auto
  have ok3: "ec_ok (dc_ec c3)" using s1(1) c3(3) by (auto simp: emitted_def dest: extends_ok)
  obtain w2 x2 where s2: "emitted (dc_ec c2) (w2 @ [ret_word]) (dc_ec ctx')" "rv_exec w2 x1 = Some x2"
    "rv_read x2 10 = opd_raw env' o'" "rv_read x2 1 = rv_read x1 1"
    using emit_ret_correct [OF c3(1) assms(8,9) c3(4) ok3 c3(2)] unfolding c3(3) by blast
  have em: "emitted (dc_ec ctx) (w1 @ w2 @ [ret_word]) (dc_ec ctx')" by (rule emitted_append [OF s1(1) s2(1)])
  then have "rv_words (code_between (dc_ec ctx) (dc_ec ctx')) = w1 @ w2 @ [ret_word]" by (simp add: emitted_def)
  then have "rv_words (take (ec_pos (dc_ec ctx')) (ec_buf (dc_ec ctx'))) = w1 @ w2 @ [ret_word]"
    unfolding ec(1) code_between_def by simp
  moreover have "rv_call (w1 @ w2 @ [ret_word]) x = Some (rv_read x 1 AND NOT 1, x2)"
    unfolding rv_call_append [OF s1(2)] rv_call_append [OF s2(2)] rv_call_ret s2(4) s1(3) ..
  moreover have "rv_compile_end ctx' = Some (0, ec_pos (dc_ec ctx'))"
    using em by (auto simp: emitted_def extends_def rv_compile_end_def)
  moreover have "length body \<le> 14" using s1(5,6) by (simp add: rv_gpr_tmp_pool_def)
  ultimately show ?thesis using s2(3) opd_val_64 [OF assms(9)] by auto
qed

section \<open>The example\<close>

lemma demo_straight:
  "list_all straight demo_body" "i64_operand (demo_vreg 4)" "inst_op demo_ret = LR_OP_RET" "operands demo_ret = [demo_vreg 4]"
  by code_simp (simp_all add: i64_operand_def demo_vreg_def demo_ret_def demo_inst_def demo_i64_def rv_type_is_fp_def int_type_width_bits_def)

lemma demo_stream: "block_stream demo_block = Some (demo_body @ [demo_ret])"
  by (simp add: block_stream_def demo_block_def demo_body_def demo_ret_def demo_inst_def)

lemma demo_value:
  fixes env :: ir_env
  defines "env \<equiv> \<lparr>regs = (\<lambda>_. 0)(1 := 5, 2 := 7), gaddr = \<lambda>_. 0, undefv = 0\<rparr>"
  shows "ir_block env demo_body = Some (env\<lparr>regs := (regs env)(3 := 70005, 4 := 490035)\<rparr>)"
proof -
  have v: "ir_value env (demo_body ! 0) = Some 70005"
    "ir_value (env\<lparr>regs := (regs env)(3 := word_of_int 70005)\<rparr>) (demo_body ! 1) = Some 490035"
    unfolding env_def by code_simp+
  have d: "demo_body = [demo_body ! 0, demo_body ! 1]" "inst_dest (demo_body ! 0) = 3" "inst_dest (demo_body ! Suc 0) = 4"
    by (simp_all add: demo_body_def demo_inst_def)
  show ?thesis by (subst d(1)) (use v in \<open>simp add: d(2,3)\<close>)
qed

end
