(* ===== verification/Riscv_Limits.thy ===== *)
theory Riscv_Limits
  imports Riscv_Correct
begin

text \<open>
  Where the RISC-V backend leaves the correctness theorem: what it refuses, and inputs outside the
  theorem's conditions for which it succeeds and the code computes something else.
\<close>

section \<open>Refusals\<close>




section \<open>Wrong code\<close>















end
