(* ===== verification/Chain_Index.thy ===== *)
theory Chain_Index
  imports Liric_Prelude
begin

text \<open>
  The hash index that \<^verbatim>\<open>src/src/ir.c\<close> builds four times when it looks for colliding function names: an
  array of bucket heads and one link per entry, the newest entry of a bucket first.  Building it
  and searching it are proved equal to a search of the list of entries, newest first; the search
  ends.  A search gives \<open>None\<close> for a walk that does not end.
\<close>

section \<open>The index\<close>

definition LR_CALL_SIG_NONE :: u32 where
  "LR_CALL_SIG_NONE = 0xFFFFFFFF"

definition ir_call_sig_bucket :: "u32 \<Rightarrow> u32 \<Rightarrow> u32" where
  "ir_call_sig_bucket sym_id bucket_cap =
     (let x = sym_id XOR drop_bit 16 sym_id;
          y = x * 0x7feb352d;
          z = y XOR drop_bit 15 y
      in z AND (bucket_cap - 1))"

text \<open>\<^verbatim>\<open>while (cap < value && cap < (UINT32_MAX >> 1)) cap <<= 1\<close>\<close>

fun next_pow2_loop :: "nat \<Rightarrow> u32 \<Rightarrow> u32 \<Rightarrow> u32 option" where
  "next_pow2_loop 0 cap v = None"
| "next_pow2_loop (Suc n) cap v = (if cap < v \<and> cap < 0x7FFFFFFF then next_pow2_loop n (push_bit 1 cap) v else Some cap)"

definition ir_next_pow2_u32 :: "u32 \<Rightarrow> u32 option" where
  "ir_next_pow2_u32 v = next_pow2_loop 33 1 v"

type_synonym chain = "u32 list \<times> u32 list"

text \<open>The links of the entries and the bucket heads; entry \<open>i\<close> and the following have the ids \<open>ss\<close>.\<close>

fun chain_build :: "u32 \<Rightarrow> u32 \<Rightarrow> u32 list \<Rightarrow> chain \<Rightarrow> chain" where
  "chain_build cap i [] (links, heads) = (links, heads)"
| "chain_build cap i (s # ss) (links, heads) =
     (let b = unat (ir_call_sig_bucket s cap)
      in chain_build cap (i + 1) ss (links @ [heads ! b], heads[b := i]))"

definition chain_index :: "u32 \<Rightarrow> u32 list \<Rightarrow> chain" where
  "chain_index cap ss = chain_build cap 0 ss ([], replicate (unat cap) LR_CALL_SIG_NONE)"

text \<open>The walk over a bucket to the first entry that satisfies \<open>P\<close>.\<close>

fun chain_walk :: "nat \<Rightarrow> (nat \<Rightarrow> bool) \<Rightarrow> u32 list \<Rightarrow> u32 \<Rightarrow> nat option option" where
  "chain_walk 0 P links idx = None"
| "chain_walk (Suc n) P links idx =
     (if idx = LR_CALL_SIG_NONE then Some None
      else if P (unat idx) then Some (Some (unat idx))
      else chain_walk n P links (links ! unat idx))"

definition chain_search :: "(nat \<Rightarrow> bool) \<Rightarrow> chain \<Rightarrow> u32 \<Rightarrow> u32 \<Rightarrow> nat option option" where
  "chain_search P c cap s =
     (case c of (links, heads) \<Rightarrow> chain_walk (Suc (length links)) P links (heads ! unat (ir_call_sig_bucket s cap)))"

section \<open>Correctness\<close>

lemma next_pow2_loop_exp:
  "k \<le> 31 \<Longrightarrow> 31 - k < n \<Longrightarrow> \<exists>j \<le> 31. next_pow2_loop n (2 ^ k) v = Some (2 ^ j)"
proof (induction n arbitrary: k)
  case (Suc n)
  show ?case
  proof (cases "(2 ^ k :: u32) < v \<and> (2 ^ k :: u32) < 0x7FFFFFFF")
    case True
    have "k \<noteq> 31" using True by auto
    then have "k < 31" using Suc.prems(1) by simp
    moreover have "push_bit 1 (2 ^ k :: u32) = 2 ^ Suc k" by (simp add: push_bit_eq_mult)
    ultimately show ?thesis using Suc.IH [of "Suc k"] Suc.prems True by (simp add: mult.commute)
  qed (use Suc.prems(1) in auto)
qed simp

lemma next_pow2_exp: "\<exists>j \<le> 31. ir_next_pow2_u32 v = Some (2 ^ j)"
  using next_pow2_loop_exp [of 0 33 v] by (simp add: ir_next_pow2_u32_def)

lemma bucket_less: "j \<le> 31 \<Longrightarrow> unat (ir_call_sig_bucket s (2 ^ j)) < 2 ^ j"
proof -
  assume j: "j \<le> 31"
  have "(2 ^ j - 1 :: u32) = mask j" by (simp add: mask_eq_exp_minus_1)
  then have "ir_call_sig_bucket s (2 ^ j) = take_bit j (ir_call_sig_bucket s (2 ^ j))"
    by (simp add: ir_call_sig_bucket_def Let_def take_bit_eq_mask ac_simps)
  then have "unat (ir_call_sig_bucket s (2 ^ j)) = take_bit j (unat (ir_call_sig_bucket s (2 ^ j)))"
    by (metis unsigned_take_bit_eq)
  then show ?thesis by (metis take_bit_nat_less_exp)
qed

text \<open>\<open>linked links idx xs\<close>: the walk from \<open>idx\<close> visits the entries \<open>xs\<close>.\<close>

fun linked :: "u32 list \<Rightarrow> u32 \<Rightarrow> nat list \<Rightarrow> bool" where
  "linked links idx [] \<longleftrightarrow> idx = LR_CALL_SIG_NONE"
| "linked links idx (i # xs) \<longleftrightarrow> unat idx = i \<and> idx \<noteq> LR_CALL_SIG_NONE \<and> i < length links \<and> linked links (links ! i) xs"

lemma linked_append: "linked links idx xs \<Longrightarrow> linked (links @ ls) idx xs"
  by (induction xs arbitrary: idx) (auto simp: nth_append)

lemma chain_walk_linked: "linked links idx xs \<Longrightarrow> length xs < n \<Longrightarrow> chain_walk n P links idx = Some (find P xs)"
proof (induction xs arbitrary: idx n)
  case Nil
  then show ?case by (cases n) simp_all
next
  case (Cons i xs)
  then show ?case by (cases n) simp_all
qed

definition bucket_entries :: "u32 \<Rightarrow> u32 list \<Rightarrow> nat \<Rightarrow> nat list" where
  "bucket_entries cap ss b = filter (\<lambda>i. unat (ir_call_sig_bucket (ss ! i) cap) = b) (rev [0..<length ss])"

lemma bucket_entries_snoc:
  "bucket_entries cap (ss @ [s]) b =
     (if unat (ir_call_sig_bucket s cap) = b then length ss # bucket_entries cap ss b else bucket_entries cap ss b)"
proof -
  have "filter (\<lambda>i. unat (ir_call_sig_bucket ((ss @ [s]) ! i) cap) = b) (rev [0..<length ss]) = bucket_entries cap ss b"
    unfolding bucket_entries_def by (rule filter_cong) (auto simp: nth_append)
  then show ?thesis by (simp add: bucket_entries_def)
qed

lemma chain_build_snoc:
  "chain_build cap i (ss @ [s]) c = chain_build cap (i + of_nat (length ss)) [s] (chain_build cap i ss c)"
  by (induction cap i ss c rule: chain_build.induct) (simp_all add: Let_def add.assoc)

definition chain_ok :: "u32 \<Rightarrow> u32 list \<Rightarrow> chain \<Rightarrow> bool" where
  "chain_ok cap ss c \<longleftrightarrow> length (fst c) = length ss \<and> length (snd c) = unat cap \<and>
     (\<forall>b < unat cap. linked (fst c) (snd c ! b) (bucket_entries cap ss b))"

lemma chain_index_ok:
  assumes "j \<le> 31" and "length ss < 2 ^ 32"
  shows "chain_ok (2 ^ j) ss (chain_index (2 ^ j) ss)"
  using assms(2)
proof (induction ss rule: rev_induct)
  case Nil
  then show ?case by (simp add: chain_ok_def chain_index_def bucket_entries_def)
next
  case (snoc s ss)
  let ?b = "unat (ir_call_sig_bucket s (2 ^ j))"
  obtain links heads where c: "chain_index (2 ^ j) ss = (links, heads)" by fastforce
  then have ok: "length links = length ss" "length heads = 2 ^ j"
    "\<And>b. b < 2 ^ j \<Longrightarrow> linked links (heads ! b) (bucket_entries (2 ^ j) ss b)"
    using snoc assms(1) by (simp_all add: chain_ok_def unat_exp)
  have step: "chain_index (2 ^ j) (ss @ [s]) = (links @ [heads ! ?b], heads[?b := of_nat (length ss)])"
    using c unfolding chain_index_def chain_build_snoc by (simp add: Let_def)
  have n: "unat (of_nat (length ss) :: u32) = length ss" using snoc.prems by (intro unat_of_nat_small) simp
  then have "(of_nat (length ss) :: u32) \<noteq> LR_CALL_SIG_NONE"
    using snoc.prems by (auto simp: LR_CALL_SIG_NONE_def dest!: arg_cong [where f = unat])
  then have "linked (links @ [heads ! ?b]) (heads[?b := of_nat (length ss)] ! b) (bucket_entries (2 ^ j) (ss @ [s]) b)"
    if "b < 2 ^ j" for b
    using that ok n bucket_less [OF assms(1), of s] linked_append [OF ok(3)]
    by (cases "?b = b") (auto simp: bucket_entries_snoc nth_append)
  then show ?case using ok assms(1) by (simp add: chain_ok_def step unat_exp)
qed

lemma find_filter: "(\<And>i. i \<in> set xs \<Longrightarrow> P i \<Longrightarrow> Q i) \<Longrightarrow> find P (filter Q xs) = find P xs"
  by (induction xs) auto

text \<open>Searching the index is searching all entries, newest first, when only entries with the id are sought.\<close>

theorem chain_search_index:
  assumes "j \<le> 31" and "length ss < 2 ^ 32" and "\<And>i. i < length ss \<Longrightarrow> P i \<Longrightarrow> ss ! i = s"
  shows "chain_search P (chain_index (2 ^ j) ss) (2 ^ j) s = Some (find P (rev [0..<length ss]))"
proof -
  let ?b = "unat (ir_call_sig_bucket s (2 ^ j))"
  obtain links heads where c: "chain_index (2 ^ j) ss = (links, heads)" by fastforce
  then have ok: "length links = length ss" "linked links (heads ! ?b) (bucket_entries (2 ^ j) ss ?b)"
    using chain_index_ok [OF assms(1,2)] bucket_less [OF assms(1), of s] assms(1) by (simp_all add: chain_ok_def unat_exp)
  have "length (bucket_entries (2 ^ j) ss ?b) < Suc (length links)"
    using ok(1) length_filter_le [of _ "rev [0..<length ss]"] by (simp add: bucket_entries_def less_Suc_eq_le)
  then have "chain_search P (links, heads) (2 ^ j) s = Some (find P (bucket_entries (2 ^ j) ss ?b))"
    unfolding chain_search_def prod.case by (rule chain_walk_linked [OF ok(2)])
  moreover have "find P (bucket_entries (2 ^ j) ss ?b) = find P (rev [0..<length ss])"
    unfolding bucket_entries_def by (rule find_filter) (auto dest: assms(3))
  ultimately show ?thesis using c by simp
qed

end
