(* ===== verification/Ir_Disambiguate.thy ===== *)
theory Ir_Disambiguate
  imports Ir_Builder Chain_Index
begin

text \<open>
  Colliding function names (\<^verbatim>\<open>src/src/ir.c\<close>): a function with a body whose name is used with another
  signature, by a function, by a global of function type or by a call, gets a name of its own,
  and the calls that have its signature are redirected to it.  The pass is proved equal to one
  on names and lists, without hashes and ids.

  Memory is a parameter: \<open>mem\<close> tells which of the pass's allocations succeed, \<open>symmem\<close> which of
  the symbol table's.  The pass returns the module; \<open>None\<close> stands for a run that does not end.
\<close>

section \<open>Signatures\<close>

text \<open>Types are compared by address.\<close>

definition same_type :: "lr_type option \<Rightarrow> lr_type option \<Rightarrow> bool" where
  "same_type a b \<longleftrightarrow> map_option ty_addr a = map_option ty_addr b"

definition same_params :: "lr_type list \<Rightarrow> lr_type option list \<Rightarrow> bool" where
  "same_params ps qs \<longleftrightarrow> list_all2 (\<lambda>p. same_type (Some p)) ps qs"

definition ir_func_signatures_match :: "lr_func \<Rightarrow> lr_func \<Rightarrow> bool" where
  "ir_func_signatures_match a b \<longleftrightarrow>
     same_type (ret_type a) (ret_type b) \<and> length (param_types a) = length (param_types b) \<and>
     fn_vararg a = fn_vararg b \<and> same_params (param_types a) (map Some (param_types b))"

definition ir_func_type_matches_func :: "lr_type option \<Rightarrow> lr_func \<Rightarrow> bool" where
  "ir_func_type_matches_func t f =
     (case t of
        Some (TFunc _ ret params vararg) \<Rightarrow>
          same_type (Some ret) (ret_type f) \<and> length params = length (param_types f) \<and> vararg = fn_vararg f \<and>
          same_params params (map Some (param_types f))
      | _ \<Rightarrow> False)"

definition ir_call_signature_matches_func :: "lr_inst \<Rightarrow> lr_func \<Rightarrow> bool" where
  "ir_call_signature_matches_func inst f =
     (if inst_op inst \<noteq> LR_OP_CALL then False
      else if \<not> same_type (inst_type inst) (ret_type f) then False
      else let num_args = length (operands inst) - 1;
               n = length (param_types f)
           in if fn_vararg f \<and> num_args < n then False
              else if \<not> fn_vararg f \<and> num_args \<noteq> n then False
              else same_params (param_types f) (map opd_type (take n (drop 1 (operands inst)))))"

section \<open>The indexes\<close>

datatype dis_alloc =
  Call_entries u32 | Call_buckets u32 | Func_index u32 | Global_index u32 | Rename_entries u32 | Rename_name nat | Rename_index u32

definition call_sym :: "lr_inst \<Rightarrow> u32" where
  "call_sym inst = opd_global_id (operands inst ! 0)"

definition global_calls :: "lr_module \<Rightarrow> lr_inst list" where
  "global_calls m = concat (map (\<lambda>f. concat (map (\<lambda>b. filter ir_inst_is_global_call (blk_insts b)) (blocks f))) (funcs m))"

text \<open>The array of call entries grows by doubling; \<open>None\<close> when it cannot.\<close>

fun collect_calls :: "(dis_alloc \<Rightarrow> bool) \<Rightarrow> lr_inst list \<Rightarrow> u32 \<Rightarrow> lr_inst list \<Rightarrow> lr_inst list option" where
  "collect_calls mem [] cap entries = Some entries"
| "collect_calls mem (i # is) cap entries =
     (if of_nat (length entries) = cap
      then let new_cap = (if cap = 0 then 64 else cap * 2)
           in if \<not> mem (Call_entries new_cap) then None else collect_calls mem is new_cap (entries @ [i])
      else collect_calls mem is cap (entries @ [i]))"

text \<open>An index with its entries; the capacity of an index that was not built is zero.\<close>

record 'e dis_index =
  di_entries :: "(u32 \<times> 'e) list"
  di_chain :: chain
  di_cap :: u32

definition no_index :: "'e dis_index" where
  "no_index = \<lparr>di_entries = [], di_chain = ([], []), di_cap = 0\<rparr>"

definition make_index :: "u32 \<Rightarrow> (u32 \<times> 'e) list \<Rightarrow> 'e dis_index" where
  "make_index cap es = \<lparr>di_entries = es, di_chain = chain_index cap (map fst es), di_cap = cap\<rparr>"

text \<open>The walk for an id over an index: the newest entry with the id that satisfies \<open>P\<close>, if there is one.\<close>

definition index_find :: "'e dis_index \<Rightarrow> u32 \<Rightarrow> ('e \<Rightarrow> bool) \<Rightarrow> nat option option" where
  "index_find ix s P =
     (if di_cap ix = 0 then Some None
      else chain_search (\<lambda>i. fst (di_entries ix ! i) = s \<and> P (snd (di_entries ix ! i))) (di_chain ix) (di_cap ix) s)"

definition index_any :: "'e dis_index \<Rightarrow> u32 \<Rightarrow> ('e \<Rightarrow> bool) \<Rightarrow> bool option" where
  "index_any ix s P = map_option (\<lambda>r. r \<noteq> None) (index_find ix s P)"

definition ir_build_call_sig_index_dynamic :: "(dis_alloc \<Rightarrow> bool) \<Rightarrow> lr_module \<Rightarrow> (int \<times> lr_inst dis_index) option" where
  "ir_build_call_sig_index_dynamic mem m =
     (case collect_calls mem (global_calls m) 0 [] of None \<Rightarrow> Some (-1, no_index)
      | Some calls \<Rightarrow>
          let count = of_nat (length calls)
          in if count = 0 then Some (0, no_index)
             else (case ir_next_pow2_u32 (count * 2) of None \<Rightarrow> None
                   | Some cap \<Rightarrow> if \<not> mem (Call_buckets cap) then Some (-1, no_index)
                                 else Some (0, make_index cap (map (\<lambda>i. (call_sym i, i)) calls))))"

definition ir_call_index_has_signature_conflict :: "lr_inst dis_index \<Rightarrow> lr_func \<Rightarrow> bool option" where
  "ir_call_index_has_signature_conflict ix f = index_any ix (symbol_id f) (\<lambda>i. \<not> ir_call_signature_matches_func i f)"

text \<open>The index of the functions: an entry names a function by its place in the module.\<close>

definition func_sym_index :: "(dis_alloc \<Rightarrow> bool) \<Rightarrow> lr_module \<Rightarrow> (int \<times> nat dis_index) option" where
  "func_sym_index mem m =
     (let func_count = of_nat (length (funcs m))
      in if func_count = 0 then Some (0, no_index)
         else (case ir_next_pow2_u32 (func_count * 2) of None \<Rightarrow> None
               | Some cap \<Rightarrow> if \<not> mem (Func_index cap) then Some (-1, no_index)
                             else Some (0, make_index cap (zip (map symbol_id (funcs m)) [0..<length (funcs m)]))))"

definition is_func_global :: "lr_global \<Rightarrow> bool" where
  "is_func_global g \<longleftrightarrow> map_option ty_kind (g_type g) = Some LR_TYPE_FUNC"

fun intern_globals :: "(u32 \<Rightarrow> bool) \<Rightarrow> lr_global list \<Rightarrow> lr_module \<Rightarrow> ((u32 \<times> lr_global) list \<times> lr_module) option" where
  "intern_globals symmem [] m = Some ([], m)"
| "intern_globals symmem (g # gs) m =
     (if \<not> is_func_global g \<or> g_name g = [] then intern_globals symmem gs m
      else case lr_module_intern_symbol symmem m (g_name g) of None \<Rightarrow> None
           | Some (s, m1) \<Rightarrow>
               (case intern_globals symmem gs m1 of None \<Rightarrow> None
                | Some (es, m2) \<Rightarrow> Some (if s = UINT32_MAX then es else (s, g) # es, m2)))"

definition global_sym_index ::
  "(dis_alloc \<Rightarrow> bool) \<Rightarrow> (u32 \<Rightarrow> bool) \<Rightarrow> lr_module \<Rightarrow> (int \<times> lr_global dis_index \<times> lr_module) option" where
  "global_sym_index mem symmem m =
     (let count = of_nat (length (filter is_func_global (globals m)))
      in if count = 0 then Some (0, no_index, m)
         else (case ir_next_pow2_u32 (count * 2) of None \<Rightarrow> None
               | Some cap \<Rightarrow>
                   if \<not> mem (Global_index cap) then Some (-1, no_index, m)
                   else (case intern_globals symmem (globals m) m of None \<Rightarrow> None
                         | Some (es, m') \<Rightarrow> Some (0, make_index cap es, m'))))"

section \<open>Renaming and redirecting\<close>

definition func_conflict ::
  "nat dis_index \<Rightarrow> lr_global dis_index \<Rightarrow> lr_inst dis_index \<Rightarrow> lr_module \<Rightarrow> nat \<Rightarrow> bool option" where
  "func_conflict fix gix cix m fi =
     (let f = funcs m ! fi
      in case index_any fix (symbol_id f) (\<lambda>j. j \<noteq> fi \<and> \<not> ir_func_signatures_match f (funcs m ! j)) of None \<Rightarrow> None
         | Some True \<Rightarrow> Some True
         | Some False \<Rightarrow>
             (case index_any gix (symbol_id f) (\<lambda>g. \<not> ir_func_type_matches_func (g_type g) f) of None \<Rightarrow> None
              | Some True \<Rightarrow> Some True
              | Some False \<Rightarrow> ir_call_index_has_signature_conflict cix f))"

record lr_func_rename_entry =
  old_sym_id :: u32
  new_sym_id :: u32
  ren_func :: nat

fun decimal :: "nat \<Rightarrow> string" where
  "decimal n = (if n < 10 then [] else decimal (n div 10)) @ [char_of (48 + n mod 10)]"

declare decimal.simps [simp del]

definition local_name :: "string \<Rightarrow> nat \<Rightarrow> string" where
  "local_name name n = name @ ''.__liric_local.'' @ decimal n"

text \<open>The loop over the functions: whether it reached the end, the renames and the module.\<close>

fun rename_funcs ::
  "(dis_alloc \<Rightarrow> bool) \<Rightarrow> (u32 \<Rightarrow> bool) \<Rightarrow> (lr_module \<Rightarrow> nat \<Rightarrow> bool option) \<Rightarrow> nat list \<Rightarrow>
     lr_func_rename_entry list \<Rightarrow> u32 \<Rightarrow> lr_module \<Rightarrow> (bool \<times> lr_func_rename_entry list \<times> lr_module) option" where
  "rename_funcs mem symmem conflict [] rs cap m = Some (True, rs, m)"
| "rename_funcs mem symmem conflict (fi # fis) rs cap m =
     (let f = funcs m ! fi
      in if fn_name f = [] \<or> is_decl f \<or> blocks f = [] then rename_funcs mem symmem conflict fis rs cap m
         else case conflict m fi of None \<Rightarrow> None
              | Some False \<Rightarrow> rename_funcs mem symmem conflict fis rs cap m
              | Some True \<Rightarrow>
                  let full = (of_nat (length rs) = cap);
                      new_cap = (if full then (if cap = 0 then 8 else cap * 2) else cap)
                  in if full \<and> \<not> mem (Rename_entries new_cap) \<or> \<not> mem (Rename_name (length rs)) then Some (False, rs, m)
                     else (case lr_module_intern_symbol symmem m (local_name (fn_name f) (length rs)) of None \<Rightarrow> None
                           | Some (s, m1) \<Rightarrow>
                               if s = UINT32_MAX then Some (False, rs, m1)
                               else rename_funcs mem symmem conflict fis
                                      (rs @ [\<lparr>old_sym_id = symbol_id f, new_sym_id = s, ren_func = fi\<rparr>]) new_cap
                                      (m1\<lparr>funcs := (funcs m1)[fi := f\<lparr>fn_name := local_name (fn_name f) (length rs), symbol_id := s\<rparr>]\<rparr>)))"

text \<open>Storing the id of a global in an operand: the lower half of the union.\<close>

definition set_global_id :: "u32 \<Rightarrow> lr_operand \<Rightarrow> lr_operand" where
  "set_global_id s o' = o'\<lparr>opd_bits := push_bit 32 (drop_bit 32 (opd_bits o')) OR ucast s\<rparr>"

definition retarget :: "u32 \<Rightarrow> lr_inst \<Rightarrow> lr_inst" where
  "retarget s inst = inst\<lparr>operands := (operands inst)[0 := set_global_id s (operands inst ! 0)]\<rparr>"

definition redirect_call :: "lr_func_rename_entry dis_index \<Rightarrow> lr_module \<Rightarrow> lr_inst \<Rightarrow> lr_inst option" where
  "redirect_call rix m inst =
     (if \<not> ir_inst_is_global_call inst then Some inst
      else map_option (\<lambda>r. case r of None \<Rightarrow> inst | Some i \<Rightarrow> retarget (new_sym_id (snd (di_entries rix ! i))) inst)
             (index_find rix (call_sym inst) (\<lambda>r. ir_call_signature_matches_func inst (funcs m ! ren_func r))))"

definition redirect_block :: "lr_func_rename_entry dis_index \<Rightarrow> lr_module \<Rightarrow> lr_block \<Rightarrow> lr_block option" where
  "redirect_block rix m b = map_option (\<lambda>is. b\<lparr>blk_insts := is\<rparr>) (those (map (redirect_call rix m) (blk_insts b)))"

definition redirect_func :: "lr_func_rename_entry dis_index \<Rightarrow> lr_module \<Rightarrow> lr_func \<Rightarrow> lr_func option" where
  "redirect_func rix m f = map_option (\<lambda>bs. f\<lparr>blocks := bs\<rparr>) (those (map (redirect_block rix m) (blocks f)))"

definition redirect_calls ::
  "(dis_alloc \<Rightarrow> bool) \<Rightarrow> lr_func_rename_entry list \<Rightarrow> lr_module \<Rightarrow> lr_module option" where
  "redirect_calls mem rs m =
     (case ir_next_pow2_u32 (of_nat (length rs) * 2) of None \<Rightarrow> None
      | Some cap \<Rightarrow>
          if \<not> mem (Rename_index cap) then Some m
          else map_option (\<lambda>fs. m\<lparr>funcs := fs, local_function_collision_scan_dirty := False\<rparr>)
                 (those (map (redirect_func (make_index cap (map (\<lambda>r. (old_sym_id r, r)) rs)) m) (funcs m))))"

definition lr_module_disambiguate_local_function_collisions ::
  "(dis_alloc \<Rightarrow> bool) \<Rightarrow> (u32 \<Rightarrow> bool) \<Rightarrow> lr_module \<Rightarrow> lr_module option" where
  "lr_module_disambiguate_local_function_collisions mem symmem m =
     (if \<not> local_function_collision_scan_dirty m then Some m
      else case ir_build_call_sig_index_dynamic mem m of None \<Rightarrow> None
       | Some (rc, cix) \<Rightarrow> if rc \<noteq> 0 then Some m
      else case func_sym_index mem m of None \<Rightarrow> None
       | Some (rc, fix) \<Rightarrow> if rc \<noteq> 0 then Some m
      else case global_sym_index mem symmem m of None \<Rightarrow> None
       | Some (rc, gix, m1) \<Rightarrow> if rc \<noteq> 0 then Some m1
      else case rename_funcs mem symmem (func_conflict fix gix cix) [0..<length (funcs m1)] [] 0 m1 of None \<Rightarrow> None
       | Some (done, rs, m2) \<Rightarrow>
           if \<not> done then Some m2
           else if rs = [] then Some (m2\<lparr>local_function_collision_scan_dirty := False\<rparr>)
           else redirect_calls mem rs m2)"

definition lr_module_disambiguate_local_function_collisions_if_dirty ::
  "(dis_alloc \<Rightarrow> bool) \<Rightarrow> (u32 \<Rightarrow> bool) \<Rightarrow> lr_module \<Rightarrow> (bool \<times> lr_module) option" where
  "lr_module_disambiguate_local_function_collisions_if_dirty mem symmem m =
     (if \<not> local_function_collision_scan_dirty m then Some (False, m)
      else map_option (Pair True) (lr_module_disambiguate_local_function_collisions mem symmem m))"

section \<open>Searching the indexes\<close>

definition indexes :: "'e dis_index \<Rightarrow> (u32 \<times> 'e) list \<Rightarrow> bool" where
  "indexes ix es \<longleftrightarrow> length es < 2 ^ 32 \<and> (ix = no_index \<and> es = [] \<or> (\<exists>j \<le> 31. ix = make_index (2 ^ j) es))"

lemma index_find_ok:
  assumes "indexes ix es"
  shows "index_find ix s P = Some (find (\<lambda>i. fst (es ! i) = s \<and> P (snd (es ! i))) (rev [0..<length es]))"
proof (cases "ix = no_index \<and> es = []")
  case True
  then show ?thesis by (simp add: index_find_def no_index_def)
next
  case False
  then obtain j where j: "j \<le> 31" "ix = make_index (2 ^ j) es" using assms by (auto simp: indexes_def)
  have "(2 ^ j :: u32) \<noteq> 0" using unat_exp [of j, where 'a = 32] j(1) by auto
  then show ?thesis using chain_search_index [OF j(1), of "map fst es" "\<lambda>i. fst (es ! i) = s \<and> P (snd (es ! i))" s] assms j(2)
    by (simp add: index_find_def make_index_def indexes_def)
qed

lemma find_rev_upt: "(\<exists>i. find Q (rev [0..<n]) = Some i) \<longleftrightarrow> (\<exists>i < n. Q i)"
proof -
  have "find Q xs = None \<longleftrightarrow> (\<forall>x \<in> set xs. \<not> Q x)" for xs by (induction xs) auto
  from this [of "rev [0..<n]"] show ?thesis by (cases "find Q (rev [0..<n])") auto
qed

lemma index_any_ok: "indexes ix es \<Longrightarrow> index_any ix s P = Some (\<exists>e. (s, e) \<in> set es \<and> P e)"
proof -
  assume ix: "indexes ix es"
  let ?Q = "\<lambda>i. fst (es ! i) = s \<and> P (snd (es ! i))"
  have "(\<exists>e. (s, e) \<in> set es \<and> P e) \<longleftrightarrow> (\<exists>i < length es. ?Q i)" by (metis in_set_conv_nth prod.collapse fst_conv snd_conv)
  also have "\<dots> \<longleftrightarrow> find ?Q (rev [0..<length es]) \<noteq> None" unfolding find_rev_upt [symmetric] by simp
  finally show ?thesis unfolding index_any_def index_find_ok [OF ix] by simp
qed

lemma make_index_indexes:
  assumes "length es < 2 ^ 32"
  shows "\<exists>cap. ir_next_pow2_u32 n = Some cap \<and> indexes (make_index cap es) es"
  using next_pow2_exp [of n] assms by (auto simp: indexes_def)

lemma collect_calls_all: "collect_calls (\<lambda>_. True) xs cap entries = Some (entries @ xs)"
  by (induction xs arbitrary: cap entries) (simp_all add: Let_def)

lemma count_zero: "length xs < 2 ^ 32 \<Longrightarrow> (of_nat (length xs) :: u32) = 0 \<longleftrightarrow> xs = []"
  using unat_of_nat_small [of "length xs", where 'a = 32] by (auto simp: word_unat_eq_iff)

lemma call_index_built:
  assumes "length (global_calls m) < 2 ^ 32"
  shows "\<exists>ix. ir_build_call_sig_index_dynamic (\<lambda>_. True) m = Some (0, ix) \<and> indexes ix (map (\<lambda>i. (call_sym i, i)) (global_calls m))"
proof (cases "global_calls m = []")
  case True
  then show ?thesis by (simp add: ir_build_call_sig_index_dynamic_def indexes_def)
next
  case False
  obtain cap where "ir_next_pow2_u32 (of_nat (length (global_calls m)) * 2) = Some cap"
    "indexes (make_index cap (map (\<lambda>i. (call_sym i, i)) (global_calls m))) (map (\<lambda>i. (call_sym i, i)) (global_calls m))"
    using make_index_indexes [of "map (\<lambda>i. (call_sym i, i)) (global_calls m)"] assms by auto
  then show ?thesis using False count_zero [OF assms] by (simp add: ir_build_call_sig_index_dynamic_def collect_calls_all Let_def)
qed

lemma func_index_built:
  assumes "length (funcs m) < 2 ^ 32"
  shows "\<exists>ix. func_sym_index (\<lambda>_. True) m = Some (0, ix) \<and> indexes ix (zip (map symbol_id (funcs m)) [0..<length (funcs m)])"
proof (cases "funcs m = []")
  case True
  then show ?thesis by (simp add: func_sym_index_def indexes_def)
next
  case False
  obtain cap where "ir_next_pow2_u32 (of_nat (length (funcs m)) * 2) = Some cap"
    "indexes (make_index cap (zip (map symbol_id (funcs m)) [0..<length (funcs m)])) (zip (map symbol_id (funcs m)) [0..<length (funcs m)])"
    using make_index_indexes [of "zip (map symbol_id (funcs m)) [0..<length (funcs m)]"] assms by auto
  then show ?thesis using False count_zero [OF assms] by (simp add: func_sym_index_def Let_def)
qed

section \<open>Interning in a module\<close>

lemma more_fields:
  assumes "lr_symtab.more m1 = lr_symtab.more (m :: lr_module)"
  shows "funcs m1 = funcs m" and "globals m1 = globals m" and "num_globals m1 = num_globals m"
    and "local_function_collision_scan_dirty m1 = local_function_collision_scan_dirty m"
  using assms by (cases m; cases m1; simp)+

lemma intern_in_module:
  assumes "module_ok m" and "length (sym_names m) < 2 ^ 30"
  shows "\<exists>s m1 new. lr_module_intern_symbol (\<lambda>_. True) m n = Some (s, m1) \<and> module_ok m1 \<and>
    lr_symtab.more m1 = lr_symtab.more m \<and> s \<noteq> UINT32_MAX \<and> unat s < length (sym_names m1) \<and> sym_names m1 ! unat s = n \<and>
    sym_names m1 = sym_names m @ new \<and> length new \<le> 1"
proof -
  have inv: "sym_inv m" and num: "unat (num_symbols m) < 2 ^ 30"
    using assms length_sym_names [of m] by (auto simp: module_ok_def sym_inv_def)
  obtain s m1 oc where r: "lr_module_intern_symbol (\<lambda>_. True) m n = Some (s, m1)" "intern_result (\<lambda>_. True) m n s m1 oc"
    "lr_symtab.more m1 = lr_symtab.more m"
    using intern_outcomes [OF inv num] by blast
  obtain new where names: "sym_inv m1" "sym_names m1 = sym_names m @ new" "length new \<le> 1"
    "unat s < length (sym_names m1)" "sym_names m1 ! unat s = n"
    using r(2) by (cases oc) auto
  have "unat s < unat (UINT32_MAX :: u32)" using names(2-4) assms(2) by simp
  moreover have "module_ok m1"
    using names assms more_fields [OF r(3)] func_ok_more_names by (auto simp: module_ok_def)
  ultimately show ?thesis using r(1,3) names by (intro exI [of _ s] exI [of _ m1] exI [of _ new]) auto
qed

lemma sym_ids_names:
  assumes "module_ok m" and "unat s < length (sym_names m)" and "unat t < length (sym_names m)"
  shows "s = t \<longleftrightarrow> sym_names m ! unat s = sym_names m ! unat t"
  using assms by (auto simp: module_ok_def sym_inv_def sym_arrays_ok_def nth_eq_iff_index_eq word_unat_eq_iff)

text \<open>Interning the names of the globals of function type gives each the id of its name.\<close>

lemma intern_globals_ok:
  assumes "module_ok m" and "length (sym_names m) + length gs \<le> 2 ^ 30"
  shows "\<exists>es m1 new. intern_globals (\<lambda>_. True) gs m = Some (es, m1) \<and> module_ok m1 \<and> lr_symtab.more m1 = lr_symtab.more m \<and>
    sym_names m1 = sym_names m @ new \<and> length new \<le> length gs \<and>
    map snd es = filter (\<lambda>g. is_func_global g \<and> g_name g \<noteq> []) gs \<and>
    (\<forall>(s, g) \<in> set es. unat s < length (sym_names m1) \<and> sym_names m1 ! unat s = g_name g)"
  using assms
proof (induction gs arbitrary: m)
  case Nil
  then show ?case by simp
next
  case (Cons g gs)
  show ?case
  proof (cases "is_func_global g \<and> g_name g \<noteq> []")
    case True
    obtain s m1 new where i: "lr_module_intern_symbol (\<lambda>_. True) m (g_name g) = Some (s, m1)" "module_ok m1"
      "lr_symtab.more m1 = lr_symtab.more m" "s \<noteq> UINT32_MAX" "unat s < length (sym_names m1)" "sym_names m1 ! unat s = g_name g"
      "sym_names m1 = sym_names m @ new" "length new \<le> 1"
      using intern_in_module [OF Cons.prems(1), of "g_name g"] Cons.prems(2) by auto
    have "length (sym_names m1) + length gs \<le> 2 ^ 30" using i(7,8) Cons.prems(2) by simp
    from Cons.IH [OF i(2) this] obtain es m2 new2 where r: "intern_globals (\<lambda>_. True) gs m1 = Some (es, m2)" "module_ok m2"
      "lr_symtab.more m2 = lr_symtab.more m1" "sym_names m2 = sym_names m1 @ new2" "length new2 \<le> length gs"
      "map snd es = filter (\<lambda>g. is_func_global g \<and> g_name g \<noteq> []) gs"
      "\<forall>(s, g) \<in> set es. unat s < length (sym_names m2) \<and> sym_names m2 ! unat s = g_name g"
      by blast
    show ?thesis using True i r
      by (intro exI [of _ "(s, g) # es"] exI [of _ m2] exI [of _ "new @ new2"]) (auto simp: nth_append)
  next
    case False
    have le: "length (sym_names m) + length gs \<le> 2 ^ 30" using Cons.prems(2) by simp
    from Cons.IH [OF Cons.prems(1) le] obtain es m1 new where r: "intern_globals (\<lambda>_. True) gs m = Some (es, m1)"
      "module_ok m1" "lr_symtab.more m1 = lr_symtab.more m" "sym_names m1 = sym_names m @ new" "length new \<le> length gs"
      "map snd es = filter (\<lambda>g. is_func_global g \<and> g_name g \<noteq> []) gs"
      "\<forall>(s, g) \<in> set es. unat s < length (sym_names m1) \<and> sym_names m1 ! unat s = g_name g"
      by blast
    then show ?thesis using False by (intro exI [of _ es] exI [of _ m1] exI [of _ new]) auto
  qed
qed

lemma global_index_built:
  assumes "module_ok m" and "length (sym_names m) + length (globals m) \<le> 2 ^ 30"
  shows "\<exists>ix es m1 new. global_sym_index (\<lambda>_. True) (\<lambda>_. True) m = Some (0, ix, m1) \<and> indexes ix es \<and> module_ok m1 \<and>
    lr_symtab.more m1 = lr_symtab.more m \<and> sym_names m1 = sym_names m @ new \<and> length new \<le> length (globals m) \<and>
    map snd es = filter (\<lambda>g. is_func_global g \<and> g_name g \<noteq> []) (globals m) \<and>
    (\<forall>(s, g) \<in> set es. unat s < length (sym_names m1) \<and> sym_names m1 ! unat s = g_name g)"
proof -
  let ?c = "filter is_func_global (globals m)"
  have len: "length ?c \<le> length (globals m)" by simp
  obtain es m1 new where r: "intern_globals (\<lambda>_. True) (globals m) m = Some (es, m1)"
      "module_ok m1" "lr_symtab.more m1 = lr_symtab.more m" "sym_names m1 = sym_names m @ new" "length new \<le> length (globals m)"
      "map snd es = filter (\<lambda>g. is_func_global g \<and> g_name g \<noteq> []) (globals m)"
      "\<forall>(s, g) \<in> set es. unat s < length (sym_names m1) \<and> sym_names m1 ! unat s = g_name g"
    using intern_globals_ok [OF assms] by blast
  show ?thesis
  proof (cases "?c = []")
    case True
    then have "filter (\<lambda>g. is_func_global g \<and> g_name g \<noteq> []) (globals m) = []" by (auto simp: filter_empty_conv)
    then show ?thesis using True assms(1)
      by (intro exI [of _ no_index] exI [of _ "[]"] exI [of _ m] exI [of _ "[]"]) (simp add: global_sym_index_def indexes_def)
  next
    case False
    have "length es = length (filter (\<lambda>g. is_func_global g \<and> g_name g \<noteq> []) (globals m))" using r(6) by (metis length_map)
    also have "\<dots> \<le> length (globals m)" by (rule length_filter_le)
    finally have "length es < 2 ^ 32" using assms(2) by simp
    then obtain cap where cap: "ir_next_pow2_u32 (of_nat (length ?c) * 2) = Some cap" "indexes (make_index cap es) es"
      using make_index_indexes by blast
    have "length ?c < 2 ^ 32" by (rule le_less_trans [OF len]) (use assms(2) in simp)
    then have "(of_nat (length ?c) :: u32) \<noteq> 0" using count_zero [of ?c] False by simp
    then have "global_sym_index (\<lambda>_. True) (\<lambda>_. True) m = Some (0, make_index cap es, m1)"
      using cap(1) r(1) by (simp add: global_sym_index_def Let_def)
    then show ?thesis using cap(2) r(2-) by blast
  qed
qed

section \<open>Conflicts\<close>

text \<open>The conflicts of a function, on names and without indexes.\<close>

definition conflicts :: "lr_module \<Rightarrow> nat \<Rightarrow> bool" where
  "conflicts m fi \<longleftrightarrow>
     (let f = funcs m ! fi
      in (\<exists>j < length (funcs m). j \<noteq> fi \<and> fn_name (funcs m ! j) = fn_name f \<and> \<not> ir_func_signatures_match f (funcs m ! j)) \<or>
         (\<exists>g \<in> set (globals m). is_func_global g \<and> g_name g = fn_name f \<and> \<not> ir_func_type_matches_func (g_type g) f) \<or>
         (\<exists>i \<in> set (global_calls m). call_sym i = symbol_id f \<and> \<not> ir_call_signature_matches_func i f))"

text \<open>Functions with the same signature.\<close>

definition same_sig :: "lr_func \<Rightarrow> lr_func \<Rightarrow> bool" where
  "same_sig f g \<longleftrightarrow> ret_type f = ret_type g \<and> param_types f = param_types g \<and> fn_vararg f = fn_vararg g"

lemma same_sig_match:
  assumes "same_sig g g'"
  shows "ir_func_signatures_match f g = ir_func_signatures_match f g'"
    and "ir_call_signature_matches_func i g = ir_call_signature_matches_func i g'"
  using assms by (simp_all add: same_sig_def ir_func_signatures_match_def ir_call_signature_matches_func_def)

lemma zip_upt: "(s, j) \<in> set (zip (map h xs) [0..<length xs]) \<longleftrightarrow> j < length xs \<and> s = h (xs ! j)"
  by (auto simp: set_zip intro: exI [of _ j])

lemma or_cascade:
  "(case Some p of None \<Rightarrow> None | Some True \<Rightarrow> Some True
     | Some False \<Rightarrow> (case Some q of None \<Rightarrow> None | Some True \<Rightarrow> Some True | Some False \<Rightarrow> Some r)) = Some (p \<or> q \<or> r)"
  by (cases p; cases q) simp_all

lemma func_conflict_ok:
  assumes "indexes fix (zip (map symbol_id (funcs m)) [0..<length (funcs m)])" and "indexes gix es"
    and "indexes cix (map (\<lambda>i. (call_sym i, i)) (global_calls m))"
    and "module_ok m1" and "funcs m1 = funcs m"
    and "map snd es = filter (\<lambda>g. is_func_global g \<and> g_name g \<noteq> []) (globals m)"
    and "\<forall>(s, g) \<in> set es. unat s < length (sym_names m1) \<and> sym_names m1 ! unat s = g_name g"
    and "fi < length (funcs m)" and "fn_name (funcs m ! fi) \<noteq> []"
    and "funcs m2 ! fi = funcs m ! fi" and "list_all2 same_sig (funcs m2) (funcs m)"
  shows "func_conflict fix gix cix m2 fi = Some (conflicts m fi)"
proof -
  let ?f = "funcs m ! fi"
  have id: "unat (symbol_id f) < length (sym_names m1)" "sym_names m1 ! unat (symbol_id f) = fn_name f" if "f \<in> set (funcs m)" for f
    using assms(4,5) that by (auto simp: module_ok_def func_ok_def)
  have f: "?f \<in> set (funcs m)" using assms(8) by simp
  have sig: "ir_func_signatures_match ?f (funcs m2 ! j) = ir_func_signatures_match ?f (funcs m ! j)" if "j < length (funcs m)" for j
    using assms(11) that same_sig_match by (auto simp: list_all2_conv_all_nth)
  have same_id: "symbol_id ?f = symbol_id (funcs m ! j) \<longleftrightarrow> fn_name (funcs m ! j) = fn_name ?f" if "j < length (funcs m)" for j
    using sym_ids_names [OF assms(4) id(1) [OF f] id(1) [OF nth_mem [OF that]]] id(2) [OF f] id(2) [OF nth_mem [OF that]] by metis
  have eq1: "(\<exists>j. (symbol_id ?f, j) \<in> set (zip (map symbol_id (funcs m)) [0..<length (funcs m)]) \<and> j \<noteq> fi \<and> \<not> ir_func_signatures_match ?f (funcs m2 ! j)) \<longleftrightarrow>
      (\<exists>j < length (funcs m). j \<noteq> fi \<and> fn_name (funcs m ! j) = fn_name ?f \<and> \<not> ir_func_signatures_match ?f (funcs m ! j))"
    unfolding zip_upt using sig same_id by metis
  have eq2: "(\<exists>g. (symbol_id ?f, g) \<in> set es \<and> \<not> ir_func_type_matches_func (g_type g) ?f) \<longleftrightarrow>
      (\<exists>g \<in> set (globals m). is_func_global g \<and> g_name g = fn_name ?f \<and> \<not> ir_func_type_matches_func (g_type g) ?f)" (is "?A = ?B")
  proof
    assume ?A
    then obtain g where g: "(symbol_id ?f, g) \<in> set es" "\<not> ir_func_type_matches_func (g_type g) ?f" by blast
    then have "g \<in> set (map snd es)" by force
    then have "g \<in> set (globals m) \<and> is_func_global g" unfolding assms(6) by simp
    moreover have "g_name g = fn_name ?f" using g(1) assms(7) id(2) [OF f] by auto
    ultimately show ?B using g(2) by blast
  next
    assume ?B
    then obtain g where g: "g \<in> set (globals m)" "is_func_global g" "g_name g = fn_name ?f" "\<not> ir_func_type_matches_func (g_type g) ?f"
      by blast
    then have "g \<in> set (map snd es)" unfolding assms(6) using assms(9) by simp
    then obtain s where s: "(s, g) \<in> set es" by auto
    then have "unat s < length (sym_names m1)" "sym_names m1 ! unat s = fn_name ?f" using assms(7) g(3) by auto
    then have "s = symbol_id ?f" using sym_ids_names [OF assms(4) _ id(1) [OF f], of s] id(2) [OF f] by simp
    then show ?A using s g(4) by blast
  qed
  have eq3: "(\<exists>i. (symbol_id ?f, i) \<in> set (map (\<lambda>i. (call_sym i, i)) (global_calls m)) \<and> \<not> ir_call_signature_matches_func i ?f) \<longleftrightarrow>
      (\<exists>i \<in> set (global_calls m). call_sym i = symbol_id ?f \<and> \<not> ir_call_signature_matches_func i ?f)"
    by (auto simp: image_iff)
  show ?thesis
    unfolding func_conflict_def Let_def assms(10) ir_call_index_has_signature_conflict_def
      index_any_ok [OF assms(1)] index_any_ok [OF assms(2)] index_any_ok [OF assms(3)] eq1 eq2 eq3 conflicts_def
    by (rule or_cascade)
qed

section \<open>The renaming\<close>

definition has_body :: "lr_func \<Rightarrow> bool" where
  "has_body f \<longleftrightarrow> fn_name f \<noteq> [] \<and> \<not> is_decl f \<and> blocks f \<noteq> []"

definition renamed_to :: "string \<Rightarrow> lr_func \<Rightarrow> lr_func \<Rightarrow> bool" where
  "renamed_to name f f' \<longleftrightarrow> f' = f\<lparr>fn_name := name, symbol_id := symbol_id f'\<rparr>"

lemma same_sig_refl: "list_all2 same_sig fs fs"
  by (auto simp: list_all2_conv_all_nth same_sig_def)

lemma same_sig_update:
  assumes "list_all2 same_sig fs gs" and "i < length fs" and "same_sig f (fs ! i)"
  shows "list_all2 same_sig (fs[i := f]) gs"
  using assms by (auto simp: list_all2_conv_all_nth nth_list_update same_sig_def)

definition rename_entries_ok :: "lr_func_rename_entry list \<Rightarrow> nat list \<Rightarrow> lr_func list \<Rightarrow> lr_func list \<Rightarrow> bool" where
  "rename_entries_ok rs fis fs fs' \<longleftrightarrow>
     rs = map (\<lambda>fi. \<lparr>old_sym_id = symbol_id (fs ! fi), new_sym_id = symbol_id (fs' ! fi), ren_func = fi\<rparr>) fis"

lemma rename_funcs_ok:
  fixes conflict C and fs :: "lr_func list"
  assumes "\<And>m fi. fi < length fs \<Longrightarrow> has_body (fs ! fi) \<Longrightarrow> funcs m ! fi = fs ! fi \<Longrightarrow> list_all2 same_sig (funcs m) fs \<Longrightarrow>
      conflict m fi = Some (C fi)"
  defines "Q \<equiv> \<lambda>fi. has_body (fs ! fi) \<and> C fi"
  assumes "module_ok m" and "list_all2 same_sig (funcs m) fs" and "distinct fis" and "\<forall>fi \<in> set fis. fi < length fs \<and> funcs m ! fi = fs ! fi"
    and "length (sym_names m) + length fis \<le> 2 ^ 30"
  shows "\<exists>rs' m'. rename_funcs (\<lambda>_. True) (\<lambda>_. True) conflict fis rs cap m = Some (True, rs @ rs', m') \<and> module_ok m' \<and>
    list_all2 same_sig (funcs m') fs \<and> globals m' = globals m \<and> num_globals m' = num_globals m \<and>
    rename_entries_ok rs' (filter Q fis) fs (funcs m') \<and>
    (\<forall>fi. fi \<notin> set (filter Q fis) \<longrightarrow> funcs m' ! fi = funcs m ! fi) \<and>
    (\<forall>k < length (filter Q fis). renamed_to (local_name (fn_name (fs ! (filter Q fis ! k))) (length rs + k)) (fs ! (filter Q fis ! k)) (funcs m' ! (filter Q fis ! k)))"
  using assms(3-)
proof (induction fis arbitrary: m rs cap)
  case Nil
  then show ?case by (simp add: rename_entries_ok_def)
next
  case (Cons fi fis)
  have fi: "fi < length fs" "funcs m ! fi = fs ! fi" "length (funcs m) = length fs" "fi \<notin> set fis" "distinct fis"
    using Cons.prems by (auto simp: list_all2_lengthD)
  have le: "length (sym_names m) + length fis \<le> 2 ^ 30" using Cons.prems(5) by simp
  show ?case
  proof (cases "Q fi")
    case False
    then have "rename_funcs (\<lambda>_. True) (\<lambda>_. True) conflict (fi # fis) rs cap m = rename_funcs (\<lambda>_. True) (\<lambda>_. True) conflict fis rs cap m"
      using fi assms(1) [OF fi(1) _ fi(2) Cons.prems(2)] by (auto simp: Q_def has_body_def Let_def split: option.splits)
    then show ?thesis using Cons.IH [OF Cons.prems(1,2) fi(5) _ le, of rs cap] Cons.prems(4) False by simp
  next
    case True
    let ?n = "local_name (fn_name (fs ! fi)) (length rs)"
    obtain s m1 new where i: "lr_module_intern_symbol (\<lambda>_. True) m ?n = Some (s, m1)" "module_ok m1"
      "lr_symtab.more m1 = lr_symtab.more m" "s \<noteq> UINT32_MAX" "unat s < length (sym_names m1)" "sym_names m1 ! unat s = ?n"
      "sym_names m1 = sym_names m @ new" "length new \<le> 1"
      using intern_in_module [OF Cons.prems(1), of ?n] Cons.prems(5) by auto
    note same = more_fields [OF i(3)]
    define f' where "f' = (fs ! fi)\<lparr>fn_name := ?n, symbol_id := s\<rparr>"
    define m2 where "m2 = m1\<lparr>funcs := (funcs m1)[fi := f']\<rparr>"
    define r where "r = \<lparr>old_sym_id = symbol_id (fs ! fi), new_sym_id = s, ren_func = fi\<rparr>"
    have C: "conflict m fi = Some True" "has_body (fs ! fi)" using assms(1) [OF fi(1) _ fi(2) Cons.prems(2)] True by (simp_all add: Q_def)
    obtain cap2 where run: "rename_funcs (\<lambda>_. True) (\<lambda>_. True) conflict (fi # fis) rs cap m =
        rename_funcs (\<lambda>_. True) (\<lambda>_. True) conflict fis (rs @ [r]) cap2 m2"
      using C i(1,4) fi(2) by (auto simp: has_body_def Let_def m2_def f'_def r_def)
    have "func_ok (sym_names m1) (fs ! fi)" using module_ok_nth [OF i(2), of fi] same(1) fi by simp
    then have "func_ok (sym_names m1) f'" using i(5,6) by (simp add: f'_def func_ok_def)
    then have ok: "module_ok m2" unfolding m2_def using module_ok_update [OF i(2)] same(1) fi by simp
    have fs2: "funcs m2 = (funcs m)[fi := f']" by (simp add: m2_def same)
    have sig: "list_all2 same_sig (funcs m2) fs" unfolding fs2
      using same_sig_update [OF Cons.prems(2), of fi f'] fi by (simp add: f'_def same_sig_def)
    have rest: "\<forall>fj \<in> set fis. fj < length fs \<and> funcs m2 ! fj = fs ! fj" using Cons.prems(4) fi(4)
      by (metis fs2 list.set_intros(2) nth_list_update_neq)
    have "length (sym_names m2) + length fis \<le> 2 ^ 30" using i(7,8) Cons.prems(5) by (simp add: m2_def)
    from Cons.IH [OF ok sig fi(5) rest this, of "rs @ [r]" cap2] obtain rs' m' where
      r': "rename_funcs (\<lambda>_. True) (\<lambda>_. True) conflict fis (rs @ [r]) cap2 m2 = Some (True, (rs @ [r]) @ rs', m')" "module_ok m'"
      "list_all2 same_sig (funcs m') fs" "globals m' = globals m2" "num_globals m' = num_globals m2"
      "rename_entries_ok rs' (filter Q fis) fs (funcs m')" "\<forall>fj. fj \<notin> set (filter Q fis) \<longrightarrow> funcs m' ! fj = funcs m2 ! fj"
      "\<forall>k < length (filter Q fis). renamed_to (local_name (fn_name (fs ! (filter Q fis ! k))) (length (rs @ [r]) + k)) (fs ! (filter Q fis ! k)) (funcs m' ! (filter Q fis ! k))"
      by blast
    have f2: "funcs m' ! fi = f'" using r'(7) fi by (simp add: fs2)
    have "rename_entries_ok (r # rs') (filter Q (fi # fis)) fs (funcs m')"
      using r'(6) True f2 by (simp add: rename_entries_ok_def r_def f'_def)
    moreover have "renamed_to (local_name (fn_name (fs ! (filter Q (fi # fis) ! k))) (length rs + k)) (fs ! (filter Q (fi # fis) ! k)) (funcs m' ! (filter Q (fi # fis) ! k))"
      if "k < length (filter Q (fi # fis))" for k
      using that r'(8) True f2 by (cases k) (auto simp: renamed_to_def f'_def)
    moreover have "funcs m' ! fj = funcs m ! fj" if "fj \<notin> set (filter Q (fi # fis))" for fj
      using that r'(7) True by (simp add: fs2)
    ultimately show ?thesis using run r' same by (intro exI [of _ "r # rs'"] exI [of _ m']) (simp add: m2_def)
  qed
qed

section \<open>The redirection\<close>

definition redirected :: "lr_module \<Rightarrow> nat list \<Rightarrow> lr_func list \<Rightarrow> lr_inst \<Rightarrow> lr_inst" where
  "redirected m fis fs' inst =
     (if \<not> ir_inst_is_global_call inst then inst
      else case find (\<lambda>k. symbol_id (funcs m ! (fis ! k)) = call_sym inst \<and> ir_call_signature_matches_func inst (funcs m ! (fis ! k)))
                  (rev [0..<length fis]) of
             None \<Rightarrow> inst
           | Some k \<Rightarrow> retarget (symbol_id (fs' ! (fis ! k))) inst)"

lemma find_cong_set: "(\<And>x. x \<in> set xs \<Longrightarrow> P x = Q x) \<Longrightarrow> find P xs = find Q xs"
  by (induction xs) auto

lemma find_Some_in: "find P xs = Some x \<Longrightarrow> x \<in> set xs"
  by (induction xs) (auto split: if_splits)

lemma redirect_call_ok:
  assumes "indexes rix (map (\<lambda>r. (old_sym_id r, r)) rs)" and "rename_entries_ok rs fis (funcs m) (funcs m2)"
    and "list_all2 same_sig (funcs m2) (funcs m)" and "\<forall>fi \<in> set fis. fi < length (funcs m)"
  shows "redirect_call rix m2 inst = Some (redirected m fis (funcs m2) inst)"
proof -
  let ?es = "map (\<lambda>r. (old_sym_id r, r)) rs"
  let ?P = "\<lambda>k. symbol_id (funcs m ! (fis ! k)) = call_sym inst \<and> ir_call_signature_matches_func inst (funcs m ! (fis ! k))"
  have rs: "length rs = length fis" "\<And>k. k < length fis \<Longrightarrow> rs ! k = \<lparr>old_sym_id = symbol_id (funcs m ! (fis ! k)), new_sym_id = symbol_id (funcs m2 ! (fis ! k)), ren_func = fis ! k\<rparr>"
    using assms(2) by (simp_all add: rename_entries_ok_def)
  have sig: "ir_call_signature_matches_func inst (funcs m2 ! (fis ! k)) = ir_call_signature_matches_func inst (funcs m ! (fis ! k))" if "k < length fis" for k
  proof (rule same_sig_match(2))
    show "same_sig (funcs m2 ! (fis ! k)) (funcs m ! (fis ! k))"
      using assms(3,4) nth_mem [OF that] by (simp add: list_all2_conv_all_nth)
  qed
  have find: "index_find rix (call_sym inst) (\<lambda>r. ir_call_signature_matches_func inst (funcs m2 ! ren_func r)) = Some (find ?P (rev [0..<length fis]))"
    unfolding index_find_ok [OF assms(1)] length_map rs(1) option.inject
  proof (rule find_cong_set)
    fix k assume "k \<in> set (rev [0..<length fis])"
    then have k: "k < length fis" by simp
    then show "(fst (?es ! k) = call_sym inst \<and> ir_call_signature_matches_func inst (funcs m2 ! ren_func (snd (?es ! k)))) = ?P k"
      using rs(1) rs(2) [OF k] sig [OF k] by simp
  qed
  have ent: "di_entries rix = ?es" if "k < length fis" for k
    using assms(1) rs(1) that by (auto simp: indexes_def make_index_def)
  have new: "new_sym_id (snd (di_entries rix ! k)) = symbol_id (funcs m2 ! (fis ! k))" if "find ?P (rev [0..<length fis]) = Some k" for k
  proof -
    have "k < length fis" using find_Some_in [OF that] by simp
    then show ?thesis using ent rs by simp
  qed
  show ?thesis unfolding redirect_call_def redirected_def find using new by (auto split: option.splits)
qed

lemma those_Some: "(\<And>x. x \<in> set xs \<Longrightarrow> h x = Some (k x)) \<Longrightarrow> those (map h xs) = Some (map k xs)"
  by (induction xs) auto

definition redirected_func :: "lr_module \<Rightarrow> nat list \<Rightarrow> lr_func list \<Rightarrow> lr_func \<Rightarrow> lr_func" where
  "redirected_func m fis fs' f = f\<lparr>blocks := map (\<lambda>b. b\<lparr>blk_insts := map (redirected m fis fs') (blk_insts b)\<rparr>) (blocks f)\<rparr>"

lemma redirect_calls_ok:
  assumes "rename_entries_ok rs fis (funcs m) (funcs m2)" and "list_all2 same_sig (funcs m2) (funcs m)"
    and "\<forall>fi \<in> set fis. fi < length (funcs m)" and "length fis < 2 ^ 32"
  shows "redirect_calls (\<lambda>_. True) rs m2 =
    Some (m2\<lparr>funcs := map (redirected_func m fis (funcs m2)) (funcs m2), local_function_collision_scan_dirty := False\<rparr>)"
proof -
  have "length rs < 2 ^ 32" using assms(1,4) by (simp add: rename_entries_ok_def)
  then obtain cap where cap: "ir_next_pow2_u32 (of_nat (length rs) * 2) = Some cap"
    "indexes (make_index cap (map (\<lambda>r. (old_sym_id r, r)) rs)) (map (\<lambda>r. (old_sym_id r, r)) rs)"
    using make_index_indexes [of "map (\<lambda>r. (old_sym_id r, r)) rs"] by auto
  note call = redirect_call_ok [OF cap(2) assms(1-3)]
  have "redirect_func (make_index cap (map (\<lambda>r. (old_sym_id r, r)) rs)) m2 f = Some (redirected_func m fis (funcs m2) f)" for f
    by (simp add: redirect_func_def redirect_block_def redirected_func_def those_Some [OF call]
        those_Some [where k = "\<lambda>b. b\<lparr>blk_insts := map (redirected m fis (funcs m2)) (blk_insts b)\<rparr>"])
  then show ?thesis using cap(1) by (simp add: redirect_calls_def those_Some)
qed

lemma redirected_none: "redirected m [] fs' = (\<lambda>i. i)"
  by (simp add: redirected_def fun_eq_iff)

lemma redirected_func_none: "redirected_func m [] fs' = (\<lambda>f. f)"
  by (simp add: redirected_func_def redirected_none fun_eq_iff)

section \<open>Names of the renamed functions\<close>

lemma digit_not_dot: "(char_of (48 + n mod 10) :: char) \<noteq> CHR ''.''" for n :: nat
proof
  assume "(char_of (48 + n mod 10) :: char) = CHR ''.''"
  then have "(of_char (char_of (48 + n mod 10) :: char) :: nat) = of_char CHR ''.''" by simp
  moreover have "(of_char (char_of (48 + n mod 10) :: char) :: nat) = 48 + n mod 10" by (simp add: take_bit_nat_eq_self)
  ultimately show False by simp
qed

lemma decimal_no_dot: "CHR ''.'' \<notin> set (decimal n)"
  by (induction n rule: decimal.induct) (subst decimal.simps, auto simp: digit_not_dot [symmetric])

fun digits_value :: "nat \<Rightarrow> string \<Rightarrow> nat" where
  "digits_value v [] = v"
| "digits_value v (c # cs) = digits_value (10 * v + (of_char c - 48)) cs"

lemma digits_value_append: "digits_value v (xs @ ys) = digits_value (digits_value v xs) ys"
  by (induction v xs rule: digits_value.induct) simp_all

lemma digits_value_decimal: "digits_value 0 (decimal n) = n"
proof (induction n rule: decimal.induct)
  case (1 n)
  have "(of_char (char_of (48 + n mod 10) :: char) :: nat) = 48 + n mod 10" by (simp add: take_bit_nat_eq_self)
  then show ?case using 1 by (subst decimal.simps) (simp add: digits_value_append)
qed

lemma local_name_number:
  assumes "local_name a i = local_name b j"
  shows "i = j"
proof -
  have "takeWhile (\<lambda>c. c \<noteq> CHR ''.'') (rev (local_name n k)) = rev (decimal k)" for n k
    using decimal_no_dot [of k] by (simp add: local_name_def takeWhile_append)
  then have "decimal i = decimal j" using assms by (metis rev_rev_ident)
  then show ?thesis by (metis digits_value_decimal)
qed

section \<open>The pass\<close>

definition to_rename :: "lr_module \<Rightarrow> nat list" where
  "to_rename m = filter (\<lambda>fi. has_body (funcs m ! fi) \<and> conflicts m fi) [0..<length (funcs m)]"

definition new_name :: "lr_module \<Rightarrow> nat \<Rightarrow> string" where
  "new_name m fi =
     (case find_index ((=) fi) (to_rename m) of None \<Rightarrow> fn_name (funcs m ! fi) | Some k \<Rightarrow> local_name (fn_name (funcs m ! fi)) k)"

text \<open>The functions after the pass, but for the ids of the new names, which are those in \<open>fs'\<close>.\<close>

definition disambiguated :: "lr_module \<Rightarrow> lr_func list \<Rightarrow> lr_func list" where
  "disambiguated m fs' =
     map (\<lambda>fi. redirected_func m (to_rename m) fs'
            ((funcs m ! fi)\<lparr>fn_name := new_name m fi,
               symbol_id := symbol_id (if fi \<in> set (to_rename m) then fs' ! fi else funcs m ! fi)\<rparr>))
       [0..<length (funcs m)]"

lemma find_index_distinct: "distinct xs \<Longrightarrow> k < length xs \<Longrightarrow> find_index ((=) (xs ! k)) xs = Some k"
proof (induction xs arbitrary: k)
  case (Cons x xs)
  then show ?case by (cases k) auto
qed simp

lemma redirected_symbol_ids: "map symbol_id fs' = map symbol_id fs'' \<Longrightarrow> \<forall>fi \<in> set fis. fi < length fs' \<Longrightarrow> redirected m fis fs' = redirected m fis fs''"
proof
  fix inst
  assume ids: "map symbol_id fs' = map symbol_id fs''" and fis: "\<forall>fi \<in> set fis. fi < length fs'"
  have "symbol_id (fs' ! (fis ! k)) = symbol_id (fs'' ! (fis ! k))" if "k \<in> set (rev [0..<length fis])" for k
    using ids fis that by (metis atLeastLessThan_iff length_map nth_map nth_mem set_rev set_upt)
  then show "redirected m fis fs' inst = redirected m fis fs'' inst"
    unfolding redirected_def by (auto split: option.splits dest: find_Some_in)
qed

lemma module_ok_redirect:
  assumes "module_ok m"
  shows "module_ok (m\<lparr>funcs := map (redirected_func m0 fis fs) (funcs m), local_function_collision_scan_dirty := d\<rparr>)"
  using assms by (auto simp: module_ok_def func_ok_def redirected_func_def comp_def)

lemma to_rename_less: "\<forall>fi \<in> set (to_rename m). fi < length (funcs m)"
  by (simp add: to_rename_def)

lemma disambiguated_fixpoint:
  assumes "length fs2 = length (funcs m)"
    and "\<And>k. k < length (to_rename m) \<Longrightarrow> renamed_to (local_name (fn_name (funcs m ! (to_rename m ! k))) k) (funcs m ! (to_rename m ! k)) (fs2 ! (to_rename m ! k))"
    and "\<And>fi. fi \<notin> set (to_rename m) \<Longrightarrow> fs2 ! fi = funcs m ! fi"
  shows "map (redirected_func m (to_rename m) fs2) fs2 = disambiguated m (map (redirected_func m (to_rename m) fs2) fs2)"
proof (rule nth_equalityI)
  let ?fs = "map (redirected_func m (to_rename m) fs2) fs2"
  fix fi assume "fi < length ?fs"
  then have fi: "fi < length (funcs m)" using assms(1) by simp
  have ids: "map symbol_id ?fs = map symbol_id fs2" by (simp add: redirected_func_def)
  have "redirected m (to_rename m) ?fs = redirected m (to_rename m) fs2"
    by (rule redirected_symbol_ids [OF ids]) (use to_rename_less assms(1) in simp)
  then have rf: "redirected_func m (to_rename m) ?fs = redirected_func m (to_rename m) fs2"
    by (simp add: redirected_func_def fun_eq_iff)
  have sid: "symbol_id (?fs ! fi) = symbol_id (fs2 ! fi)" using fi assms(1) by (simp add: redirected_func_def)
  have e: "fs2 ! fi = (funcs m ! fi)\<lparr>fn_name := new_name m fi, symbol_id := symbol_id (if fi \<in> set (to_rename m) then fs2 ! fi else funcs m ! fi)\<rparr>"
  proof (cases "fi \<in> set (to_rename m)")
    case True
    then obtain k where k: "k < length (to_rename m)" "to_rename m ! k = fi" by (auto simp: in_set_conv_nth)
    have "distinct (to_rename m)" by (simp add: to_rename_def)
    then have "find_index ((=) fi) (to_rename m) = Some k" using find_index_distinct [OF _ k(1)] k(2) by simp
    then show ?thesis using assms(2) [OF k(1)] k True by (simp add: renamed_to_def new_name_def)
  next
    case False
    then have "find_index ((=) fi) (to_rename m) = None" by (auto simp: find_index_None)
    then show ?thesis using False assms(3) by (simp add: new_name_def)
  qed
  have c: "symbol_id (if fi \<in> set (to_rename m) then ?fs ! fi else funcs m ! fi) =
      symbol_id (if fi \<in> set (to_rename m) then fs2 ! fi else funcs m ! fi)" using sid by simp
  have "disambiguated m ?fs ! fi = redirected_func m (to_rename m) ?fs
      ((funcs m ! fi)\<lparr>fn_name := new_name m fi, symbol_id := symbol_id (if fi \<in> set (to_rename m) then ?fs ! fi else funcs m ! fi)\<rparr>)"
    unfolding disambiguated_def using fi by (subst nth_map) (simp_all only: length_upt nth_upt add_0 minus_nat.diff_0)
  then show "?fs ! fi = disambiguated m ?fs ! fi"
    unfolding rf c e [symmetric] using fi assms(1) by simp
qed (simp add: disambiguated_def assms(1))

lemma renamed_names_distinct:
  assumes "length fs2 = length (funcs m)"
    and "\<And>k. k < length (to_rename m) \<Longrightarrow> renamed_to (local_name (fn_name (funcs m ! (to_rename m ! k))) k) (funcs m ! (to_rename m ! k)) (fs2 ! (to_rename m ! k))"
  shows "distinct (map (\<lambda>fi. fn_name (map (redirected_func m fis fs) fs2 ! fi)) (to_rename m))"
proof -
  have "fn_name f' = name" if "renamed_to name f f'" for name f f'
    by (subst that [unfolded renamed_to_def]) simp
  then have "fn_name (map (redirected_func m fis fs) fs2 ! (to_rename m ! k)) = local_name (fn_name (funcs m ! (to_rename m ! k))) k" if "k < length (to_rename m)" for k
    using assms(2) [OF that] to_rename_less [of m] assms(1) nth_mem [OF that] by (simp add: redirected_func_def)
  then show ?thesis unfolding distinct_conv_nth using local_name_number by (metis (no_types, lifting) length_map nth_map)
qed

text \<open>C2: the pass over a module with memory enough.  It returns and clears the flag.  The functions with a body whose
  name another function, a global of function type or a call uses with another signature get names of
  their own, different from each other; every call to the old name is redirected to the last of
  these functions that has its signature; nothing else changes, and the module is well formed.\<close>

theorem disambiguate_correct:
  assumes "module_ok m" and "local_function_collision_scan_dirty m"
    and "length (sym_names m) + length (globals m) + length (funcs m) \<le> 2 ^ 30" and "length (global_calls m) < 2 ^ 32"
  shows "\<exists>m'. lr_module_disambiguate_local_function_collisions (\<lambda>_. True) (\<lambda>_. True) m = Some m' \<and>
    \<not> local_function_collision_scan_dirty m' \<and> module_ok m' \<and> globals m' = globals m \<and>
    funcs m' = disambiguated m (funcs m') \<and> distinct (map (\<lambda>fi. fn_name (funcs m' ! fi)) (to_rename m))"
proof -
  have nf: "length (funcs m) < 2 ^ 32" "length (sym_names m) + length (globals m) \<le> 2 ^ 30" using assms(3) by simp_all
  obtain cix where cix: "ir_build_call_sig_index_dynamic (\<lambda>_. True) m = Some (0, cix)" "indexes cix (map (\<lambda>i. (call_sym i, i)) (global_calls m))"
    using call_index_built [OF assms(4)] by blast
  obtain fix' where fix': "func_sym_index (\<lambda>_. True) m = Some (0, fix')" "indexes fix' (zip (map symbol_id (funcs m)) [0..<length (funcs m)])"
    using func_index_built [OF nf(1)] by blast
  obtain gix es m1 new where g: "global_sym_index (\<lambda>_. True) (\<lambda>_. True) m = Some (0, gix, m1)" "indexes gix es" "module_ok m1"
    "lr_symtab.more m1 = lr_symtab.more m" "sym_names m1 = sym_names m @ new" "length new \<le> length (globals m)"
    "map snd es = filter (\<lambda>g. is_func_global g \<and> g_name g \<noteq> []) (globals m)"
    "\<forall>(s, g) \<in> set es. unat s < length (sym_names m1) \<and> sym_names m1 ! unat s = g_name g"
    using global_index_built [OF assms(1) nf(2)] by blast
  note same = more_fields [OF g(4)]
  note conf = func_conflict_ok [OF fix'(2) g(2) cix(2) g(3) same(1) g(7,8)]
  have le: "length (sym_names m1) + length [0..<length (funcs m)] \<le> 2 ^ 30" using g(5,6) assms(3) by simp
  obtain rs m2 where r: "rename_funcs (\<lambda>_. True) (\<lambda>_. True) (func_conflict fix' gix cix) [0..<length (funcs m)] [] 0 m1 = Some (True, [] @ rs, m2)"
    "module_ok m2" "list_all2 same_sig (funcs m2) (funcs m)" "globals m2 = globals m1"
    "rename_entries_ok rs (to_rename m) (funcs m) (funcs m2)" "\<forall>fi. fi \<notin> set (to_rename m) \<longrightarrow> funcs m2 ! fi = funcs m1 ! fi"
    "\<forall>k < length (to_rename m). renamed_to (local_name (fn_name (funcs m ! (to_rename m ! k))) (length [] + k)) (funcs m ! (to_rename m ! k)) (funcs m2 ! (to_rename m ! k))"
    using rename_funcs_ok [of "funcs m" "func_conflict fix' gix cix" "conflicts m", OF _ g(3) _ _ _ le, of "[]" 0]
      conf same(1) same_sig_refl unfolding to_rename_def has_body_def by simp blast
  have fis: "\<forall>fi \<in> set (to_rename m). fi < length (funcs m)" "distinct (to_rename m)" by (simp_all add: to_rename_def)
  have len2: "length (funcs m2) = length (funcs m)" using r(3) by (rule list_all2_lengthD)
  let ?m' = "m2\<lparr>funcs := map (redirected_func m (to_rename m) (funcs m2)) (funcs m2), local_function_collision_scan_dirty := False\<rparr>"
  have "length (to_rename m) \<le> length [0..<length (funcs m)]" unfolding to_rename_def by (rule length_filter_le)
  then have lr: "length (to_rename m) < 2 ^ 32" using nf(1) by simp
  have run: "lr_module_disambiguate_local_function_collisions (\<lambda>_. True) (\<lambda>_. True) m = Some ?m'"
  proof (cases "rs = []")
    case True
    then have "to_rename m = []" using r(5) by (simp add: rename_entries_ok_def)
    then show ?thesis using assms(2) cix(1) fix'(1) g(1) r(1) True same(1)
      by (simp add: lr_module_disambiguate_local_function_collisions_def redirected_func_none)
  next
    case False
    then show ?thesis using assms(2) cix(1) fix'(1) g(1) r(1) same(1) redirect_calls_ok [OF r(5,3) fis(1) lr]
      by (simp add: lr_module_disambiguate_local_function_collisions_def)
  qed
  have named: "\<And>k. k < length (to_rename m) \<Longrightarrow> renamed_to (local_name (fn_name (funcs m ! (to_rename m ! k))) k) (funcs m ! (to_rename m ! k)) (funcs m2 ! (to_rename m ! k))"
    using r(7) by simp
  have kept: "\<And>fi. fi \<notin> set (to_rename m) \<Longrightarrow> funcs m2 ! fi = funcs m ! fi" using r(6) same(1) by simp
  have "funcs ?m' = disambiguated m (funcs ?m')" using disambiguated_fixpoint [OF len2 named kept] by simp
  moreover have "distinct (map (\<lambda>fi. fn_name (funcs ?m' ! fi)) (to_rename m))" using renamed_names_distinct [OF len2 named] by simp
  moreover have "module_ok ?m'" by (rule module_ok_redirect [OF r(2)])
  ultimately show ?thesis using run r(4) same(2) by (intro exI [of _ ?m']) simp
qed

section \<open>Examples\<close>

definition with_entry :: "nat \<Rightarrow> lr_module \<Rightarrow> lr_module" where
  "with_entry fi m = m\<lparr>funcs := (funcs m)[fi := snd (lr_block_create (funcs m ! fi) ''entry'')]\<rparr>"

definition add_func :: "lr_type list \<Rightarrow> lr_module \<Rightarrow> lr_module" where
  "add_func params m = (case lr_func_create (\<lambda>_. True) 200 m ''f'' (type_void m) params False of Some (i, m') \<Rightarrow> with_entry i m')"

text \<open>Two functions of the name \<open>f\<close>, without and with a parameter.\<close>

definition clash :: "lr_module \<Rightarrow> lr_module" where
  "clash m = add_func [type_i32 m] (add_func [] m)"

definition demo_clash :: lr_module where
  "demo_clash = clash (lr_module_create id)"

lemma add_func_ok:
  assumes "module_ok m" and "length (sym_names m) < 2 ^ 30" and "length params < 2 ^ 32"
  shows "module_ok (add_func params m)"
proof -
  have inv: "sym_inv m" using assms(1) by (simp add: module_ok_def)
  obtain i m' where c: "lr_func_create (\<lambda>_. True) 200 m ''f'' (type_void m) params False = Some (i, m')"
    "symbol_id (funcs m' ! i) \<noteq> UINT32_MAX"
    using func_create_total [OF inv assms(2)] by blast
  then have m': "module_ok m'" "i < length (funcs m')" and f: "num_blocks (funcs m' ! i) = 0"
    using func_create_cases [OF c(1) assms(1) c(2) assms(3,2)] c(1)
    by (auto simp: lr_func_create_def Let_def split: option.splits)
  have "func_ok (sym_names m') (snd (lr_block_create (funcs m' ! i) ''entry''))"
    using block_create_ok(1) [OF module_ok_nth [OF m'] _ surjective_pairing] f by simp
  then show ?thesis using module_ok_update [OF m'] c(1) by (simp add: add_func_def with_entry_def)
qed

lemma disambiguated_names: "map fn_name (disambiguated m fs') = map (new_name m) [0..<length (funcs m)]"
  by (simp add: disambiguated_def redirected_func_def comp_def)

theorem disambiguate_correct_witness:
  "\<exists>m'. lr_module_disambiguate_local_function_collisions (\<lambda>_. True) (\<lambda>_. True) demo_clash = Some m' \<and>
    map fn_name (funcs m') = [''f.__liric_local.0'', ''f.__liric_local.1'']"
proof -
  have l: "length (sym_names (lr_module_create id)) = 0" "length (sym_names (add_func [] (lr_module_create id))) = 1"
    "local_function_collision_scan_dirty demo_clash"
    "length (sym_names demo_clash) + length (globals demo_clash) + length (funcs demo_clash) = 3" "length (global_calls demo_clash) = 0"
    by code_simp+
  have ok: "module_ok demo_clash"
    unfolding demo_clash_def clash_def using l(1,2) by (intro add_func_ok module_ok_create) simp_all
  have "map (new_name demo_clash) [0..<length (funcs demo_clash)] = [''f.__liric_local.0'', ''f.__liric_local.1'']" by code_simp
  then show ?thesis using disambiguate_correct [OF ok l(3)] l(4,5) disambiguated_names [of demo_clash] by simp metis
qed

definition pass :: "lr_module \<Rightarrow> lr_module" where
  "pass m = the (lr_module_disambiguate_local_function_collisions (\<lambda>_. True) (\<lambda>_. True) m)"

text \<open>The numbers of the new names start from zero in every pass: when functions of the name collide again
  after a pass, the next one gives them names, and ids, that the first pass gave to others.\<close>

theorem second_pass_collides:
  "map fn_name (funcs (pass (clash (pass demo_clash)))) =
     [''f.__liric_local.0'', ''f.__liric_local.1'', ''f.__liric_local.0'', ''f.__liric_local.1''] \<and>
   map symbol_id (funcs (pass (clash (pass demo_clash)))) = [1, 2, 1, 2]"
  by code_simp

end
