(* ===== verification/Target_Compile.thy ===== *)
theory Target_Compile
  imports Riscv_Correct Ir_Disambiguate
begin

text \<open>
  Compiling one function of a module for a target (\<^verbatim>\<open>src/src/target_registry.c\<close>) and the copies that stand
  for phi instructions (\<^verbatim>\<open>lr_build_phi_copies\<close> of \<^verbatim>\<open>src/src/ir.c\<close>).
\<close>

section \<open>Phi copies\<close>

record lr_phi_copy =
  dest_vreg :: u32
  src_op :: lr_operand

text \<open>The array of a block: \<^verbatim>\<open>count\<close> slots, empty until they are filled.\<close>

type_synonym phi_slots = "lr_phi_copy option list"

definition phi_pairs :: "lr_inst list \<Rightarrow> (u32 \<times> lr_phi_copy) list" where
  "phi_pairs insts =
     concat (map (\<lambda>i. map (\<lambda>(v, p). (opd_block_id p, \<lparr>dest_vreg = inst_dest i, src_op = v\<rparr>)) (operand_pairs (operands i)))
               (filter (\<lambda>i. inst_op i = LR_OP_PHI) insts))"

fun count_copies :: "u32 \<Rightarrow> (u32 \<times> lr_phi_copy) list \<Rightarrow> u32 list \<Rightarrow> u32 list" where
  "count_copies n [] counts = counts"
| "count_copies n ((p, c) # ps) counts =
     (if n \<le> p then count_copies n ps counts else count_copies n ps (counts[unat p := counts ! unat p + 1]))"

text \<open>The second walk fills every array from its end.\<close>

fun fill_copies :: "u32 \<Rightarrow> (u32 \<times> lr_phi_copy) list \<Rightarrow> u32 list \<Rightarrow> phi_slots list \<Rightarrow> phi_slots list" where
  "fill_copies n [] fill_pos bs = bs"
| "fill_copies n ((p, c) # ps) fill_pos bs =
     (if n \<le> p then fill_copies n ps fill_pos bs
      else let slot = fill_pos ! unat p - 1
           in fill_copies n ps (fill_pos[unat p := slot]) (bs[unat p := (bs ! unat p)[unat slot := Some c]]))"

text \<open>The walk over the block array; an empty slot is a null pointer that is read through.\<close>

definition slot_phis :: "lr_func \<Rightarrow> u32 option \<Rightarrow> (u32 \<times> lr_phi_copy) list option" where
  "slot_phis f e =
     (case e of None \<Rightarrow> None
      | Some bid \<Rightarrow> (case find_block f bid of None \<Rightarrow> None | Some b \<Rightarrow> map_option phi_pairs (block_stream b)))"

definition phi_stream :: "lr_func \<Rightarrow> (u32 \<times> lr_phi_copy) list option" where
  "phi_stream f =
     (if num_blocks f = 0 then Some []
      else case block_array f of None \<Rightarrow> None
           | Some arr \<Rightarrow> map_option concat (those (map (slot_phis f) (take (unat (num_blocks f)) arr))))"

text \<open>\<open>Some None\<close> is the null pointer; \<open>None\<close> a read through a null pointer.  The arrays are not checked
  for allocation by the source and taken to be allocated.\<close>

definition lr_build_phi_copies :: "(nat \<Rightarrow> bool) \<Rightarrow> lr_func \<Rightarrow> phi_slots list option option" where
  "lr_build_phi_copies mem f0 =
     (case (if lr_func_is_finalized f0 then Inr f0 else lr_func_finalize mem f0) of Inl _ \<Rightarrow> Some None
      | Inr f \<Rightarrow>
          (case phi_stream f of None \<Rightarrow> None
           | Some ps \<Rightarrow>
               let counts = count_copies (num_blocks f) ps (replicate (unat (num_blocks f)) 0)
               in Some (Some (fill_copies (num_blocks f) ps counts (map (\<lambda>c. replicate (unat c) None) counts)))))"

definition copies_into :: "nat \<Rightarrow> (u32 \<times> lr_phi_copy) list \<Rightarrow> lr_phi_copy list" where
  "copies_into p ps = map snd (filter (\<lambda>(q, c). unat q = p) ps)"

lemma copies_into_Cons [simp]: "copies_into p ((q, c) # ps) = (if unat q = p then c # copies_into p ps else copies_into p ps)"
  by (simp add: copies_into_def)

lemma copies_into_Nil [simp]: "copies_into p [] = []"
  by (simp add: copies_into_def)

lemma count_copies_ok:
  assumes "length counts = unat n"
  shows "length (count_copies n ps counts) = unat n \<and>
    (\<forall>p < unat n. count_copies n ps counts ! p = counts ! p + of_nat (length (copies_into p ps)))"
  using assms
proof (induction n ps counts rule: count_copies.induct)
  case (2 n p c ps counts)
  then show ?case by (cases "n \<le> p") (auto simp: word_le_nat_alt nth_list_update)
qed simp

lemma fill_copies_ok:
  assumes "length fp = unat n" and "length bs = unat n"
    and "\<And>p. p < unat n \<Longrightarrow> unat (fp ! p) = length (copies_into p ps) \<and> length (copies_into p ps) \<le> length (bs ! p)"
  shows "length (fill_copies n ps fp bs) = unat n \<and>
    (\<forall>p < unat n. fill_copies n ps fp bs ! p = map Some (rev (copies_into p ps)) @ drop (length (copies_into p ps)) (bs ! p))"
  using assms
proof (induction n ps fp bs rule: fill_copies.induct)
  case (2 n p c ps fp bs)
  show ?case
  proof (cases "n \<le> p")
    case True
    then have out: "p' < unat n \<Longrightarrow> unat p \<noteq> p'" for p' by (auto simp: word_le_nat_alt)
    have hyp: "\<And>p'. p' < unat n \<Longrightarrow> unat (fp ! p') = length (copies_into p' ps) \<and> length (copies_into p' ps) \<le> length (bs ! p')"
      using "2.prems"(3) out by fastforce
    show ?thesis using "2.IH"(1) [OF True "2.prems"(1,2) hyp] True out by simp
  next
    case False
    then have p: "unat p < unat n" by (simp add: word_le_nat_alt)
    define slot where "slot = fp ! unat p - 1"
    have u: "unat (fp ! unat p) = Suc (length (copies_into (unat p) ps))" "Suc (length (copies_into (unat p) ps)) \<le> length (bs ! unat p)"
      using "2.prems"(3) [OF p] by simp_all
    then have sl: "unat slot = length (copies_into (unat p) ps)"
      unfolding slot_def by (subst unat_sub_nowrap) (simp_all add: word_le_nat_alt)
    let ?fp = "fp[unat p := slot]" and ?bs = "bs[unat p := (bs ! unat p)[unat slot := Some c]]"
    have hyp: "unat (?fp ! p') = length (copies_into p' ps) \<and> length (copies_into p' ps) \<le> length (?bs ! p')" if "p' < unat n" for p'
      using "2.prems"(1,2) "2.prems"(3) [OF that] that sl u by (cases "p' = unat p") auto
    have ih: "length (fill_copies n ps ?fp ?bs) = unat n \<and>
        (\<forall>p' < unat n. fill_copies n ps ?fp ?bs ! p' = map Some (rev (copies_into p' ps)) @ drop (length (copies_into p' ps)) (?bs ! p'))"
      using "2.IH"(2) [OF False slot_def] "2.prems"(1,2) hyp by simp
    have "drop k (xs[k := y]) = y # drop (Suc k) xs" if "k < length xs" for k y and xs :: phi_slots
      using that by (metis Cons_nth_drop_Suc drop_update_cancel length_list_update lessI nth_list_update_eq)
    then show ?thesis using ih False p sl u "2.prems"(2) by (auto simp: Let_def slot_def [symmetric] nth_list_update)
  qed
qed simp

text \<open>C38: the copies for phi instructions.  In the array of a finalized function every slot is filled, and the copies of a
  block are those of the phi operands that name it as the predecessor, the last one first.\<close>

theorem phi_copies_correct:
  assumes "lr_func_is_finalized f" and "phi_stream f = Some ps" and "length ps < 2 ^ 32" and "p < unat (num_blocks f)"
  shows "\<exists>bs. lr_build_phi_copies mem f = Some (Some bs) \<and> length bs = unat (num_blocks f) \<and> bs ! p = map Some (rev (copies_into p ps))"
proof -
  let ?n = "num_blocks f"
  let ?counts = "count_copies ?n ps (replicate (unat ?n) 0)"
  have c: "length ?counts = unat ?n" "\<And>p. p < unat ?n \<Longrightarrow> ?counts ! p = of_nat (length (copies_into p ps))"
    using count_copies_ok [of "replicate (unat ?n) 0" ?n ps] by simp_all
  have "length (copies_into p ps) \<le> length ps" for p by (simp add: copies_into_def)
  then have small: "unat (of_nat (length (copies_into p ps)) :: u32) = length (copies_into p ps)" for p
    using le_less_trans [OF _ assms(3)] by (intro unat_of_nat_small) simp
  have "length (fill_copies ?n ps ?counts (map (\<lambda>c. replicate (unat c) None) ?counts)) = unat ?n \<and>
    (\<forall>p < unat ?n. fill_copies ?n ps ?counts (map (\<lambda>c. replicate (unat c) None) ?counts) ! p =
       map Some (rev (copies_into p ps)) @ drop (length (copies_into p ps)) (map (\<lambda>c. replicate (unat c) None) ?counts ! p))"
    by (rule fill_copies_ok) (use c small in simp_all)
  then show ?thesis using assms c small by (simp add: lr_build_phi_copies_def Let_def)
qed

section \<open>Compiling a function\<close>

text \<open>\<open>attach\<close> gives the module together with what is attached to it, such as its object file.  The result is the status, the
  length of the code, the context and the module; \<open>None\<close> as in the parts.\<close>

definition func_meta :: "lr_compile_mode \<Rightarrow> lr_func \<Rightarrow> lr_compile_func_meta" where
  "func_meta mode f =
     \<lparr>fm_param_vregs = Some (param_vregs f), fm_ret_type = ret_type f, fm_param_types = Some (map Some (param_types f)),
      fm_num_params = of_nat (length (param_types f)), fm_vararg = fn_vararg f, fm_num_blocks = num_blocks f,
      fm_next_vreg = next_vreg f, fm_mode = mode\<rparr>"

record compile_memory =
  cm_finalize :: "nat \<Rightarrow> bool"
  cm_disambiguate :: "dis_alloc \<Rightarrow> bool"
  cm_symbols :: "u32 \<Rightarrow> bool"
  cm_replay :: "nat \<Rightarrow> bool"

definition lr_target_compile ::
  "compile_memory \<Rightarrow> (lr_module \<Rightarrow> 'm) \<Rightarrow> ('m, 'c) lr_target \<Rightarrow> lr_compile_mode \<Rightarrow> nat \<Rightarrow> lr_module \<Rightarrow> bytes \<Rightarrow>
     (int \<times> nat \<times> 'c option \<times> lr_module) option" where
  "lr_target_compile mem attach target mode fi m buf =
     (if \<not> lr_target_can_compile target mode then Some (-1, 0, None, m)
      else case (if lr_func_is_finalized (funcs m ! fi) then Inr (funcs m ! fi) else lr_func_finalize (cm_finalize mem) (funcs m ! fi)) of
        Inl _ \<Rightarrow> Some (-1, 0, None, m)
      | Inr f \<Rightarrow>
          (case lr_module_disambiguate_local_function_collisions_if_dirty (cm_disambiguate mem) (cm_symbols mem) (m\<lparr>funcs := (funcs m)[fi := f]\<rparr>) of
             None \<Rightarrow> None
           | Some (_, m1) \<Rightarrow>
               (case the (compile_begin target) (func_meta mode (funcs m1 ! fi)) (attach m1) buf of
                  None \<Rightarrow> None
                | Some (rc, oc) \<Rightarrow>
                    if rc \<noteq> 0 then Some (rc, 0, None, m1)
                    else (case oc of None \<Rightarrow> Some (-1, 0, None, m1)
                          | Some ctx \<Rightarrow>
                              (case lr_replay_function_stream (cm_replay mem) target ctx (funcs m1 ! fi) of None \<Rightarrow> None
                               | Some (rc2, ctx') \<Rightarrow>
                                   if rc2 \<noteq> 0 then Some (rc2, 0, Some ctx', m1)
                                   else map_option (\<lambda>(rc3, len). (rc3, len, Some ctx', m1)) (the (compile_end target) ctx'))))))"

lemma target_compile_steps:
  assumes "lr_target_compile mem attach target mode fi m buf = Some (0, len, oc, m1)"
  shows "\<exists>ctx ctx'. the (compile_begin target) (func_meta mode (funcs m1 ! fi)) (attach m1) buf = Some (0, Some ctx) \<and>
    lr_replay_function_stream (cm_replay mem) target ctx (funcs m1 ! fi) = Some (0, ctx') \<and>
    the (compile_end target) ctx' = Some (0, len) \<and> oc = Some ctx'"
  using assms unfolding lr_target_compile_def
  by (auto split: if_splits sum.splits option.splits prod.splits)

lemma riscv_begin:
  assumes "t = target_riscv64gc rm \<or> t = target_riscv64im rm"
  shows "\<exists>feat. the (compile_begin t) = rv_compile_begin_common (arena_ok rm) feat" and "the (compile_end t) = rv_compile_end"
  using assms by (auto simp: target_riscv64gc_def target_riscv64im_def rv_compile_begin_rv64gc_def rv_compile_begin_rv64im_def)

text \<open>C7: compiling a function for RISC-V stays in its buffer.  When it succeeds, the buffer has kept its length, the code
  length is at most that, and the bytes behind the code are unchanged.\<close>

theorem riscv_compile_in_buffer:
  assumes "t = target_riscv64gc rm \<or> t = target_riscv64im rm"
    and "lr_target_compile mem attach t mode fi m buf = Some (0, n, Some ctx, m')"
  shows "n \<le> length buf \<and> length (ec_buf (dc_ec ctx)) = length buf \<and> drop n (ec_buf (dc_ec ctx)) = drop n buf"
proof -
  obtain ctx0 where s: "the (compile_begin t) (func_meta mode (funcs m' ! fi)) (attach m') buf = Some (0, Some ctx0)"
    "lr_replay_function_stream (cm_replay mem) t ctx0 (funcs m' ! fi) = Some (0, ctx)" "the (compile_end t) ctx = Some (0, n)"
    using target_compile_steps [OF assms(2)] by auto
  obtain feat where b: "rv_compile_begin_common (arena_ok rm) feat (func_meta mode (funcs m' ! fi)) (attach m') buf = Some (0, Some ctx0)"
    using riscv_begin(1) [OF assms(1)] s(1) by auto
  show ?thesis using replay_stays_in_buffer [OF b assms(1) s(2)] s(3) riscv_begin(2) [OF assms(1)] by simp
qed


section \<open>Examples\<close>

text \<open>The function \<open>(a + 70000) * b\<close> of a module, finalized and compiled.\<close>

definition demo_module :: lr_module where
  "demo_module = (lr_module_create id)\<lparr>funcs := [demo_rv_func\<lparr>param_types := [TScalar 1 SI64, TScalar 1 SI64],
     linear_inst_array := Some [8, 16, 24], block_inst_offsets := Some [0, 3], num_linear_insts := 3\<rparr>]\<rparr>"

definition demo_compile :: "(int \<times> nat \<times> rv_direct_ctx option \<times> lr_module) option" where
  "demo_compile = lr_target_compile \<lparr>cm_finalize = \<lambda>_. True, cm_disambiguate = \<lambda>_. True, cm_symbols = \<lambda>_. True, cm_replay = \<lambda>_. True\<rparr>
     (\<lambda>m. (m, None)) (target_riscv64gc demo_mem) LR_COMPILE_ISEL 0 demo_module (replicate 64 0)"

lemma compile_keeps_clean_module:
  assumes "lr_target_compile mem attach t mode fi m buf = Some (rc, n, oc, m')" and "lr_func_is_finalized (funcs m ! fi)"
    and "\<not> local_function_collision_scan_dirty m"
  shows "m' = m"
  using assms unfolding lr_target_compile_def lr_module_disambiguate_local_function_collisions_if_dirty_def
  by (auto split: if_splits option.splits)

definition demo_compiled :: rv_direct_ctx where
  "demo_compiled = (case demo_compile of Some (_, _, Some c, _) \<Rightarrow> c)"

lemma demo_compiles: "demo_compile = Some (0, 24, Some demo_compiled, demo_module)"
proof -
  have "case demo_compile of Some (rc, n, oc, m) \<Rightarrow> rc = 0 \<and> n = 24 \<and> oc \<noteq> None | None \<Rightarrow> False" by code_simp
  then obtain c m where c: "demo_compile = Some (0, 24, Some c, m)" by (auto split: option.splits)
  have "lr_func_is_finalized (funcs demo_module ! 0) \<and> \<not> local_function_collision_scan_dirty demo_module" by code_simp
  then have "m = demo_module" using compile_keeps_clean_module [OF c [unfolded demo_compile_def]] by blast
  then show ?thesis unfolding demo_compiled_def c by simp
qed

theorem riscv_compile_in_buffer_witness: "length (ec_buf (dc_ec demo_compiled)) = 64"
  using riscv_compile_in_buffer [OF disjI1 [OF refl] demo_compiles [unfolded demo_compile_def]] by simp


definition demo_phi_func :: lr_func where
  "demo_phi_func = demo_rv_func\<lparr>blocks := [demo_block\<lparr>
     blk_insts := [demo_inst 8 LR_OP_PHI 3 [demo_vreg 1, demo_vreg 0, demo_imm 5, demo_vreg 0], demo_inst 16 LR_OP_RET_VOID 0 []],
     inst_array := Some [8, 16], num_insts := 2\<rparr>],
     linear_inst_array := Some [8, 16], block_inst_offsets := Some [0, 2], num_linear_insts := 2\<rparr>"

theorem phi_copies_correct_witness:
  "\<exists>bs. lr_build_phi_copies (\<lambda>_. True) demo_phi_func = Some (Some bs) \<and>
    bs ! 0 = [Some \<lparr>dest_vreg = 3, src_op = demo_imm 5\<rparr>, Some \<lparr>dest_vreg = 3, src_op = demo_vreg 1\<rparr>]"
proof -
  have fin: "lr_func_is_finalized demo_phi_func" by code_simp
  have ps: "phi_stream demo_phi_func = Some [(0, \<lparr>dest_vreg = 3, src_op = demo_vreg 1\<rparr>), (0, \<lparr>dest_vreg = 3, src_op = demo_imm 5\<rparr>)]"
    by (simp add: phi_stream_def slot_phis_def demo_phi_func_def demo_rv_func_def demo_block_def find_block_def block_stream_def
        phi_pairs_def demo_inst_def opd_block_id_def) (simp add: demo_vreg_def)
  have nb: "num_blocks demo_phi_func = 1" by (simp add: demo_phi_func_def demo_rv_func_def)
  show ?thesis using phi_copies_correct [OF fin ps, of 0 "\<lambda>_. True"] nb by auto
qed

end
