(* ===== verification/Elf_Bytes.thy ===== *)
theory Elf_Bytes
  imports Runtime_Archive "HOL-Library.Signed_Division"
begin

text \<open>
  Writing and patching bytes for the ELF files (\<^verbatim>\<open>src/src/objfile.h\<close>, \<^verbatim>\<open>src/src/objfile_elf.c\<close>): the
  inline writers, which move a pointer over a buffer, and the patches that store a resolved address in
  an instruction.  Every patch is proved against a decoder of the instruction field it fills.

  A pointer into a buffer is the buffer with a position.  A write outside the buffer makes the buffer
  longer, so a buffer that keeps its length has been written inside only.  A patch returns \<open>None\<close> where
  the code returns -1, which is always before it writes; \<^verbatim>\<open>buflen\<close> is the length of the list.
\<close>

unbundle bit_operations_syntax


section \<open>Writers\<close>

type_synonym cursor = "bytes \<times> nat"

definition wbytes :: "bytes \<Rightarrow> cursor \<Rightarrow> cursor" where
  "wbytes xs c = (overwrite (fst c) (snd c) xs, snd c + length xs)"

definition w8 :: "u8 \<Rightarrow> cursor \<Rightarrow> cursor" where
  "w8 v = wbytes [v]"

definition w16 :: "u16 \<Rightarrow> cursor \<Rightarrow> cursor" where
  "w16 v = wbytes [ucast v, ucast (drop_bit 8 v)]"

definition w32 :: "u32 \<Rightarrow> cursor \<Rightarrow> cursor" where
  "w32 v = wbytes [ucast v, ucast (drop_bit 8 v), ucast (drop_bit 16 v), ucast (drop_bit 24 v)]"

definition w32be :: "u32 \<Rightarrow> cursor \<Rightarrow> cursor" where
  "w32be v = wbytes [ucast (drop_bit 24 v), ucast (drop_bit 16 v), ucast (drop_bit 8 v), ucast v]"

definition w64 :: "u64 \<Rightarrow> cursor \<Rightarrow> cursor" where
  "w64 v = wbytes (map (\<lambda>i. ucast (drop_bit (i * 8) v)) [0..<8])"

definition wpad :: "nat \<Rightarrow> cursor \<Rightarrow> cursor" where
  "wpad n = wbytes (replicate n 0)"

text \<open>A sequence of calls on one pointer.\<close>

fun w_all :: "(cursor \<Rightarrow> cursor) list \<Rightarrow> cursor \<Rightarrow> cursor" where
  "w_all [] c = c"
| "w_all (w # ws) c = w_all ws (w c)"

definition obj_align_up :: "u64 \<Rightarrow> u64 \<Rightarrow> u64" where
  "obj_align_up val alignment = (val + alignment - 1) AND NOT (alignment - 1)"

section \<open>Constants\<close>

definition ELFMAG :: bytes where
  "ELFMAG = [0x7F, 0x45, 0x4C, 0x46]"

definition ELFCLASS64 :: u8 where "ELFCLASS64 = 2"
definition ELFDATA2LSB :: u8 where "ELFDATA2LSB = 1"
definition EV_CURRENT :: u8 where "EV_CURRENT = 1"
definition ELFOSABI_NONE :: u8 where "ELFOSABI_NONE = 0"
definition ET_REL :: u16 where "ET_REL = 1"
definition ET_EXEC :: u16 where "ET_EXEC = 2"
definition EM_X86_64 :: u16 where "EM_X86_64 = 62"
definition EM_AARCH64 :: u16 where "EM_AARCH64 = 183"
definition EM_RISCV :: u16 where "EM_RISCV = 243"
definition PT_LOAD :: u32 where "PT_LOAD = 1"
definition PF_X :: u32 where "PF_X = 1"
definition PF_W :: u32 where "PF_W = 2"
definition PF_R :: u32 where "PF_R = 4"
definition SHT_PROGBITS :: u32 where "SHT_PROGBITS = 1"
definition SHT_SYMTAB :: u32 where "SHT_SYMTAB = 2"
definition SHT_STRTAB :: u32 where "SHT_STRTAB = 3"
definition SHT_RELA :: u32 where "SHT_RELA = 4"
definition SHF_WRITE :: u64 where "SHF_WRITE = 1"
definition SHF_ALLOC :: u64 where "SHF_ALLOC = 2"
definition SHF_EXECINSTR :: u64 where "SHF_EXECINSTR = 4"
definition SHF_INFO_LINK :: u64 where "SHF_INFO_LINK = 0x40"
definition STB_LOCAL :: u8 where "STB_LOCAL = 0"
definition STB_GLOBAL :: u8 where "STB_GLOBAL = 1"
definition STB_WEAK :: u8 where "STB_WEAK = 2"
definition STT_NOTYPE :: u8 where "STT_NOTYPE = 0"
definition STT_FUNC :: u8 where "STT_FUNC = 2"
definition STT_SECTION :: u8 where "STT_SECTION = 3"
definition SHN_UNDEF :: u16 where "SHN_UNDEF = 0"

definition ELF64_ST_INFO :: "u8 \<Rightarrow> u8 \<Rightarrow> u8" where
  "ELF64_ST_INFO bind' type = push_bit 4 bind' OR (type AND 0xF)"

definition ELF64_R_INFO :: "u32 \<Rightarrow> u32 \<Rightarrow> u64" where
  "ELF64_R_INFO symbol type = push_bit 32 (ucast symbol) OR ucast type"

section \<open>Reading and writing words in place\<close>

definition write_u32_le :: "bytes \<Rightarrow> u32 \<Rightarrow> u32 \<Rightarrow> bytes option" where
  "write_u32_le buf off value =
     (if unat off + 4 > length buf then None
      else Some (buf[unat off := ucast value, unat off + 1 := ucast (drop_bit 8 value),
                     unat off + 2 := ucast (drop_bit 16 value), unat off + 3 := ucast (drop_bit 24 value)]))"

definition write_u64_le :: "bytes \<Rightarrow> u32 \<Rightarrow> u64 \<Rightarrow> bytes option" where
  "write_u64_le buf off value =
     (if unat off + 8 > length buf then None
      else Some (foldl (\<lambda>b i. b[unat off + i := ucast (drop_bit (i * 8) value)]) buf [0..<8]))"

definition read_u32_le :: "bytes \<Rightarrow> u32 \<Rightarrow> u32" where
  "read_u32_le buf off =
     ucast (buf ! unat off) OR push_bit 8 (ucast (buf ! (unat off + 1))) OR
     push_bit 16 (ucast (buf ! (unat off + 2))) OR push_bit 24 (ucast (buf ! (unat off + 3)))"

definition read_u64_le :: "bytes \<Rightarrow> u32 \<Rightarrow> u64" where
  "read_u64_le buf off = foldl (\<lambda>v i. v OR push_bit (i * 8) (ucast (buf ! (unat off + i)))) 0 [0..<8]"

section \<open>Patches\<close>

definition patch_rel32_vaddr :: "bytes \<Rightarrow> u32 \<Rightarrow> u64 \<Rightarrow> u64 \<Rightarrow> bytes option" where
  "patch_rel32_vaddr buf off place_vaddr target_vaddr =
     (let disp = sint target_vaddr - sint (place_vaddr + 4)
      in if disp < - (2 ^ 31) \<or> disp > 2 ^ 31 - 1 then None
         else write_u32_le buf off (word_of_int disp))"

definition patch_aarch64_branch26_vaddr :: "bytes \<Rightarrow> u32 \<Rightarrow> u64 \<Rightarrow> u64 \<Rightarrow> bytes option" where
  "patch_aarch64_branch26_vaddr buf off place_vaddr target_vaddr =
     (if unat off + 4 > length buf then None
      else let imm = (sint target_vaddr - sint place_vaddr) sdiv 4
           in if imm < - (2 ^ 25) \<or> imm \<ge> 2 ^ 25 then None
              else write_u32_le buf off
                     ((read_u32_le buf off AND 0xFC000000) OR (word_of_int imm AND 0x03FFFFFF)))"

definition patch_aarch64_page21_vaddr :: "bytes \<Rightarrow> u32 \<Rightarrow> u64 \<Rightarrow> u64 \<Rightarrow> bytes option" where
  "patch_aarch64_page21_vaddr buf off place_vaddr target_vaddr =
     (if unat off + 4 > length buf then None
      else let target_page = target_vaddr AND NOT 0xFFF;
               place_page = place_vaddr AND NOT 0xFFF;
               pages = drop_bit 12 (sint target_page - sint place_page)
           in if pages < - (2 ^ 20) \<or> pages \<ge> 2 ^ 20 then None
              else let insn = read_u32_le buf off AND NOT (push_bit 29 3 OR push_bit 5 0x7FFFF);
                       insn = insn OR push_bit 29 (word_of_int pages AND 3);
                       insn = insn OR push_bit 5 (drop_bit 2 (word_of_int pages) AND 0x7FFFF)
                   in write_u32_le buf off insn)"

definition patch_aarch64_pageoff12_vaddr :: "bytes \<Rightarrow> u32 \<Rightarrow> u64 \<Rightarrow> bool \<Rightarrow> bytes option" where
  "patch_aarch64_pageoff12_vaddr buf off target_vaddr got_load =
     (if unat off + 4 > length buf then None
      else let imm = ucast (target_vaddr AND 0xFFF) :: u32
           in if got_load \<and> imm AND 7 \<noteq> 0 then None
              else let imm = (if got_load then drop_bit 3 imm else imm);
                       insn = read_u32_le buf off AND NOT (push_bit 10 0xFFF)
                   in write_u32_le buf off (insn OR push_bit 10 (imm AND 0xFFF)))"

definition patch_riscv_jal_vaddr :: "bytes \<Rightarrow> u32 \<Rightarrow> u64 \<Rightarrow> u64 \<Rightarrow> bytes option" where
  "patch_riscv_jal_vaddr buf off place_vaddr target_vaddr =
     (if unat off + 4 > length buf then None
      else let disp = sint target_vaddr - sint place_vaddr
           in if disp AND 1 \<noteq> 0 then None
              else if disp < - (2 ^ 20) \<or> disp \<ge> 2 ^ 20 then None
              else let uimm = word_of_int disp :: u32;
                       low = read_u32_le buf off AND 0x00000FFF;
                       high = push_bit 31 (drop_bit 20 uimm AND 1) OR push_bit 21 (drop_bit 1 uimm AND 0x3FF) OR
                              push_bit 20 (drop_bit 11 uimm AND 1) OR push_bit 12 (drop_bit 12 uimm AND 0xFF)
                   in write_u32_le buf off (low OR high))"

section \<open>Writers as byte strings\<close>

lemma w16_bytes: "w16 v = wbytes (le_split 2 v)"
  by (simp add: w16_def numeral_eq_Suc)

lemma w32_bytes: "w32 v = wbytes (le_split 4 v)"
  by (simp add: w32_def numeral_eq_Suc)

lemma w64_bytes: "w64 v = wbytes (le_split 8 v)"
  by (simp add: w64_def numeral_eq_Suc upt_rec)

lemma wbytes_wbytes:
  "p \<le> length buf \<Longrightarrow> wbytes ys (wbytes xs (buf, p)) = wbytes (xs @ ys) (buf, p)"
  by (simp add: wbytes_def overwrite_def ac_simps)

text \<open>The bytes a sequence of calls writes.\<close>

definition emits :: "(cursor \<Rightarrow> cursor) list \<Rightarrow> bytes \<Rightarrow> bool" where
  "emits ws xs \<longleftrightarrow> (\<forall>buf p. p \<le> length buf \<longrightarrow> w_all ws (buf, p) = wbytes xs (buf, p))"

lemma emits_Nil: "emits [] []"
  by (simp add: emits_def wbytes_def)

lemma emits_Cons: "emits ws ys \<Longrightarrow> emits (wbytes xs # ws) (xs @ ys)"
  unfolding emits_def
proof (intro allI impI)
  fix buf :: bytes and p
  assume ws: "\<forall>buf p. p \<le> length buf \<longrightarrow> w_all ws (buf, p) = wbytes ys (buf, p)" and p: "p \<le> length buf"
  have "snd (wbytes xs (buf, p)) \<le> length (fst (wbytes xs (buf, p)))" using p by (simp add: wbytes_def overwrite_def)
  then have "w_all ws (wbytes xs (buf, p)) = wbytes ys (wbytes xs (buf, p))"
    using ws by (metis prod.collapse)
  then show "w_all (wbytes xs # ws) (buf, p) = wbytes (xs @ ys) (buf, p)" using wbytes_wbytes [OF p] by simp
qed

lemma w_all_append: "w_all (us @ vs) c = w_all vs (w_all us c)"
  by (induction us arbitrary: c) simp_all

lemma emits_append: "emits us xs \<Longrightarrow> emits vs ys \<Longrightarrow> emits (us @ vs) (xs @ ys)"
  unfolding emits_def
proof (intro allI impI)
  fix buf :: bytes and p
  assume us: "\<forall>buf p. p \<le> length buf \<longrightarrow> w_all us (buf, p) = wbytes xs (buf, p)"
    and vs: "\<forall>buf p. p \<le> length buf \<longrightarrow> w_all vs (buf, p) = wbytes ys (buf, p)" and p: "p \<le> length buf"
  have "snd (wbytes xs (buf, p)) \<le> length (fst (wbytes xs (buf, p)))" using p by (simp add: wbytes_def overwrite_def)
  then have "w_all vs (wbytes xs (buf, p)) = wbytes ys (wbytes xs (buf, p))" using vs by (metis prod.collapse)
  then show "w_all (us @ vs) (buf, p) = wbytes (xs @ ys) (buf, p)"
    using us p wbytes_wbytes [OF p] by (simp add: w_all_append)
qed

lemma emits_concat: "(\<And>x. x \<in> set xs \<Longrightarrow> emits (f x) (g x)) \<Longrightarrow> emits (concat (map f xs)) (concat (map g xs))"
  by (induction xs) (auto intro: emits_Nil emits_append)

lemma emits_eq: "emits ws xs \<Longrightarrow> xs = ys \<Longrightarrow> emits ws ys"
  by simp

lemmas writer_bytes = w8_def w16_bytes w32_bytes w64_bytes wpad_def

lemma emitsD: "emits ws xs \<Longrightarrow> p \<le> length buf \<Longrightarrow> w_all ws (buf, p) = (overwrite buf p xs, p + length xs)"
  by (simp add: emits_def wbytes_def)

section \<open>Words in a buffer\<close>

definition part :: "'a list \<Rightarrow> nat \<Rightarrow> nat \<Rightarrow> 'a list" where
  "part buf off n = take n (drop off buf)"

lemma length_part [simp]: "off + n \<le> length buf \<Longrightarrow> length (part buf off n) = n"
  by (simp add: part_def)

lemma part_nth: "off + n \<le> length buf \<Longrightarrow> part buf off n = map (\<lambda>i. buf ! (off + i)) [0..<n]"
  by (intro nth_equalityI) (auto simp: part_def)

lemma part_overwrite:
  "off + length xs \<le> length buf \<Longrightarrow> length xs = n \<Longrightarrow> part (overwrite buf off xs) off n = xs"
  using overwrite_inside [of off xs buf] by (simp add: part_def)

lemma part_overwrite_other:
  "off + length xs \<le> length buf \<Longrightarrow> i + n \<le> off \<or> off + length xs \<le> i \<Longrightarrow> i + n \<le> length buf \<Longrightarrow>
    part (overwrite buf off xs) i n = part buf i n"
  using overwrite_outside [of off xs buf i n] by (simp add: part_def)

lemma part_part: "i + k \<le> n \<Longrightarrow> part (part buf off n) i k = part buf (off + i) k"
  by (simp add: part_def drop_take min_def add.commute)

lemma overwrite_update: "off < length buf \<Longrightarrow> overwrite (buf[off := x]) (Suc off) xs = overwrite buf off (x # xs)"
  by (simp add: overwrite_def take_Suc_conv_app_nth)

lemma update_4:
  "off + 4 \<le> length buf \<Longrightarrow> buf[off := a, off + 1 := b, off + 2 := c, off + 3 := d] = overwrite buf off [a, b, c, d]"
  by (simp add: numeral_eq_Suc overwrite_update [symmetric])

lemma update_all:
  "off + i + length xs \<le> length buf \<Longrightarrow>
    foldl (\<lambda>b j. b[off + j := f j]) buf [i..<i + length xs] = overwrite buf (off + i) (map f [i..<i + length xs])"
proof (induction xs arbitrary: i buf)
  case (Cons x xs)
  have "[i..<i + length (x # xs)] = i # [Suc i..<Suc i + length xs]" by (simp add: upt_rec)
  then show ?case using Cons.IH [of "Suc i" "buf[off + i := f i]"] Cons.prems by (simp add: overwrite_update)
qed simp

lemma write_u32_le_some:
  "write_u32_le buf off v = Some buf' \<longleftrightarrow> unat off + 4 \<le> length buf \<and> buf' = overwrite buf (unat off) (le_split 4 v)"
proof -
  have "le_split 4 v = [ucast v, ucast (drop_bit 8 v), ucast (drop_bit 16 v), ucast (drop_bit 24 v)]"
    by (simp add: numeral_eq_Suc)
  then show ?thesis using update_4 [of "unat off" buf] by (auto simp: write_u32_le_def)
qed

lemma write_u64_le_some:
  "write_u64_le buf off v = Some buf' \<longleftrightarrow> unat off + 8 \<le> length buf \<and> buf' = overwrite buf (unat off) (le_split 8 v)"
proof -
  have "le_split 8 v = map (\<lambda>i. ucast (drop_bit (i * 8) v)) [0..<8]" by (simp add: numeral_eq_Suc upt_rec)
  then show ?thesis
    using update_all [of "unat off" 0 "replicate 8 ()" buf "\<lambda>i. ucast (drop_bit (i * 8) v)"] by (auto simp: write_u64_le_def)
qed

lemma read_u32_le_join: "unat off + 4 \<le> length buf \<Longrightarrow> read_u32_le buf off = le_join (part buf (unat off) 4)"
  by (simp add: part_nth read_u32_le_def upt_rec push_bit_or or.assoc numeral_eq_Suc)

lemma read_u64_le_join: "unat off + 8 \<le> length buf \<Longrightarrow> read_u64_le buf off = le_join (part buf (unat off) 8)"
  by (simp add: part_nth read_u64_le_def upt_rec push_bit_or or.assoc numeral_eq_Suc)

definition word32_at :: "bytes \<Rightarrow> nat \<Rightarrow> u32" where
  "word32_at buf off = le_join (part buf off 4)"

definition word64_at :: "bytes \<Rightarrow> nat \<Rightarrow> u64" where
  "word64_at buf off = le_join (part buf off 8)"

lemma le_join_split16 [simp]: "le_join (le_split 2 v) = (v :: u16)"
  by (simp add: le_bytes take_bit_word_eq_self)

lemma le_join_split32 [simp]: "le_join (le_split 4 v) = (v :: u32)"
  by (simp add: le_bytes take_bit_word_eq_self)

lemma le_join_split64 [simp]: "le_join (le_split 8 v) = (v :: u64)"
  by (simp add: le_bytes take_bit_word_eq_self)

lemma word32_at_overwrite: "off + 4 \<le> length buf \<Longrightarrow> word32_at (overwrite buf off (le_split 4 v)) off = v"
  by (simp add: word32_at_def part_overwrite le_bytes take_bit_word_eq_self)

lemma word64_at_overwrite: "off + 8 \<le> length buf \<Longrightarrow> word64_at (overwrite buf off (le_split 8 v)) off = v"
  by (simp add: word64_at_def part_overwrite le_bytes take_bit_word_eq_self)

section \<open>Instruction fields\<close>

definition rel32 :: "u32 \<Rightarrow> int" where
  "rel32 w = sint w"

definition a64_imm26 :: "u32 \<Rightarrow> int" where
  "a64_imm26 w = signed_take_bit 25 (uint w)"

definition a64_adr :: "u32 \<Rightarrow> int" where
  "a64_adr w = signed_take_bit 20 (uint (push_bit 2 (take_bit 19 (drop_bit 5 w)) OR take_bit 2 (drop_bit 29 w)))"

definition a64_imm12 :: "u32 \<Rightarrow> nat" where
  "a64_imm12 w = unat (take_bit 12 (drop_bit 10 w))"

definition rv_imm_j :: "u32 \<Rightarrow> int" where
  "rv_imm_j w = signed_take_bit 20 (uint (push_bit 20 (drop_bit 31 w) OR push_bit 12 (take_bit 8 (drop_bit 12 w)) OR
     push_bit 11 (take_bit 1 (drop_bit 20 w)) OR push_bit 1 (take_bit 10 (drop_bit 21 w))))"

lemma insn_masks:
  "(w :: u32) AND 0xFC000000 = push_bit 26 (drop_bit 26 w)" "(w :: u32) AND 0x03FFFFFF = take_bit 26 w"
  "(w :: u32) AND 3 = take_bit 2 w" "(w :: u32) AND 0x7FFFF = take_bit 19 w" "(w :: u32) AND 0xFFF = take_bit 12 w"
  "(w :: u32) AND 7 = take_bit 3 w" "(w :: u32) AND 1 = take_bit 1 w" "(w :: u32) AND 0x3FF = take_bit 10 w"
  "(w :: u32) AND 0xFF = take_bit 8 w"
proof -
  have "w AND NOT (mask 26) = push_bit 26 (drop_bit 26 w)" by (rule and_not_mask_eq)
  moreover have "(0xFC000000 :: u32) = NOT (mask 26)" by (simp add: mask_eq_exp_minus_1)
  ultimately show "w AND 0xFC000000 = push_bit 26 (drop_bit 26 w)" by simp
qed (simp_all add: take_bit_eq_mask mask_eq_exp_minus_1)

lemma imm26_set:
  assumes "- (2 ^ 25) \<le> k" and "k < 2 ^ 25"
  shows "a64_imm26 (push_bit 26 (drop_bit 26 w) OR take_bit 26 (word_of_int k)) = k"
proof -
  have "signed_take_bit 25 (uint (push_bit 26 (drop_bit 26 w) OR take_bit 26 (word_of_int k :: u32))) = signed_take_bit 25 k"
    by (rule bit_eqI) (auto simp: bit_simps min_def)
  then show ?thesis using assms by (simp add: a64_imm26_def signed_take_bit_int_eq_self)
qed

lemma adr_fields:
  fixes w u :: u32
  defines "w' \<equiv> (w AND NOT (push_bit 29 3 OR push_bit 5 0x7FFFF)) OR push_bit 29 (take_bit 2 u) OR push_bit 5 (take_bit 19 (drop_bit 2 u))"
  shows "take_bit 19 (drop_bit 5 w') = take_bit 19 (drop_bit 2 u)" and "take_bit 2 (drop_bit 29 w') = take_bit 2 u"
proof -
  have m: "push_bit 29 3 OR push_bit 5 0x7FFFF = push_bit 29 (mask 2 :: u32) OR push_bit 5 (mask 19)"
    by (simp add: mask_eq_exp_minus_1)
  show "take_bit 19 (drop_bit 5 w') = take_bit 19 (drop_bit 2 u)"
    unfolding w'_def m by (rule bit_word_eqI) (auto simp: bit_simps)
  show "take_bit 2 (drop_bit 29 w') = take_bit 2 u"
    unfolding w'_def m by (rule bit_word_eqI) (auto simp: bit_simps)
qed

lemma bits_join: "push_bit k (take_bit m (drop_bit k u)) OR take_bit k u = take_bit (k + m) (u :: 'a::len word)"
  by (rule bit_word_eqI) (auto simp: bit_simps)

lemma adr_set:
  assumes "- (2 ^ 20) \<le> k" and "k < 2 ^ 20"
  shows "a64_adr ((w AND NOT (push_bit 29 3 OR push_bit 5 0x7FFFF)) OR push_bit 29 (take_bit 2 (word_of_int k)) OR
    push_bit 5 (take_bit 19 (drop_bit 2 (word_of_int k)))) = k"
proof -
  have "push_bit 2 (take_bit 19 (drop_bit 2 u)) OR take_bit 2 u = take_bit 21 u" for u :: u32
    using bits_join [of 2 19 u] by simp
  moreover have "signed_take_bit 20 (uint (take_bit 21 (word_of_int k :: u32))) = signed_take_bit 20 k"
    by (rule bit_eqI) (auto simp: bit_simps min_def)
  ultimately show ?thesis using assms by (simp only: a64_adr_def adr_fields) (simp add: signed_take_bit_int_eq_self)
qed

lemma imm12_set: "a64_imm12 ((w AND NOT (push_bit 10 0xFFF)) OR push_bit 10 (take_bit 12 v)) = unat (take_bit 12 v)"
proof -
  have m: "push_bit 10 0xFFF = push_bit 10 (mask 12 :: u32)" by (simp add: mask_eq_exp_minus_1)
  have "take_bit 12 (drop_bit 10 ((w AND NOT (push_bit 10 0xFFF)) OR push_bit 10 (take_bit 12 v))) = take_bit 12 v"
    unfolding m by (rule bit_word_eqI) (auto simp: bit_simps)
  then show ?thesis by (simp only: a64_imm12_def)
qed

lemma low_bit: "take_bit 1 (u :: u32) = of_bool (bit u 0)"
  by (simp add: bit_0 mod_2_eq_odd)

lemma imm_j_fields:
  fixes w u :: u32
  defines "w' \<equiv> take_bit 12 w OR (push_bit 31 (take_bit 1 (drop_bit 20 u)) OR push_bit 21 (take_bit 10 (drop_bit 1 u)) OR
     push_bit 20 (take_bit 1 (drop_bit 11 u)) OR push_bit 12 (take_bit 8 (drop_bit 12 u)))"
  shows "drop_bit 31 w' = take_bit 1 (drop_bit 20 u)" and "take_bit 8 (drop_bit 12 w') = take_bit 8 (drop_bit 12 u)"
    and "take_bit 1 (drop_bit 20 w') = take_bit 1 (drop_bit 11 u)" and "take_bit 10 (drop_bit 21 w') = take_bit 10 (drop_bit 1 u)"
    and "take_bit 12 w' = take_bit 12 w"
proof -
  show "drop_bit 31 w' = take_bit 1 (drop_bit 20 u)"
    unfolding w'_def by (rule bit_word_eqI) (auto simp: bit_simps)
  show "take_bit 8 (drop_bit 12 w') = take_bit 8 (drop_bit 12 u)"
    unfolding w'_def by (rule bit_word_eqI) (auto simp: bit_simps)
  have "bit w' 20 = bit u 11" unfolding w'_def by (simp add: bit_simps, simp add: bit_iff_odd_drop_bit)
  then show "take_bit 1 (drop_bit 20 w') = take_bit 1 (drop_bit 11 u)" by (simp only: low_bit bit_drop_bit_eq) simp
  show "take_bit 10 (drop_bit 21 w') = take_bit 10 (drop_bit 1 u)"
    unfolding w'_def by (rule bit_word_eqI) (auto simp: bit_simps)
  show "take_bit 12 w' = take_bit 12 w"
    unfolding w'_def by (rule bit_word_eqI) (auto simp: bit_simps)
qed

lemma even_bits_21:
  fixes u :: u32
  assumes "\<not> bit u 0"
  shows "push_bit 20 (take_bit 1 (drop_bit 20 u)) OR push_bit 12 (take_bit 8 (drop_bit 12 u)) OR
     push_bit 11 (take_bit 1 (drop_bit 11 u)) OR push_bit 1 (take_bit 10 (drop_bit 1 u)) = take_bit 21 u"
proof -
  have "take_bit 1 u = 0" using assms by (simp add: bit_0 take_bit_Suc even_iff_mod_2_eq_zero)
  then have "push_bit 1 (take_bit 10 (drop_bit 1 u)) = take_bit 11 u" using bits_join [of 1 10 u] by simp
  then show ?thesis using bits_join [of 11 1 u] bits_join [of 12 8 u] bits_join [of 20 1 u] by simp
qed

lemma imm_j_set:
  assumes "- (2 ^ 20) \<le> k" and "k < 2 ^ 20" and "k AND 1 = 0"
  shows "rv_imm_j (take_bit 12 w OR (push_bit 31 (take_bit 1 (drop_bit 20 (word_of_int k))) OR
     push_bit 21 (take_bit 10 (drop_bit 1 (word_of_int k))) OR push_bit 20 (take_bit 1 (drop_bit 11 (word_of_int k))) OR
     push_bit 12 (take_bit 8 (drop_bit 12 (word_of_int k))))) = k"
proof -
  have "\<not> bit k 0" using assms(3) by (simp add: bit_0 and_one_eq even_iff_mod_2_eq_zero)
  then have "\<not> bit (word_of_int k :: u32) 0" by (simp only: bit_word_of_int_iff) simp
  note bits = even_bits_21 [OF this]
  have "signed_take_bit 20 (uint (take_bit 21 (word_of_int k :: u32))) = signed_take_bit 20 k"
    by (rule bit_eqI) (auto simp: bit_simps min_def)
  then show ?thesis using assms(1,2) by (simp only: rv_imm_j_def imm_j_fields bits) (simp add: signed_take_bit_int_eq_self)
qed

section \<open>The contract of a patch\<close>

text \<open>
  A patch fills one instruction word.  \<open>reaches\<close> says that the address the filled instruction computes at
  a place is the target, \<open>fixed\<close> are the bits of the instruction that stay.
\<close>

locale insn_patch =
  fixes patch :: "bytes \<Rightarrow> u32 \<Rightarrow> u64 \<Rightarrow> u64 \<Rightarrow> bytes option"
    and reaches :: "u32 \<Rightarrow> u64 \<Rightarrow> u64 \<Rightarrow> bool"
    and fixed :: u32
  assumes patch_writes: "patch buf off place target = Some buf' \<Longrightarrow>
    unat off + 4 \<le> length buf \<and>
    (\<exists>v. buf' = overwrite buf (unat off) (le_split 4 v) \<and> reaches v place target \<and> v AND fixed = word32_at buf (unat off) AND fixed)"
begin

lemma patch_length: "patch buf off place target = Some buf' \<Longrightarrow> length buf' = length buf"
  by (drule patch_writes) auto

lemma patch_inside: "patch buf off place target = Some buf' \<Longrightarrow> unat off + 4 \<le> length buf"
  by (drule patch_writes) auto

lemma patch_reaches:
  assumes "patch buf off place target = Some buf'"
  shows "reaches (word32_at buf' (unat off)) place target"
    and "word32_at buf' (unat off) AND fixed = word32_at buf (unat off) AND fixed"
  using patch_writes [OF assms] word32_at_overwrite [of "unat off" buf] by auto

lemma patch_site:
  assumes "patch buf off place target = Some buf'" and "\<And>w. reaches w place target \<Longrightarrow> P (le_split 4 w)"
  shows "\<exists>v. length v = 4 \<and> P v \<and> (0 < (4::nat) \<longrightarrow> unat off + 4 \<le> length buf) \<and> buf' = overwrite buf (unat off) v"
  using patch_writes [OF assms(1)] assms(2) by (metis length_le_split)

lemma patch_frame:
  "patch buf off place target = Some buf' \<Longrightarrow> i + n \<le> unat off \<or> unat off + 4 \<le> i \<Longrightarrow> i + n \<le> length buf \<Longrightarrow>
    part buf' i n = part buf i n"
  by (drule patch_writes) (auto simp: part_overwrite_other)

end

definition rel32_reaches :: "u32 \<Rightarrow> u64 \<Rightarrow> u64 \<Rightarrow> bool" where
  "rel32_reaches w place target \<longleftrightarrow> place + 4 + word_of_int (rel32 w) = target"

definition branch26_reaches :: "u32 \<Rightarrow> u64 \<Rightarrow> u64 \<Rightarrow> bool" where
  "branch26_reaches w place target \<longleftrightarrow> (4 dvd sint target - sint place \<longrightarrow> place + word_of_int (4 * a64_imm26 w) = target)"

definition page21_reaches :: "u32 \<Rightarrow> u64 \<Rightarrow> u64 \<Rightarrow> bool" where
  "page21_reaches w place target \<longleftrightarrow> (place AND NOT 0xFFF) + word_of_int (4096 * a64_adr w) = target AND NOT 0xFFF"

definition pageoff12_reaches :: "u32 \<Rightarrow> u64 \<Rightarrow> u64 \<Rightarrow> bool" where
  "pageoff12_reaches w place target \<longleftrightarrow> of_nat (a64_imm12 w) = target AND 0xFFF"

definition got12_reaches :: "u32 \<Rightarrow> u64 \<Rightarrow> u64 \<Rightarrow> bool" where
  "got12_reaches w place target \<longleftrightarrow> of_nat (8 * a64_imm12 w) = target AND 0xFFF"

definition jal_reaches :: "u32 \<Rightarrow> u64 \<Rightarrow> u64 \<Rightarrow> bool" where
  "jal_reaches w place target \<longleftrightarrow> place + word_of_int (rv_imm_j w) = target"

lemma add_sint_diff: "p + word_of_int (sint t - sint p) = (t :: u64)"
  by (simp add: word_of_int_hom_syms(2) [symmetric] of_int_sint)

lemma sint_of_range: "- (2 ^ 31) \<le> k \<Longrightarrow> k \<le> 2 ^ 31 - 1 \<Longrightarrow> sint (word_of_int k :: u32) = k"
  unfolding sint_sbintrunc' by (rule signed_take_bit_int_eq_self) simp_all

interpretation rel32: insn_patch patch_rel32_vaddr rel32_reaches 0
proof
  fix buf off place target buf'
  assume p: "patch_rel32_vaddr buf off place target = Some buf'"
  let ?d = "sint target - sint (place + 4)"
  have d: "- (2 ^ 31) \<le> ?d" "?d \<le> 2 ^ 31 - 1" and w: "write_u32_le buf off (word_of_int ?d) = Some buf'"
    using p by (auto simp: patch_rel32_vaddr_def Let_def split: if_splits)
  have "sint (word_of_int ?d :: u32) = ?d" using d by (intro sint_of_range)
  then have "rel32_reaches (word_of_int ?d) place target" using add_sint_diff [of "place + 4" target] by (simp add: rel32_reaches_def rel32_def)
  then show "unat off + 4 \<le> length buf \<and> (\<exists>v. buf' = overwrite buf (unat off) (le_split 4 v) \<and>
      rel32_reaches v place target \<and> v AND 0 = word32_at buf (unat off) AND 0)"
    using w by (auto simp: write_u32_le_some)
qed

interpretation branch26: insn_patch patch_aarch64_branch26_vaddr branch26_reaches "0xFC000000"
proof
  fix buf off place target buf'
  assume p: "patch_aarch64_branch26_vaddr buf off place target = Some buf'"
  let ?d = "sint target - sint place" and ?w = "word32_at buf (unat off)"
  let ?v = "push_bit 26 (drop_bit 26 ?w) OR take_bit 26 (word_of_int (?d sdiv 4)) :: u32"
  have off: "unat off + 4 \<le> length buf" and d: "- (2 ^ 25) \<le> ?d sdiv 4" "?d sdiv 4 < 2 ^ 25"
    using p by (auto simp: patch_aarch64_branch26_vaddr_def Let_def split: if_splits)
  then have w: "buf' = overwrite buf (unat off) (le_split 4 ?v)"
    using p by (simp add: patch_aarch64_branch26_vaddr_def Let_def insn_masks read_u32_le_join word32_at_def [symmetric] write_u32_le_some)
  have "4 dvd ?d \<Longrightarrow> 4 * (?d sdiv 4) = ?d" by (auto simp: signed_divide_int_def sgn_if abs_if)
  then have "branch26_reaches ?v place target" using add_sint_diff [of place target] by (auto simp: branch26_reaches_def imm26_set [OF d])
  moreover have "?v AND 0xFC000000 = ?w AND 0xFC000000" unfolding insn_masks by (rule bit_word_eqI) (auto simp: bit_simps)
  ultimately show "unat off + 4 \<le> length buf \<and> (\<exists>v. buf' = overwrite buf (unat off) (le_split 4 v) \<and>
      branch26_reaches v place target \<and> v AND 0xFC000000 = ?w AND 0xFC000000)"
    using off w by blast
qed

lemma page_arith:
  fixes p t :: u64
  shows "(p AND NOT 0xFFF) + word_of_int (4096 * drop_bit 12 (sint (t AND NOT 0xFFF) - sint (p AND NOT 0xFFF))) = t AND NOT 0xFFF"
proof -
  have m: "(0xFFF :: u64) = mask 12" by (simp add: mask_eq_exp_minus_1)
  have low: "2 ^ 12 dvd sint (x AND NOT (mask 12))" for x :: u64
  proof -
    have "take_bit 12 (sint (x AND NOT (mask 12))) = 0" by (rule bit_eqI) (auto simp: bit_simps)
    then show ?thesis by (simp add: take_bit_eq_0_iff)
  qed
  have "2 ^ 12 dvd sint (t AND NOT (mask 12)) - sint (p AND NOT (mask 12))" by (rule dvd_diff [OF low low])
  then have "4096 * drop_bit 12 (sint (t AND NOT (mask 12)) - sint (p AND NOT (mask 12)))
      = sint (t AND NOT (mask 12)) - sint (p AND NOT (mask 12))"
    by (simp add: drop_bit_eq_div)
  then show ?thesis unfolding m using add_sint_diff by simp
qed

interpretation page21: insn_patch patch_aarch64_page21_vaddr page21_reaches "NOT (push_bit 29 3 OR push_bit 5 0x7FFFF)"
proof
  fix buf off place target buf'
  assume p: "patch_aarch64_page21_vaddr buf off place target = Some buf'"
  let ?k = "drop_bit 12 (sint (target AND NOT 0xFFF) - sint (place AND NOT 0xFFF))" and ?w = "word32_at buf (unat off)"
  let ?m = "NOT (push_bit 29 3 OR push_bit 5 0x7FFFF) :: u32"
  let ?v = "(?w AND ?m) OR push_bit 29 (take_bit 2 (word_of_int ?k)) OR push_bit 5 (take_bit 19 (drop_bit 2 (word_of_int ?k))) :: u32"
  have off: "unat off + 4 \<le> length buf" and k: "- (2 ^ 20) \<le> ?k" "?k < 2 ^ 20"
    using p by (auto simp: patch_aarch64_page21_vaddr_def Let_def split: if_splits)
  have "write_u32_le buf off ?v = Some buf'"
    using p off k by (simp only: patch_aarch64_page21_vaddr_def Let_def or.assoc insn_masks read_u32_le_join word32_at_def [symmetric]
      not_less [symmetric] if_False simp_thms not_True_eq_False not_False_eq_True)
  then have w: "buf' = overwrite buf (unat off) (le_split 4 ?v)" by (simp only: write_u32_le_some)
  have "page21_reaches ?v place target" using page_arith [of place target] by (simp only: page21_reaches_def adr_set [OF k])
  moreover have "?v AND ?m = ?w AND ?m"
  proof -
    have m: "?m = NOT (push_bit 29 (mask 2) OR push_bit 5 (mask 19))" by (simp add: mask_eq_exp_minus_1)
    have "(w AND NOT (push_bit 29 (mask 2) OR push_bit 5 (mask 19)) OR push_bit 29 (take_bit 2 u) OR push_bit 5 (take_bit 19 u'))
      AND NOT (push_bit 29 (mask 2) OR push_bit 5 (mask 19)) = w AND NOT (push_bit 29 (mask 2) OR push_bit 5 (mask 19))" for w u u' :: u32
      by (rule bit_word_eqI) (auto simp: bit_simps)
    then show ?thesis by (simp only: m)
  qed
  ultimately show "unat off + 4 \<le> length buf \<and> (\<exists>v. buf' = overwrite buf (unat off) (le_split 4 v) \<and>
      page21_reaches v place target \<and> v AND ?m = ?w AND ?m)"
    using off w by blast
qed

lemma pageoff_word: "of_nat (unat (take_bit 12 (ucast (t AND 0xFFF) :: u32))) = t AND (0xFFF :: u64)"
proof -
  have m: "(0xFFF :: u64) = mask 12" by (simp add: mask_eq_exp_minus_1)
  have "(of_nat (unat (take_bit 12 (ucast (t AND 0xFFF) :: u32))) :: u64) = ucast (take_bit 12 (ucast (t AND 0xFFF) :: u32))"
    by (simp add: of_nat_unat)
  also have "\<dots> = t AND 0xFFF" unfolding m by (rule bit_word_eqI) (auto simp: bit_simps)
  finally show ?thesis .
qed

lemma pageoff_fixed: "(w AND NOT (push_bit 10 0xFFF) OR push_bit 10 (take_bit 12 u)) AND NOT (push_bit 10 0xFFF) = w AND NOT (push_bit 10 (0xFFF :: u32))"
proof -
  have m: "push_bit 10 0xFFF = push_bit 10 (mask 12 :: u32)" by (simp add: mask_eq_exp_minus_1)
  show ?thesis unfolding m by (rule bit_word_eqI) (auto simp: bit_simps)
qed

lemma pageoff12_writes:
  assumes "patch_aarch64_pageoff12_vaddr buf off target got = Some buf'"
  defines "imm \<equiv> ucast (target AND 0xFFF) :: u32"
  defines "v \<equiv> (word32_at buf (unat off) AND NOT (push_bit 10 0xFFF)) OR push_bit 10 (take_bit 12 (if got then drop_bit 3 imm else imm))"
  shows "unat off + 4 \<le> length buf" and "got \<longrightarrow> take_bit 3 imm = 0" and "buf' = overwrite buf (unat off) (le_split 4 v)"
proof -
  show off: "unat off + 4 \<le> length buf" and got: "got \<longrightarrow> take_bit 3 imm = 0"
    using assms(1) by (auto simp: patch_aarch64_pageoff12_vaddr_def Let_def imm_def insn_masks(6) split: if_splits)
  have "write_u32_le buf off v = Some buf'"
    using assms(1) off got unfolding v_def imm_def
    by (cases got) (simp_all only: patch_aarch64_pageoff12_vaddr_def Let_def insn_masks read_u32_le_join word32_at_def [symmetric]
      not_less [symmetric] if_True if_False simp_thms not_True_eq_False not_False_eq_True)
  then show "buf' = overwrite buf (unat off) (le_split 4 v)" by (simp only: write_u32_le_some)
qed

interpretation pageoff12: insn_patch "\<lambda>buf off place target. patch_aarch64_pageoff12_vaddr buf off target False"
  pageoff12_reaches "NOT (push_bit 10 0xFFF)"
proof
  fix buf off and place :: u64 and target buf'
  assume p: "patch_aarch64_pageoff12_vaddr buf off target False = Some buf'"
  note w = pageoff12_writes [OF p]
  show "unat off + 4 \<le> length buf \<and> (\<exists>v. buf' = overwrite buf (unat off) (le_split 4 v) \<and>
      pageoff12_reaches v place target \<and> v AND NOT (push_bit 10 0xFFF) = word32_at buf (unat off) AND NOT (push_bit 10 0xFFF))"
    using w(1) w(3) unfolding if_False
    by (intro conjI exI [of _ "(word32_at buf (unat off) AND NOT (push_bit 10 0xFFF)) OR push_bit 10 (take_bit 12 (ucast (target AND 0xFFF)))"])
      (simp_all only: pageoff12_reaches_def imm12_set pageoff_word pageoff_fixed)
qed

lemma got_word:
  assumes "take_bit 3 (ucast (t AND 0xFFF :: u64) :: u32) = 0"
  shows "of_nat (8 * unat (take_bit 12 (drop_bit 3 (ucast (t AND 0xFFF) :: u32)))) = t AND (0xFFF :: u64)"
proof -
  let ?i = "ucast (t AND 0xFFF :: u64) :: u32"
  have m: "(0xFFF :: u64) = mask 12" by (simp add: mask_eq_exp_minus_1)
  have "(of_nat (8 * unat (take_bit 12 (drop_bit 3 ?i))) :: u64) = push_bit 3 (ucast (take_bit 12 (drop_bit 3 ?i)))"
    by (simp add: push_bit_eq_mult of_nat_unat mult.commute)
  also have "\<dots> = ucast (push_bit 3 (take_bit 9 (drop_bit 3 ?i)) OR take_bit 3 ?i)"
    unfolding m assms [unfolded m] by (rule bit_word_eqI) (auto simp: bit_simps)
  also have "\<dots> = ucast (take_bit 12 ?i)" using bits_join [of 3 9 ?i] by simp
  also have "\<dots> = t AND 0xFFF" unfolding m by (rule bit_word_eqI) (auto simp: bit_simps)
  finally show ?thesis .
qed

interpretation got12: insn_patch "\<lambda>buf off place target. patch_aarch64_pageoff12_vaddr buf off target True"
  got12_reaches "NOT (push_bit 10 0xFFF)"
proof
  fix buf off and place :: u64 and target buf'
  assume p: "patch_aarch64_pageoff12_vaddr buf off target True = Some buf'"
  note w = pageoff12_writes [OF p]
  have z: "take_bit 3 (ucast (target AND 0xFFF) :: u32) = 0" using w(2) by simp
  show "unat off + 4 \<le> length buf \<and> (\<exists>v. buf' = overwrite buf (unat off) (le_split 4 v) \<and>
      got12_reaches v place target \<and> v AND NOT (push_bit 10 0xFFF) = word32_at buf (unat off) AND NOT (push_bit 10 0xFFF))"
    using w(1) w(3) unfolding if_True
    by (intro conjI exI [of _ "(word32_at buf (unat off) AND NOT (push_bit 10 0xFFF)) OR push_bit 10 (take_bit 12 (drop_bit 3 (ucast (target AND 0xFFF))))"])
      (simp_all only: got12_reaches_def imm12_set got_word [OF z] pageoff_fixed)
qed

interpretation jal: insn_patch patch_riscv_jal_vaddr jal_reaches "0xFFF"
proof
  fix buf off place target buf'
  assume p: "patch_riscv_jal_vaddr buf off place target = Some buf'"
  let ?d = "sint target - sint place" and ?w = "word32_at buf (unat off)"
  let ?u = "word_of_int ?d :: u32"
  let ?v = "take_bit 12 ?w OR (push_bit 31 (take_bit 1 (drop_bit 20 ?u)) OR push_bit 21 (take_bit 10 (drop_bit 1 ?u)) OR
     push_bit 20 (take_bit 1 (drop_bit 11 ?u)) OR push_bit 12 (take_bit 8 (drop_bit 12 ?u)))"
  have off: "unat off + 4 \<le> length buf" and d: "- (2 ^ 20) \<le> ?d" "?d < 2 ^ 20" "?d AND 1 = 0"
    using p by (auto simp: patch_riscv_jal_vaddr_def Let_def split: if_splits)
  have "write_u32_le buf off ?v = Some buf'"
    using p off d by (simp only: patch_riscv_jal_vaddr_def Let_def insn_masks read_u32_le_join word32_at_def [symmetric]
      not_less [symmetric] if_False simp_thms not_True_eq_False not_False_eq_True)
  then have w: "buf' = overwrite buf (unat off) (le_split 4 ?v)" by (simp only: write_u32_le_some)
  have "jal_reaches ?v place target" using add_sint_diff [of place target] by (simp only: jal_reaches_def imm_j_set [OF d])
  moreover have "?v AND 0xFFF = ?w AND 0xFFF" by (simp only: insn_masks imm_j_fields)
  ultimately show "unat off + 4 \<le> length buf \<and> (\<exists>v. buf' = overwrite buf (unat off) (le_split 4 v) \<and>
      jal_reaches v place target \<and> v AND 0xFFF = ?w AND 0xFFF)"
    using off w by blast
qed

end
