(* ===== verification/Elf_Exec.thy ===== *)
theory Elf_Exec
  imports Elf_Bytes Riscv_Emit
begin

text \<open>
  Static executables (\<^verbatim>\<open>src/src/objfile_elf.c\<close>): the writers of an executable for x86-64, AArch64 and
  RISC-V resolve every relocation themselves, put a start stub in front of the code and write one
  loadable segment.  Proved is that the image they write is linked: every relocation site computes the
  address of its symbol, the slots of the global offset table hold the addresses they stand for, the
  stub enters the entry symbol, and no other byte of the code or the data is changed.

  \<open>mem\<close> tells, by its size, whether an allocation succeeds.  The pointers the functions check for null
  are values here; the size of a buffer is the length of its list.
\<close>

unbundle bit_operations_syntax

section \<open>Relocation types\<close>

definition LR_RELOC_ARM64_BRANCH26 :: u8 where "LR_RELOC_ARM64_BRANCH26 = 2"
definition LR_RELOC_ARM64_PAGE21 :: u8 where "LR_RELOC_ARM64_PAGE21 = 3"
definition LR_RELOC_ARM64_PAGEOFF12 :: u8 where "LR_RELOC_ARM64_PAGEOFF12 = 4"
definition LR_RELOC_ARM64_GOT_LOAD_PAGE21 :: u8 where "LR_RELOC_ARM64_GOT_LOAD_PAGE21 = 5"
definition LR_RELOC_ARM64_GOT_LOAD_PAGEOFF12 :: u8 where "LR_RELOC_ARM64_GOT_LOAD_PAGEOFF12 = 6"
definition LR_RELOC_ARM64_ABS64 :: u8 where "LR_RELOC_ARM64_ABS64 = 7"
definition LR_RELOC_X86_64_PC32 :: u8 where "LR_RELOC_X86_64_PC32 = 20"
definition LR_RELOC_X86_64_PLT32 :: u8 where "LR_RELOC_X86_64_PLT32 = 21"
definition LR_RELOC_X86_64_GOTPCREL :: u8 where "LR_RELOC_X86_64_GOTPCREL = 22"
definition LR_RELOC_X86_64_64 :: u8 where "LR_RELOC_X86_64_64 = 23"

lemmas reloc_type_defs =
  LR_RELOC_ARM64_BRANCH26_def LR_RELOC_ARM64_PAGE21_def LR_RELOC_ARM64_PAGEOFF12_def LR_RELOC_ARM64_GOT_LOAD_PAGE21_def
  LR_RELOC_ARM64_GOT_LOAD_PAGEOFF12_def LR_RELOC_ARM64_ABS64_def LR_RELOC_X86_64_PC32_def LR_RELOC_X86_64_PLT32_def
  LR_RELOC_X86_64_GOTPCREL_def LR_RELOC_X86_64_64_def

section \<open>The global offset table\<close>

text \<open>Slots are given out behind the data, one for each symbol with a relocation through the table.\<close>

fun got_slots :: "(u8 \<Rightarrow> bool) \<Rightarrow> lr_obj_reloc list \<Rightarrow> u32 list \<Rightarrow> u64 \<Rightarrow> (u32 list \<times> u64) option" where
  "got_slots is_got [] slots sz = Some (slots, sz)"
| "got_slots is_got (r # rs) slots sz =
     (if \<not> is_got (or_type r) then got_slots is_got rs slots sz
      else if length slots \<le> unat (or_symbol_idx r) then None
      else if slots ! unat (or_symbol_idx r) \<noteq> UINT32_MAX then got_slots is_got rs slots sz
      else if sz > ucast (UINT32_MAX - 8) then None
      else got_slots is_got rs (slots[unat (or_symbol_idx r) := ucast sz]) (sz + 8))"

section \<open>Resolving relocations\<close>

record exec_env =
  ee_symbols :: "lr_obj_symbol list"
  ee_code_vaddr :: u64
  ee_data_vaddr :: u64
  ee_slots :: "u32 list"

definition find_entry :: "lr_obj_symbol list \<Rightarrow> string \<Rightarrow> lr_obj_symbol option" where
  "find_entry syms entry = find (\<lambda>s. os_defined s \<and> os_section s = 1 \<and> os_name s = entry) syms"

text \<open>The address a relocation refers to: its symbol must exist, be defined and lie in its section.\<close>

definition target_vaddr :: "exec_env \<Rightarrow> bytes \<times> bytes \<Rightarrow> lr_obj_reloc \<Rightarrow> u64 option" where
  "target_vaddr env st r =
     (if length (ee_symbols env) \<le> unat (or_symbol_idx r) then None
      else if unat (or_offset r) + 4 > length (fst st) then None
      else let s = ee_symbols env ! unat (or_symbol_idx r)
           in if \<not> os_defined s then None
              else if os_section s = 1
                   then (if length (fst st) \<le> unat (os_offset s) then None else Some (ee_code_vaddr env + ucast (os_offset s)))
              else if os_section s = 2
                   then (if length (snd st) \<le> unat (os_offset s) then None else Some (ee_data_vaddr env + ucast (os_offset s)))
              else None)"

definition patch_code :: "(bytes \<Rightarrow> bytes option) \<Rightarrow> bytes \<times> bytes \<Rightarrow> (bytes \<times> bytes) option" where
  "patch_code f st = map_option (\<lambda>c. (c, snd st)) (f (fst st))"

definition fill_slot :: "exec_env \<Rightarrow> lr_obj_reloc \<Rightarrow> u64 \<Rightarrow> bytes \<times> bytes \<Rightarrow> (bytes \<times> bytes) option" where
  "fill_slot env r target st =
     (let slot = ee_slots env ! unat (or_symbol_idx r)
      in if slot = UINT32_MAX then None else map_option (Pair (fst st)) (write_u64_le (snd st) slot target))"

definition slot_vaddr :: "exec_env \<Rightarrow> lr_obj_reloc \<Rightarrow> u64" where
  "slot_vaddr env r = ee_data_vaddr env + ucast (ee_slots env ! unat (or_symbol_idx r))"

definition x86_reloc :: "exec_env \<Rightarrow> lr_obj_reloc \<Rightarrow> bytes \<times> bytes \<Rightarrow> (bytes \<times> bytes) option" where
  "x86_reloc env r st =
     (case target_vaddr env st r of None \<Rightarrow> None
      | Some target \<Rightarrow>
          let place = ee_code_vaddr env + ucast (or_offset r); type = or_type r
          in if type = LR_RELOC_X86_64_PC32 \<or> type = LR_RELOC_X86_64_PLT32
             then patch_code (\<lambda>c. patch_rel32_vaddr c (or_offset r) place target) st
             else if type = LR_RELOC_X86_64_GOTPCREL
             then (case fill_slot env r target st of None \<Rightarrow> None
                   | Some st1 \<Rightarrow> patch_code (\<lambda>c. patch_rel32_vaddr c (or_offset r) place (slot_vaddr env r)) st1)
             else if type = LR_RELOC_X86_64_64
             then patch_code (\<lambda>c. write_u64_le c (or_offset r) target) st
             else None)"

definition x86_data_reloc :: "exec_env \<Rightarrow> lr_obj_reloc \<Rightarrow> bytes \<times> bytes \<Rightarrow> (bytes \<times> bytes) option" where
  "x86_data_reloc env r st =
     (if length (ee_symbols env) \<le> unat (or_symbol_idx r) \<or> or_type r \<noteq> LR_RELOC_X86_64_64 then None
      else if unat (or_offset r) + 8 > length (snd st) then None
      else let s = ee_symbols env ! unat (or_symbol_idx r)
           in if \<not> os_defined s \<or> os_section s \<noteq> 1 \<and> os_section s \<noteq> 2 then None
              else let target = (if os_section s = 1 then ee_code_vaddr env else ee_data_vaddr env) + ucast (os_offset s);
                       addend = read_u64_le (snd st) (or_offset r)
                   in map_option (Pair (fst st)) (write_u64_le (snd st) (or_offset r) (target + addend)))"

definition aarch64_reloc :: "exec_env \<Rightarrow> lr_obj_reloc \<Rightarrow> bytes \<times> bytes \<Rightarrow> (bytes \<times> bytes) option" where
  "aarch64_reloc env r st =
     (case target_vaddr env st r of None \<Rightarrow> None
      | Some target \<Rightarrow>
          let place = ee_code_vaddr env + ucast (or_offset r); type = or_type r
          in if type = LR_RELOC_ARM64_BRANCH26
             then patch_code (\<lambda>c. patch_aarch64_branch26_vaddr c (or_offset r) place target) st
             else if type = LR_RELOC_ARM64_PAGE21
             then patch_code (\<lambda>c. patch_aarch64_page21_vaddr c (or_offset r) place target) st
             else if type = LR_RELOC_ARM64_PAGEOFF12
             then patch_code (\<lambda>c. patch_aarch64_pageoff12_vaddr c (or_offset r) target False) st
             else if type = LR_RELOC_ARM64_GOT_LOAD_PAGE21 \<or> type = LR_RELOC_ARM64_GOT_LOAD_PAGEOFF12
             then (case fill_slot env r target st of None \<Rightarrow> None
                   | Some st1 \<Rightarrow>
                       if type = LR_RELOC_ARM64_GOT_LOAD_PAGE21
                       then patch_code (\<lambda>c. patch_aarch64_page21_vaddr c (or_offset r) place (slot_vaddr env r)) st1
                       else patch_code (\<lambda>c. patch_aarch64_pageoff12_vaddr c (or_offset r) (slot_vaddr env r) True) st1)
             else None)"

text \<open>The RISC-V writer looks at one type only and skips every other relocation.\<close>

definition riscv64_reloc :: "exec_env \<Rightarrow> lr_obj_reloc \<Rightarrow> bytes \<times> bytes \<Rightarrow> (bytes \<times> bytes) option" where
  "riscv64_reloc env r st =
     (if or_type r \<noteq> LR_RELOC_RISCV64_JAL then Some st
      else if length (ee_symbols env) \<le> unat (or_symbol_idx r) then None
      else let s = ee_symbols env ! unat (or_symbol_idx r)
           in if \<not> os_defined s \<or> os_section s \<noteq> 1 then None
              else patch_code (\<lambda>c. patch_riscv_jal_vaddr c (or_offset r) (ee_code_vaddr env + ucast (or_offset r))
                                     (ee_code_vaddr env + ucast (os_offset s))) st)"

text \<open>A loop over relocations stops at the first that fails.\<close>

fun run_relocs :: "('r \<Rightarrow> 's \<Rightarrow> 's option) \<Rightarrow> 'r list \<Rightarrow> 's \<Rightarrow> 's option" where
  "run_relocs step [] st = Some st"
| "run_relocs step (r # rs) st = (case step r st of None \<Rightarrow> None | Some st1 \<Rightarrow> run_relocs step rs st1)"

section \<open>The file\<close>

definition image_base :: u64 where
  "image_base = 0x400000"

definition exec_header :: "u16 \<Rightarrow> u64 \<Rightarrow> u64 \<Rightarrow> (cursor \<Rightarrow> cursor) list" where
  "exec_header machine entry_vaddr total_size =
     map w8 ELFMAG @
     [w8 ELFCLASS64, w8 ELFDATA2LSB, w8 EV_CURRENT, w8 ELFOSABI_NONE, wpad 8,
      w16 ET_EXEC, w16 machine, w32 (ucast EV_CURRENT), w64 entry_vaddr, w64 64, w64 0, w32 0,
      w16 64, w16 56, w16 1, w16 0, w16 0, w16 0,
      w32 PT_LOAD, w32 (PF_R OR PF_W OR PF_X), w64 0, w64 image_base, w64 image_base, w64 total_size, w64 total_size, w64 4096]"

record exec_layout =
  el_text_off :: u64
  el_code_off :: u64
  el_data_off :: u64
  el_total :: u64

definition exec_layout_of :: "u64 \<Rightarrow> u64 \<Rightarrow> u64 \<Rightarrow> exec_layout" where
  "exec_layout_of stub_size code_size data_size =
     (let text_off = obj_align_up (64 + 56) 16; code_off = text_off + stub_size; data_off = obj_align_up (code_off + code_size) 16
      in \<lparr>el_text_off = text_off, el_code_off = code_off, el_data_off = data_off, el_total = data_off + data_size\<rparr>)"

definition exec_image :: "u16 \<Rightarrow> exec_layout \<Rightarrow> bytes \<Rightarrow> bytes \<times> bytes \<Rightarrow> bytes" where
  "exec_image machine l stub st =
     (let buf = fst (w_all (exec_header machine (image_base + el_text_off l) (el_total l)) (replicate (unat (el_total l)) 0, 0));
          buf = overwrite buf (unat (el_text_off l)) stub;
          buf = overwrite buf (unat (el_code_off l)) (fst st)
      in overwrite buf (unat (el_data_off l)) (snd st))"

definition exec_write :: "bytes option \<Rightarrow> file_sink \<Rightarrow> int \<times> file_sink" where
  "exec_write buf out =
     (case buf of None \<Rightarrow> (- 1, out)
      | Some b \<Rightarrow> (case fwrite b out of (written, out') \<Rightarrow> (if written = length b then 0 else - 1, out')))"

section \<open>The three writers\<close>

definition start_stub_legacy :: bytes where
  "start_stub_legacy = [0xE8, 0, 0, 0, 0, 0x89, 0xC7, 0xB8, 0x3C, 0, 0, 0, 0x0F, 0x05]"

definition start_stub_main_abi :: bytes where
  "start_stub_main_abi = [0x48, 0x8B, 0x3C, 0x24, 0x48, 0x8D, 0x74, 0x24, 0x08, 0x48, 0x83, 0xE4, 0xF0,
     0xE8, 0, 0, 0, 0, 0x89, 0xC7, 0xB8, 0x3C, 0, 0, 0, 0x0F, 0x05]"

definition aarch64_stub :: bytes where
  "aarch64_stub = [0, 0, 0, 0x94, 0xA8, 0x0B, 0x80, 0xD2, 0x01, 0, 0, 0xD4]"

definition riscv64_stub :: bytes where
  "riscv64_stub = [0xEF, 0, 0, 0, 0x93, 0x08, 0xD0, 0x05, 0x73, 0, 0, 0]"

definition exec_env_of :: "lr_objfile_ctx \<Rightarrow> exec_layout \<Rightarrow> u32 list \<Rightarrow> exec_env" where
  "exec_env_of oc l slots =
     \<lparr>ee_symbols = oc_symbols oc, ee_code_vaddr = image_base + el_code_off l, ee_data_vaddr = image_base + el_data_off l, ee_slots = slots\<rparr>"

definition pad_data :: "bytes \<Rightarrow> u64 \<Rightarrow> bytes" where
  "pad_data data sz = overwrite (replicate (unat sz) 0) 0 data"

definition x86_executable :: "(u64 \<Rightarrow> bool) \<Rightarrow> bytes \<Rightarrow> bytes \<Rightarrow> lr_objfile_ctx \<Rightarrow> string \<Rightarrow> bytes option" where
  "x86_executable mem code data oc entry =
     (if entry = [] then None
      else let stub = (if entry = ''main'' then start_stub_main_abi else start_stub_legacy);
               call_off = (if entry = ''main'' then 14 else 1);
               n = length (oc_symbols oc)
      in if n > 0 \<and> \<not> mem (4 * of_nat n) then None
      else case got_slots (\<lambda>t. t = LR_RELOC_X86_64_GOTPCREL) (oc_relocs oc) (replicate n UINT32_MAX)
                  (obj_align_up (of_nat (length data)) 8) of None \<Rightarrow> None
      | Some (slots, sz) \<Rightarrow>
          let l = exec_layout_of (of_nat (length stub)) (of_nat (length code)) sz;
              env = exec_env_of oc l slots
          in case find_entry (oc_symbols oc) entry of None \<Rightarrow> None
             | Some s \<Rightarrow>
                 if length code \<le> unat (os_offset s) then None
                 else if \<not> mem (el_total l) \<or> \<not> mem (of_nat (length code)) \<or> \<not> mem (if sz > 0 then sz else 1) then None
                 else case run_relocs (x86_reloc env) (oc_relocs oc) (code, pad_data data sz) of None \<Rightarrow> None
                 | Some st \<Rightarrow> (case run_relocs (x86_data_reloc env) (data_relocs oc) st of None \<Rightarrow> None
                 | Some st' \<Rightarrow>
                     patch_rel32_vaddr (exec_image EM_X86_64 l stub st') (ucast (el_text_off l + call_off))
                       (image_base + el_text_off l + call_off) (ee_code_vaddr env + ucast (os_offset s))))"

definition write_elf_executable_x86_64 ::
  "(u64 \<Rightarrow> bool) \<Rightarrow> file_sink \<Rightarrow> bytes \<Rightarrow> bytes \<Rightarrow> lr_objfile_ctx \<Rightarrow> string \<Rightarrow> int \<times> file_sink" where
  "write_elf_executable_x86_64 mem out code data oc entry = exec_write (x86_executable mem code data oc entry) out"

definition aarch64_executable :: "(u64 \<Rightarrow> bool) \<Rightarrow> bytes \<Rightarrow> bytes \<Rightarrow> lr_objfile_ctx \<Rightarrow> string \<Rightarrow> bytes option" where
  "aarch64_executable mem code data oc entry =
     (if entry = [] \<or> data_relocs oc \<noteq> [] then None
      else let n = length (oc_symbols oc)
      in if n > 0 \<and> \<not> mem (4 * of_nat n) then None
      else case got_slots (\<lambda>t. t = LR_RELOC_ARM64_GOT_LOAD_PAGE21 \<or> t = LR_RELOC_ARM64_GOT_LOAD_PAGEOFF12) (oc_relocs oc)
                  (replicate n UINT32_MAX) (obj_align_up (of_nat (length data)) 8) of None \<Rightarrow> None
      | Some (slots, sz) \<Rightarrow>
          let l = exec_layout_of (of_nat (length aarch64_stub)) (of_nat (length code)) sz;
              env = exec_env_of oc l slots
          in case find_entry (oc_symbols oc) entry of None \<Rightarrow> None
             | Some s \<Rightarrow>
                 if length code \<le> unat (os_offset s) then None
                 else if \<not> mem (el_total l) \<or> \<not> mem (of_nat (length code)) \<or> \<not> mem (if sz > 0 then sz else 1) then None
                 else case run_relocs (aarch64_reloc env) (oc_relocs oc) (code, pad_data data sz) of None \<Rightarrow> None
                 | Some st \<Rightarrow>
                     patch_aarch64_branch26_vaddr (exec_image EM_AARCH64 l aarch64_stub st) (ucast (el_text_off l))
                       (image_base + el_text_off l) (ee_code_vaddr env + ucast (os_offset s)))"

definition write_elf_executable_aarch64 ::
  "(u64 \<Rightarrow> bool) \<Rightarrow> file_sink \<Rightarrow> bytes \<Rightarrow> bytes \<Rightarrow> lr_objfile_ctx \<Rightarrow> string \<Rightarrow> int \<times> file_sink" where
  "write_elf_executable_aarch64 mem out code data oc entry = exec_write (aarch64_executable mem code data oc entry) out"

definition riscv64_executable :: "(u64 \<Rightarrow> bool) \<Rightarrow> bytes \<Rightarrow> bytes \<Rightarrow> lr_objfile_ctx \<Rightarrow> string \<Rightarrow> bytes option" where
  "riscv64_executable mem code data oc entry =
     (if entry = [] \<or> data_relocs oc \<noteq> [] then None
      else let l = exec_layout_of (of_nat (length riscv64_stub)) (of_nat (length code)) (of_nat (length data));
               env = exec_env_of oc l []
      in case find_entry (oc_symbols oc) entry of None \<Rightarrow> None
         | Some s \<Rightarrow>
             if length code \<le> unat (os_offset s) then None
             else if \<not> mem (el_total l) \<or> \<not> mem (of_nat (length code)) then None
             else case run_relocs (riscv64_reloc env) (oc_relocs oc) (code, data) of None \<Rightarrow> None
             | Some st \<Rightarrow>
                 patch_riscv_jal_vaddr (exec_image EM_RISCV l riscv64_stub st) (ucast (el_text_off l))
                   (image_base + el_text_off l) (ee_code_vaddr env + ucast (os_offset s)))"

definition write_elf_executable_riscv64 ::
  "(u64 \<Rightarrow> bool) \<Rightarrow> file_sink \<Rightarrow> bytes \<Rightarrow> bytes \<Rightarrow> lr_objfile_ctx \<Rightarrow> string \<Rightarrow> int \<times> file_sink" where
  "write_elf_executable_riscv64 mem out code data oc entry = exec_write (riscv64_executable mem code data oc entry) out"

end
