(* ===== verification/Elf_Linked.thy ===== *)
theory Elf_Linked
  imports Elf_Exec
begin

text \<open>
  The executables are linked.  One locale holds what the relocation loops of the three writers have in
  common: a step writes the site of its relocation in the code and, for a relocation through the global
  offset table, the slot of its symbol.  From this follows for every loop that in the end all
  relocations are resolved and that nothing outside their sites has changed.
\<close>

unbundle bit_operations_syntax

section \<open>Relocation loops\<close>

locale reloc_loop =
  fixes step :: "lr_obj_reloc \<Rightarrow> bytes \<times> bytes \<Rightarrow> (bytes \<times> bytes) option"
    and width :: "lr_obj_reloc \<Rightarrow> nat"
    and site_ok :: "lr_obj_reloc \<Rightarrow> bytes \<Rightarrow> bool"
    and via_slot :: "lr_obj_reloc \<Rightarrow> bool"
    and slot :: "lr_obj_reloc \<Rightarrow> nat"
    and target :: "lr_obj_reloc \<Rightarrow> u64"
  assumes effect: "step r (c, d) = Some (c', d') \<Longrightarrow>
    (\<exists>v. length v = width r \<and> site_ok r v \<and> (0 < width r \<longrightarrow> unat (or_offset r) + width r \<le> length c) \<and>
         c' = overwrite c (unat (or_offset r)) v) \<and>
    (if via_slot r then slot r + 8 \<le> length d \<and> d' = overwrite d (slot r) (le_split 8 (target r)) else d' = d)"
begin

definition sites_apart :: "lr_obj_reloc \<Rightarrow> lr_obj_reloc \<Rightarrow> bool" where
  "sites_apart q r \<longleftrightarrow> width q = 0 \<or> width r = 0 \<or>
     unat (or_offset q) + width q \<le> unat (or_offset r) \<or> unat (or_offset r) + width r \<le> unat (or_offset q)"

definition slots_apart :: "lr_obj_reloc \<Rightarrow> lr_obj_reloc \<Rightarrow> bool" where
  "slots_apart q r \<longleftrightarrow> (via_slot q \<and> via_slot r \<longrightarrow>
     slot q = slot r \<and> target q = target r \<or> slot q + 8 \<le> slot r \<or> slot r + 8 \<le> slot q)"

definition resolved :: "lr_obj_reloc \<Rightarrow> bytes \<Rightarrow> bytes \<Rightarrow> bool" where
  "resolved r c d \<longleftrightarrow> site_ok r (part c (unat (or_offset r)) (width r)) \<and>
     (via_slot r \<longrightarrow> slot r + 8 \<le> length d \<and> word64_at d (slot r) = target r)"

lemma code_effect:
  assumes "step r (c, d) = Some (c', d')"
  obtains v where "length v = width r" and "site_ok r v" and "0 < width r \<longrightarrow> unat (or_offset r) + width r \<le> length c"
    and "c' = overwrite c (unat (or_offset r)) v"
  using effect [OF assms, THEN conjunct1] by (elim exE conjE) (rule that)

lemma data_effect:
  assumes "step r (c, d) = Some (c', d')"
  shows "via_slot r \<Longrightarrow> slot r + 8 \<le> length d" and "via_slot r \<Longrightarrow> d' = overwrite d (slot r) (le_split 8 (target r))"
    and "\<not> via_slot r \<Longrightarrow> d' = d"
  using effect [OF assms, THEN conjunct2] by simp_all

lemma step_lengths:
  assumes "step r (c, d) = Some (c', d')"
  shows "length c' = length c \<and> length d' = length d"
proof
  show "length c' = length c" by (rule code_effect [OF assms]) (cases "width r = 0"; simp)
  show "length d' = length d" using data_effect [OF assms] by (cases "via_slot r") simp_all
qed

lemma step_resolved:
  assumes "step r (c, d) = Some (c', d')"
  shows "resolved r c' d'"
proof -
  obtain v where v: "length v = width r" "site_ok r v" "0 < width r \<longrightarrow> unat (or_offset r) + width r \<le> length c"
    "c' = overwrite c (unat (or_offset r)) v"
    using assms by (rule code_effect)
  have "part c' (unat (or_offset r)) (width r) = v"
    using v part_overwrite [of "unat (or_offset r)" v c "width r"] by (cases "width r = 0") (auto simp: part_def)
  moreover have "via_slot r \<Longrightarrow> slot r + 8 \<le> length d' \<and> word64_at d' (slot r) = target r"
    using data_effect [OF assms] by (simp add: word64_at_overwrite)
  ultimately show ?thesis using v(2) by (simp add: resolved_def)
qed

lemma step_site:
  assumes "step r (c, d) = Some (c', d')" and "sites_apart q r" and "0 < width q \<longrightarrow> unat (or_offset q) + width q \<le> length c"
  shows "part c' (unat (or_offset q)) (width q) = part c (unat (or_offset q)) (width q)"
proof -
  obtain v where v: "length v = width r" "0 < width r \<longrightarrow> unat (or_offset r) + width r \<le> length c"
    "c' = overwrite c (unat (or_offset r)) v"
    using assms(1) by (rule code_effect)
  show ?thesis
  proof (cases "width q = 0 \<or> width r = 0")
    case True
    then show ?thesis using v by (auto simp: part_def)
  next
    case False
    then show ?thesis using v assms(2,3) by (auto simp: sites_apart_def intro!: part_overwrite_other)
  qed
qed

lemma step_slot:
  assumes "step r (c, d) = Some (c', d')" and "slots_apart q r" and "via_slot q" and "slot q + 8 \<le> length d"
    and "word64_at d (slot q) = target q"
  shows "word64_at d' (slot q) = target q"
proof (cases "via_slot r")
  case True
  then have d: "slot r + 8 \<le> length d" "d' = overwrite d (slot r) (le_split 8 (target r))" using data_effect [OF assms(1)] by simp_all
  show ?thesis
  proof (cases "slot q = slot r \<and> target q = target r")
    case True
    then show ?thesis using d by (simp add: word64_at_overwrite)
  next
    case False
    then have "slot q + 8 \<le> slot r \<or> slot r + 8 \<le> slot q" using assms(2,3) True by (auto simp: slots_apart_def)
    then have "part d' (slot q) 8 = part d (slot q) 8" using d assms(4) by (auto intro!: part_overwrite_other)
    then show ?thesis using assms(5) by (simp add: word64_at_def)
  qed
next
  case False
  then show ?thesis using data_effect [OF assms(1)] assms(5) by simp
qed

lemma step_keeps:
  assumes "step r (c, d) = Some (c', d')" and "sites_apart q r" and "slots_apart q r" and "resolved q c d"
    and "0 < width q \<longrightarrow> unat (or_offset q) + width q \<le> length c"
  shows "resolved q c' d'"
  using step_site [OF assms(1,2,5)] step_slot [OF assms(1,3)] assms(4) step_lengths [OF assms(1)]
  by (simp add: resolved_def)

lemma step_inside: "step r (c, d) = Some (c', d') \<Longrightarrow> 0 < width r \<longrightarrow> unat (or_offset r) + width r \<le> length c'"
  by (frule step_lengths) (erule code_effect, simp)

lemma run_keeps:
  assumes "run_relocs step rs (c, d) = Some (c', d')" and "\<forall>r \<in> set rs. sites_apart q r \<and> slots_apart q r"
    and "resolved q c d" and "0 < width q \<longrightarrow> unat (or_offset q) + width q \<le> length c"
  shows "resolved q c' d'"
  using assms
proof (induction rs arbitrary: c d)
  case (Cons r rs)
  then obtain c1 d1 where s: "step r (c, d) = Some (c1, d1)" and rest: "run_relocs step rs (c1, d1) = Some (c', d')"
    by (auto split: option.splits)
  then show ?case using Cons.IH [OF rest] Cons.prems step_keeps [OF s] step_lengths [OF s] by simp
qed simp

lemma run_resolved:
  assumes "run_relocs step rs (c, d) = Some (c', d')" and "sorted_wrt (\<lambda>q r. sites_apart q r \<and> slots_apart q r) rs"
  shows "\<forall>r \<in> set rs. resolved r c' d'"
  using assms
proof (induction rs arbitrary: c d)
  case (Cons r rs)
  then obtain c1 d1 where s: "step r (c, d) = Some (c1, d1)" and rest: "run_relocs step rs (c1, d1) = Some (c', d')"
    by (auto split: option.splits)
  have "resolved r c' d'" using run_keeps [OF rest _ step_resolved [OF s] step_inside [OF s]] Cons.prems(2) by auto
  then show ?case using Cons.IH [OF rest] Cons.prems(2) by simp
qed simp

lemma run_lengths:
  assumes "run_relocs step rs (c, d) = Some (c', d')"
  shows "length c' = length c \<and> length d' = length d"
    and "\<forall>r \<in> set rs. 0 < width r \<longrightarrow> unat (or_offset r) + width r \<le> length c"
  using assms
proof (induction rs arbitrary: c d)
  case (Cons r rs)
  case 1
  then obtain c1 d1 where "step r (c, d) = Some (c1, d1)" and "run_relocs step rs (c1, d1) = Some (c', d')"
    by (auto split: option.splits)
  then show ?case using Cons.IH(1) step_lengths by metis
next
  case (Cons r rs)
  case 2
  then obtain c1 d1 where s: "step r (c, d) = Some (c1, d1)" and rest: "run_relocs step rs (c1, d1) = Some (c', d')"
    by (auto split: option.splits)
  then show ?case using Cons.IH(2) [OF rest] step_lengths [OF s] step_inside [OF s] by simp
qed simp_all

lemma run_code_frame:
  assumes "run_relocs step rs (c, d) = Some (c', d')" and "i < length c"
    and "\<forall>r \<in> set rs. i < unat (or_offset r) \<or> unat (or_offset r) + width r \<le> i"
  shows "c' ! i = c ! i"
  using assms
proof (induction rs arbitrary: c d)
  case (Cons r rs)
  then obtain c1 d1 where s: "step r (c, d) = Some (c1, d1)" and rest: "run_relocs step rs (c1, d1) = Some (c', d')"
    by (auto split: option.splits)
  obtain v where v: "length v = width r" "0 < width r \<longrightarrow> unat (or_offset r) + width r \<le> length c"
    "c1 = overwrite c (unat (or_offset r)) v"
    using s by (rule code_effect)
  have "c1 ! i = c ! i" using v Cons.prems by (cases "width r = 0") (auto simp: nth_overwrite)
  then show ?case using Cons.IH [OF rest] Cons.prems step_lengths [OF s] by simp
qed simp

lemma run_data_frame:
  assumes "run_relocs step rs (c, d) = Some (c', d')" and "i < length d"
    and "\<forall>r \<in> set rs. via_slot r \<longrightarrow> i < slot r \<or> slot r + 8 \<le> i"
  shows "d' ! i = d ! i"
  using assms
proof (induction rs arbitrary: c d)
  case (Cons r rs)
  then obtain c1 d1 where s: "step r (c, d) = Some (c1, d1)" and rest: "run_relocs step rs (c1, d1) = Some (c', d')"
    by (auto split: option.splits)
  have "d1 ! i = d ! i" using data_effect [OF s] Cons.prems by (cases "via_slot r") (auto simp: nth_overwrite)
  then show ?case using Cons.IH [OF rest] Cons.prems step_lengths [OF s] by simp
qed simp

end

section \<open>The steps of the three loops\<close>

definition sym_vaddr :: "exec_env \<Rightarrow> lr_obj_reloc \<Rightarrow> u64" where
  "sym_vaddr env r =
     (let s = ee_symbols env ! unat (or_symbol_idx r)
      in (if os_section s = 1 then ee_code_vaddr env else ee_data_vaddr env) + ucast (os_offset s))"

definition place_vaddr :: "exec_env \<Rightarrow> lr_obj_reloc \<Rightarrow> u64" where
  "place_vaddr env r = ee_code_vaddr env + ucast (or_offset r)"

definition slot_off :: "exec_env \<Rightarrow> lr_obj_reloc \<Rightarrow> nat" where
  "slot_off env r = unat (ee_slots env ! unat (or_symbol_idx r))"

lemma target_vaddr_some: "target_vaddr env st r = Some t \<Longrightarrow> t = sym_vaddr env r"
  by (auto simp: target_vaddr_def sym_vaddr_def Let_def split: if_splits)

lemma patch_code_some: "patch_code f (c, d) = Some (c', d') \<longleftrightarrow> f c = Some c' \<and> d' = d"
  by (auto simp: patch_code_def)

lemma fill_slot_some:
  "fill_slot env r t (c, d) = Some (c', d') \<longleftrightarrow>
     ee_slots env ! unat (or_symbol_idx r) \<noteq> UINT32_MAX \<and> c' = c \<and> slot_off env r + 8 \<le> length d \<and>
     d' = overwrite d (slot_off env r) (le_split 8 t)"
  by (auto simp: fill_slot_def Let_def slot_off_def write_u64_le_some)

text \<open>What the bytes at a site must be.\<close>

definition x86_width :: "lr_obj_reloc \<Rightarrow> nat" where
  "x86_width r = (if or_type r = LR_RELOC_X86_64_64 then 8 else 4)"

definition x86_got :: "lr_obj_reloc \<Rightarrow> bool" where
  "x86_got r \<longleftrightarrow> or_type r = LR_RELOC_X86_64_GOTPCREL"

definition x86_site :: "exec_env \<Rightarrow> lr_obj_reloc \<Rightarrow> bytes \<Rightarrow> bool" where
  "x86_site env r v \<longleftrightarrow>
     (if or_type r = LR_RELOC_X86_64_64 then le_join v = sym_vaddr env r
      else rel32_reaches (le_join v) (place_vaddr env r) (if x86_got r then slot_vaddr env r else sym_vaddr env r))"

definition a64_got :: "lr_obj_reloc \<Rightarrow> bool" where
  "a64_got r \<longleftrightarrow> or_type r = LR_RELOC_ARM64_GOT_LOAD_PAGE21 \<or> or_type r = LR_RELOC_ARM64_GOT_LOAD_PAGEOFF12"

definition a64_site :: "exec_env \<Rightarrow> lr_obj_reloc \<Rightarrow> bytes \<Rightarrow> bool" where
  "a64_site env r v \<longleftrightarrow>
     (let w = le_join v; place = place_vaddr env r; type = or_type r
      in if type = LR_RELOC_ARM64_BRANCH26 then branch26_reaches w place (sym_vaddr env r)
         else if type = LR_RELOC_ARM64_PAGE21 then page21_reaches w place (sym_vaddr env r)
         else if type = LR_RELOC_ARM64_PAGEOFF12 then pageoff12_reaches w place (sym_vaddr env r)
         else if type = LR_RELOC_ARM64_GOT_LOAD_PAGE21 then page21_reaches w place (slot_vaddr env r)
         else got12_reaches w place (slot_vaddr env r))"

definition rv_width :: "lr_obj_reloc \<Rightarrow> nat" where
  "rv_width r = (if or_type r = LR_RELOC_RISCV64_JAL then 4 else 0)"

definition rv_site :: "exec_env \<Rightarrow> lr_obj_reloc \<Rightarrow> bytes \<Rightarrow> bool" where
  "rv_site env r v \<longleftrightarrow> or_type r = LR_RELOC_RISCV64_JAL \<longrightarrow> jal_reaches (le_join v) (place_vaddr env r) (sym_vaddr env r)"

interpretation x86: reloc_loop "x86_reloc env" x86_width "x86_site env" x86_got "slot_off env" "sym_vaddr env" for env
proof
  fix r and c d c' d' :: bytes
  assume step: "x86_reloc env r (c, d) = Some (c', d')"
  then have t: "target_vaddr env (c, d) r = Some (sym_vaddr env r)"
    by (auto simp: x86_reloc_def split: option.splits dest: target_vaddr_some)
  consider (pc) "or_type r = LR_RELOC_X86_64_PC32 \<or> or_type r = LR_RELOC_X86_64_PLT32" | (got) "or_type r = LR_RELOC_X86_64_GOTPCREL"
    | (abs) "or_type r = LR_RELOC_X86_64_64"
    using step by (auto simp: x86_reloc_def Let_def split: option.splits if_splits)
  then show "(\<exists>v. length v = x86_width r \<and> x86_site env r v \<and> (0 < x86_width r \<longrightarrow> unat (or_offset r) + x86_width r \<le> length c) \<and>
         c' = overwrite c (unat (or_offset r)) v) \<and>
    (if x86_got r then slot_off env r + 8 \<le> length d \<and> d' = overwrite d (slot_off env r) (le_split 8 (sym_vaddr env r)) else d' = d)"
  proof cases
    case pc
    then have ty: "or_type r \<noteq> LR_RELOC_X86_64_64" "\<not> x86_got r" by (auto simp: x86_got_def reloc_type_defs)
    have p: "patch_rel32_vaddr c (or_offset r) (place_vaddr env r) (sym_vaddr env r) = Some c'" "d' = d"
      using step t pc by (auto simp: x86_reloc_def Let_def patch_code_some place_vaddr_def)
    have "\<exists>v. length v = 4 \<and> x86_site env r v \<and> (0 < (4::nat) \<longrightarrow> unat (or_offset r) + 4 \<le> length c) \<and> c' = overwrite c (unat (or_offset r)) v"
      by (rule rel32.patch_site [OF p(1)]) (simp add: x86_site_def ty)
    then show ?thesis using ty p(2) by (simp add: x86_width_def)
  next
    case got
    then have ty: "or_type r \<noteq> LR_RELOC_X86_64_64" "x86_got r" by (auto simp: x86_got_def reloc_type_defs)
    have p: "patch_rel32_vaddr c (or_offset r) (place_vaddr env r) (slot_vaddr env r) = Some c'"
      and d: "slot_off env r + 8 \<le> length d" "d' = overwrite d (slot_off env r) (le_split 8 (sym_vaddr env r))"
      using step t got by (auto simp: x86_reloc_def Let_def patch_code_some fill_slot_some place_vaddr_def reloc_type_defs split: option.splits)
    have "\<exists>v. length v = 4 \<and> x86_site env r v \<and> (0 < (4::nat) \<longrightarrow> unat (or_offset r) + 4 \<le> length c) \<and> c' = overwrite c (unat (or_offset r)) v"
      by (rule rel32.patch_site [OF p]) (simp add: x86_site_def ty)
    then show ?thesis using ty d by (simp add: x86_width_def)
  next
    case abs
    then have ty: "\<not> x86_got r" by (auto simp: x86_got_def reloc_type_defs)
    have "write_u64_le c (or_offset r) (sym_vaddr env r) = Some c'" "d' = d"
      using step t abs by (auto simp: x86_reloc_def Let_def patch_code_some reloc_type_defs)
    then show ?thesis using ty abs
      by (auto simp: x86_width_def x86_site_def write_u64_le_some intro!: exI [of _ "le_split 8 (sym_vaddr env r)"])
  qed
qed

interpretation a64: reloc_loop "aarch64_reloc env" "\<lambda>_. 4" "a64_site env" a64_got "slot_off env" "sym_vaddr env" for env
proof
  fix r and c d c' d' :: bytes
  assume step: "aarch64_reloc env r (c, d) = Some (c', d')"
  then have t: "target_vaddr env (c, d) r = Some (sym_vaddr env r)"
    by (auto simp: aarch64_reloc_def split: option.splits dest: target_vaddr_some)
  let ?site = "\<exists>v. length v = 4 \<and> a64_site env r v \<and> (0 < (4::nat) \<longrightarrow> unat (or_offset r) + 4 \<le> length c) \<and>
    c' = overwrite c (unat (or_offset r)) v"
  let ?slot = "slot_off env r + 8 \<le> length d \<and> d' = overwrite d (slot_off env r) (le_split 8 (sym_vaddr env r))"
  note defs = aarch64_reloc_def Let_def patch_code_some fill_slot_some place_vaddr_def reloc_type_defs
  consider (br) "or_type r = LR_RELOC_ARM64_BRANCH26" | (page) "or_type r = LR_RELOC_ARM64_PAGE21" | (off) "or_type r = LR_RELOC_ARM64_PAGEOFF12"
    | (gpage) "or_type r = LR_RELOC_ARM64_GOT_LOAD_PAGE21" | (goff) "or_type r = LR_RELOC_ARM64_GOT_LOAD_PAGEOFF12"
    using step by (auto simp: aarch64_reloc_def Let_def split: option.splits if_splits)
  then show "?site \<and> (if a64_got r then ?slot else d' = d)"
  proof cases
    case br
    then have p: "patch_aarch64_branch26_vaddr c (or_offset r) (place_vaddr env r) (sym_vaddr env r) = Some c'" "d' = d"
      using step t by (auto simp: defs)
    have ?site by (rule branch26.patch_site [OF p(1)]) (simp add: a64_site_def br)
    then show ?thesis using br p(2) by (simp add: a64_got_def reloc_type_defs)
  next
    case page
    then have p: "patch_aarch64_page21_vaddr c (or_offset r) (place_vaddr env r) (sym_vaddr env r) = Some c'" "d' = d"
      using step t by (auto simp: defs)
    have ?site by (rule page21.patch_site [OF p(1)]) (simp add: a64_site_def page reloc_type_defs)
    then show ?thesis using page p(2) by (simp add: a64_got_def reloc_type_defs)
  next
    case off
    then have p: "patch_aarch64_pageoff12_vaddr c (or_offset r) (sym_vaddr env r) False = Some c'" "d' = d"
      using step t by (auto simp: defs)
    have ?site by (rule pageoff12.patch_site [OF p(1), where place = "place_vaddr env r"]) (simp add: a64_site_def off reloc_type_defs)
    then show ?thesis using off p(2) by (simp add: a64_got_def reloc_type_defs)
  next
    case gpage
    then have p: "patch_aarch64_page21_vaddr c (or_offset r) (place_vaddr env r) (slot_vaddr env r) = Some c'" and ?slot
      using step t by (auto simp: defs split: option.splits)
    have ?site by (rule page21.patch_site [OF p]) (simp add: a64_site_def gpage reloc_type_defs)
    then show ?thesis using gpage \<open>?slot\<close> by (simp add: a64_got_def)
  next
    case goff
    then have p: "patch_aarch64_pageoff12_vaddr c (or_offset r) (slot_vaddr env r) True = Some c'" and ?slot
      using step t by (auto simp: defs split: option.splits)
    have ?site by (rule got12.patch_site [OF p, where place = "place_vaddr env r"]) (simp add: a64_site_def goff reloc_type_defs)
    then show ?thesis using goff \<open>?slot\<close> by (simp add: a64_got_def)
  qed
qed

interpretation rv: reloc_loop "riscv64_reloc env" rv_width "rv_site env" "\<lambda>_. False" "\<lambda>_. 0" "sym_vaddr env" for env
proof
  fix r and c d c' d' :: bytes
  assume step: "riscv64_reloc env r (c, d) = Some (c', d')"
  show "(\<exists>v. length v = rv_width r \<and> rv_site env r v \<and> (0 < rv_width r \<longrightarrow> unat (or_offset r) + rv_width r \<le> length c) \<and>
         c' = overwrite c (unat (or_offset r)) v) \<and>
    (if False then 0 + 8 \<le> length d \<and> d' = overwrite d 0 (le_split 8 (sym_vaddr env r)) else d' = d)"
  proof (cases "or_type r = LR_RELOC_RISCV64_JAL")
    case True
    then have p: "patch_riscv_jal_vaddr c (or_offset r) (place_vaddr env r) (sym_vaddr env r) = Some c'" "d' = d"
      using step by (auto simp: riscv64_reloc_def Let_def patch_code_some place_vaddr_def sym_vaddr_def split: if_splits)
    have "\<exists>v. length v = 4 \<and> rv_site env r v \<and> (0 < (4::nat) \<longrightarrow> unat (or_offset r) + 4 \<le> length c) \<and> c' = overwrite c (unat (or_offset r)) v"
      by (rule jal.patch_site [OF p(1)]) (simp add: rv_site_def)
    then show ?thesis using True p(2) by (simp add: rv_width_def)
  next
    case False
    then show ?thesis using step by (auto simp: riscv64_reloc_def rv_width_def rv_site_def)
  qed
qed

end
