(* ===== verification/Elf_Image.thy ===== *)
theory Elf_Image
  imports Elf_Linked
begin

text \<open>
  The image of an executable in memory: the layout of the file, the slots of the global offset table,
  and the theorems that the three writers produce a linked image.
\<close>

unbundle bit_operations_syntax

section \<open>Slots\<close>





section \<open>Data relocations\<close>


definition off_apart :: "(lr_obj_reloc \<Rightarrow> nat) \<Rightarrow> lr_obj_reloc \<Rightarrow> lr_obj_reloc \<Rightarrow> bool" where
  "off_apart width q r \<longleftrightarrow> unat (or_offset q) + width q \<le> unat (or_offset r) \<or> unat (or_offset r) + width r \<le> unat (or_offset q)"



section \<open>The layout of the file\<close>


definition exec_header_bytes :: "u16 \<Rightarrow> u64 \<Rightarrow> u64 \<Rightarrow> bytes" where
  "exec_header_bytes machine entry_vaddr tot =
     ELFMAG @ [ELFCLASS64, ELFDATA2LSB, EV_CURRENT, ELFOSABI_NONE] @ replicate 8 0 @
     le_split 2 ET_EXEC @ le_split 2 machine @ le_split 4 (ucast EV_CURRENT :: u32) @ le_split 8 entry_vaddr @
     le_split 8 (64 :: u64) @ le_split 8 (0 :: u64) @ le_split 4 (0 :: u32) @
     le_split 2 (64 :: u16) @ le_split 2 (56 :: u16) @ le_split 2 (1 :: u16) @ le_split 2 (0 :: u16) @ le_split 2 (0 :: u16) @ le_split 2 (0 :: u16) @
     le_split 4 PT_LOAD @ le_split 4 (PF_R OR PF_W OR PF_X) @ le_split 8 (0 :: u64) @ le_split 8 image_base @ le_split 8 image_base @
     le_split 8 tot @ le_split 8 tot @ le_split 8 (4096 :: u64)"

lemma length_exec_header [simp]: "length (exec_header_bytes machine entry tot) = 120"
  by (simp add: exec_header_bytes_def ELFMAG_def)

lemma exec_header_emits: "emits (exec_header machine entry tot) (exec_header_bytes machine entry tot)"
  unfolding exec_header_def writer_bytes ELFMAG_def list.map append_Cons append_Nil
  by (rule emits_eq, (rule emits_Cons emits_Nil)+) (simp add: exec_header_bytes_def ELFMAG_def)


lemma exec_image_parts:
  fixes l :: exec_layout and stub c d :: bytes and machine :: u16
  assumes "unat (el_text_off l) = 128" and "unat (el_code_off l) = 128 + length stub"
    and "128 + length stub + length c \<le> unat (el_data_off l)" and "unat (el_total l) = unat (el_data_off l) + length d"
  defines "img \<equiv> exec_image machine l stub (c, d)"
  shows "length img = unat (el_total l)"
    and "part img 0 120 = exec_header_bytes machine (image_base + el_text_off l) (el_total l)"
    and "part img 128 (length stub) = stub"
    and "part img (unat (el_code_off l)) (length c) = c"
    and "part img (unat (el_data_off l)) (length d) = d"
proof -
  let ?b0 = "overwrite (replicate (unat (el_total l)) 0) 0 (exec_header_bytes machine (image_base + el_text_off l) (el_total l))"
  let ?b1 = "overwrite ?b0 128 stub"
  let ?b2 = "overwrite ?b1 (128 + length stub) c"
  have img: "img = overwrite ?b2 (unat (el_data_off l)) d"
    unfolding img_def exec_image_def Let_def emitsD [OF exec_header_emits le0] using assms(1,2) by simp
  have l0: "length ?b0 = unat (el_total l)" using assms(3,4) by (simp add: length_overwrite)
  have l1: "length ?b1 = unat (el_total l)" using l0 assms(3,4) by (subst length_overwrite) simp_all
  have l2: "length ?b2 = unat (el_total l)" using l1 assms(3,4) by (subst length_overwrite) simp_all
  show "length img = unat (el_total l)" unfolding img using l2 assms(3,4) by (subst length_overwrite) simp_all
  have data: "part img i n = part ?b2 i n" if "i + n \<le> unat (el_data_off l)" for i n
    unfolding img using that l2 assms(4) by (intro part_overwrite_other) simp_all
  have code: "part ?b2 i n = part ?b1 i n" if "i + n \<le> 128 + length stub" for i n
    using that l1 assms(3,4) by (intro part_overwrite_other) simp_all
  have stub: "part ?b1 i n = part ?b0 i n" if "i + n \<le> 128" for i n
    using that l0 assms(3,4) by (intro part_overwrite_other) simp_all
  show "part img 0 120 = exec_header_bytes machine (image_base + el_text_off l) (el_total l)"
    using data [of 0 120] code [of 0 120] stub [of 0 120] assms(3,4)
      part_overwrite [of 0 "exec_header_bytes machine (image_base + el_text_off l) (el_total l)" "replicate (unat (el_total l)) 0" 120] by simp
  show "part img 128 (length stub) = stub"
    using data [of 128 "length stub"] code [of 128 "length stub"] assms(3,4) part_overwrite [of 128 stub ?b0] l0 by simp
  show "part img (unat (el_code_off l)) (length c) = c"
    using data [of "128 + length stub" "length c"] assms(2,3,4) part_overwrite [of "128 + length stub" c ?b1] l1 by simp
  show "part img (unat (el_data_off l)) (length d) = d"
    unfolding img by (rule part_overwrite) (use l2 assms(4) in simp_all)
qed

section \<open>Linked images\<close>










section \<open>The three writers\<close>


lemma sorted_wrt_strengthen: "sorted_wrt P xs \<Longrightarrow> (\<And>x y. x \<in> set xs \<Longrightarrow> y \<in> set xs \<Longrightarrow> P x y \<Longrightarrow> Q x y) \<Longrightarrow> sorted_wrt Q xs"
  by (rule sorted_wrt_mono_rel [of xs P]) auto



text \<open>The last patch fills the call in the start stub and leaves the other parts of the image.\<close>

context insn_patch
begin

lemma final_image:
  assumes l: "unat (el_text_off l) = 128" "unat (el_code_off l) = 128 + length stub"
      "128 + length stub + length c \<le> unat (el_data_off l)" "unat (el_total l) = unat (el_data_off l) + length d"
    and p: "patch (exec_image machine l stub (c, d)) off place target = Some img"
    and off: "unat off = 128 + k" "k + 4 \<le> length stub"
  shows "length img = unat (el_total l)"
    and "part img 0 120 = exec_header_bytes machine (image_base + el_text_off l) (el_total l)"
    and "reaches (le_join (part img (128 + k) 4)) place target"
    and "part img (unat (el_code_off l)) (length c) = c"
    and "part img (unat (el_data_off l)) (length d) = d"
proof -
  note img = exec_image_parts [OF l, of machine]
  show len: "length img = unat (el_total l)" using patch_length [OF p] img(1) by simp
  show "part img 0 120 = exec_header_bytes machine (image_base + el_text_off l) (el_total l)"
    using patch_frame [OF p, of 0 120] off img(1,2) l by simp
  show "reaches (le_join (part img (128 + k) 4)) place target"
    using patch_reaches(1) [OF p] off by (simp add: word32_at_def)
  show "part img (unat (el_code_off l)) (length c) = c"
    using patch_frame [OF p, of "unat (el_code_off l)" "length c"] off img(1,4) l by simp
  show "part img (unat (el_data_off l)) (length d) = d"
    using patch_frame [OF p, of "unat (el_data_off l)" "length d"] off img(1,5) l by simp
qed

end






context reloc_loop
begin

lemma run_apart:
  assumes "run_relocs step rs (c, d) = Some (c', d')" and "sorted_wrt (off_apart width) rs"
    and "\<And>q r. q \<in> set rs \<Longrightarrow> r \<in> set rs \<Longrightarrow> via_slot q \<Longrightarrow> via_slot r \<Longrightarrow>
      slot q = slot r \<and> target q = target r \<or> slot q + 8 \<le> slot r \<or> slot r + 8 \<le> slot q"
  shows "\<forall>r \<in> set rs. resolved r c' d'"
proof (rule run_resolved [OF assms(1)], rule sorted_wrt_strengthen [OF assms(2)])
  fix q r
  assume "q \<in> set rs" "r \<in> set rs" "off_apart width q r"
  then show "sites_apart q r \<and> slots_apart q r"
    using assms(3) [of q r] by (auto simp: off_apart_def sites_apart_def slots_apart_def)
qed

lemma run_data_low:
  assumes "run_relocs step rs (c, d) = Some (c', d')" and "\<And>r. r \<in> set rs \<Longrightarrow> via_slot r \<Longrightarrow> lo \<le> slot r"
    and "i < lo" and "i < length d"
  shows "d' ! i = d ! i"
  by (rule run_data_frame [OF assms(1,4)]) (use assms(2,3) in fastforce)

end










section \<open>Properties\<close>



















end
