(* ===== verification/Elf_Object.thy ===== *)
theory Elf_Object
  imports Elf_Exec
begin

text \<open>
  Relocatable objects (\<^verbatim>\<open>src/src/objfile_elf.c\<close>, \<^verbatim>\<open>write_elf\<close>): the symbol order with local symbols first,
  the layout of the file, and the writing of its header, sections and section headers.

  \<open>mem\<close> tells, by its size, whether an allocation succeeds.  The result is \<open>None\<close> where a relocation
  names a symbol outside the table: the code reads past the end of its index array there.
\<close>

unbundle bit_operations_syntax

section \<open>Relocation types of the format\<close>

record lr_reloc_mapped =
  native_type :: u32
  addend :: int
  is_pcrel :: bool

definition R_X86_64_PC32 :: u32 where "R_X86_64_PC32 = 2"
definition R_X86_64_PLT32 :: u32 where "R_X86_64_PLT32 = 4"
definition R_X86_64_GOTPCRELX :: u32 where "R_X86_64_GOTPCRELX = 41"
definition R_X86_64_64 :: u32 where "R_X86_64_64 = 1"
definition R_AARCH64_ABS64 :: u32 where "R_AARCH64_ABS64 = 257"
definition R_AARCH64_CALL26 :: u32 where "R_AARCH64_CALL26 = 283"
definition R_AARCH64_ADR_PREL_PG_HI21 :: u32 where "R_AARCH64_ADR_PREL_PG_HI21 = 275"
definition R_AARCH64_ADD_ABS_LO12_NC :: u32 where "R_AARCH64_ADD_ABS_LO12_NC = 277"
definition R_AARCH64_ADR_GOT_PAGE :: u32 where "R_AARCH64_ADR_GOT_PAGE = 311"
definition R_AARCH64_LD64_GOT_LO12_NC :: u32 where "R_AARCH64_LD64_GOT_LO12_NC = 312"
definition R_RISCV_NONE :: u32 where "R_RISCV_NONE = 0"
definition R_RISCV_JAL :: u32 where "R_RISCV_JAL = 17"

definition mapped :: "u32 \<Rightarrow> int \<Rightarrow> bool \<Rightarrow> lr_reloc_mapped" where
  "mapped t a p = \<lparr>native_type = t, addend = a, is_pcrel = p\<rparr>"

definition elf_reloc_x86_64 :: "u8 \<Rightarrow> lr_reloc_mapped" where
  "elf_reloc_x86_64 t =
     (if t = LR_RELOC_X86_64_PC32 then mapped R_X86_64_PC32 (- 4) True
      else if t = LR_RELOC_X86_64_PLT32 then mapped R_X86_64_PLT32 (- 4) True
      else if t = LR_RELOC_X86_64_GOTPCREL then mapped R_X86_64_GOTPCRELX (- 4) True
      else if t = LR_RELOC_X86_64_64 then mapped R_X86_64_64 0 False
      else mapped R_X86_64_PC32 0 True)"

definition elf_reloc_aarch64 :: "u8 \<Rightarrow> lr_reloc_mapped" where
  "elf_reloc_aarch64 t =
     (if t = LR_RELOC_ARM64_BRANCH26 then mapped R_AARCH64_CALL26 0 True
      else if t = LR_RELOC_ARM64_PAGE21 then mapped R_AARCH64_ADR_PREL_PG_HI21 0 True
      else if t = LR_RELOC_ARM64_PAGEOFF12 then mapped R_AARCH64_ADD_ABS_LO12_NC 0 False
      else if t = LR_RELOC_ARM64_GOT_LOAD_PAGE21 then mapped R_AARCH64_ADR_GOT_PAGE 0 True
      else if t = LR_RELOC_ARM64_GOT_LOAD_PAGEOFF12 then mapped R_AARCH64_LD64_GOT_LO12_NC 0 False
      else if t = LR_RELOC_ARM64_ABS64 then mapped R_AARCH64_ABS64 0 False
      else mapped R_AARCH64_CALL26 0 True)"

definition elf_reloc_riscv64 :: "u8 \<Rightarrow> lr_reloc_mapped" where
  "elf_reloc_riscv64 t = (if t = LR_RELOC_RISCV64_JAL then mapped R_RISCV_JAL 0 True else mapped R_RISCV_NONE 0 False)"

section \<open>Strings\<close>

definition name_bytes :: "string \<Rightarrow> bytes" where
  "name_bytes s = map of_char s"

definition cstr :: "string \<Rightarrow> bytes" where
  "cstr s = name_bytes s @ [0]"

definition shstrtab_content :: bytes where
  "shstrtab_content = 0 # concat (map cstr [''.text'', ''.data'', ''.rela.text'', ''.symtab'', ''.strtab'', ''.shstrtab'', ''.rela.data''])"

text \<open>The offsets of the symbol names, and the size of the string table.\<close>

fun str_offsets :: "lr_obj_symbol list \<Rightarrow> u64 \<Rightarrow> u32 list \<times> u64" where
  "str_offsets [] strtab_size = ([], strtab_size)"
| "str_offsets (s # ss) strtab_size =
     (case str_offsets ss (strtab_size + (of_nat (length (os_name s)) + 1)) of (offs, end') \<Rightarrow> (ucast strtab_size # offs, end'))"

section \<open>The order of the symbols\<close>

definition is_local_def :: "lr_obj_symbol \<Rightarrow> bool" where
  "is_local_def s \<longleftrightarrow> os_defined s \<and> os_local s"

record sym_places =
  elf_sym_index :: "u32 list"
  sym_order :: "u32 list"
  next_local :: u32
  next_global :: u32
  local_pos :: u32
  global_pos :: u32

fun place_symbols :: "lr_obj_symbol list \<Rightarrow> u32 \<Rightarrow> sym_places \<Rightarrow> sym_places" where
  "place_symbols [] i p = p"
| "place_symbols (s # ss) i p =
     place_symbols ss (i + 1)
       (if is_local_def s
        then p\<lparr>elf_sym_index := (elf_sym_index p)[unat i := next_local p], next_local := next_local p + 1,
               sym_order := (sym_order p)[unat (local_pos p) := i], local_pos := local_pos p + 1\<rparr>
        else p\<lparr>elf_sym_index := (elf_sym_index p)[unat i := next_global p], next_global := next_global p + 1,
               sym_order := (sym_order p)[unat (global_pos p) := i], global_pos := global_pos p + 1\<rparr>)"

section \<open>The layout\<close>

record elf_layout =
  lo_text_off :: u64
  lo_data_off :: u64
  lo_rela_text_off :: u64
  lo_rela_text_size :: u64
  lo_rela_data_off :: u64
  lo_rela_data_size :: u64
  lo_symtab_off :: u64
  lo_symtab_size :: u64
  lo_strtab_off :: u64
  lo_shstrtab_off :: u64
  lo_shdr_off :: u64
  lo_total_size :: u64

record elf_numbers =
  has_data :: bool
  has_data_relocs :: bool
  data_shndx :: u16
  rela_text_shndx :: u16
  rela_data_shndx :: u16
  symtab_shndx :: u16
  strtab_shndx :: u16
  shstrtab_shndx :: u16
  num_sections :: u16
  first_local :: u32
  first_global :: u32
  total_syms :: u32

definition elf_numbers_of :: "bytes \<Rightarrow> lr_objfile_ctx \<Rightarrow> elf_numbers" where
  "elf_numbers_of data oc =
     (let hd = (of_nat (length data) > (0 :: u64)); hdr = ((of_nat (length (data_relocs oc)) :: u32) > 0);
          rt = (if hd then 3 else 2); rd = (if hdr then rt + 1 else 0); st = (if hdr then rd else rt) + 1;
          nsym = of_nat (length (oc_symbols oc)); locals = of_nat (length (filter is_local_def (oc_symbols oc)));
          fl = 1 + (if hd then 2 else 1); fg = fl + locals
      in \<lparr>has_data = hd, has_data_relocs = hdr, data_shndx = (if hd then 2 else 0), rela_text_shndx = rt, rela_data_shndx = rd,
          symtab_shndx = st, strtab_shndx = st + 1, shstrtab_shndx = st + 2, num_sections = st + 3,
          first_local = fl, first_global = fg, total_syms = fg + (nsym - locals)\<rparr>)"

definition elf_layout_of :: "elf_numbers \<Rightarrow> bytes \<Rightarrow> bytes \<Rightarrow> lr_objfile_ctx \<Rightarrow> u64 \<Rightarrow> elf_layout" where
  "elf_layout_of n code data oc strtab_size =
     (let text_off = 64; text_end = text_off + of_nat (length code);
          data_off = (if has_data n then obj_align_up text_end 8 else text_end);
          data_end = data_off + (if has_data n then of_nat (length data) else 0);
          rela_text_off = obj_align_up data_end 8;
          rela_text_size = ucast (of_nat (length (oc_relocs oc)) * 24 :: u32);
          rela_text_end = rela_text_off + rela_text_size;
          rela_data_off = (if has_data_relocs n then obj_align_up rela_text_end 8 else rela_text_end);
          rela_data_size = (if has_data_relocs n then ucast (of_nat (length (data_relocs oc)) * 24 :: u32) else 0);
          rela_data_end = rela_data_off + rela_data_size;
          symtab_off = obj_align_up rela_data_end 8;
          symtab_size = ucast (total_syms n * 24);
          strtab_off = symtab_off + symtab_size;
          shstrtab_off = strtab_off + strtab_size;
          shstrtab_end = shstrtab_off + of_nat (length shstrtab_content);
          shdr_off = obj_align_up shstrtab_end 8
      in \<lparr>lo_text_off = text_off, lo_data_off = data_off, lo_rela_text_off = rela_text_off, lo_rela_text_size = rela_text_size,
          lo_rela_data_off = rela_data_off, lo_rela_data_size = rela_data_size, lo_symtab_off = symtab_off, lo_symtab_size = symtab_size,
          lo_strtab_off = strtab_off, lo_shstrtab_off = shstrtab_off, lo_shdr_off = shdr_off,
          lo_total_size = shdr_off + ucast (num_sections n) * 64\<rparr>)"

section \<open>The parts of the file\<close>

definition elf_header :: "u16 \<Rightarrow> elf_numbers \<Rightarrow> u64 \<Rightarrow> (cursor \<Rightarrow> cursor) list" where
  "elf_header machine n shdr_off =
     map w8 ELFMAG @
     [w8 ELFCLASS64, w8 ELFDATA2LSB, w8 EV_CURRENT, w8 ELFOSABI_NONE, wpad 8,
      w16 ET_REL, w16 machine, w32 (ucast EV_CURRENT), w64 0, w64 0, w64 shdr_off, w32 0,
      w16 64, w16 0, w16 0, w16 64, w16 (num_sections n), w16 (shstrtab_shndx n)]"

definition rela_entry :: "(u8 \<Rightarrow> lr_reloc_mapped) \<Rightarrow> u32 list \<Rightarrow> lr_obj_reloc \<Rightarrow> (cursor \<Rightarrow> cursor) list" where
  "rela_entry reloc_mapper idx r =
     (let m = reloc_mapper (or_type r)
      in [w64 (ucast (or_offset r)), w64 (ELF64_R_INFO (idx ! unat (or_symbol_idx r)) (native_type m)), w64 (word_of_int (addend m))])"

definition sym_entry :: "u32 \<Rightarrow> u8 \<Rightarrow> u16 \<Rightarrow> u64 \<Rightarrow> (cursor \<Rightarrow> cursor) list" where
  "sym_entry name info shndx value = [w32 name, w8 info, w8 0, w16 shndx, w64 value, w64 0]"

definition section_sym :: "u16 \<Rightarrow> (cursor \<Rightarrow> cursor) list" where
  "section_sym shndx = sym_entry 0 (ELF64_ST_INFO STB_LOCAL STT_SECTION) shndx 0"

definition symbol_entry :: "u16 \<Rightarrow> u32 \<Rightarrow> lr_obj_symbol \<Rightarrow> (cursor \<Rightarrow> cursor) list" where
  "symbol_entry data_ndx str_off s =
     (let bind' = (if is_local_def s then STB_LOCAL else if os_weak s then STB_WEAK else STB_GLOBAL);
          stt = (if os_defined s \<and> os_section s = 1 then STT_FUNC else STT_NOTYPE)
      in sym_entry str_off (ELF64_ST_INFO bind' stt)
           (if os_defined s then (if os_section s = 1 then 1 else data_ndx) else SHN_UNDEF)
           (if os_defined s then ucast (os_offset s) else 0))"

definition section_header :: "u32 \<Rightarrow> u32 \<Rightarrow> u64 \<Rightarrow> u64 \<Rightarrow> u64 \<Rightarrow> u32 \<Rightarrow> u32 \<Rightarrow> u64 \<Rightarrow> u64 \<Rightarrow> (cursor \<Rightarrow> cursor) list" where
  "section_header name type flags off sz link info align entsize =
     [w32 name, w32 type, w64 flags, w64 0, w64 off, w64 sz, w32 link, w32 info, w64 align, w64 entsize]"

definition section_headers :: "elf_numbers \<Rightarrow> elf_layout \<Rightarrow> bytes \<Rightarrow> bytes \<Rightarrow> u64 \<Rightarrow> (cursor \<Rightarrow> cursor) list" where
  "section_headers n l code data strtab_size =
     section_header 1 SHT_PROGBITS (SHF_ALLOC OR SHF_EXECINSTR) (lo_text_off l) (of_nat (length code)) 0 0 16 0 @
     (if has_data n then section_header 7 SHT_PROGBITS (SHF_WRITE OR SHF_ALLOC) (lo_data_off l) (of_nat (length data)) 0 0 8 0 else []) @
     section_header 13 SHT_RELA SHF_INFO_LINK (lo_rela_text_off l) (lo_rela_text_size l) (ucast (symtab_shndx n)) 1 8 24 @
     (if has_data_relocs n
      then section_header 50 SHT_RELA SHF_INFO_LINK (lo_rela_data_off l) (lo_rela_data_size l) (ucast (symtab_shndx n)) (ucast (data_shndx n)) 8 24
      else []) @
     section_header 24 SHT_SYMTAB 0 (lo_symtab_off l) (lo_symtab_size l) (ucast (strtab_shndx n)) (first_global n) 8 24 @
     section_header 32 SHT_STRTAB 0 (lo_strtab_off l) strtab_size 0 0 1 0 @
     section_header 40 SHT_STRTAB 0 (lo_shstrtab_off l) (of_nat (length shstrtab_content)) 0 0 1 0"

text \<open>A run of writes that starts at an offset of the buffer.\<close>

definition write_at :: "u64 \<Rightarrow> (cursor \<Rightarrow> cursor) list \<Rightarrow> bytes \<Rightarrow> bytes" where
  "write_at off ws buf = fst (w_all ws (buf, unat off))"

definition elf_object :: "(u64 \<Rightarrow> bool) \<Rightarrow> bytes \<Rightarrow> bytes \<Rightarrow> lr_objfile_ctx \<Rightarrow> u16 \<Rightarrow> (u8 \<Rightarrow> lr_reloc_mapped) \<Rightarrow> bytes option option" where
  "elf_object mem code data oc machine reloc_mapper =
     (let n = elf_numbers_of data oc; nsym = length (oc_symbols oc)
      in if \<not> mem (4 * of_nat nsym) then Some None
      else case str_offsets (oc_symbols oc) 1 of (offs, strtab_size) \<Rightarrow>
       let l = elf_layout_of n code data oc strtab_size;
           p = place_symbols (oc_symbols oc) 0
                 \<lparr>elf_sym_index = replicate nsym 0, sym_order = replicate nsym 0, next_local = first_local n, next_global = first_global n,
                  local_pos = 0, global_pos = first_global n - first_local n\<rparr>
       in if \<not> mem (lo_total_size l) then Some None
          else if \<exists>r \<in> set (oc_relocs oc @ (if has_data_relocs n then data_relocs oc else [])). nsym \<le> unat (or_symbol_idx r) then None
          else
            let buf = write_at 0 (elf_header machine n (lo_shdr_off l)) (replicate (unat (lo_total_size l)) 0);
                buf = write_at (lo_text_off l) [wbytes code] buf;
                buf = (if has_data n then write_at (lo_data_off l) [wbytes data] buf else buf);
                buf = write_at (lo_rela_text_off l) (concat (map (rela_entry reloc_mapper (elf_sym_index p)) (oc_relocs oc))) buf;
                buf = (if has_data_relocs n
                       then write_at (lo_rela_data_off l) (concat (map (rela_entry reloc_mapper (elf_sym_index p)) (data_relocs oc))) buf else buf);
                buf = write_at (lo_symtab_off l + 24)
                        (section_sym 1 @ (if has_data n then section_sym (data_shndx n) else []) @
                         concat (map (\<lambda>i. symbol_entry (data_shndx n) (offs ! unat i) (oc_symbols oc ! unat i)) (sym_order p))) buf;
                buf = write_at (lo_strtab_off l) (w8 0 # map (\<lambda>s. wbytes (cstr (os_name s))) (oc_symbols oc)) buf;
                buf = write_at (lo_shstrtab_off l) [wbytes shstrtab_content] buf
            in Some (Some (write_at (lo_shdr_off l + 64) (section_headers n l code data strtab_size) buf)))"

definition write_elf ::
  "(u64 \<Rightarrow> bool) \<Rightarrow> file_sink \<Rightarrow> bytes \<Rightarrow> bytes \<Rightarrow> lr_objfile_ctx \<Rightarrow> u16 \<Rightarrow> (u8 \<Rightarrow> lr_reloc_mapped) \<Rightarrow> (int \<times> file_sink) option" where
  "write_elf mem out code data oc machine reloc_mapper =
     map_option (\<lambda>buf. exec_write buf out) (elf_object mem code data oc machine reloc_mapper)"

end
