(* ===== verification/Elf_Reader.thy ===== *)
theory Elf_Reader
  imports Elf_Object
begin

text \<open>
  The relocatable object can be read back.  A reader of the ELF format is defined independently of the
  writer, by offsets into the file; it finds the sections through the section headers, the names
  through the string tables and the symbol of a relocation through its index in the symbol table.  The
  file of \<open>write_elf\<close> reads back as the sections, symbols and relocations of the object context.
\<close>

unbundle bit_operations_syntax

section \<open>A reader\<close>

definition word16_at :: "bytes \<Rightarrow> nat \<Rightarrow> u16" where
  "word16_at buf off = le_join (part buf off 2)"

record shdr =
  sh_name :: u32
  sh_type :: u32
  sh_flags :: u64
  sh_addr :: u64
  sh_offset :: u64
  sh_size :: u64
  sh_link :: u32
  sh_info :: u32
  sh_addralign :: u64
  sh_entsize :: u64

definition read_shdr :: "bytes \<Rightarrow> shdr" where
  "read_shdr b =
     \<lparr>sh_name = word32_at b 0, sh_type = word32_at b 4, sh_flags = word64_at b 8, sh_addr = word64_at b 16, sh_offset = word64_at b 24,
      sh_size = word64_at b 32, sh_link = word32_at b 40, sh_info = word32_at b 44, sh_addralign = word64_at b 48, sh_entsize = word64_at b 56\<rparr>"

text \<open>The section headers of a file, the bytes of a section, and a name in a string table.\<close>

definition elf_shdrs :: "bytes \<Rightarrow> shdr list" where
  "elf_shdrs f = map (\<lambda>i. read_shdr (part f (unat (word64_at f 40) + 64 * i) 64)) [0..<unat (word16_at f 60)]"

definition sec_bytes :: "bytes \<Rightarrow> shdr \<Rightarrow> bytes" where
  "sec_bytes f h = part f (unat (sh_offset h)) (unat (sh_size h))"

definition string_at :: "bytes \<Rightarrow> nat \<Rightarrow> bytes" where
  "string_at tab off = takeWhile (\<lambda>b. b \<noteq> 0) (drop off tab)"

definition sec_name :: "bytes \<Rightarrow> shdr \<Rightarrow> bytes" where
  "sec_name f h = string_at (sec_bytes f (elf_shdrs f ! unat (word16_at f 62))) (unat (sh_name h))"

definition find_section :: "bytes \<Rightarrow> string \<Rightarrow> shdr option" where
  "find_section f name = find (\<lambda>h. sec_name f h = name_bytes name) (elf_shdrs f)"

record elf_sym =
  st_name :: bytes
  st_info :: u8
  st_shndx :: u16
  st_value :: u64

definition read_sym :: "bytes \<Rightarrow> bytes \<Rightarrow> elf_sym" where
  "read_sym strtab b = \<lparr>st_name = string_at strtab (unat (word32_at b 0)), st_info = b ! 4, st_shndx = word16_at b 6, st_value = word64_at b 8\<rparr>"

definition read_syms :: "bytes \<Rightarrow> shdr \<Rightarrow> elf_sym list" where
  "read_syms f h =
     (let tab = sec_bytes f h; strtab = sec_bytes f (elf_shdrs f ! unat (sh_link h))
      in map (\<lambda>i. read_sym strtab (part tab (24 * i) 24)) [0..<length tab div 24])"

record elf_rel =
  r_offset :: u64
  r_type :: u32
  r_addend :: u64
  r_sym :: elf_sym

definition read_rel :: "elf_sym list \<Rightarrow> bytes \<Rightarrow> elf_rel" where
  "read_rel syms b =
     \<lparr>r_offset = word64_at b 0, r_type = ucast (word64_at b 8), r_addend = word64_at b 16, r_sym = syms ! unat (drop_bit 32 (word64_at b 8))\<rparr>"

definition read_rels :: "bytes \<Rightarrow> shdr \<Rightarrow> elf_rel list" where
  "read_rels f h =
     (let tab = sec_bytes f h; syms = read_syms f (elf_shdrs f ! unat (sh_link h))
      in map (\<lambda>i. read_rel syms (part tab (24 * i) 24)) [0..<length tab div 24])"

section \<open>Tables of entries\<close>

lemma part_append: "length xs = o' \<Longrightarrow> part (xs @ ys) o' n = part ys 0 n"
  by (simp add: part_def)

lemma part_mid: "length xs = off \<Longrightarrow> length ys = n \<Longrightarrow> part (xs @ ys @ zs) off n = ys"
  by (simp add: part_def)

lemma part_split: "part buf off (m + n) = part buf off m @ part buf (off + m) n"
  by (simp add: part_def take_add add.commute)

lemma entry_in_table:
  assumes "\<And>x. x \<in> set xs \<Longrightarrow> length (enc x) = k" and "i < length xs"
  shows "part (concat (map enc xs)) (k * i) k = enc (xs ! i)"
  using assms
proof (induction xs arbitrary: i)
  case (Cons x xs)
  then have x: "length (enc x) = k" by simp
  show ?case
  proof (cases i)
    case 0
    then show ?thesis using x by (simp add: part_def)
  next
    case (Suc j)
    then have "part (concat (map enc (x # xs))) (k * i) k = part (concat (map enc xs)) (k * j) k"
      using x by (simp add: part_def)
    then show ?thesis using Cons Suc by simp
  qed
qed simp

lemma length_table: "(\<And>x. x \<in> set xs \<Longrightarrow> length (enc x) = k) \<Longrightarrow> length (concat (map enc xs)) = k * length xs"
  by (induction xs) simp_all

text \<open>Buffers filled region by region.\<close>

definition fill :: "(nat \<times> bytes) list \<Rightarrow> bytes \<Rightarrow> bytes" where
  "fill rs buf = foldl (\<lambda>b r. overwrite b (fst r) (snd r)) buf rs"

definition region_end :: "nat \<times> bytes \<Rightarrow> nat" where
  "region_end r = fst r + length (snd r)"

lemma fill_Cons: "fill (r # rs) buf = fill rs (overwrite buf (fst r) (snd r))"
  by (simp add: fill_def)

lemma length_fill: "(\<And>r. r \<in> set rs \<Longrightarrow> region_end r \<le> length buf) \<Longrightarrow> length (fill rs buf) = length buf"
  by (induction rs arbitrary: buf) (simp_all add: fill_def region_end_def)

lemma fill_outside:
  assumes "\<And>r. r \<in> set rs \<Longrightarrow> region_end r \<le> length buf" and "\<And>r. r \<in> set rs \<Longrightarrow> i + n \<le> fst r \<or> region_end r \<le> i" and "i + n \<le> length buf"
  shows "part (fill rs buf) i n = part buf i n"
  using assms
proof (induction rs arbitrary: buf)
  case (Cons r rs)
  let ?b = "overwrite buf (fst r) (snd r)"
  have r: "region_end r \<le> length buf" "i + n \<le> fst r \<or> region_end r \<le> i" using Cons.prems by simp_all
  then have "length ?b = length buf" by (simp add: region_end_def)
  then have "part (fill rs ?b) i n = part ?b i n" using Cons.IH [of ?b] Cons.prems by simp
  also have "\<dots> = part buf i n" using r Cons.prems(3) by (intro part_overwrite_other) (auto simp: region_end_def)
  finally show ?case by (simp add: fill_Cons)
qed (simp add: fill_def)

lemma fill_region:
  assumes "\<And>r. r \<in> set rs \<Longrightarrow> region_end r \<le> length buf" and "sorted_wrt (\<lambda>q r. region_end q \<le> fst r) rs" and "(off, xs) \<in> set rs"
  shows "part (fill rs buf) off (length xs) = xs"
  using assms
proof (induction rs arbitrary: buf)
  case (Cons r rs)
  let ?b = "overwrite buf (fst r) (snd r)"
  have len: "length ?b = length buf" and r: "region_end r \<le> length buf" using Cons.prems by (simp_all add: region_end_def)
  show ?case
  proof (cases "(off, xs) = r")
    case True
    have "part (fill rs ?b) off (length xs) = part ?b off (length xs)"
      by (rule fill_outside) (use Cons.prems True len r in \<open>auto simp: region_end_def\<close>)
    then show ?thesis using True r by (auto simp: fill_Cons part_overwrite region_end_def)
  next
    case False
    then show ?thesis using Cons.IH [of ?b] Cons.prems len by (simp add: fill_Cons)
  qed
qed simp

lemma write_at_emits: "emits ws xs \<Longrightarrow> unat off \<le> length buf \<Longrightarrow> write_at off ws buf = overwrite buf (unat off) xs"
  by (simp add: write_at_def emitsD)

section \<open>The order of the symbols\<close>

definition rank :: "lr_obj_symbol list \<Rightarrow> nat \<Rightarrow> nat" where
  "rank ss i =
     (if is_local_def (ss ! i) then length (filter is_local_def (take i ss))
      else length (filter is_local_def ss) + length (filter (\<lambda>s. \<not> is_local_def s) (take i ss)))"

definition file_order :: "lr_obj_symbol list \<Rightarrow> lr_obj_symbol list" where
  "file_order ss = filter is_local_def ss @ filter (\<lambda>s. \<not> is_local_def s) ss"

lemma filter_at:
  assumes "i < length xs" and "P (xs ! i)"
  shows "filter P xs ! length (filter P (take i xs)) = xs ! i" and "length (filter P (take i xs)) < length (filter P xs)"
proof -
  have "filter P xs = filter P (take i xs) @ xs ! i # filter P (drop (Suc i) xs)"
    using assms by (metis filter.simps(2) filter_append id_take_nth_drop)
  then show "filter P xs ! length (filter P (take i xs)) = xs ! i" "length (filter P (take i xs)) < length (filter P xs)" by simp_all
qed

lemma filter_less:
  assumes "i < j" and "j < length xs" and "P (xs ! i)"
  shows "length (filter P (take i xs)) < length (filter P (take j xs))"
proof -
  have "take i (take j xs) = take i xs" using assms(1) by simp
  then show ?thesis using filter_at(2) [of i "take j xs" P] assms by simp
qed

lemma length_file_order [simp]: "length (file_order ss) = length ss"
  by (simp add: file_order_def sum_length_filter_compl)

lemma file_order_rank:
  assumes "i < length ss"
  shows "file_order ss ! rank ss i = ss ! i" and "rank ss i < length ss"
    and "rank ss i < length (filter is_local_def ss) \<longleftrightarrow> is_local_def (ss ! i)"
proof -
  have n: "length ss = length (filter is_local_def ss) + length (filter (\<lambda>s. \<not> is_local_def s) ss)"
    by (simp add: sum_length_filter_compl)
  show "file_order ss ! rank ss i = ss ! i" "rank ss i < length ss" "rank ss i < length (filter is_local_def ss) \<longleftrightarrow> is_local_def (ss ! i)"
    using filter_at [OF assms, of is_local_def] filter_at [OF assms, of "\<lambda>s. \<not> is_local_def s"] n
    by (auto simp: rank_def file_order_def nth_append)
qed

lemma rank_less:
  assumes "i < j" and "j < length ss"
  shows "rank ss i \<noteq> rank ss j"
proof (cases "is_local_def (ss ! i) = is_local_def (ss ! j)")
  case True
  then show ?thesis
    using filter_less [OF assms, of is_local_def] filter_less [OF assms, of "\<lambda>s. \<not> is_local_def s"] by (auto simp: rank_def)
next
  case False
  then show ?thesis using file_order_rank(3) [of i ss] file_order_rank(3) [of j ss] assms by auto
qed

lemma rank_surj:
  assumes "q < length ss"
  obtains i where "i < length ss" and "rank ss i = q"
proof -
  have inj: "inj_on (rank ss) {..<length ss}"
    by (rule inj_onI) (metis lessThan_iff linorder_neqE_nat rank_less)
  have "rank ss ` {..<length ss} \<subseteq> {..<length ss}" using file_order_rank(2) by auto
  then have "rank ss ` {..<length ss} = {..<length ss}" by (rule endo_inj_surj [OF finite_lessThan _ inj])
  then show ?thesis using assms that by (metis imageE lessThan_iff)
qed

text \<open>The state of the loop after the first \<open>k\<close> symbols.\<close>

definition placed :: "lr_obj_symbol list \<Rightarrow> nat \<Rightarrow> nat \<Rightarrow> sym_places \<Rightarrow> bool" where
  "placed ss fl k p \<longleftrightarrow>
     (let nl = length (filter is_local_def ss); l = length (filter is_local_def (take k ss));
          g = length (filter (\<lambda>s. \<not> is_local_def s) (take k ss))
      in length (elf_sym_index p) = length ss \<and> length (sym_order p) = length ss \<and>
         next_local p = of_nat (fl + l) \<and> next_global p = of_nat (fl + nl + g) \<and> local_pos p = of_nat l \<and> global_pos p = of_nat (nl + g) \<and>
         (\<forall>i < k. elf_sym_index p ! i = of_nat (fl + rank ss i) \<and> sym_order p ! rank ss i = of_nat i))"

lemma place_step:
  assumes "placed ss fl k p" and "k < length ss" and "fl + length ss < 2 ^ 32"
  shows "placed ss fl (Suc k)
    (if is_local_def (ss ! k)
     then p\<lparr>elf_sym_index := (elf_sym_index p)[unat (of_nat k :: u32) := next_local p], next_local := next_local p + 1,
            sym_order := (sym_order p)[unat (local_pos p) := of_nat k], local_pos := local_pos p + 1\<rparr>
     else p\<lparr>elf_sym_index := (elf_sym_index p)[unat (of_nat k :: u32) := next_global p], next_global := next_global p + 1,
            sym_order := (sym_order p)[unat (global_pos p) := of_nat k], global_pos := global_pos p + 1\<rparr>)"
proof -
  let ?nl = "length (filter is_local_def ss)" and ?l = "length (filter is_local_def (take k ss))"
    and ?g = "length (filter (\<lambda>s. \<not> is_local_def s) (take k ss))"
  have p: "length (elf_sym_index p) = length ss" "length (sym_order p) = length ss" "next_local p = of_nat (fl + ?l)"
    "next_global p = of_nat (fl + ?nl + ?g)" "local_pos p = of_nat ?l" "global_pos p = of_nat (?nl + ?g)"
    "\<forall>i < k. elf_sym_index p ! i = of_nat (fl + rank ss i) \<and> sym_order p ! rank ss i = of_nat i"
    using assms(1) by (simp_all add: placed_def Let_def)
  have tk: "take (Suc k) ss = take k ss @ [ss ! k]" using assms(2) by (rule take_Suc_conv_app_nth)
  have k: "unat (of_nat k :: u32) = k" using assms(2,3) by (simp add: word_nat)
  have r: "rank ss k < length ss" "rank ss k = (if is_local_def (ss ! k) then ?l else ?nl + ?g)"
    using file_order_rank(2) [OF assms(2)] by (simp_all add: rank_def)
  then have ur: "unat (of_nat (rank ss k) :: u32) = rank ss k" using assms(3) by (simp add: word_nat)
  have ne: "\<forall>i < k. rank ss k \<noteq> rank ss i" using rank_less [OF _ assms(2)] by metis
  show ?thesis
  proof (cases "is_local_def (ss ! k)")
    case True
    then have "rank ss k = ?l" "unat (local_pos p) = rank ss k" using r(2) p(5) ur by simp_all
    then show ?thesis using True p k ne r(1) assms(2) tk
      by (auto simp: placed_def Let_def less_Suc_eq nth_list_update)
  next
    case False
    then have "rank ss k = ?nl + ?g" "unat (global_pos p) = rank ss k" using r(2) p(6) ur by simp_all
    then show ?thesis using False p k ne r(1) assms(2) tk
      by (auto simp: placed_def Let_def less_Suc_eq nth_list_update add.assoc)
  qed
qed

lemma place_symbols_ok:
  assumes "placed ss fl k p" and "k \<le> length ss" and "fl + length ss < 2 ^ 32"
  shows "placed ss fl (length ss) (place_symbols (drop k ss) (of_nat k) p)"
  using assms
proof (induction "length ss - k" arbitrary: k p)
  case (Suc m)
  then have k: "k < length ss" by simp
  then have d: "drop k ss = ss ! k # drop (Suc k) ss" by (simp add: Cons_nth_drop_Suc)
  note st = place_step [OF Suc.prems(1) k Suc.prems(3)]
  have "m = length ss - Suc k" "Suc k \<le> length ss" using Suc.hyps(2) k by simp_all
  from Suc.hyps(1) [OF this(1) st this(2) Suc.prems(3)] show ?case unfolding d by (simp add: add.commute)
qed simp

lemma places_of_objects:
  assumes "fl + length ss < 2 ^ 32"
  defines "p \<equiv> place_symbols ss 0 \<lparr>elf_sym_index = replicate (length ss) 0, sym_order = replicate (length ss) 0, next_local = of_nat fl,
      next_global = of_nat (fl + length (filter is_local_def ss)), local_pos = 0, global_pos = of_nat (length (filter is_local_def ss))\<rparr>"
  shows "length (sym_order p) = length ss"
    and "map (\<lambda>i. ss ! unat i) (sym_order p) = file_order ss"
    and "\<And>i. i < length ss \<Longrightarrow> unat (elf_sym_index p ! i) = fl + rank ss i"
    and "\<And>x. x \<in> set (sym_order p) \<Longrightarrow> unat x < length ss"
proof -
  have pl: "placed ss fl (length ss) p"
    unfolding p_def using place_symbols_ok [of ss fl 0] assms(1) by (simp add: placed_def Let_def)
  then show len: "length (sym_order p) = length ss" by (simp add: placed_def Let_def)
  have at: "elf_sym_index p ! i = of_nat (fl + rank ss i)" "sym_order p ! rank ss i = of_nat i" if "i < length ss" for i
    using pl that by (simp_all add: placed_def Let_def)
  have u: "unat (of_nat i :: u32) = i" if "i < length ss" for i using that assms(1) by (simp add: word_nat)
  show "map (\<lambda>i. ss ! unat i) (sym_order p) = file_order ss"
  proof (rule nth_equalityI)
    fix q
    assume "q < length (map (\<lambda>i. ss ! unat i) (sym_order p))"
    then have q: "q < length ss" using len by simp
    then obtain i where "i < length ss" "rank ss i = q" by (rule rank_surj)
    then show "map (\<lambda>i. ss ! unat i) (sym_order p) ! q = file_order ss ! q"
      using at(2) [of i] file_order_rank(1) [of i ss] u q len by auto
  qed (simp add: len)
  show "unat (elf_sym_index p ! i) = fl + rank ss i" if "i < length ss" for i
    using at(1) [OF that] file_order_rank(2) [OF that] assms(1) by (simp add: unat_of_nat_small del: of_nat_add)
  show "unat x < length ss" if x: "x \<in> set (sym_order p)" for x
  proof -
    obtain q where "q < length ss" "x = sym_order p ! q" using x len by (metis in_set_conv_nth)
    then show ?thesis using at(2) u by (metis rank_surj)
  qed
qed

section \<open>Strings\<close>

definition str_pos :: "string list \<Rightarrow> nat \<Rightarrow> nat" where
  "str_pos names i = length (concat (map cstr (take i names)))"

definition plain_name :: "string \<Rightarrow> bool" where
  "plain_name s \<longleftrightarrow> CHR 0x00 \<notin> set s"

lemma length_cstr [simp]: "length (cstr s) = length s + 1"
  by (simp add: cstr_def name_bytes_def)

lemma plain_bytes: "plain_name s \<Longrightarrow> 0 \<notin> set (name_bytes s)"
proof
  assume "plain_name s" and "0 \<in> set (name_bytes s)"
  then obtain c where c: "c \<in> set s" "(of_char c :: u8) = 0" by (auto simp: name_bytes_def)
  have "(of_nat (of_char c) :: u8) = 0" using c(2) by (simp add: of_nat_of_char)
  moreover have "of_char c < (256 :: nat)" using of_char_mod_256 [of c] by (metis mod_less_divisor zero_less_numeral)
  ultimately have "of_char c = (0 :: nat)" using unat_of_nat_small [of "of_char c", where 'a = 8] by simp
  then have "char_of (of_char c :: nat) = CHR 0x00" by (simp only:) (simp add: char_of_def)
  then have "c = CHR 0x00" by simp
  then show False using c(1) \<open>plain_name s\<close> by (simp add: plain_name_def)
qed

lemma take_string: "0 \<notin> set xs \<Longrightarrow> takeWhile (\<lambda>b. b \<noteq> 0) (xs @ 0 # ys) = (xs :: bytes)"
  by (induction xs) auto

lemma string_at_pos:
  assumes "i < length names" and "plain_name (names ! i)" and "length pre = k"
  shows "string_at (pre @ concat (map cstr names)) (k + str_pos names i) = name_bytes (names ! i)"
proof -
  have "names = take i names @ names ! i # drop (Suc i) names" using assms(1) by (rule id_take_nth_drop)
  then have "concat (map cstr names) = concat (map cstr (take i names)) @ cstr (names ! i) @ concat (map cstr (drop (Suc i) names))"
    by (metis concat.simps(2) concat_append list.simps(9) map_append)
  then have "drop (k + str_pos names i) (pre @ concat (map cstr names)) = cstr (names ! i) @ concat (map cstr (drop (Suc i) names))"
    using assms(3) by (simp add: str_pos_def)
  then show ?thesis using take_string [OF plain_bytes [OF assms(2)]] by (simp add: string_at_def cstr_def)
qed

lemma str_offsets_ok:
  assumes "unat z + length (concat (map (\<lambda>s. cstr (os_name s)) ss)) < 2 ^ 32"
  shows "length (fst (str_offsets ss z)) = length ss \<and>
    unat (snd (str_offsets ss z)) = unat z + length (concat (map (\<lambda>s. cstr (os_name s)) ss)) \<and>
    (\<forall>i < length ss. unat (fst (str_offsets ss z) ! i) = unat z + str_pos (map os_name ss) i)"
  using assms
proof (induction ss arbitrary: z)
  case (Cons s ss)
  have len: "unat z + (length (os_name s) + 1) + length (concat (map (\<lambda>s. cstr (os_name s)) ss)) < 2 ^ 32"
    using Cons.prems by simp
  let ?n = "of_nat (length (os_name s)) :: u64"
  have n: "unat (?n + 1) = length (os_name s) + 1" using len by (simp add: unat_add_nowrap unat_of_nat_small)
  have z: "unat (z + (?n + 1)) = unat z + (length (os_name s) + 1)" using len n by (simp add: unat_add_nowrap)
  have c: "unat (ucast z :: u32) = unat z" using len by (simp add: unsigned_ucast_eq take_bit_nat_eq_self)
  have pos: "str_pos (map os_name (s # ss)) (Suc k) = length (os_name s) + 1 + str_pos (map os_name ss) k"
    "str_pos (map os_name (s # ss)) 0 = 0" for k by (simp_all add: str_pos_def)
  note IH = Cons.IH [of "z + (?n + 1)", unfolded z, OF len]
  have "unat (fst (str_offsets (s # ss) z) ! i) = unat z + str_pos (map os_name (s # ss)) i" if "i < length (s # ss)" for i
    using that IH c by (cases i) (simp_all add: split_beta pos del: list.map)
  then show ?case using IH by (simp add: split_beta)
qed simp

text \<open>The names of the sections.\<close>

lemma section_names:
  "string_at shstrtab_content 1 = name_bytes ''.text''" "string_at shstrtab_content 7 = name_bytes ''.data''"
  "string_at shstrtab_content 13 = name_bytes ''.rela.text''" "string_at shstrtab_content 24 = name_bytes ''.symtab''"
  "string_at shstrtab_content 32 = name_bytes ''.strtab''" "string_at shstrtab_content 40 = name_bytes ''.shstrtab''"
  "string_at shstrtab_content 50 = name_bytes ''.rela.data''" "string_at shstrtab_content 0 = []" "length shstrtab_content = 61"
  by code_simp+

section \<open>Entries\<close>

definition shdr_bytes :: "shdr \<Rightarrow> bytes" where
  "shdr_bytes h = le_split 4 (sh_name h) @ le_split 4 (sh_type h) @ le_split 8 (sh_flags h) @ le_split 8 (sh_addr h) @ le_split 8 (sh_offset h) @
     le_split 8 (sh_size h) @ le_split 4 (sh_link h) @ le_split 4 (sh_info h) @ le_split 8 (sh_addralign h) @ le_split 8 (sh_entsize h)"

definition sym_bytes :: "u32 \<Rightarrow> u8 \<Rightarrow> u16 \<Rightarrow> u64 \<Rightarrow> bytes" where
  "sym_bytes name info shndx value = le_split 4 name @ [info, 0] @ le_split 2 shndx @ le_split 8 value @ le_split 8 (0 :: u64)"

definition rela_bytes :: "u64 \<Rightarrow> u64 \<Rightarrow> u64 \<Rightarrow> bytes" where
  "rela_bytes off info add = le_split 8 off @ le_split 8 info @ le_split 8 add"

lemma length_entries [simp]:
  "length (shdr_bytes h) = 64" "length (sym_bytes nm info ndx v) = 24" "length (rela_bytes off i a) = 24"
  by (simp_all add: shdr_bytes_def sym_bytes_def rela_bytes_def)

lemma read_shdr_bytes: "read_shdr (shdr_bytes h) = h"
  by (cases h) (simp add: read_shdr_def shdr_bytes_def word32_at_def word64_at_def part_def)

lemma read_sym_bytes: "read_sym strtab (sym_bytes nm info ndx v) =
    \<lparr>st_name = string_at strtab (unat nm), st_info = info, st_shndx = ndx, st_value = v\<rparr>"
  by (simp add: read_sym_def sym_bytes_def word16_at_def word32_at_def word64_at_def part_def nth_append)

lemma r_info_parts: "drop_bit 32 (ELF64_R_INFO symbol ty) = ucast symbol" "ucast (ELF64_R_INFO symbol ty) = ty"
  unfolding ELF64_R_INFO_def by (rule bit_word_eqI; auto simp: bit_simps dest: bit_imp_le_length)+

lemma read_rela_bytes: "read_rel syms (rela_bytes off (ELF64_R_INFO symbol ty) a) =
    \<lparr>r_offset = off, r_type = ty, r_addend = a, r_sym = syms ! unat symbol\<rparr>"
  by (simp add: read_rel_def rela_bytes_def word64_at_def part_def r_info_parts)

lemma section_header_emits:
  "emits (section_header nm ty fl off sz li info al es)
     (shdr_bytes \<lparr>sh_name = nm, sh_type = ty, sh_flags = fl, sh_addr = 0, sh_offset = off, sh_size = sz, sh_link = li, sh_info = info,
        sh_addralign = al, sh_entsize = es\<rparr>)"
  unfolding section_header_def writer_bytes
  by (rule emits_eq, (rule emits_Cons emits_Nil)+) (simp add: shdr_bytes_def)

lemma sym_entry_emits: "emits (sym_entry nm info ndx v) (sym_bytes nm info ndx v)"
  unfolding sym_entry_def writer_bytes
  by (rule emits_eq, (rule emits_Cons emits_Nil)+) (simp add: sym_bytes_def)

lemma rela_entry_emits:
  "emits (rela_entry m idx r) (rela_bytes (ucast (or_offset r)) (ELF64_R_INFO (idx ! unat (or_symbol_idx r)) (native_type (m (or_type r))))
     (word_of_int (addend (m (or_type r)))))"
  unfolding rela_entry_def Let_def writer_bytes
  by (rule emits_eq, (rule emits_Cons emits_Nil)+) (simp add: rela_bytes_def)

section \<open>The layout\<close>

text \<open>Objects the theorem is about: sizes below the limits of the format, names without a null character, and
  relocations and symbols that refer to what is there.\<close>

definition object_ok :: "bytes \<Rightarrow> bytes \<Rightarrow> lr_objfile_ctx \<Rightarrow> bool" where
  "object_ok code data oc \<longleftrightarrow>
     length code < 2 ^ 32 \<and> length data < 2 ^ 32 \<and> length (oc_relocs oc) < 2 ^ 24 \<and> length (data_relocs oc) < 2 ^ 24 \<and>
     length (oc_symbols oc) < 2 ^ 24 \<and> length (concat (map (\<lambda>s. cstr (os_name s)) (oc_symbols oc))) < 2 ^ 31 \<and>
     (\<forall>s \<in> set (oc_symbols oc). plain_name (os_name s) \<and> (os_defined s \<and> os_section s \<noteq> 1 \<longrightarrow> data \<noteq> [])) \<and>
     (data_relocs oc \<noteq> [] \<longrightarrow> data \<noteq> []) \<and>
     (\<forall>r \<in> set (oc_relocs oc @ data_relocs oc). unat (or_symbol_idx r) < length (oc_symbols oc))"

lemma align8:
  assumes "unat v < 2 ^ 50"
  shows "unat v \<le> unat (obj_align_up v 8)" and "unat (obj_align_up v 8) < unat v + 8"
proof -
  have e: "obj_align_up v 8 = align_up_size v (2 ^ 3)" by (simp add: obj_align_up_def align_up_size_def)
  show "unat v \<le> unat (obj_align_up v 8)" "unat (obj_align_up v 8) < unat v + 8"
    using align_up_pow2_props [of 3 v] assms unfolding e by simp_all
qed

lemma table_size: "k < 2 ^ 25 \<Longrightarrow> unat (ucast (of_nat k * 24 :: u32) :: u64) = 24 * k"
proof -
  assume k: "k < 2 ^ 25"
  have "(of_nat k * 24 :: u32) = of_nat (k * 24)" by simp
  moreover have "unat (of_nat (k * 24) :: u32) = k * 24" using k by (intro unat_of_nat_small) simp
  ultimately have "unat (of_nat k * 24 :: u32) = k * 24" by (simp only:)
  then show ?thesis by (simp add: mult.commute)
qed

lemma numbers_of:
  assumes "object_ok code data oc"
  shows "has_data (elf_numbers_of data oc) \<longleftrightarrow> data \<noteq> []" and "has_data_relocs (elf_numbers_of data oc) \<longleftrightarrow> data_relocs oc \<noteq> []"
    and "first_local (elf_numbers_of data oc) = of_nat (if data = [] then 2 else 3)"
    and "first_global (elf_numbers_of data oc) = of_nat ((if data = [] then 2 else 3) + length (filter is_local_def (oc_symbols oc)))"
    and "total_syms (elf_numbers_of data oc) = of_nat ((if data = [] then 2 else 3) + length (oc_symbols oc))"
proof -
  have d: "(of_nat (length data) > (0 :: u64)) = (data \<noteq> [])"
    using assms unat_of_nat_small [of "length data", where 'a = 64] by (auto simp: object_ok_def word_less_nat_alt)
  have r: "((of_nat (length (data_relocs oc)) :: u32) > 0) = (data_relocs oc \<noteq> [])"
    using assms unat_of_nat_small [of "length (data_relocs oc)", where 'a = 32] by (auto simp: object_ok_def word_less_nat_alt)
  have "length (filter is_local_def (oc_symbols oc)) \<le> length (oc_symbols oc)" by simp
  then show "has_data (elf_numbers_of data oc) \<longleftrightarrow> data \<noteq> []" "has_data_relocs (elf_numbers_of data oc) \<longleftrightarrow> data_relocs oc \<noteq> []"
    "first_local (elf_numbers_of data oc) = of_nat (if data = [] then 2 else 3)"
    "first_global (elf_numbers_of data oc) = of_nat ((if data = [] then 2 else 3) + length (filter is_local_def (oc_symbols oc)))"
    "total_syms (elf_numbers_of data oc) = of_nat ((if data = [] then 2 else 3) + length (oc_symbols oc))"
    by (simp_all add: elf_numbers_of_def Let_def d r of_nat_diff)
qed

lemma sections_count:
  assumes "object_ok code data oc"
  shows "unat (num_sections (elf_numbers_of data oc)) = 6 + (if data = [] then 0 else 1) + (if data_relocs oc = [] then 0 else 1)"
    and "unat (symtab_shndx (elf_numbers_of data oc)) = 3 + (if data = [] then 0 else 1) + (if data_relocs oc = [] then 0 else 1)"
    and "unat (strtab_shndx (elf_numbers_of data oc)) = 4 + (if data = [] then 0 else 1) + (if data_relocs oc = [] then 0 else 1)"
    and "unat (shstrtab_shndx (elf_numbers_of data oc)) = 5 + (if data = [] then 0 else 1) + (if data_relocs oc = [] then 0 else 1)"
    and "data_shndx (elf_numbers_of data oc) = (if data = [] then 0 else 2)"
proof -
  have d: "(of_nat (length data) > (0 :: u64)) = (data \<noteq> [])"
    using numbers_of(1) [OF assms] by (simp add: elf_numbers_of_def Let_def)
  have r: "((of_nat (length (data_relocs oc)) :: u32) > 0) = (data_relocs oc \<noteq> [])"
    using numbers_of(2) [OF assms] by (simp add: elf_numbers_of_def Let_def)
  show "unat (num_sections (elf_numbers_of data oc)) = 6 + (if data = [] then 0 else 1) + (if data_relocs oc = [] then 0 else 1)"
    "unat (symtab_shndx (elf_numbers_of data oc)) = 3 + (if data = [] then 0 else 1) + (if data_relocs oc = [] then 0 else 1)"
    "unat (strtab_shndx (elf_numbers_of data oc)) = 4 + (if data = [] then 0 else 1) + (if data_relocs oc = [] then 0 else 1)"
    "unat (shstrtab_shndx (elf_numbers_of data oc)) = 5 + (if data = [] then 0 else 1) + (if data_relocs oc = [] then 0 else 1)"
    "data_shndx (elf_numbers_of data oc) = (if data = [] then 0 else 2)"
    by (simp_all add: elf_numbers_of_def Let_def d r)
qed

lemma unat_sum: "unat (a :: u64) < 2 ^ 50 \<Longrightarrow> unat b < 2 ^ 50 \<Longrightarrow> unat (a + b) = unat a + unat b"
  by (simp add: unat_add_nowrap)

lemma layout_of:
  assumes ok: "object_ok code data oc" and strsz: "unat strsz < 2 ^ 32"
  defines "n \<equiv> elf_numbers_of data oc" and "fl \<equiv> if data = [] then 2 else 3 :: nat"
  defines "l \<equiv> elf_layout_of n code data oc strsz"
  shows "unat (lo_text_off l) = 64" and "64 + length code \<le> unat (lo_data_off l)"
    and "unat (lo_data_off l) + length data \<le> unat (lo_rela_text_off l)"
    and "unat (lo_rela_text_off l) + 24 * length (oc_relocs oc) \<le> unat (lo_rela_data_off l)"
    and "unat (lo_rela_data_off l) + 24 * length (data_relocs oc) \<le> unat (lo_symtab_off l)"
    and "unat (lo_strtab_off l) = unat (lo_symtab_off l) + 24 * (fl + length (oc_symbols oc))"
    and "unat (lo_shstrtab_off l) = unat (lo_strtab_off l) + unat strsz"
    and "unat (lo_shstrtab_off l) + 61 \<le> unat (lo_shdr_off l)"
    and "unat (lo_total_size l) = unat (lo_shdr_off l) + 64 * unat (num_sections n)"
    and "unat (lo_shdr_off l) < 2 ^ 40"
    and "unat (lo_rela_text_size l) = 24 * length (oc_relocs oc)" and "unat (lo_rela_data_size l) = 24 * length (data_relocs oc)"
    and "unat (lo_symtab_size l) = 24 * (fl + length (oc_symbols oc))"
proof -
  note nums = numbers_of [OF ok, folded n_def fl_def]
  have fl: "fl \<le> 3" by (simp add: fl_def)
  let ?te = "64 + of_nat (length code) :: u64"
  have b: "length code < 2 ^ 32" "length data < 2 ^ 32" "length (oc_relocs oc) < 2 ^ 24" "length (data_relocs oc) < 2 ^ 24" "length (oc_symbols oc) < 2 ^ 24"
    using ok by (simp_all add: object_ok_def)
  have t: "lo_text_off l = 64" by (simp add: l_def elf_layout_of_def Let_def)
  then show "unat (lo_text_off l) = 64" by simp
  have te: "unat ?te = 64 + length code" using b by (simp add: unat_sum unat_of_nat_small)
  have doff: "lo_data_off l = (if data = [] then ?te else obj_align_up ?te 8)" by (simp add: l_def elf_layout_of_def Let_def nums)
  have d: "64 + length code \<le> unat (lo_data_off l)" "unat (lo_data_off l) < 64 + length code + 8"
    using align8 [of ?te] te b by (simp_all add: doff)
  show "64 + length code \<le> unat (lo_data_off l)" by (rule d(1))
  have de: "unat (lo_data_off l + of_nat (length data)) = unat (lo_data_off l) + length data"
    using d b fl by (simp add: unat_sum unat_of_nat_small)
  have rto: "lo_rela_text_off l = obj_align_up (lo_data_off l + of_nat (length data)) 8"
    by (simp add: l_def elf_layout_of_def Let_def nums)
  have rt: "unat (lo_data_off l) + length data \<le> unat (lo_rela_text_off l)" "unat (lo_rela_text_off l) < unat (lo_data_off l) + length data + 8"
    using align8 [of "lo_data_off l + of_nat (length data)"] de d b fl by (simp_all add: rto)
  show "unat (lo_data_off l) + length data \<le> unat (lo_rela_text_off l)" by (rule rt(1))
  show rts: "unat (lo_rela_text_size l) = 24 * length (oc_relocs oc)"
    using table_size [of "length (oc_relocs oc)"] b by (simp add: l_def elf_layout_of_def Let_def)
  have rte: "unat (lo_rela_text_off l + lo_rela_text_size l) = unat (lo_rela_text_off l) + 24 * length (oc_relocs oc)"
    using rt rts d b fl by (simp add: unat_sum)
  have rdo: "lo_rela_data_off l = (if data_relocs oc = [] then lo_rela_text_off l + lo_rela_text_size l else obj_align_up (lo_rela_text_off l + lo_rela_text_size l) 8)"
    by (simp add: l_def elf_layout_of_def Let_def nums)
  have rd: "unat (lo_rela_text_off l) + 24 * length (oc_relocs oc) \<le> unat (lo_rela_data_off l)"
    "unat (lo_rela_data_off l) < unat (lo_rela_text_off l) + 24 * length (oc_relocs oc) + 8"
    using align8 [of "lo_rela_text_off l + lo_rela_text_size l"] rte rt d b fl by (simp_all add: rdo)
  show "unat (lo_rela_text_off l) + 24 * length (oc_relocs oc) \<le> unat (lo_rela_data_off l)" by (rule rd(1))
  show rds: "unat (lo_rela_data_size l) = 24 * length (data_relocs oc)"
    using table_size [of "length (data_relocs oc)"] b by (simp add: l_def elf_layout_of_def Let_def nums)
  have rde: "unat (lo_rela_data_off l + lo_rela_data_size l) = unat (lo_rela_data_off l) + 24 * length (data_relocs oc)"
    using rd rds rt d b fl by (simp add: unat_sum)
  have so: "lo_symtab_off l = obj_align_up (lo_rela_data_off l + lo_rela_data_size l) 8" by (simp add: l_def elf_layout_of_def Let_def nums)
  have sy: "unat (lo_rela_data_off l) + 24 * length (data_relocs oc) \<le> unat (lo_symtab_off l)"
    "unat (lo_symtab_off l) < unat (lo_rela_data_off l) + 24 * length (data_relocs oc) + 8"
    using align8 [of "lo_rela_data_off l + lo_rela_data_size l"] rde rd rt d b fl by (simp_all add: so)
  show "unat (lo_rela_data_off l) + 24 * length (data_relocs oc) \<le> unat (lo_symtab_off l)" by (rule sy(1))
  let ?ts = "fl + length (oc_symbols oc)"
  show ss: "unat (lo_symtab_size l) = 24 * ?ts"
    using table_size [of ?ts] b fl unfolding l_def elf_layout_of_def Let_def elf_layout.simps nums(5) by simp
  show st: "unat (lo_strtab_off l) = unat (lo_symtab_off l) + 24 * ?ts"
  proof -
    have "lo_strtab_off l = lo_symtab_off l + lo_symtab_size l" by (simp add: l_def elf_layout_of_def Let_def)
    then show ?thesis using ss sy rd rt d b fl by (simp add: unat_sum)
  qed
  show sh: "unat (lo_shstrtab_off l) = unat (lo_strtab_off l) + unat strsz"
  proof -
    have "lo_shstrtab_off l = lo_strtab_off l + strsz" by (simp add: l_def elf_layout_of_def Let_def)
    then show ?thesis using st strsz sy rd rt d b fl by (simp add: unat_sum)
  qed
  have she: "unat (lo_shstrtab_off l + 61) = unat (lo_shstrtab_off l) + 61" using sh st strsz sy rd rt d b fl by (simp add: unat_sum)
  have sdo: "lo_shdr_off l = obj_align_up (lo_shstrtab_off l + 61) 8" by (simp add: l_def elf_layout_of_def Let_def section_names)
  have sd: "unat (lo_shstrtab_off l) + 61 \<le> unat (lo_shdr_off l)" "unat (lo_shdr_off l) < unat (lo_shstrtab_off l) + 61 + 8"
    using align8 [of "lo_shstrtab_off l + 61"] she sh st strsz sy rd rt d b fl by (simp_all add: sdo)
  show "unat (lo_shstrtab_off l) + 61 \<le> unat (lo_shdr_off l)" by (rule sd(1))
  show s40: "unat (lo_shdr_off l) < 2 ^ 40" using sd sh st strsz sy rd rt d b fl by simp
  have "unat (ucast (num_sections n) * 64 :: u64) = 64 * unat (num_sections n)"
    using unsigned_less [of "num_sections n", where 'a = nat] by (simp add: unat_mult_lem [THEN iffD1])
  then show "unat (lo_total_size l) = unat (lo_shdr_off l) + 64 * unat (num_sections n)"
    using s40 unsigned_less [of "num_sections n", where 'a = nat]
    by (simp add: l_def elf_layout_of_def Let_def unat_sum)
qed

section \<open>The bytes of the parts\<close>

definition elf_header_bytes :: "u16 \<Rightarrow> elf_numbers \<Rightarrow> u64 \<Rightarrow> bytes" where
  "elf_header_bytes machine n shoff =
     (ELFMAG @ [ELFCLASS64, ELFDATA2LSB, EV_CURRENT, ELFOSABI_NONE] @ replicate 8 0 @
      le_split 2 ET_REL @ le_split 2 machine @ le_split 4 (ucast EV_CURRENT :: u32) @ le_split 8 (0 :: u64) @ le_split 8 (0 :: u64)) @
     le_split 8 shoff @ le_split 4 (0 :: u32) @ le_split 2 (64 :: u16) @ le_split 2 (0 :: u16) @ le_split 2 (0 :: u16) @ le_split 2 (64 :: u16) @
     le_split 2 (num_sections n) @ le_split 2 (shstrtab_shndx n)"

lemma length_elf_header [simp]: "length (elf_header_bytes machine n shoff) = 64"
  by (simp add: elf_header_bytes_def ELFMAG_def)

lemma elf_header_emits: "emits (elf_header machine n shoff) (elf_header_bytes machine n shoff)"
  unfolding elf_header_def writer_bytes ELFMAG_def list.map append_Cons append_Nil
  by (rule emits_eq, (rule emits_Cons emits_Nil)+) (simp add: elf_header_bytes_def ELFMAG_def)

lemma header_fields:
  "word64_at (elf_header_bytes machine n shoff) 40 = shoff" "word16_at (elf_header_bytes machine n shoff) 60 = num_sections n"
  "word16_at (elf_header_bytes machine n shoff) 62 = shstrtab_shndx n"
  by (simp_all add: word64_at_def word16_at_def elf_header_bytes_def ELFMAG_def part_def)

definition shdrs_of :: "elf_numbers \<Rightarrow> elf_layout \<Rightarrow> bytes \<Rightarrow> bytes \<Rightarrow> u64 \<Rightarrow> shdr list" where
  "shdrs_of n l code data strsz =
     (let h = (\<lambda>nm ty fl off sz li info al es. \<lparr>sh_name = nm, sh_type = ty, sh_flags = fl, sh_addr = 0, sh_offset = off, sh_size = sz, sh_link = li,
                  sh_info = info, sh_addralign = al, sh_entsize = es\<rparr>)
      in [h 0 0 0 0 0 0 0 0 0, h 1 SHT_PROGBITS (SHF_ALLOC OR SHF_EXECINSTR) (lo_text_off l) (of_nat (length code)) 0 0 16 0] @
         (if has_data n then [h 7 SHT_PROGBITS (SHF_WRITE OR SHF_ALLOC) (lo_data_off l) (of_nat (length data)) 0 0 8 0] else []) @
         [h 13 SHT_RELA SHF_INFO_LINK (lo_rela_text_off l) (lo_rela_text_size l) (ucast (symtab_shndx n)) 1 8 24] @
         (if has_data_relocs n
          then [h 50 SHT_RELA SHF_INFO_LINK (lo_rela_data_off l) (lo_rela_data_size l) (ucast (symtab_shndx n)) (ucast (data_shndx n)) 8 24] else []) @
         [h 24 SHT_SYMTAB 0 (lo_symtab_off l) (lo_symtab_size l) (ucast (strtab_shndx n)) (first_global n) 8 24,
          h 32 SHT_STRTAB 0 (lo_strtab_off l) strsz 0 0 1 0,
          h 40 SHT_STRTAB 0 (lo_shstrtab_off l) (of_nat (length shstrtab_content)) 0 0 1 0])"

lemma section_headers_emits:
  "emits (section_headers n l code data strsz) (concat (map shdr_bytes (tl (shdrs_of n l code data strsz))))"
proof -
  note e = section_header_emits
  show ?thesis
    unfolding section_headers_def shdrs_of_def Let_def
    by (cases "has_data n"; cases "has_data_relocs n"; simp; intro emits_append e)
qed

lemma null_shdr: "shdr_bytes (hd (shdrs_of n l code data strsz)) = replicate 64 0"
  by (simp add: shdrs_of_def Let_def shdr_bytes_def numeral_eq_Suc)

text \<open>The symbol table of the file: the null symbol, the symbols of the sections, and the symbols of the
  object in their new order.\<close>

definition sym_view :: "bytes \<Rightarrow> lr_obj_symbol \<Rightarrow> elf_sym" where
  "sym_view data s =
     \<lparr>st_name = name_bytes (os_name s),
      st_info = ELF64_ST_INFO (if is_local_def s then STB_LOCAL else if os_weak s then STB_WEAK else STB_GLOBAL)
                  (if os_defined s \<and> os_section s = 1 then STT_FUNC else STT_NOTYPE),
      st_shndx = (if os_defined s then (if os_section s = 1 then 1 else if data = [] then 0 else 2) else SHN_UNDEF),
      st_value = (if os_defined s then ucast (os_offset s) else 0)\<rparr>"

definition section_view :: "u16 \<Rightarrow> elf_sym" where
  "section_view ndx = \<lparr>st_name = [], st_info = ELF64_ST_INFO STB_LOCAL STT_SECTION, st_shndx = ndx, st_value = 0\<rparr>"

definition file_syms :: "bytes \<Rightarrow> lr_objfile_ctx \<Rightarrow> elf_sym list" where
  "file_syms data oc =
     \<lparr>st_name = [], st_info = 0, st_shndx = 0, st_value = 0\<rparr> # section_view 1 # (if data = [] then [] else [section_view 2]) @
     map (sym_view data) (file_order (oc_symbols oc))"

definition rel_view :: "(u8 \<Rightarrow> lr_reloc_mapped) \<Rightarrow> bytes \<Rightarrow> lr_objfile_ctx \<Rightarrow> lr_obj_reloc \<Rightarrow> elf_rel" where
  "rel_view m data oc r =
     \<lparr>r_offset = ucast (or_offset r), r_type = native_type (m (or_type r)), r_addend = word_of_int (addend (m (or_type r))),
      r_sym = sym_view data (oc_symbols oc ! unat (or_symbol_idx r))\<rparr>"

text \<open>An entry of the symbol table with its name as an offset.\<close>

definition raw_sym :: "elf_sym \<Rightarrow> u32 \<Rightarrow> bytes" where
  "raw_sym v off = sym_bytes off (st_info v) (st_shndx v) (st_value v)"

lemma symbol_entry_emits: "ndx = (if data = [] then 0 else 2) \<Longrightarrow> emits (symbol_entry ndx off s) (raw_sym (sym_view data s) off)"
  unfolding symbol_entry_def Let_def raw_sym_def sym_view_def by (rule emits_eq [OF sym_entry_emits]) auto

lemma section_sym_emits: "emits (section_sym ndx) (raw_sym (section_view ndx) 0)"
  unfolding section_sym_def raw_sym_def section_view_def by (rule emits_eq [OF sym_entry_emits]) simp

definition symtab_rest :: "bytes \<Rightarrow> lr_objfile_ctx \<Rightarrow> u32 list \<Rightarrow> u32 list \<Rightarrow> (elf_sym \<times> u32) list" where
  "symtab_rest data oc offs order =
     (section_view 1, 0) # (if data = [] then [] else [(section_view 2, 0)]) @
     map (\<lambda>i. (sym_view data (oc_symbols oc ! unat i), offs ! unat i)) order"

lemma symtab_emits:
  assumes "ndx = (if data = [] then 0 else 2)"
  shows "emits (section_sym 1 @ (if data \<noteq> [] then section_sym ndx else []) @
      concat (map (\<lambda>i. symbol_entry ndx (offs ! unat i) (oc_symbols oc ! unat i)) order))
    (concat (map (\<lambda>(v, off). raw_sym v off) (symtab_rest data oc offs order)))"
proof -
  have "emits (concat (map (\<lambda>i. symbol_entry ndx (offs ! unat i) (oc_symbols oc ! unat i)) order))
    (concat (map (\<lambda>i. raw_sym (sym_view data (oc_symbols oc ! unat i)) (offs ! unat i)) order))"
    by (rule emits_concat) (rule symbol_entry_emits [OF assms])
  then have "emits (section_sym 1 @ (if data \<noteq> [] then section_sym ndx else []) @
      concat (map (\<lambda>i. symbol_entry ndx (offs ! unat i) (oc_symbols oc ! unat i)) order))
    (raw_sym (section_view 1) 0 @ (if data \<noteq> [] then raw_sym (section_view 2) 0 else []) @
      concat (map (\<lambda>i. raw_sym (sym_view data (oc_symbols oc ! unat i)) (offs ! unat i)) order))"
    using assms by (intro emits_append section_sym_emits) (auto intro: section_sym_emits emits_Nil)
  then show ?thesis by (rule emits_eq) (simp add: symtab_rest_def comp_def)
qed

lemma strtab_emits: "emits (w8 0 # map (\<lambda>s. wbytes (cstr (os_name s))) ss) (0 # concat (map (\<lambda>s. cstr (os_name s)) ss))"
proof -
  have "emits (map (\<lambda>s. wbytes (cstr (os_name s))) ss) (concat (map (\<lambda>s. cstr (os_name s)) ss))"
    by (induction ss) (auto intro: emits_Nil emits_Cons)
  then have "emits (wbytes [0] # map (\<lambda>s. wbytes (cstr (os_name s))) ss) ([0] @ concat (map (\<lambda>s. cstr (os_name s)) ss))" by (rule emits_Cons)
  then show ?thesis by (simp add: w8_def)
qed

lemma one_write_emits: "emits [wbytes xs] xs"
  using emits_Cons [OF emits_Nil, of xs] by simp

end
