(* ===== verification/Elf_Roundtrip.thy ===== *)
theory Elf_Roundtrip
  imports Elf_Reader
begin

text \<open>
  The file of \<open>write_elf\<close>, region by region, and what the reader finds in it.
\<close>

unbundle bit_operations_syntax

section \<open>The regions of the file\<close>

definition rel_bytes :: "(u8 \<Rightarrow> lr_reloc_mapped) \<Rightarrow> u32 list \<Rightarrow> lr_obj_reloc \<Rightarrow> bytes" where
  "rel_bytes m idx r = rela_bytes (ucast (or_offset r)) (ELF64_R_INFO (idx ! unat (or_symbol_idx r)) (native_type (m (or_type r))))
     (word_of_int (addend (m (or_type r))))"

definition strtab_bytes :: "lr_objfile_ctx \<Rightarrow> bytes" where
  "strtab_bytes oc = 0 # concat (map (\<lambda>s. cstr (os_name s)) (oc_symbols oc))"

definition raw_syms :: "(elf_sym \<times> u32) list \<Rightarrow> bytes" where
  "raw_syms vs = concat (map (\<lambda>(v, off). raw_sym v off) vs)"

definition file_parts ::
  "bytes \<Rightarrow> u16 \<Rightarrow> (u8 \<Rightarrow> lr_reloc_mapped) \<Rightarrow> bytes \<Rightarrow> bytes \<Rightarrow> lr_objfile_ctx \<Rightarrow> elf_numbers \<Rightarrow> elf_layout \<Rightarrow> u64 \<Rightarrow> u32 list \<Rightarrow> sym_places \<Rightarrow> bool" where
  "file_parts f machine m code data oc n l strsz offs p \<longleftrightarrow>
     part f 0 64 = elf_header_bytes machine n (lo_shdr_off l) \<and>
     part f (unat (lo_text_off l)) (length code) = code \<and>
     part f (unat (lo_data_off l)) (length data) = data \<and>
     part f (unat (lo_rela_text_off l)) (24 * length (oc_relocs oc)) = concat (map (rel_bytes m (elf_sym_index p)) (oc_relocs oc)) \<and>
     part f (unat (lo_rela_data_off l)) (24 * length (data_relocs oc)) = concat (map (rel_bytes m (elf_sym_index p)) (data_relocs oc)) \<and>
     part f (unat (lo_symtab_off l)) (24 * ((if data = [] then 2 else 3) + length (oc_symbols oc))) =
       replicate 24 0 @ raw_syms (symtab_rest data oc offs (sym_order p)) \<and>
     part f (unat (lo_strtab_off l)) (unat strsz) = strtab_bytes oc \<and>
     part f (unat (lo_shstrtab_off l)) 61 = shstrtab_content \<and>
     part f (unat (lo_shdr_off l)) (64 * unat (num_sections n)) = concat (map shdr_bytes (shdrs_of n l code data strsz))"

definition regions ::
  "u16 \<Rightarrow> (u8 \<Rightarrow> lr_reloc_mapped) \<Rightarrow> bytes \<Rightarrow> bytes \<Rightarrow> lr_objfile_ctx \<Rightarrow> elf_numbers \<Rightarrow> elf_layout \<Rightarrow> u64 \<Rightarrow> u32 list \<Rightarrow> sym_places \<Rightarrow> (nat \<times> bytes) list" where
  "regions machine m code data oc n l strsz offs p =
     [(0, elf_header_bytes machine n (lo_shdr_off l)), (unat (lo_text_off l), code), (unat (lo_data_off l), data),
      (unat (lo_rela_text_off l), concat (map (rel_bytes m (elf_sym_index p)) (oc_relocs oc))),
      (unat (lo_rela_data_off l), concat (map (rel_bytes m (elf_sym_index p)) (data_relocs oc))),
      (unat (lo_symtab_off l + 24), raw_syms (symtab_rest data oc offs (sym_order p))),
      (unat (lo_strtab_off l), strtab_bytes oc), (unat (lo_shstrtab_off l), shstrtab_content),
      (unat (lo_shdr_off l + 64), concat (map shdr_bytes (tl (shdrs_of n l code data strsz))))]"

lemma length_rel_table [simp]: "length (concat (map (rel_bytes m idx) rs)) = 24 * length rs"
  by (rule length_table) (simp add: rel_bytes_def)

lemma length_raw_syms [simp]: "length (raw_syms vs) = 24 * length vs"
  unfolding raw_syms_def by (rule length_table) (auto simp: raw_sym_def)

lemma length_shdr_table [simp]: "length (concat (map shdr_bytes hs)) = 64 * length hs"
  by (rule length_table) simp

lemma length_shdrs_of: "object_ok code data oc \<Longrightarrow> length (shdrs_of (elf_numbers_of data oc) l code data strsz) = unat (num_sections (elf_numbers_of data oc))"
  by (simp add: shdrs_of_def Let_def numbers_of sections_count)

text \<open>The regions follow one another inside the file.\<close>

lemma regions_ordered:
  fixes machine :: u16 and m :: "u8 \<Rightarrow> lr_reloc_mapped" and offs :: "u32 list" and p :: sym_places and strsz :: u64
  assumes ok: "object_ok code data oc" and strsz: "unat strsz < 2 ^ 32" "length (strtab_bytes oc) = unat strsz"
    and order: "length (sym_order p) = length (oc_symbols oc)"
  defines "n \<equiv> elf_numbers_of data oc"
  defines "l \<equiv> elf_layout_of n code data oc strsz"
  defines "rs \<equiv> regions machine m code data oc n l strsz offs p"
  shows "sorted_wrt (\<lambda>q r. region_end q \<le> fst r) rs" and "\<forall>r \<in> set rs. region_end r \<le> unat (lo_total_size l)"
    and "unat (lo_symtab_off l + 24) = unat (lo_symtab_off l) + 24" and "unat (lo_shdr_off l + 64) = unat (lo_shdr_off l) + 64"
proof -
  note lay = layout_of [OF ok strsz(1), folded n_def, folded l_def]
  show s24: "unat (lo_symtab_off l + 24) = unat (lo_symtab_off l) + 24" using lay by (subst unat_sum) simp_all
  show s64: "unat (lo_shdr_off l + 64) = unat (lo_shdr_off l) + 64" using lay(10) by (subst unat_sum) simp_all
  have rest: "length (symtab_rest data oc offs (sym_order p)) + 1 = (if data = [] then 2 else 3) + length (oc_symbols oc)"
    using order by (simp add: symtab_rest_def)
  have sh: "length (tl (shdrs_of n l code data strsz)) + 1 = unat (num_sections n)"
    using length_shdrs_of [OF ok, of l strsz] sections_count(1) [OF ok] by (simp add: n_def)
  show "sorted_wrt (\<lambda>q r. region_end q \<le> fst r) rs" "\<forall>r \<in> set rs. region_end r \<le> unat (lo_total_size l)"
    unfolding rs_def regions_def using lay rest sh s24 s64 strsz(2) by (simp_all add: region_end_def section_names)
qed

text \<open>Filling the regions gives the parts of the file.\<close>

lemma filled_parts:
  fixes machine :: u16 and m :: "u8 \<Rightarrow> lr_reloc_mapped" and offs :: "u32 list" and p :: sym_places and strsz :: u64
  assumes ok: "object_ok code data oc" and strsz: "unat strsz < 2 ^ 32" "length (strtab_bytes oc) = unat strsz"
    and order: "length (sym_order p) = length (oc_symbols oc)"
  defines "n \<equiv> elf_numbers_of data oc"
  defines "l \<equiv> elf_layout_of n code data oc strsz"
  shows "file_parts (fill (regions machine m code data oc n l strsz offs p) (replicate (unat (lo_total_size l)) 0)) machine m code data oc n l strsz offs p"
proof -
  let ?rs = "regions machine m code data oc n l strsz offs p" and ?b = "replicate (unat (lo_total_size l)) 0 :: bytes"
  note ord = regions_ordered(1,2) [OF ok strsz order, where machine = machine and m = m and offs = offs, folded n_def, folded l_def]
  note ends = regions_ordered(3,4) [OF ok strsz order, folded n_def, folded l_def]
  note lay = layout_of [OF ok strsz(1), folded n_def, folded l_def]
  have inb: "\<And>r. r \<in> set ?rs \<Longrightarrow> region_end r \<le> length ?b" using ord(2) by simp
  have reg: "part (fill ?rs ?b) off (length xs) = xs" if "(off, xs) \<in> set ?rs" for off xs
    by (rule fill_region [OF inb ord(1) that])
  have zero: "part (fill ?rs ?b) i k = replicate k 0" if "\<forall>r \<in> set ?rs. i + k \<le> fst r \<or> region_end r \<le> i" "i + k \<le> unat (lo_total_size l)" for i k
  proof -
    have "part (fill ?rs ?b) i k = part ?b i k" by (rule fill_outside [OF inb]) (use that in auto)
    then show ?thesis using that(2) by (simp add: part_def)
  qed
  let ?rest = "symtab_rest data oc offs (sym_order p)" and ?hs = "shdrs_of n l code data strsz"
  have rest: "(if data = [] then 2 else 3) + length (oc_symbols oc) = 1 + length ?rest" using order by (simp add: symtab_rest_def)
  have hs: "unat (num_sections n) = 1 + length (tl ?hs)" "?hs = hd ?hs # tl ?hs"
    using length_shdrs_of [OF ok, of l strsz] sections_count(1) [OF ok] by (simp_all add: n_def shdrs_of_def Let_def)
  have "part (fill ?rs ?b) (unat (lo_symtab_off l)) 24 = replicate 24 0"
    by (rule zero) (use lay ends rest hs(1) strsz in \<open>simp_all add: regions_def region_end_def section_names\<close>)
  then have sym: "part (fill ?rs ?b) (unat (lo_symtab_off l)) (24 * ((if data = [] then 2 else 3) + length (oc_symbols oc))) = replicate 24 0 @ raw_syms ?rest"
    unfolding rest using part_split [of "fill ?rs ?b" "unat (lo_symtab_off l)" 24 "24 * length ?rest"] reg [of "unat (lo_symtab_off l + 24)" "raw_syms ?rest"] ends(1)
    by (simp add: regions_def)
  have "part (fill ?rs ?b) (unat (lo_shdr_off l)) 64 = replicate 64 0"
    by (rule zero) (use lay ends rest hs(1) strsz in \<open>simp_all add: regions_def region_end_def section_names\<close>)
  then have shd: "part (fill ?rs ?b) (unat (lo_shdr_off l)) (64 * unat (num_sections n)) = concat (map shdr_bytes ?hs)"
    unfolding hs(1) using part_split [of "fill ?rs ?b" "unat (lo_shdr_off l)" 64 "64 * length (tl ?hs)"]
      reg [of "unat (lo_shdr_off l + 64)" "concat (map shdr_bytes (tl ?hs))"] ends(2) null_shdr [of n l code data strsz]
    by (subst hs(2)) (simp add: regions_def)
  show ?thesis
    unfolding file_parts_def using sym shd reg [of 0 "elf_header_bytes machine n (lo_shdr_off l)"] reg [of "unat (lo_text_off l)" code]
      reg [of "unat (lo_data_off l)" data] reg [of "unat (lo_rela_text_off l)" "concat (map (rel_bytes m (elf_sym_index p)) (oc_relocs oc))"]
      reg [of "unat (lo_rela_data_off l)" "concat (map (rel_bytes m (elf_sym_index p)) (data_relocs oc))"]
      reg [of "unat (lo_strtab_off l)" "strtab_bytes oc"] reg [of "unat (lo_shstrtab_off l)" shstrtab_content] strsz(2)
    by (simp add: regions_def section_names)
qed

section \<open>The writer fills the regions\<close>

lemma writes_fill:
  assumes "list_all2 (\<lambda>w r. emits (snd w) (snd r) \<and> fst r = unat (fst w)) ws rs" and "\<And>r. r \<in> set rs \<Longrightarrow> region_end r \<le> length b"
  shows "foldl (\<lambda>b w. write_at (fst w) (snd w) b) b ws = fill rs b"
  using assms
proof (induction ws rs arbitrary: b rule: list_all2_induct)
  case (Cons w ws r rs)
  have "region_end r \<le> length b" using Cons.prems by simp
  then have "write_at (fst w) (snd w) b = overwrite b (fst r) (snd r)" "length (overwrite b (fst r) (snd r)) = length b"
    using Cons.hyps(1) by (auto simp: write_at_emits region_end_def)
  then show ?case using Cons.IH [of "overwrite b (fst r) (snd r)"] Cons.prems by (simp add: fill_Cons)
qed (simp add: fill_def)

lemma write_nothing: "write_at off [] buf = buf" "write_at off [wbytes []] buf = buf"
  by (simp_all add: write_at_def wbytes_def)

definition object_places :: "bytes \<Rightarrow> lr_objfile_ctx \<Rightarrow> sym_places" where
  "object_places data oc =
     (let n = elf_numbers_of data oc; nsym = length (oc_symbols oc)
      in place_symbols (oc_symbols oc) 0
           \<lparr>elf_sym_index = replicate nsym 0, sym_order = replicate nsym 0, next_local = first_local n, next_global = first_global n,
            local_pos = 0, global_pos = first_global n - first_local n\<rparr>)"

lemma object_places_ok:
  assumes "object_ok code data oc"
  shows "length (sym_order (object_places data oc)) = length (oc_symbols oc)"
    and "map (\<lambda>i. oc_symbols oc ! unat i) (sym_order (object_places data oc)) = file_order (oc_symbols oc)"
    and "\<And>i. i < length (oc_symbols oc) \<Longrightarrow> unat (elf_sym_index (object_places data oc) ! i) = (if data = [] then 2 else 3) + rank (oc_symbols oc) i"
    and "\<And>x. x \<in> set (sym_order (object_places data oc)) \<Longrightarrow> unat x < length (oc_symbols oc)"
proof -
  let ?fl = "if data = [] then 2 else 3 :: nat"
  have b: "?fl + length (oc_symbols oc) < 2 ^ 32" using assms by (simp add: object_ok_def)
  have "first_global (elf_numbers_of data oc) - first_local (elf_numbers_of data oc) = of_nat (length (filter is_local_def (oc_symbols oc)))"
    by (simp add: numbers_of [OF assms])
  then have eq: "object_places data oc = place_symbols (oc_symbols oc) 0 \<lparr>elf_sym_index = replicate (length (oc_symbols oc)) 0,
      sym_order = replicate (length (oc_symbols oc)) 0, next_local = of_nat ?fl, next_global = of_nat (?fl + length (filter is_local_def (oc_symbols oc))),
      local_pos = 0, global_pos = of_nat (length (filter is_local_def (oc_symbols oc)))\<rparr>"
    unfolding object_places_def Let_def numbers_of(3,4) [OF assms] by (simp only:)
  show "length (sym_order (object_places data oc)) = length (oc_symbols oc)"
    "map (\<lambda>i. oc_symbols oc ! unat i) (sym_order (object_places data oc)) = file_order (oc_symbols oc)"
    "\<And>i. i < length (oc_symbols oc) \<Longrightarrow> unat (elf_sym_index (object_places data oc) ! i) = ?fl + rank (oc_symbols oc) i"
    "\<And>x. x \<in> set (sym_order (object_places data oc)) \<Longrightarrow> unat x < length (oc_symbols oc)"
    unfolding eq by (fact places_of_objects [OF b])+
qed

lemma strtab_size_ok:
  assumes "object_ok code data oc"
  shows "unat (snd (str_offsets (oc_symbols oc) 1)) < 2 ^ 32" and "length (strtab_bytes oc) = unat (snd (str_offsets (oc_symbols oc) 1))"
proof -
  have "unat (1 :: u64) + length (concat (map (\<lambda>s. cstr (os_name s)) (oc_symbols oc))) < 2 ^ 32" using assms by (simp add: object_ok_def)
  from str_offsets_ok [OF this] show "unat (snd (str_offsets (oc_symbols oc) 1)) < 2 ^ 32"
    and "length (strtab_bytes oc) = unat (snd (str_offsets (oc_symbols oc) 1))"
    using assms by (simp_all add: strtab_bytes_def object_ok_def)
qed

lemma object_written:
  assumes ok: "object_ok code data oc"
  defines "n \<equiv> elf_numbers_of data oc" and "offs \<equiv> fst (str_offsets (oc_symbols oc) 1)" and "strsz \<equiv> snd (str_offsets (oc_symbols oc) 1)"
    and "p \<equiv> object_places data oc"
  defines "l \<equiv> elf_layout_of n code data oc strsz"
  shows "elf_object (\<lambda>_. True) code data oc machine m =
    Some (Some (fill (regions machine m code data oc n l strsz offs p) (replicate (unat (lo_total_size l)) 0)))"
proof -
  let ?ws = "[(0, elf_header machine n (lo_shdr_off l)), (lo_text_off l, [wbytes code]), (lo_data_off l, [wbytes data]),
    (lo_rela_text_off l, concat (map (rela_entry m (elf_sym_index p)) (oc_relocs oc))),
    (lo_rela_data_off l, concat (map (rela_entry m (elf_sym_index p)) (data_relocs oc))),
    (lo_symtab_off l + 24, section_sym 1 @ (if data \<noteq> [] then section_sym (data_shndx n) else []) @
       concat (map (\<lambda>i. symbol_entry (data_shndx n) (offs ! unat i) (oc_symbols oc ! unat i)) (sym_order p))),
    (lo_strtab_off l, w8 0 # map (\<lambda>s. wbytes (cstr (os_name s))) (oc_symbols oc)), (lo_shstrtab_off l, [wbytes shstrtab_content]),
    (lo_shdr_off l + 64, section_headers n l code data strsz)]"
  note sz = strtab_size_ok [OF ok, folded strsz_def]
  note pl = object_places_ok [OF ok, folded p_def]
  note hd = numbers_of(1,2) [OF ok, folded n_def]
  have rel: "emits (concat (map (rela_entry m (elf_sym_index p)) rs)) (concat (map (rel_bytes m (elf_sym_index p)) rs))" for rs
    by (rule emits_concat) (simp add: rela_entry_emits rel_bytes_def)
  have "list_all2 (\<lambda>w r. emits (snd w) (snd r) \<and> fst r = unat (fst w)) ?ws (regions machine m code data oc n l strsz offs p)"
    using elf_header_emits rel symtab_emits [of "data_shndx n" data offs oc "sym_order p"] sections_count(5) [OF ok, folded n_def]
      strtab_emits [of "oc_symbols oc"] section_headers_emits one_write_emits
    by (simp add: regions_def raw_syms_def strtab_bytes_def)
  from writes_fill [OF this] regions_ordered(2) [OF ok sz pl(1), folded n_def, folded l_def]
  have fill: "foldl (\<lambda>b w. write_at (fst w) (snd w) b) (replicate (unat (lo_total_size l)) 0) ?ws =
      fill (regions machine m code data oc n l strsz offs p) (replicate (unat (lo_total_size l)) 0)"
    by simp
  have pair: "str_offsets (oc_symbols oc) 1 = (offs, strsz)" by (simp add: offs_def strsz_def)
  have idx: "\<not> (\<exists>r \<in> set (oc_relocs oc @ (if has_data_relocs n then data_relocs oc else [])). length (oc_symbols oc) \<le> unat (or_symbol_idx r))"
  proof -
    have "\<forall>r \<in> set (oc_relocs oc @ data_relocs oc). unat (or_symbol_idx r) < length (oc_symbols oc)" using ok by (simp add: object_ok_def)
    then show ?thesis by (auto simp: linorder_not_le split: if_splits)
  qed
  have d: "(if has_data n then write_at off [wbytes data] buf else buf) = write_at off [wbytes data] buf" for off buf
    using hd(1) by (simp add: write_nothing)
  have r: "(if has_data_relocs n then write_at off (concat (map (rela_entry m (elf_sym_index p)) (data_relocs oc))) buf else buf) =
      write_at off (concat (map (rela_entry m (elf_sym_index p)) (data_relocs oc))) buf" for off buf
    using hd(2) by (simp add: write_nothing)
  have hs: "(if has_data n then section_sym (data_shndx n) else []) = (if data \<noteq> [] then section_sym (data_shndx n) else [])" by (simp add: hd)
  have "elf_object (\<lambda>_. True) code data oc machine m = Some (Some (foldl (\<lambda>b w. write_at (fst w) (snd w) b) (replicate (unat (lo_total_size l)) 0) ?ws))"
    unfolding elf_object_def Let_def n_def [symmetric] pair prod.case l_def [symmetric] p_def [unfolded object_places_def Let_def, folded n_def, symmetric]
      if_not_P [OF idx] d r hs
    by simp
  then show ?thesis by (simp only: fill)
qed

section \<open>Reading the file\<close>

lemma word_of_part: "i + 8 \<le> k \<Longrightarrow> word64_at (part f 0 k) i = word64_at f i" "i + 2 \<le> k \<Longrightarrow> word16_at (part f 0 k) i = word16_at f i"
  by (simp_all add: word64_at_def word16_at_def part_part)

lemma read_shdrs:
  assumes "object_ok code data oc" and "file_parts f machine m code data oc (elf_numbers_of data oc) l strsz offs p"
  shows "elf_shdrs f = shdrs_of (elf_numbers_of data oc) l code data strsz" and "word16_at f 62 = shstrtab_shndx (elf_numbers_of data oc)"
proof -
  let ?n = "elf_numbers_of data oc" and ?hs = "shdrs_of (elf_numbers_of data oc) l code data strsz"
  have h: "part f 0 64 = elf_header_bytes machine ?n (lo_shdr_off l)"
    and t: "part f (unat (lo_shdr_off l)) (64 * unat (num_sections ?n)) = concat (map shdr_bytes ?hs)"
    using assms(2) by (simp_all add: file_parts_def)
  have w: "word64_at f 40 = lo_shdr_off l" "word16_at f 60 = num_sections ?n" "word16_at f 62 = shstrtab_shndx ?n"
    using word_of_part(1) [of 40 64 f] word_of_part(2) [of 60 64 f] word_of_part(2) [of 62 64 f] by (simp_all add: h header_fields)
  then show "word16_at f 62 = shstrtab_shndx ?n" by simp
  have len: "length ?hs = unat (num_sections ?n)" by (rule length_shdrs_of [OF assms(1)])
  show "elf_shdrs f = ?hs"
  proof (rule nth_equalityI)
    fix i
    assume "i < length (elf_shdrs f)"
    then have i: "i < length ?hs" using w len by (simp add: elf_shdrs_def)
    have "part f (unat (lo_shdr_off l) + 64 * i) 64 = part (part f (unat (lo_shdr_off l)) (64 * unat (num_sections ?n))) (64 * i) 64"
      using i len by (subst part_part) simp_all
    also have "\<dots> = shdr_bytes (?hs ! i)" unfolding t using i by (intro entry_in_table) simp_all
    finally show "elf_shdrs f ! i = ?hs ! i" using i w len by (simp add: elf_shdrs_def read_shdr_bytes)
  qed (simp add: elf_shdrs_def w len)
qed

lemma raw_entry: "i < length vs \<Longrightarrow> part (raw_syms vs) (24 * i) 24 = raw_sym (fst (vs ! i)) (snd (vs ! i))"
  unfolding raw_syms_def split_beta by (rule entry_in_table) (simp_all add: raw_sym_def)

lemma read_table:
  assumes "\<And>v. v \<in> set vs \<Longrightarrow> string_at strtab (unat (snd v)) = st_name (fst v)"
  shows "map (\<lambda>i. read_sym strtab (part (raw_syms vs) (24 * i) 24)) [0..<length (raw_syms vs) div 24] = map fst vs"
proof (rule nth_equalityI)
  fix i
  assume "i < length (map (\<lambda>i. read_sym strtab (part (raw_syms vs) (24 * i) 24)) [0..<length (raw_syms vs) div 24])"
  then have i: "i < length vs" by simp
  then have "read_sym strtab (part (raw_syms vs) (24 * i) 24) = fst (vs ! i)"
    using assms [OF nth_mem [OF i]] by (simp add: raw_entry raw_sym_def read_sym_bytes)
  then show "map (\<lambda>i. read_sym strtab (part (raw_syms vs) (24 * i) 24)) [0..<length (raw_syms vs) div 24] ! i = map fst vs ! i"
    using i by simp
qed simp

lemma read_symbols:
  assumes ok: "object_ok code data oc" and off: "length offs = length (oc_symbols oc)"
    and names: "\<And>i. i < length (oc_symbols oc) \<Longrightarrow> unat (offs ! i) = 1 + str_pos (map os_name (oc_symbols oc)) i"
    and order: "map (\<lambda>i. oc_symbols oc ! unat i) order = file_order (oc_symbols oc)" "\<And>x. x \<in> set order \<Longrightarrow> unat x < length (oc_symbols oc)"
  shows "map (\<lambda>i. read_sym (strtab_bytes oc) (part (replicate 24 0 @ raw_syms (symtab_rest data oc offs order)) (24 * i) 24))
      [0..<length (replicate 24 0 @ raw_syms (symtab_rest data oc offs order)) div 24] = file_syms data oc"
proof -
  let ?null = "(\<lparr>st_name = [], st_info = 0, st_shndx = 0, st_value = 0\<rparr>, 0) :: elf_sym \<times> u32"
  let ?vs = "?null # symtab_rest data oc offs order"
  have "replicate 24 0 = raw_sym (fst ?null) (snd ?null)" by (simp add: raw_sym_def sym_bytes_def numeral_eq_Suc)
  then have tab: "replicate 24 0 @ raw_syms (symtab_rest data oc offs order) = raw_syms ?vs" by (simp add: raw_syms_def)
  have name: "string_at (strtab_bytes oc) (unat (snd v)) = st_name (fst v)" if v: "v \<in> set ?vs" for v
  proof -
    consider "v = ?null" | "v = (section_view 1, 0)" | "v = (section_view 2, 0)"
      | (sym) x where "x \<in> set order" "v = (sym_view data (oc_symbols oc ! unat x), offs ! unat x)"
      using v by (auto simp: symtab_rest_def split: if_splits)
    then show ?thesis
    proof cases
      case sym
      then have x: "unat x < length (oc_symbols oc)" using order(2) by simp
      then have "plain_name (os_name (oc_symbols oc ! unat x))" using ok by (simp add: object_ok_def)
      then have "string_at ([0] @ concat (map cstr (map os_name (oc_symbols oc)))) (1 + str_pos (map os_name (oc_symbols oc)) (unat x)) =
          name_bytes (os_name (oc_symbols oc ! unat x))"
        using string_at_pos [of "unat x" "map os_name (oc_symbols oc)" "[0]" 1] x by simp
      then show ?thesis using sym names [OF x] by (simp add: strtab_bytes_def comp_def sym_view_def)
    qed (simp_all add: strtab_bytes_def string_at_def section_view_def)
  qed
  have "map (\<lambda>i. read_sym (strtab_bytes oc) (part (raw_syms ?vs) (24 * i) 24)) [0..<length (raw_syms ?vs) div 24] = map fst ?vs"
    by (rule read_table) (rule name)
  moreover have "map fst ?vs = file_syms data oc"
    using arg_cong [OF order(1), of "map (sym_view data)"] by (simp add: file_syms_def symtab_rest_def comp_def)
  ultimately show ?thesis by (simp only: tab)
qed

lemma read_relocs:
  assumes "object_ok code data oc" and "\<forall>r \<in> set rs. unat (or_symbol_idx r) < length (oc_symbols oc)"
    and "\<And>i. i < length (oc_symbols oc) \<Longrightarrow> unat (idx ! i) = (if data = [] then 2 else 3) + rank (oc_symbols oc) i"
  shows "map (\<lambda>i. read_rel (file_syms data oc) (part (concat (map (rel_bytes m idx) rs)) (24 * i) 24)) [0..<(24 * length rs) div 24] = map (rel_view m data oc) rs"
proof (rule nth_equalityI)
  fix i
  assume "i < length (map (\<lambda>i. read_rel (file_syms data oc) (part (concat (map (rel_bytes m idx) rs)) (24 * i) 24)) [0..<(24 * length rs) div 24])"
  then have i: "i < length rs" by simp
  let ?r = "rs ! i"
  have s: "unat (or_symbol_idx ?r) < length (oc_symbols oc)" using assms(2) i by simp
  have "file_syms data oc ! unat (idx ! unat (or_symbol_idx ?r)) = sym_view data (oc_symbols oc ! unat (or_symbol_idx ?r))"
    using assms(3) [OF s] file_order_rank(1,2) [OF s] by (cases "data = []") (simp_all add: file_syms_def numeral_eq_Suc)
  moreover have "part (concat (map (rel_bytes m idx) rs)) (24 * i) 24 = rel_bytes m idx ?r"
    by (rule entry_in_table [OF _ i]) (simp add: rel_bytes_def)
  ultimately show "map (\<lambda>i. read_rel (file_syms data oc) (part (concat (map (rel_bytes m idx) rs)) (24 * i) 24)) [0..<(24 * length rs) div 24] ! i =
      map (rel_view m data oc) rs ! i"
    using i by (simp add: rel_bytes_def read_rela_bytes rel_view_def)
qed simp

section \<open>The round trip\<close>

text \<open>What the reader must find in a file.\<close>

definition reads_as :: "u16 \<Rightarrow> (u8 \<Rightarrow> lr_reloc_mapped) \<Rightarrow> bytes \<Rightarrow> bytes \<Rightarrow> lr_objfile_ctx \<Rightarrow> bytes \<Rightarrow> bool" where
  "reads_as machine m code data oc f \<longleftrightarrow>
     take 4 f = ELFMAG \<and> word16_at f 16 = ET_REL \<and> word16_at f 18 = machine \<and>
     (\<exists>h. find_section f ''.text'' = Some h \<and> sec_bytes f h = code \<and> elf_shdrs f ! 1 = h) \<and>
     (data \<noteq> [] \<longrightarrow> (\<exists>h. find_section f ''.data'' = Some h \<and> sec_bytes f h = data \<and> elf_shdrs f ! 2 = h)) \<and>
     (\<exists>h. find_section f ''.symtab'' = Some h \<and> read_syms f h = file_syms data oc \<and>
        unat (sh_info h) = (if data = [] then 2 else 3) + length (filter is_local_def (oc_symbols oc))) \<and>
     (\<exists>h. find_section f ''.rela.text'' = Some h \<and> read_rels f h = map (rel_view m data oc) (oc_relocs oc) \<and> sh_info h = 1) \<and>
     (data_relocs oc \<noteq> [] \<longrightarrow>
        (\<exists>h. find_section f ''.rela.data'' = Some h \<and> read_rels f h = map (rel_view m data oc) (data_relocs oc) \<and> sh_info h = 2))"

lemma name_bytes_eq [simp]: "name_bytes a = name_bytes b \<longleftrightarrow> a = b"
proof -
  have "inj (of_char :: char \<Rightarrow> u8)"
  proof (rule injI)
    fix c d :: char
    assume "(of_char c :: u8) = of_char d"
    then have "unat (of_nat (of_char c) :: u8) = unat (of_nat (of_char d) :: u8)" by (simp add: of_nat_of_char)
    moreover have "of_char e < (256 :: nat)" for e :: char using of_char_mod_256 [of e] by (metis mod_less_divisor zero_less_numeral)
    ultimately have "of_char c = (of_char d :: nat)" by (simp add: unat_of_nat_small)
    then show "c = d" by simp
  qed
  then show ?thesis by (simp add: name_bytes_def inj_map_eq_map)
qed

lemma name_bytes_Nil: "[] = name_bytes b \<longleftrightarrow> b = []" "name_bytes b = [] \<longleftrightarrow> b = []"
  by (auto simp: name_bytes_def)

text \<open>The sections by name, for headers that are laid out as \<open>shdrs_of\<close> says.\<close>

lemma sections_by_name:
  assumes ok: "object_ok code data oc" and hs: "elf_shdrs f = shdrs_of (elf_numbers_of data oc) l code data strsz"
    and ndx: "word16_at f 62 = shstrtab_shndx (elf_numbers_of data oc)" and str: "part f (unat (lo_shstrtab_off l)) 61 = shstrtab_content"
  defines "n \<equiv> elf_numbers_of data oc"
  defines "H \<equiv> shdrs_of n l code data strsz"
  shows "find_section f ''.text'' = Some (H ! 1)" and "data \<noteq> [] \<Longrightarrow> find_section f ''.data'' = Some (H ! 2)"
    and "find_section f ''.rela.text'' = Some (H ! (if data = [] then 2 else 3))"
    and "data_relocs oc \<noteq> [] \<Longrightarrow> find_section f ''.rela.data'' = Some (H ! 4)"
    and "find_section f ''.symtab'' = Some (H ! unat (symtab_shndx n))"
proof -
  note nums = numbers_of [OF ok] and cnt = sections_count [OF ok]
  have dd: "data_relocs oc \<noteq> [] \<Longrightarrow> data \<noteq> []" using ok by (simp add: object_ok_def)
  have "sec_bytes f (H ! unat (shstrtab_shndx n)) = shstrtab_content"
    using str dd unfolding H_def n_def by (simp add: sec_bytes_def shdrs_of_def Let_def nums cnt section_names)
  then have nm: "sec_name f h = string_at shstrtab_content (unat (sh_name h))" for h
    by (simp add: sec_name_def hs ndx H_def n_def)
  note simps = find_section_def hs nm shdrs_of_def Let_def nums cnt section_names section_names(1) [unfolded One_nat_def] name_bytes_Nil H_def n_def
  show "find_section f ''.text'' = Some (H ! 1)" by (simp add: simps)
  show "data \<noteq> [] \<Longrightarrow> find_section f ''.data'' = Some (H ! 2)" by (simp add: simps)
  show "find_section f ''.rela.text'' = Some (H ! (if data = [] then 2 else 3))" by (simp add: simps)
  show "data_relocs oc \<noteq> [] \<Longrightarrow> find_section f ''.rela.data'' = Some (H ! 4)" using dd by (simp add: simps)
  have "(data = []) = True \<and> (data_relocs oc = []) = True \<or> (data = []) = False" using dd by auto
  then show "find_section f ''.symtab'' = Some (H ! unat (symtab_shndx n))"
  proof (elim disjE conjE)
    assume D: "(data = []) = True" "(data_relocs oc = []) = True"
    show ?thesis by (simp add: simps D)
  next
    assume D: "(data = []) = False"
    show ?thesis by (simp add: simps D)
  qed
qed

lemma header_identity:
  assumes "part f 0 64 = elf_header_bytes machine n shoff"
  shows "take 4 f = ELFMAG" and "word16_at f 16 = ET_REL" and "word16_at f 18 = machine"
proof -
  have "take 4 f = take 4 (part f 0 64)" by (simp add: part_def)
  then show "take 4 f = ELFMAG" by (simp add: assms elf_header_bytes_def ELFMAG_def)
  have "word16_at (elf_header_bytes machine n shoff) 16 = ET_REL" "word16_at (elf_header_bytes machine n shoff) 18 = machine"
    by (simp_all add: elf_header_bytes_def ELFMAG_def word16_at_def part_def)
  then show "word16_at f 16 = ET_REL" "word16_at f 18 = machine"
    using word_of_part(2) [of 16 64 f] word_of_part(2) [of 18 64 f] by (simp_all add: assms)
qed

text \<open>The headers of the tables, by number.\<close>

lemma table_headers:
  fixes l :: elf_layout and strsz :: u64
  assumes ok: "object_ok code data oc"
  defines "n \<equiv> elf_numbers_of data oc"
  defines "H \<equiv> shdrs_of n l code data strsz"
  shows "H ! unat (symtab_shndx n) = \<lparr>sh_name = 24, sh_type = SHT_SYMTAB, sh_flags = 0, sh_addr = 0, sh_offset = lo_symtab_off l,
      sh_size = lo_symtab_size l, sh_link = ucast (strtab_shndx n), sh_info = first_global n, sh_addralign = 8, sh_entsize = 24\<rparr>" (is ?sym)
    and "H ! unat (strtab_shndx n) = \<lparr>sh_name = 32, sh_type = SHT_STRTAB, sh_flags = 0, sh_addr = 0, sh_offset = lo_strtab_off l,
      sh_size = strsz, sh_link = 0, sh_info = 0, sh_addralign = 1, sh_entsize = 0\<rparr>" (is ?str)
    and "H ! (if data = [] then 2 else 3) = \<lparr>sh_name = 13, sh_type = SHT_RELA, sh_flags = SHF_INFO_LINK, sh_addr = 0, sh_offset = lo_rela_text_off l,
      sh_size = lo_rela_text_size l, sh_link = ucast (symtab_shndx n), sh_info = 1, sh_addralign = 8, sh_entsize = 24\<rparr>" (is ?relt)
    and "data_relocs oc \<noteq> [] \<Longrightarrow> H ! 4 = \<lparr>sh_name = 50, sh_type = SHT_RELA, sh_flags = SHF_INFO_LINK, sh_addr = 0, sh_offset = lo_rela_data_off l,
      sh_size = lo_rela_data_size l, sh_link = ucast (symtab_shndx n), sh_info = 2, sh_addralign = 8, sh_entsize = 24\<rparr>" (is "_ \<Longrightarrow> ?reld")
proof -
  have dd: "data_relocs oc \<noteq> [] \<Longrightarrow> data \<noteq> []" using ok by (simp add: object_ok_def)
  have "(data = []) = True \<and> (data_relocs oc = []) = True \<or> (data = []) = False \<and> (data_relocs oc = []) = True \<or>
    (data = []) = False \<and> (data_relocs oc = []) = False" using dd by auto
  then have "?sym \<and> ?str \<and> ?relt \<and> (data_relocs oc \<noteq> [] \<longrightarrow> ?reld)"
  proof (elim disjE conjE)
    assume D: "(data = []) = True" "(data_relocs oc = []) = True"
    show ?thesis by (simp add: H_def n_def shdrs_of_def Let_def numbers_of [OF ok] sections_count [OF ok] D)
  next
    assume D: "(data = []) = False" "(data_relocs oc = []) = True"
    show ?thesis by (simp add: H_def n_def shdrs_of_def Let_def numbers_of [OF ok] sections_count [OF ok] D)
  next
    assume D: "(data = []) = False" "(data_relocs oc = []) = False"
    show ?thesis by (simp add: H_def n_def shdrs_of_def Let_def numbers_of [OF ok] sections_count [OF ok] D)
  qed
  then show ?sym ?str ?relt "data_relocs oc \<noteq> [] \<Longrightarrow> ?reld" by simp_all
qed

lemma file_reads:
  assumes ok: "object_ok code data oc" and strsz: "strsz = snd (str_offsets (oc_symbols oc) 1)" and offs: "offs = fst (str_offsets (oc_symbols oc) 1)"
    and p: "p = object_places data oc" and l: "l = elf_layout_of (elf_numbers_of data oc) code data oc strsz"
    and parts: "file_parts f machine m code data oc (elf_numbers_of data oc) l strsz offs p"
  shows "reads_as machine m code data oc f"
proof -
  let ?n = "elf_numbers_of data oc" and ?fl = "if data = [] then 2 else 3 :: nat"
  let ?H = "shdrs_of ?n l code data strsz"
  note sz = strtab_size_ok [OF ok, folded strsz]
  note lay = layout_of [OF ok sz(1), folded l]
  note nums = numbers_of [OF ok] and cnt = sections_count [OF ok]
  note hs = read_shdrs [OF ok parts] and pl = object_places_ok [OF ok, folded p]
  have dd: "data_relocs oc \<noteq> [] \<Longrightarrow> data \<noteq> []" using ok by (simp add: object_ok_def)
  have len: "unat (of_nat (length code) :: u64) = length code" "unat (of_nat (length data) :: u64) = length data"
    using ok by (simp_all add: object_ok_def unat_of_nat_small)
  have fp: "part f 0 64 = elf_header_bytes machine ?n (lo_shdr_off l)" "part f (unat (lo_text_off l)) (length code) = code"
    "part f (unat (lo_data_off l)) (length data) = data"
    "part f (unat (lo_rela_text_off l)) (24 * length (oc_relocs oc)) = concat (map (rel_bytes m (elf_sym_index p)) (oc_relocs oc))"
    "part f (unat (lo_rela_data_off l)) (24 * length (data_relocs oc)) = concat (map (rel_bytes m (elf_sym_index p)) (data_relocs oc))"
    "part f (unat (lo_symtab_off l)) (24 * (?fl + length (oc_symbols oc))) = replicate 24 0 @ raw_syms (symtab_rest data oc offs (sym_order p))"
    "part f (unat (lo_strtab_off l)) (unat strsz) = strtab_bytes oc" "part f (unat (lo_shstrtab_off l)) 61 = shstrtab_content"
    using parts by (simp_all add: file_parts_def)
  note secs = sections_by_name [OF ok hs fp(8)]
  note simps = shdrs_of_def Let_def nums cnt
  have t: "sec_bytes f (?H ! 1) = code" using fp(2) len by (simp add: sec_bytes_def simps)
  have d: "sec_bytes f (?H ! 2) = data" if "data \<noteq> []" using fp(3) len that by (simp add: sec_bytes_def simps)
  let ?st = "?H ! unat (symtab_shndx ?n)"
  note th = table_headers [OF ok, of l strsz]
  have "length (oc_symbols oc) < 2 ^ 24" using ok by (simp add: object_ok_def)
  then have nloc: "length (filter is_local_def (oc_symbols oc)) < 2 ^ 24" by (rule le_less_trans [OF length_filter_le])
  have first: "unat (of_nat (?fl + length (filter is_local_def (oc_symbols oc))) :: u32) = ?fl + length (filter is_local_def (oc_symbols oc))"
    using nloc by (intro unat_of_nat_small) simp
  have so: "unat (1 :: u64) + length (concat (map (\<lambda>s. cstr (os_name s)) (oc_symbols oc))) < 2 ^ 32" using ok by (simp add: object_ok_def)
  have st: "sec_bytes f ?st = replicate 24 0 @ raw_syms (symtab_rest data oc offs (sym_order p))" "unat (sh_link ?st) = unat (strtab_shndx ?n)"
    "unat (sh_info ?st) = ?fl + length (filter is_local_def (oc_symbols oc))"
    using fp(6) lay(13) first by (simp_all add: sec_bytes_def th nums(4))
  have stt: "sec_bytes f (?H ! unat (strtab_shndx ?n)) = strtab_bytes oc" using fp(7) by (simp add: sec_bytes_def th)
  have syms: "read_syms f ?st = file_syms data oc"
    unfolding read_syms_def Let_def hs st(1,2) stt using str_offsets_ok [OF so] pl
    by (intro read_symbols [OF ok]) (simp_all add: offs)
  have rel: "read_rels f h = map (rel_view m data oc) rs"
    if "sec_bytes f h = concat (map (rel_bytes m (elf_sym_index p)) rs)" "unat (sh_link h) = unat (symtab_shndx ?n)"
      "set rs \<subseteq> set (oc_relocs oc @ data_relocs oc)" for h rs
    unfolding read_rels_def Let_def hs that(1,2) syms length_rel_table
    by (rule read_relocs [OF ok _ pl(3)]) (use ok that(3) in \<open>auto simp: object_ok_def\<close>)
  have "sec_bytes f (?H ! ?fl) = concat (map (rel_bytes m (elf_sym_index p)) (oc_relocs oc))"
    unfolding sec_bytes_def th using fp(4) lay(11) by simp
  then have rt: "read_rels f (?H ! ?fl) = map (rel_view m data oc) (oc_relocs oc)" "sh_info (?H ! ?fl) = 1"
    by (auto intro!: rel simp: th)
  have rd: "read_rels f (?H ! 4) = map (rel_view m data oc) (data_relocs oc)" "sh_info (?H ! 4) = 2" if "data_relocs oc \<noteq> []"
  proof -
    have "sec_bytes f (?H ! 4) = concat (map (rel_bytes m (elf_sym_index p)) (data_relocs oc))"
      unfolding sec_bytes_def th(4) [OF that] using fp(5) lay(12) that by simp
    then show "read_rels f (?H ! 4) = map (rel_view m data oc) (data_relocs oc)" "sh_info (?H ! 4) = 2"
      by (auto intro!: rel simp: th(4) [OF that])
  qed
  show ?thesis
    unfolding reads_as_def hs using header_identity [OF fp(1)] secs t d syms st(3) rt rd by simp
qed

section \<open>Round trip\<close>

text \<open>C12: for every object within the limits of the format, \<open>write_elf\<close> writes a relocatable file whose reading by an
  independent ELF reader gives back the object: the code, the data, every symbol by name with binding, section and
  value, the local symbols first, and every relocation with its offset, the symbol it names, its type and its addend.\<close>

theorem elf_object_reads_back:
  assumes "object_ok code data oc"
  shows "\<exists>f. reads_as machine m code data oc f \<and>
    (\<forall>out. length f \<le> sink_capacity out - length (sink_written out) \<longrightarrow>
      write_elf (\<lambda>_. True) out code data oc machine m = Some (0, out\<lparr>sink_written := sink_written out @ f\<rparr>))"
proof -
  let ?offs = "fst (str_offsets (oc_symbols oc) 1)" and ?strsz = "snd (str_offsets (oc_symbols oc) 1)"
  let ?n = "elf_numbers_of data oc" and ?p = "object_places data oc"
  let ?l = "elf_layout_of ?n code data oc ?strsz"
  let ?f = "fill (regions machine m code data oc ?n ?l ?strsz ?offs ?p) (replicate (unat (lo_total_size ?l)) 0)"
  have "file_parts ?f machine m code data oc ?n ?l ?strsz ?offs ?p"
    using filled_parts [OF assms strtab_size_ok [OF assms]] object_places_ok [OF assms] by simp
  then have "reads_as machine m code data oc ?f" by (intro file_reads [OF assms refl refl refl refl])
  moreover have "elf_object (\<lambda>_. True) code data oc machine m = Some (Some ?f)" by (rule object_written [OF assms])
  then have "write_elf (\<lambda>_. True) out code data oc machine m = Some (0, out\<lparr>sink_written := sink_written out @ ?f\<rparr>)"
    if "length ?f \<le> sink_capacity out - length (sink_written out)" for out
    using that by (simp add: write_elf_def exec_write_def fwrite_def)
  ultimately show ?thesis by blast
qed

text \<open>A function that calls another through a relocation, a local variable that holds its address, and an
  undefined symbol between them.\<close>

definition demo_object :: lr_objfile_ctx where
  "demo_object = empty_objfile\<lparr>oc_symbols :=
       [\<lparr>os_name = ''main'', os_hash = 0, os_offset = 0, os_section = 1, os_defined = True, os_local = False, os_weak = False\<rparr>,
        \<lparr>os_name = ''puts'', os_hash = 0, os_offset = 0, os_section = 0, os_defined = False, os_local = False, os_weak = False\<rparr>,
        \<lparr>os_name = ''x'', os_hash = 0, os_offset = 0, os_section = 2, os_defined = True, os_local = True, os_weak = False\<rparr>],
     oc_relocs := [\<lparr>or_offset = 1, or_symbol_idx = 1, or_type = 21\<rparr>, \<lparr>or_offset = 8, or_symbol_idx = 2, or_type = 20\<rparr>],
     data_relocs := [\<lparr>or_offset = 0, or_symbol_idx = 0, or_type = 23\<rparr>]\<rparr>"

lemma demo_object_ok: "object_ok [0xE8, 0, 0, 0, 0, 0x48, 0x8B, 0x05, 0, 0, 0, 0, 0xC3] (replicate 8 0) demo_object"
  by (simp add: object_ok_def demo_object_def empty_objfile_def cstr_def name_bytes_def plain_name_def)

theorem elf_object_reads_back_witness:
  "\<exists>f. reads_as 62 elf_reloc_x86_64 [0xE8, 0, 0, 0, 0, 0x48, 0x8B, 0x05, 0, 0, 0, 0, 0xC3] (replicate 8 0) demo_object f"
  using elf_object_reads_back [OF demo_object_ok, of 62 elf_reloc_x86_64] by blast

end
