(* ===== verification/Ir_Merge.thy ===== *)
theory Ir_Merge
  imports Ir_Disambiguate "HOL-Library.Multiset"
begin

text \<open>
  Linking two modules (\<^verbatim>\<open>src/src/ir.c\<close>, \<^verbatim>\<open>lr_module_merge\<close>): the symbols of the source are interned
  in the destination, its globals and functions are copied into the arena of the destination or
  take the place of a declaration of the same name.

  \<open>k\<close> numbers the allocations of type nodes and instructions in the arena of the destination: the
  \<open>k\<close>-th one has the address \<open>k\<close>.  The result is \<open>None\<close> where the code leaves the model: an operand
  names a symbol outside the table of its module, a function has no return type, or interning does
  not return.  Strings and arrays are copied by value.
\<close>

section \<open>The operations\<close>

definition merge_find_func :: "lr_module \<Rightarrow> string \<Rightarrow> nat option" where
  "merge_find_func m name = find_index (\<lambda>f. fn_name f = name) (funcs m)"

definition merge_find_global :: "lr_module \<Rightarrow> string \<Rightarrow> nat option" where
  "merge_find_global m name = find_index (\<lambda>g. g_name g = name) (globals m)"

fun scalar_node :: "lr_module \<Rightarrow> lr_scalar \<Rightarrow> lr_type" where
  "scalar_node m SVoid = type_void m"
| "scalar_node m SI1 = type_i1 m"
| "scalar_node m SI8 = type_i8 m"
| "scalar_node m SI16 = type_i16 m"
| "scalar_node m SI32 = type_i32 m"
| "scalar_node m SI64 = type_i64 m"
| "scalar_node m SFloat = type_float m"
| "scalar_node m SDouble = type_double m"
| "scalar_node m SX86Fp80 = type_x86_fp80 m"
| "scalar_node m SFp128 = type_fp128 m"

function (sequential)
  merge_remap_type :: "lr_module \<Rightarrow> nat \<Rightarrow> lr_type \<Rightarrow> lr_type \<times> nat" and
  merge_remap_types :: "lr_module \<Rightarrow> nat \<Rightarrow> lr_type list \<Rightarrow> lr_type list \<times> nat"
where
  "merge_remap_type dest k (TScalar _ s) = (scalar_node dest s, k)"
| "merge_remap_type dest k (TPtr _ (Some elem)) =
     (case merge_remap_type dest k elem of (e, k1) \<Rightarrow> (lr_type_ptr k1 (Some e), k1 + 1))"
| "merge_remap_type dest k (TPtr _ None) = (type_ptr dest, k)"
| "merge_remap_type dest k (TArray _ elem n) =
     (case merge_remap_type dest k elem of (e, k1) \<Rightarrow> (lr_type_array k1 e n, k1 + 1))"
| "merge_remap_type dest k (TVector _ elem n) =
     (case merge_remap_type dest k elem of (e, k1) \<Rightarrow> (lr_type_vector k1 e n, k1 + 1))"
| "merge_remap_type dest k (TStruct _ fs packed name) =
     (case merge_remap_types dest k fs of (fs', k1) \<Rightarrow> (lr_type_struct k1 fs' packed name, k1 + 1))"
| "merge_remap_type dest k (TFunc _ ret params vararg) =
     (case merge_remap_type dest k ret of (r, k1) \<Rightarrow>
        case merge_remap_types dest k1 params of (ps, k2) \<Rightarrow> (lr_type_func k2 r ps vararg, k2 + 1))"
| "merge_remap_types dest k [] = ([], k)"
| "merge_remap_types dest k (t # ts) =
     (case merge_remap_type dest k t of (t', k1) \<Rightarrow>
        case merge_remap_types dest k1 ts of (ts', k2) \<Rightarrow> (t' # ts', k2))"
  by pat_completeness auto
termination
  by (relation "measure (\<lambda>x. case x of Inl (_, _, t) \<Rightarrow> size t | Inr (_, _, ts) \<Rightarrow> size_list size ts)") auto

text \<open>A possibly null type.\<close>

fun remap_type_ptr :: "lr_module \<Rightarrow> nat \<Rightarrow> lr_type option \<Rightarrow> lr_type option \<times> nat" where
  "remap_type_ptr dest k None = (None, k)"
| "remap_type_ptr dest k (Some t) = (case merge_remap_type dest k t of (t', k1) \<Rightarrow> (Some t', k1))"

definition merge_remap_operand :: "lr_module \<Rightarrow> u32 list option \<Rightarrow> nat \<Rightarrow> lr_operand \<Rightarrow> (lr_operand \<times> nat) option" where
  "merge_remap_operand dest symbol_remap k op =
     (case remap_type_ptr dest k (opd_type op) of (ty, k1) \<Rightarrow>
        let out = op\<lparr>opd_type := ty\<rparr>
        in case symbol_remap of
             None \<Rightarrow> Some (out, k1)
           | Some r \<Rightarrow>
               if opd_kind op \<noteq> LR_VAL_GLOBAL then Some (out, k1)
               else if unat (opd_global_id op) < length r
                    then Some (set_global_id (r ! unat (opd_global_id op)) out, k1)
                    else None)"

text \<open>A loop that copies the elements of a list one after another.\<close>

fun map_alloc :: "(nat \<Rightarrow> 'a \<Rightarrow> ('b \<times> nat) option) \<Rightarrow> nat \<Rightarrow> 'a list \<Rightarrow> ('b list \<times> nat) option" where
  "map_alloc copy k [] = Some ([], k)"
| "map_alloc copy k (x # xs) =
     (case copy k x of None \<Rightarrow> None
      | Some (y, k1) \<Rightarrow> map_option (\<lambda>(ys, k2). (y # ys, k2)) (map_alloc copy k1 xs))"

definition merge_copy_inst :: "lr_module \<Rightarrow> u32 list option \<Rightarrow> nat \<Rightarrow> lr_inst \<Rightarrow> (lr_inst \<times> nat) option" where
  "merge_copy_inst dest symbol_remap k si =
     (case map_alloc (merge_remap_operand dest symbol_remap) k (operands si) of None \<Rightarrow> None
      | Some (ops, k1) \<Rightarrow>
          (case remap_type_ptr dest k1 (inst_type si) of (itype, k2) \<Rightarrow>
             map_option (\<lambda>di. (di\<lparr>inst_pred := inst_pred si, inst_align := inst_align si, call_external_abi := call_external_abi si,
                                  call_vararg := call_vararg si, call_fixed_args := call_fixed_args si, inst_indices := inst_indices si\<rparr>, k2 + 1))
               (lr_inst_create (Some k2) (inst_op si) itype (inst_dest si) ops)))"

definition merge_copy_block :: "lr_module \<Rightarrow> u32 list option \<Rightarrow> nat \<Rightarrow> lr_block \<Rightarrow> (lr_block \<times> nat) option" where
  "merge_copy_block dest symbol_remap k sb =
     map_option (\<lambda>(insts, k1). (\<lparr>blk_name = blk_name sb, blk_id = blk_id sb, blk_insts = insts, inst_array = None, num_insts = 0\<rparr>, k1))
       (map_alloc (merge_copy_inst dest symbol_remap) k (blk_insts sb))"

definition merge_deep_copy_func_body :: "lr_module \<Rightarrow> u32 list option \<Rightarrow> nat \<Rightarrow> lr_func \<Rightarrow> lr_func \<Rightarrow> (lr_func \<times> nat) option" where
  "merge_deep_copy_func_body dest symbol_remap k df sf =
     map_option (\<lambda>(dbs, k1).
         (fold (\<lambda>db df. df\<lparr>num_blocks := num_blocks df + 1, blocks := blocks df @ [db], is_decl := False\<rparr>) dbs
            (df\<lparr>next_vreg := next_vreg sf\<rparr>), k1))
       (map_alloc (merge_copy_block dest symbol_remap) k (blocks sf))"

definition clear_body :: "lr_func \<Rightarrow> lr_func" where
  "clear_body f = f\<lparr>blocks := [], block_array := None, linear_inst_array := None, block_inst_offsets := None, num_linear_insts := 0, num_blocks := 0\<rparr>"

definition merge_replace_func :: "lr_module \<Rightarrow> u32 list option \<Rightarrow> nat \<Rightarrow> lr_func \<Rightarrow> lr_func \<Rightarrow> (lr_func \<times> nat) option" where
  "merge_replace_func dest symbol_remap k df sf =
     (case ret_type sf of None \<Rightarrow> None
      | Some ret \<Rightarrow>
          (case merge_remap_type dest k ret of (r, k1) \<Rightarrow>
             case merge_remap_types dest k1 (param_types sf) of (ps, k2) \<Rightarrow>
               merge_deep_copy_func_body dest symbol_remap (k2 + 1)
                 (clear_body (df\<lparr>ret_type := Some r, fn_vararg := fn_vararg sf, uses_llvm_abi := uses_llvm_abi sf, param_types := ps,
                     param_vregs := param_vregs sf, fn_type := Some (lr_type_func k2 r ps (fn_vararg sf))\<rparr>)) sf))"

definition global_bytes :: "lr_global \<Rightarrow> bytes" where
  "global_bytes g = (case init_data g of None \<Rightarrow> [] | Some d \<Rightarrow> d)"

definition merge_copy_global_data :: "lr_global \<Rightarrow> lr_global \<Rightarrow> lr_global" where
  "merge_copy_global_data dg sg =
     fold (\<lambda>sr dg. dg\<lparr>relocs := sr # relocs dg\<rparr>) (relocs sg)
       (if global_bytes sg \<noteq> [] then dg\<lparr>init_data := Some (global_bytes sg)\<rparr> else dg)"

definition merge_global_init_all_zero :: "lr_global \<Rightarrow> bool" where
  "merge_global_init_all_zero g \<longleftrightarrow> (\<forall>b \<in> set (global_bytes g). b = 0)"

text \<open>The bodies of the two loops of \<^verbatim>\<open>lr_module_merge\<close>.\<close>

definition merge_global :: "nat \<Rightarrow> lr_module \<Rightarrow> lr_global \<Rightarrow> (lr_module \<times> nat) option" where
  "merge_global k dest sg =
     (case remap_type_ptr dest k (g_type sg) of (ty, k1) \<Rightarrow>
        case merge_find_global dest (g_name sg) of
          Some i \<Rightarrow>
            (let dg = globals dest ! i;
                 taken = merge_copy_global_data (dg\<lparr>g_type := ty, g_is_const := g_is_const sg, is_external := False, is_local := is_local sg,
                           is_weak := is_weak sg, init_data := None, relocs := []\<rparr>) sg;
                 dg_has_effective_init = (global_bytes dg \<noteq> [] \<and> \<not> merge_global_init_all_zero dg);
                 sg_has_effective_init = (global_bytes sg \<noteq> [] \<and> \<not> merge_global_init_all_zero sg);
                 dg_is_weak = (\<not> dg_has_effective_init \<and> relocs dg = []);
                 sg_is_stronger = (sg_has_effective_init \<or> relocs sg \<noteq> [])
             in if is_external dg \<and> \<not> is_external sg \<or>
                   \<not> is_external dg \<and> \<not> is_external sg \<and> dg_is_weak \<and> sg_is_stronger
                then Some (dest\<lparr>globals := (globals dest)[i := taken]\<rparr>, k1)
                else Some (dest, k))
        | None \<Rightarrow>
            (case lr_global_create dest (g_name sg) ty (g_is_const sg) of (_, m1) \<Rightarrow>
               let i = length (globals dest); ng = globals m1 ! i
               in Some (m1\<lparr>globals := (globals m1)[i := merge_copy_global_data
                    (ng\<lparr>is_external := is_external sg, is_local := is_local sg, is_weak := is_weak sg\<rparr>) sg]\<rparr>, k1)))"

definition merge_func :: "(u32 \<Rightarrow> bool) \<Rightarrow> u32 list option \<Rightarrow> nat \<Rightarrow> lr_module \<Rightarrow> lr_func \<Rightarrow> (lr_module \<times> nat) option" where
  "merge_func mem symbol_remap k dest sf =
     (let src_is_decl = (is_decl sf \<or> blocks sf = [])
      in case merge_find_func dest (fn_name sf) of
           Some i \<Rightarrow>
             (let df = funcs dest ! i; dest_is_decl = (is_decl df \<or> blocks df = [])
              in if dest_is_decl \<and> \<not> src_is_decl
                 then map_option (\<lambda>(f, k1). (dest\<lparr>funcs := (funcs dest)[i := f]\<rparr>, k1)) (merge_replace_func dest symbol_remap k df sf)
                 else Some (dest, k))
         | None \<Rightarrow>
             (case merge_remap_types dest k (param_types sf) of (params, k1) \<Rightarrow>
                case ret_type sf of None \<Rightarrow> None
                | Some ret \<Rightarrow>
                    (case merge_remap_type dest k1 ret of (r, k2) \<Rightarrow>
                       if src_is_decl
                       then map_option (\<lambda>(i, m1). (m1\<lparr>funcs := (funcs m1)[i := (funcs m1 ! i)\<lparr>uses_llvm_abi := uses_llvm_abi sf\<rparr>]\<rparr>, k2 + 1))
                              (lr_func_declare mem k2 dest (fn_name sf) r params (fn_vararg sf))
                       else (case lr_func_create mem k2 dest (fn_name sf) r params (fn_vararg sf) of None \<Rightarrow> None
                             | Some (i, m1) \<Rightarrow>
                                 map_option (\<lambda>(f, k3). (m1\<lparr>funcs := (funcs m1)[i := f]\<rparr>, k3))
                                   (merge_deep_copy_func_body m1 symbol_remap (k2 + 1)
                                      (clear_body ((funcs m1 ! i)\<lparr>uses_llvm_abi := uses_llvm_abi sf\<rparr>)) sf)))))"

fun merge_loop :: "(nat \<Rightarrow> 'm \<Rightarrow> 'a \<Rightarrow> ('m \<times> nat) option) \<Rightarrow> nat \<Rightarrow> 'm \<Rightarrow> 'a list \<Rightarrow> ('m \<times> nat) option" where
  "merge_loop step k m [] = Some (m, k)"
| "merge_loop step k m (x # xs) = (case step k m x of None \<Rightarrow> None | Some (m', k') \<Rightarrow> merge_loop step k' m' xs)"

text \<open>\<open>k\<close> is the number of the first allocation; a null source is \<open>None\<close>.\<close>

definition lr_module_merge ::
  "(u32 \<Rightarrow> bool) \<Rightarrow> nat \<Rightarrow> lr_module \<Rightarrow> lr_module option \<Rightarrow> (int \<times> lr_module \<times> nat) option" where
  "lr_module_merge mem k dest source =
     (case source of None \<Rightarrow> Some (- 1, dest, k)
      | Some src \<Rightarrow>
          (case (if 0 < num_symbols src
                 then map_option (\<lambda>(r, m). (Some r, m)) (intern_all (lr_module_intern_symbol mem) dest (sym_names src))
                 else Some (None, dest)) of None \<Rightarrow> None
           | Some (symbol_remap, m1) \<Rightarrow>
               (case merge_loop merge_global k m1 (globals src) of None \<Rightarrow> None
                | Some (m2, k2) \<Rightarrow>
                    map_option (\<lambda>(m3, k3). (0, m3, k3)) (merge_loop (merge_func mem symbol_remap) k2 m2 (funcs src)))))"

section \<open>What a module says, by name\<close>

text \<open>Addresses are left out of types and instructions, and a symbol operand is read as its name.\<close>

fun erase :: "lr_type \<Rightarrow> lr_type" where
  "erase (TScalar _ s) = TScalar 0 s"
| "erase (TPtr _ e) = TPtr 0 (map_option erase e)"
| "erase (TArray _ e n) = TArray 0 (erase e) n"
| "erase (TVector _ e n) = TVector 0 (erase e) n"
| "erase (TStruct _ fs packed name) = TStruct 0 (map erase fs) packed name"
| "erase (TFunc _ r ps vararg) = TFunc 0 (erase r) (map erase ps) vararg"

type_synonym opd_view = "lr_operand_kind \<times> lr_type option \<times> u64 \<times> (string option + u64)"
type_synonym inst_view = "lr_opcode \<times> lr_type option \<times> u32 \<times> opd_view list \<times> u32 \<times> u32 list \<times> u32 \<times> bool \<times> bool \<times> u32"
type_synonym block_view = "string \<times> u32 \<times> inst_view list"
type_synonym signature = "lr_type option \<times> lr_type list \<times> bool \<times> bool"

definition opd_view :: "string list \<Rightarrow> lr_operand \<Rightarrow> opd_view" where
  "opd_view names op =
     (opd_kind op, map_option erase (opd_type op), global_offset op,
      if opd_kind op = LR_VAL_GLOBAL
      then Inl (if unat (opd_global_id op) < length names then Some (names ! unat (opd_global_id op)) else None)
      else Inr (opd_bits op))"

definition inst_view :: "string list \<Rightarrow> lr_inst \<Rightarrow> inst_view" where
  "inst_view names i =
     (inst_op i, map_option erase (inst_type i), inst_dest i, map (opd_view names) (operands i), inst_pred i, inst_indices i,
      inst_align i, call_external_abi i, call_vararg i, call_fixed_args i)"

definition block_view :: "string list \<Rightarrow> lr_block \<Rightarrow> block_view" where
  "block_view names b = (blk_name b, blk_id b, map (inst_view names) (blk_insts b))"

definition sig_view :: "lr_func \<Rightarrow> signature" where
  "sig_view f = (map_option erase (ret_type f), map erase (param_types f), fn_vararg f, uses_llvm_abi f)"

datatype func_view = Declared signature | Defined signature "u32 list" u32 "block_view list"

definition func_view :: "string list \<Rightarrow> lr_func \<Rightarrow> func_view" where
  "func_view names f =
     (if is_decl f \<or> blocks f = [] then Declared (sig_view f)
      else Defined (sig_view f) (param_vregs f) (next_vreg f) (map (block_view names) (blocks f)))"

record global_view =
  gv_type :: "lr_type option"
  gv_const :: bool
  gv_external :: bool
  gv_local :: bool
  gv_weak :: bool
  gv_bytes :: bytes
  gv_relocs :: "lr_reloc multiset"

definition global_view :: "lr_global \<Rightarrow> global_view" where
  "global_view g = \<lparr>gv_type = map_option erase (g_type g), gv_const = g_is_const g, gv_external = is_external g,
     gv_local = is_local g, gv_weak = is_weak g, gv_bytes = global_bytes g, gv_relocs = mset (relocs g)\<rparr>"

definition procedures :: "lr_module \<Rightarrow> string \<Rightarrow> func_view option" where
  "procedures m = map_of (map (\<lambda>f. (fn_name f, func_view (sym_names m) f)) (funcs m))"

definition variables :: "lr_module \<Rightarrow> string \<Rightarrow> global_view option" where
  "variables m = map_of (map (\<lambda>g. (g_name g, global_view g)) (globals m))"

text \<open>The specification of linking, name by name: what the destination defines stays; a definition
  replaces a declaration, and a global with contents replaces one without.\<close>

fun link_func :: "func_view option \<Rightarrow> func_view option \<Rightarrow> func_view option" where
  "link_func None s = s"
| "link_func (Some (Declared d)) (Some (Defined sg ps v bs)) = Some (Defined sg ps v bs)"
| "link_func (Some d) s = Some d"

definition gv_blank :: "global_view \<Rightarrow> bool" where
  "gv_blank g \<longleftrightarrow> (\<forall>b \<in> set (gv_bytes g). b = 0) \<and> gv_relocs g = {#}"

fun link_var :: "global_view option \<Rightarrow> global_view option \<Rightarrow> global_view option" where
  "link_var None s = s"
| "link_var (Some d) None = Some d"
| "link_var (Some d) (Some s) =
     (if \<not> gv_external s \<and> (gv_external d \<or> gv_blank d \<and> \<not> gv_blank s) then Some s else Some d)"

text \<open>What the two modules have to satisfy.\<close>

definition opd_bound :: "string list \<Rightarrow> lr_operand \<Rightarrow> bool" where
  "opd_bound names op \<longleftrightarrow> (opd_kind op = LR_VAL_GLOBAL \<longrightarrow> unat (opd_global_id op) < length names)"

definition inst_bound :: "string list \<Rightarrow> lr_inst \<Rightarrow> bool" where
  "inst_bound names i \<longleftrightarrow> (\<forall>op \<in> set (operands i). opd_bound names op)"

definition block_bound :: "string list \<Rightarrow> lr_block \<Rightarrow> bool" where
  "block_bound names b \<longleftrightarrow> (\<forall>i \<in> set (blk_insts b). inst_bound names i)"

definition func_bound :: "string list \<Rightarrow> lr_func \<Rightarrow> bool" where
  "func_bound names f \<longleftrightarrow> (\<forall>b \<in> set (blocks f). block_bound names b)"

definition types_ok :: "lr_module \<Rightarrow> bool" where
  "types_ok m \<longleftrightarrow> list_all (\<lambda>s. erase (scalar_node m s) = TScalar 0 s) [SVoid, SI1, SI8, SI16, SI32, SI64, SFloat, SDouble, SX86Fp80, SFp128] \<and>
     erase (type_ptr m) = TPtr 0 None"

definition func_linkable :: "string list \<Rightarrow> lr_func \<Rightarrow> bool" where
  "func_linkable names f \<longleftrightarrow> func_ok names f \<and> func_bound names f \<and> ret_type f \<noteq> None \<and>
     param_vregs f = map of_nat [0..<length (param_types f)] \<and> length (param_types f) < 2 ^ 32"

definition linkable :: "lr_module \<Rightarrow> bool" where
  "linkable m \<longleftrightarrow> module_ok m \<and> types_ok m \<and> list_all (func_linkable (sym_names m)) (funcs m) \<and>
     distinct (map fn_name (funcs m)) \<and> distinct (map g_name (globals m))"

section \<open>Copies\<close>

lemma types_ok_scalar: "types_ok m \<Longrightarrow> erase (scalar_node m s) = TScalar 0 s"
  by (cases s) (simp_all add: types_ok_def)

lemma types_ok_fields [simp]:
  "types_ok (m\<lparr>funcs := fs\<rparr>) = types_ok m" "types_ok (m\<lparr>globals := gs\<rparr>) = types_ok m"
  "types_ok (m\<lparr>num_globals := n\<rparr>) = types_ok m" "types_ok (m\<lparr>local_function_collision_scan_dirty := d\<rparr>) = types_ok m"
  by (simp_all add: types_ok_def)

lemma remap_erase:
  assumes "types_ok dest"
  shows "erase (fst (merge_remap_type dest k t)) = erase t"
    and "map erase (fst (merge_remap_types dest k' ts)) = map erase ts"
  using assms
proof (induction dest k t and dest k' ts rule: merge_remap_type_merge_remap_types.induct)
qed (auto simp: types_ok_scalar lr_type_ptr_def lr_type_array_def lr_type_vector_def lr_type_struct_def lr_type_func_def types_ok_def
   split: prod.splits)

lemma remap_erase_opt:
  assumes "types_ok dest"
  shows "map_option erase (fst (remap_type_ptr dest k t)) = map_option erase t"
proof (cases t)
  case (Some a)
  then show ?thesis using remap_erase(1) [OF assms, of k a] by (simp add: case_prod_unfold)
qed simp

lemma map_alloc_ok:
  assumes "\<And>k x. x \<in> set xs \<Longrightarrow> \<exists>y k'. copy k x = Some (y, k') \<and> new_view y = old_view x \<and> Q y"
  shows "\<exists>ys k'. map_alloc copy k xs = Some (ys, k') \<and> map new_view ys = map old_view xs \<and> (\<forall>y \<in> set ys. Q y)"
  using assms
proof (induction xs arbitrary: k)
  case (Cons x xs)
  obtain y k1 where y: "copy k x = Some (y, k1)" "new_view y = old_view x" "Q y" using Cons.prems [of x k] by auto
  obtain ys k2 where "map_alloc copy k1 xs = Some (ys, k2)" "map new_view ys = map old_view xs" "\<forall>y \<in> set ys. Q y"
    using Cons.IH [of k1] Cons.prems by auto
  then show ?case using y by auto
qed simp

text \<open>The table of new symbol ids: the new id of a symbol has the same name.\<close>

fun remap_ok :: "string list \<Rightarrow> string list \<Rightarrow> u32 list option \<Rightarrow> bool" where
  "remap_ok names names' None \<longleftrightarrow> names = []"
| "remap_ok names names' (Some r) \<longleftrightarrow> length r = length names \<and>
     (\<forall>i < length names. unat (r ! i) < length names' \<and> names' ! unat (r ! i) = names ! i)"

lemma global_id_set [simp]: "opd_global_id (set_global_id s op) = s"
  by (rule bit_word_eqI) (simp add: opd_global_id_def set_global_id_def bit_simps)

lemma set_global_id_fields [simp]:
  "opd_kind (set_global_id s op) = opd_kind op" "opd_type (set_global_id s op) = opd_type op"
  "global_offset (set_global_id s op) = global_offset op"
  by (simp_all add: set_global_id_def)

lemma remap_operand_ok:
  assumes "types_ok dest" and "remap_ok names names' r" and "opd_bound names op"
  shows "\<exists>op' k'. merge_remap_operand dest r k op = Some (op', k') \<and> opd_view names' op' = opd_view names op \<and> opd_bound names' op'"
proof -
  obtain ty k1 where t: "remap_type_ptr dest k (opd_type op) = (ty, k1)" by fastforce
  then have e: "map_option erase ty = map_option erase (opd_type op)" using remap_erase_opt [OF assms(1), of k "opd_type op"] by simp
  show ?thesis
  proof (cases "opd_kind op = LR_VAL_GLOBAL")
    case True
    then have b: "unat (opd_global_id op) < length names" using assms(3) by (simp add: opd_bound_def)
    then obtain r' where r: "r = Some r'" using assms(2) by (cases r) auto
    then show ?thesis using True b assms(2) t e
      by (simp add: merge_remap_operand_def Let_def opd_view_def opd_bound_def)
  next
    case False
    then show ?thesis using t e
      by (cases r) (simp_all add: merge_remap_operand_def Let_def opd_view_def opd_bound_def opd_global_id_def)
  qed
qed

lemma copy_inst_ok:
  assumes "types_ok dest" and "remap_ok names names' r" and "inst_bound names si"
  shows "\<exists>di k'. merge_copy_inst dest r k si = Some (di, k') \<and> inst_view names' di = inst_view names si \<and> inst_bound names' di"
proof -
  obtain ops k1 where o: "map_alloc (merge_remap_operand dest r) k (operands si) = Some (ops, k1)"
    "map (opd_view names') ops = map (opd_view names) (operands si)" "\<forall>op \<in> set ops. opd_bound names' op"
    using map_alloc_ok [where xs = "operands si" and copy = "merge_remap_operand dest r" and new_view = "opd_view names'" and old_view = "opd_view names" and Q = "opd_bound names'"]
      remap_operand_ok [OF assms(1,2)] assms(3) [unfolded inst_bound_def] by blast
  obtain ty k2 where t: "remap_type_ptr dest k1 (inst_type si) = (ty, k2)" by fastforce
  then have "map_option erase ty = map_option erase (inst_type si)" using remap_erase_opt [OF assms(1), of k1 "inst_type si"] by simp
  then show ?thesis using o t by (simp add: merge_copy_inst_def lr_inst_create_def inst_view_def inst_bound_def)
qed

lemma copy_block_ok:
  assumes "types_ok dest" and "remap_ok names names' r" and "block_bound names sb"
  shows "\<exists>db k'. merge_copy_block dest r k sb = Some (db, k') \<and> block_view names' db = block_view names sb \<and> block_bound names' db"
proof -
  obtain insts k1 where "map_alloc (merge_copy_inst dest r) k (blk_insts sb) = Some (insts, k1)"
    "map (inst_view names') insts = map (inst_view names) (blk_insts sb)" "\<forall>i \<in> set insts. inst_bound names' i"
    using map_alloc_ok [where xs = "blk_insts sb" and copy = "merge_copy_inst dest r" and new_view = "inst_view names'" and old_view = "inst_view names" and Q = "inst_bound names'"]
      copy_inst_ok [OF assms(1,2)] assms(3) [unfolded block_bound_def] by blast
  then show ?thesis by (simp add: merge_copy_block_def block_view_def block_bound_def)
qed

lemma append_blocks:
  "fold (\<lambda>db df. df\<lparr>num_blocks := num_blocks df + 1, blocks := blocks df @ [db], is_decl := False\<rparr>) dbs df =
     df\<lparr>num_blocks := num_blocks df + of_nat (length dbs), blocks := blocks df @ dbs, is_decl := (dbs = [] \<and> is_decl df)\<rparr>"
  by (induction dbs arbitrary: df) (simp_all add: add.commute add.left_commute)

text \<open>A copied body, in an emptied function.\<close>

lemma copy_body_ok:
  assumes "types_ok dest" and "remap_ok names names' r" and "func_bound names sf" and "blocks sf \<noteq> []"
  shows "\<exists>dbs k'. merge_deep_copy_func_body dest r k (clear_body df) sf =
      Some ((clear_body df)\<lparr>next_vreg := next_vreg sf, num_blocks := of_nat (length (blocks sf)), blocks := dbs, is_decl := False\<rparr>, k') \<and>
    map (block_view names') dbs = map (block_view names) (blocks sf) \<and> (\<forall>b \<in> set dbs. block_bound names' b)"
proof -
  obtain dbs k1 where o: "map_alloc (merge_copy_block dest r) k (blocks sf) = Some (dbs, k1)"
    "map (block_view names') dbs = map (block_view names) (blocks sf)" "\<forall>b \<in> set dbs. block_bound names' b"
    using map_alloc_ok [where xs = "blocks sf" and copy = "merge_copy_block dest r" and new_view = "block_view names'" and old_view = "block_view names" and Q = "block_bound names'"]
      copy_block_ok [OF assms(1,2)] assms(3) [unfolded func_bound_def] by blast
  moreover have "length dbs = length (blocks sf)" using o(2) by (rule map_eq_imp_length_eq)
  moreover from this have "dbs \<noteq> []" using assms(4) by auto
  ultimately show ?thesis
    by (intro exI [of _ dbs] exI [of _ k1]) (simp add: merge_deep_copy_func_body_def append_blocks clear_body_def)
qed

lemma copied_func:
  assumes "func_linkable names sf" and "blocks sf \<noteq> []" and "\<not> is_decl sf" and sig: "sig_view df = sig_view sf" "param_vregs df = param_vregs sf"
    and sid: "unat (symbol_id df) < length names'" "names' ! unat (symbol_id df) = fn_name df"
    and dbs: "map (block_view names') dbs = map (block_view names) (blocks sf)" "\<forall>b \<in> set dbs. block_bound names' b"
  defines "f \<equiv> (clear_body df)\<lparr>next_vreg := next_vreg sf, num_blocks := of_nat (length (blocks sf)), blocks := dbs, is_decl := False\<rparr>"
  shows "func_linkable names' f" and "func_view names' f = func_view names sf" and "fn_name f = fn_name df"
proof -
  have len: "length (param_types df) = length (param_types sf)" and ret: "ret_type df \<noteq> None"
    using sig assms(1) by (auto simp: sig_view_def func_linkable_def dest: map_eq_imp_length_eq)
  have "map (\<lambda>v. fst (snd v)) (map (block_view names') dbs) = map (\<lambda>v. fst (snd v)) (map (block_view names) (blocks sf))" by (simp only: dbs(1))
  then have ids: "map blk_id dbs = map blk_id (blocks sf)" by (simp add: block_view_def comp_def)
  have ok: "func_ok names sf" using assms(1) by (simp add: func_linkable_def)
  then have "length (map blk_id (blocks sf)) = unat (num_blocks sf)" by (simp add: func_ok_def)
  then have "unat (of_nat (length (blocks sf)) :: u32) = unat (num_blocks sf)" by simp
  then show "func_linkable names' f"
    using assms(1) ok ids sid len ret sig(2) dbs(2) by (auto simp: func_linkable_def func_ok_def f_def clear_body_def func_bound_def)
  have "dbs \<noteq> []" using dbs(1) assms(2) by auto
  then show "func_view names' f = func_view names sf"
    using assms(2,3) sig dbs(1) by (simp add: func_view_def f_def clear_body_def sig_view_def)
  show "fn_name f = fn_name df" by (simp add: f_def clear_body_def)
qed

section \<open>Tables by name\<close>

lemma table_update:
  assumes "distinct (map key xs)" and "i < length xs" and "key y = key (xs ! i)"
  shows "map_of (map (\<lambda>x. (key x, v x)) (xs[i := y])) = (map_of (map (\<lambda>x. (key x, v x)) xs))(key y \<mapsto> v y)"
  using assms
proof (induction xs arbitrary: i)
  case (Cons x xs)
  show ?case
  proof (cases i)
    case (Suc j)
    then have "key y \<in> key ` set xs" using Cons.prems(2,3) by simp
    moreover have "key x \<notin> key ` set xs" using Cons.prems(1) by simp
    ultimately have "key y \<noteq> key x" by auto
    then show ?thesis using Cons Suc by (auto simp: fun_eq_iff)
  qed (use Cons.prems in \<open>auto simp: fun_eq_iff\<close>)
qed simp

lemma table_append:
  "key y \<notin> key ` set xs \<Longrightarrow> map_of (map (\<lambda>x. (key x, v x)) (xs @ [y])) = (map_of (map (\<lambda>x. (key x, v x)) xs))(key y \<mapsto> v y)"
  by (induction xs) (auto simp: fun_eq_iff)

lemma table_find:
  "map_of (map (\<lambda>x. (key x, v x)) xs) n = map_option (\<lambda>i. v (xs ! i)) (find_index (\<lambda>x. key x = n) xs)"
  by (induction xs) (auto simp: option.map_comp comp_def)

lemma distinct_update_key: "distinct (map key xs) \<Longrightarrow> i < length xs \<Longrightarrow> key y = key (xs ! i) \<Longrightarrow> distinct (map key (xs[i := y]))"
  by (metis list_update_id map_update)

section \<open>One function\<close>

lemma procedures_find: "procedures m n = map_option (\<lambda>i. func_view (sym_names m) (funcs m ! i)) (merge_find_func m n)"
  by (simp add: procedures_def merge_find_func_def table_find)

lemma procedures_update:
  assumes "distinct (map fn_name (funcs m))" and "i < length (funcs m)" and "fn_name f = fn_name (funcs m ! i)"
  shows "procedures (m\<lparr>funcs := (funcs m)[i := f]\<rparr>) = (procedures m)(fn_name f \<mapsto> func_view (sym_names m) f)"
  using table_update [OF assms] by (simp add: procedures_def)

lemma linkable_update:
  assumes "linkable m" and "i < length (funcs m)" and "fn_name f = fn_name (funcs m ! i)" and "func_linkable (sym_names m) f"
  shows "linkable (m\<lparr>funcs := (funcs m)[i := f]\<rparr>)"
proof -
  have "func_ok (sym_names m) f" using assms(4) by (simp add: func_linkable_def)
  then have "module_ok (m\<lparr>funcs := (funcs m)[i := f]\<rparr>)" using assms by (intro module_ok_update) (auto simp: linkable_def)
  moreover have "types_ok (m\<lparr>funcs := (funcs m)[i := f]\<rparr>)" using assms(1) by (simp add: linkable_def types_ok_def)
  moreover have "list_all (func_linkable (sym_names m)) ((funcs m)[i := f])"
    using assms(1,4) set_update_subset_insert [of "funcs m" i f] by (auto simp: linkable_def list_all_iff)
  ultimately show ?thesis
    using assms(1) distinct_update_key [OF _ assms(2,3)] by (simp add: linkable_def)
qed

lemma bound_more: "opd_bound names op \<Longrightarrow> opd_bound (names @ new) op"
  by (auto simp: opd_bound_def)

lemma func_linkable_more: "func_linkable names f \<Longrightarrow> func_linkable (names @ new) f"
  by (auto simp: func_linkable_def func_ok_more_names func_bound_def block_bound_def inst_bound_def bound_more)

text \<open>A new function.\<close>

lemma func_create_linkable:
  assumes "linkable m" and "length (sym_names m) < 2 ^ 30" and "name \<notin> fn_name ` set (funcs m)" and "length params < 2 ^ 32"
  shows "\<exists>m1 f. lr_func_create (\<lambda>_. True) addr m name ret params vararg = Some (length (funcs m), m1) \<and> linkable m1 \<and>
    sym_names m1 = (if name \<in> set (sym_names m) then sym_names m else sym_names m @ [name]) \<and> globals m1 = globals m \<and> funcs m1 = funcs m @ [f] \<and>
    fn_name f = name \<and> ret_type f = Some ret \<and> param_types f = params \<and> param_vregs f = map of_nat [0..<length params] \<and>
    fn_vararg f = vararg \<and> blocks f = [] \<and> func_linkable (sym_names m1) f"
proof -
  have mok: "module_ok m" using assms(1) by (simp add: linkable_def)
  then have inv: "sym_inv m" by (simp add: module_ok_def)
  obtain sid m0 where s: "lr_module_intern_symbol (\<lambda>_. True) m name = Some (sid, m0)"
    "sym_names m0 = (if name \<in> set (sym_names m) then sym_names m else sym_names m @ [name])"
    using intern_step_total [OF inv assms(2), of name] by blast
  obtain sid' m0' oc where "lr_module_intern_symbol (\<lambda>_. True) m name = Some (sid', m0')" "lr_symtab.more m0' = lr_symtab.more m"
    using intern_outcomes [OF inv, of "\<lambda>_. True" name] assms(2) length_sym_names [of m] inv by (auto simp: sym_inv_def)
  then have more: "lr_symtab.more m0 = lr_symtab.more m" using s(1) by simp
  obtain i m1 where c: "lr_func_create (\<lambda>_. True) addr m name ret params vararg = Some (i, m1)" "symbol_id (funcs m1 ! i) \<noteq> UINT32_MAX"
    using func_create_total [OF inv assms(2)] by blast
  note cases = func_create_cases [OF c(1) mok c(2) assms(4,2)]
  define f where "f = funcs m1 ! i"
  have same: "funcs m0 = funcs m" "globals m0 = globals m" "type_ptr m0 = type_ptr m" "types_ok m0 = types_ok m"
    using more by (cases m; cases m0; simp add: types_ok_def)+
  have m1: "sym_names m1 = (if name \<in> set (sym_names m) then sym_names m else sym_names m @ [name])" "globals m1 = globals m" "types_ok m1" and f: "ret_type f = Some ret" "param_types f = params"
    "param_vregs f = map of_nat [0..<length params]" "fn_vararg f = vararg" "blocks f = []"
    using c(1) s same assms(1) by (auto simp: lr_func_create_def Let_def f_def linkable_def types_ok_fields)
  have "i < length (funcs m1)" using cases by (metis length_append_singleton lessI)
  then have "func_ok (sym_names m1) f" using cases module_ok_nth [of m1 i] by (simp add: f_def)
  then have "func_linkable (sym_names m1) f" using f assms(4) by (simp add: func_linkable_def func_bound_def)
  moreover have "funcs m1 = funcs m @ [f]" "fn_name f = name" "i = length (funcs m)" "module_ok m1" using cases by (auto simp: f_def)
  moreover from calculation have "linkable m1" using assms(1,3) m1 by (auto simp: linkable_def list_all_iff func_linkable_more)
  ultimately show ?thesis using c(1) m1 f by blast
qed

lemma map_option_link [simp]: "link_func (Some (Defined a b c d)) s = Some (Defined a b c d)"
  by (cases s) simp_all

lemma merge_func_found:
  assumes ok: "linkable dest" and r: "remap_ok names (sym_names dest) r" and sf: "func_linkable names sf"
    and i: "merge_find_func dest (fn_name sf) = Some i"
  shows "\<exists>dest' k'. merge_func (\<lambda>_. True) r k dest sf = Some (dest', k') \<and> linkable dest' \<and> sym_names dest' = sym_names dest \<and>
    globals dest' = globals dest \<and>
    procedures dest' = (procedures dest)(fn_name sf := link_func (procedures dest (fn_name sf)) (Some (func_view names sf)))"
proof -
  let ?df = "funcs dest ! i"
  have il: "i < length (funcs dest)" "fn_name ?df = fn_name sf" using find_index_Some [OF i [unfolded merge_find_func_def]] by auto
  have view: "procedures dest (fn_name sf) = Some (func_view (sym_names dest) ?df)" using i by (simp add: procedures_find)
  show ?thesis
  proof (cases "(is_decl ?df \<or> blocks ?df = []) \<and> \<not> (is_decl sf \<or> blocks sf = [])")
    case True
    obtain ret where ret: "ret_type sf = Some ret" using sf by (auto simp: func_linkable_def)
    obtain r' k1 ps k2 where t: "merge_remap_type dest k ret = (r', k1)" "merge_remap_types dest k1 (param_types sf) = (ps, k2)" by fastforce
    have ty: "types_ok dest" using ok by (simp add: linkable_def)
    define df where "df = ?df\<lparr>ret_type := Some r', fn_vararg := fn_vararg sf, uses_llvm_abi := uses_llvm_abi sf, param_types := ps,
      param_vregs := param_vregs sf, fn_type := Some (lr_type_func k2 r' ps (fn_vararg sf))\<rparr>"
    have sig: "sig_view df = sig_view sf" "param_vregs df = param_vregs sf" "fn_name df = fn_name sf"
      using remap_erase(1) [OF ty, of k ret] remap_erase(2) [OF ty, of k1 "param_types sf"] t ret il(2) by (simp_all add: df_def sig_view_def)
    have "func_ok (sym_names dest) ?df" using ok il(1) by (simp add: linkable_def module_ok_nth)
    then have sid: "unat (symbol_id df) < length (sym_names dest)" "sym_names dest ! unat (symbol_id df) = fn_name df"
      by (auto simp: df_def func_ok_def)
    have "func_bound names sf" "blocks sf \<noteq> []" using sf True by (auto simp: func_linkable_def)
    then obtain dbs k' where b: "merge_deep_copy_func_body dest r (k2 + 1) (clear_body df) sf =
        Some ((clear_body df)\<lparr>next_vreg := next_vreg sf, num_blocks := of_nat (length (blocks sf)), blocks := dbs, is_decl := False\<rparr>, k')"
      "map (block_view (sym_names dest)) dbs = map (block_view names) (blocks sf)" "\<forall>b \<in> set dbs. block_bound (sym_names dest) b"
      using copy_body_ok [OF ty r] by blast
    let ?f = "(clear_body df)\<lparr>next_vreg := next_vreg sf, num_blocks := of_nat (length (blocks sf)), blocks := dbs, is_decl := False\<rparr>"
    note f = copied_func [OF sf \<open>blocks sf \<noteq> []\<close> _ sig(1,2) sid b(2,3)]
    have "merge_func (\<lambda>_. True) r k dest sf = Some (dest\<lparr>funcs := (funcs dest)[i := ?f]\<rparr>, k')"
      using True i ret t b(1) by (simp add: merge_func_def merge_replace_func_def df_def)
    moreover have "linkable (dest\<lparr>funcs := (funcs dest)[i := ?f]\<rparr>)" using linkable_update [OF ok il(1)] f True sig(3) il(2) by simp
    moreover have "procedures (dest\<lparr>funcs := (funcs dest)[i := ?f]\<rparr>) = (procedures dest)(fn_name sf \<mapsto> func_view names sf)"
      using procedures_update [OF _ il(1), of ?f] f True sig(3) il(2) ok by (simp add: linkable_def)
    moreover have "link_func (procedures dest (fn_name sf)) (Some (func_view names sf)) = Some (func_view names sf)"
      using True by (auto simp: view func_view_def)
    ultimately show ?thesis by simp
  next
    case False
    then have "link_func (procedures dest (fn_name sf)) (Some (func_view names sf)) = procedures dest (fn_name sf)"
      by (auto simp: view func_view_def)
    then show ?thesis using False i ok by (auto simp: merge_func_def)
  qed
qed

lemma merge_func_new:
  assumes ok: "linkable dest" and r: "remap_ok names (sym_names dest) r" and sf: "func_linkable names sf"
    and i: "merge_find_func dest (fn_name sf) = None" and few: "length (sym_names dest) < 2 ^ 30"
  shows "\<exists>dest' k'. merge_func (\<lambda>_. True) r k dest sf = Some (dest', k') \<and> linkable dest' \<and> sym_names dest' = sym_names dest \<and>
    globals dest' = globals dest \<and> procedures dest' = (procedures dest)(fn_name sf \<mapsto> func_view names sf)"
proof -
  have new: "fn_name sf \<notin> fn_name ` set (funcs dest)" using i by (auto simp: merge_find_func_def find_index_None)
  have fok: "func_ok names sf" and bnd: "func_bound names sf" and pv: "param_vregs sf = map of_nat [0..<length (param_types sf)]"
    and np: "length (param_types sf) < 2 ^ 32" using sf by (auto simp: func_linkable_def)
  have known: "fn_name sf \<in> set (sym_names dest)"
    using fok r by (cases r) (auto simp: func_ok_def, metis nth_mem)
  have ty: "types_ok dest" using ok by (simp add: linkable_def)
  obtain ret where ret: "ret_type sf = Some ret" using sf by (auto simp: func_linkable_def)
  obtain ps k1 r' k2 where t: "merge_remap_types dest k (param_types sf) = (ps, k1)" "merge_remap_type dest k1 ret = (r', k2)" by fastforce
  have er: "erase r' = erase ret" "map erase ps = map erase (param_types sf)"
    using remap_erase(1) [OF ty, of k1 ret] remap_erase(2) [OF ty, of k "param_types sf"] t by simp_all
  then have len: "length ps = length (param_types sf)" by (auto dest: map_eq_imp_length_eq)
  obtain m1 f where c: "lr_func_create (\<lambda>_. True) k2 dest (fn_name sf) r' ps (fn_vararg sf) = Some (length (funcs dest), m1)" "linkable m1"
    "sym_names m1 = sym_names dest" "globals m1 = globals dest" "funcs m1 = funcs dest @ [f]"
    and f: "fn_name f = fn_name sf" "ret_type f = Some r'" "param_types f = ps" "param_vregs f = map of_nat [0..<length ps]"
    "fn_vararg f = fn_vararg sf" "blocks f = []" "func_linkable (sym_names dest) f"
    using func_create_linkable [OF ok few new, of ps k2 r' "fn_vararg sf"] np len known by auto
  let ?i = "length (funcs dest)"
  have upd: "linkable (m1\<lparr>funcs := (funcs m1)[?i := g]\<rparr>) \<and>
      procedures (m1\<lparr>funcs := (funcs m1)[?i := g]\<rparr>) = (procedures dest)(fn_name sf \<mapsto> func_view (sym_names dest) g)"
    if "fn_name g = fn_name sf" "func_linkable (sym_names dest) g" for g
    using linkable_update [OF c(2), of ?i g] procedures_update [of m1 ?i g] that c f(1) table_append [of fn_name f "funcs dest" "func_view (sym_names dest)"] new
    by (simp add: linkable_def procedures_def)
  show ?thesis
  proof (cases "is_decl sf \<or> blocks sf = []")
    case True
    let ?g = "f\<lparr>is_decl := True, uses_llvm_abi := uses_llvm_abi sf\<rparr>"
    have "func_view (sym_names dest) ?g = func_view names sf" using True f er ret by (simp add: func_view_def sig_view_def)
    moreover have "func_linkable (sym_names dest) ?g" using f(7) by (simp add: func_linkable_def func_ok_def func_bound_def)
    moreover have "merge_func (\<lambda>_. True) r k dest sf = Some (m1\<lparr>funcs := (funcs m1)[?i := ?g]\<rparr>, k2 + 1)"
      using True i ret t c(1,5) by (simp add: merge_func_def lr_func_declare_def merge_find_func_def)
    ultimately show ?thesis using upd [of ?g] c(3,4) f(1) by simp
  next
    case False
    define df where "df = f\<lparr>uses_llvm_abi := uses_llvm_abi sf\<rparr>"
    have sig: "sig_view df = sig_view sf" "param_vregs df = param_vregs sf" using f er ret pv len by (simp_all add: df_def sig_view_def)
    have sid: "unat (symbol_id df) < length (sym_names dest)" "sym_names dest ! unat (symbol_id df) = fn_name df"
      using f(7) by (auto simp: df_def func_linkable_def func_ok_def)
    have r1: "remap_ok names (sym_names m1) r" and ty1: "types_ok m1" using r c(2,3) by (simp_all add: linkable_def)
    obtain dbs k' where b: "merge_deep_copy_func_body m1 r (k2 + 1) (clear_body df) sf =
        Some ((clear_body df)\<lparr>next_vreg := next_vreg sf, num_blocks := of_nat (length (blocks sf)), blocks := dbs, is_decl := False\<rparr>, k')"
      "map (block_view (sym_names dest)) dbs = map (block_view names) (blocks sf)" "\<forall>b \<in> set dbs. block_bound (sym_names dest) b"
      using copy_body_ok [OF ty1 r1 bnd, of "k2 + 1" df] False unfolding c(3) by blast
    let ?g = "(clear_body df)\<lparr>next_vreg := next_vreg sf, num_blocks := of_nat (length (blocks sf)), blocks := dbs, is_decl := False\<rparr>"
    have "merge_func (\<lambda>_. True) r k dest sf = Some (m1\<lparr>funcs := (funcs m1)[?i := ?g]\<rparr>, k')"
      using False i ret t b(1) c(1,5) by (simp add: merge_func_def df_def)
    moreover have "fn_name df = fn_name sf" using f(1) by (simp add: df_def)
    ultimately show ?thesis using upd [of ?g] copied_func [OF sf _ _ sig sid b(2,3)] False c(3,4) by simp
  qed
qed

section \<open>One global\<close>

lemma copy_global_data:
  "merge_copy_global_data dg sg =
     dg\<lparr>init_data := (if global_bytes sg \<noteq> [] then Some (global_bytes sg) else init_data dg), relocs := rev (relocs sg) @ relocs dg\<rparr>"
proof -
  have "fold (\<lambda>sr dg. dg\<lparr>relocs := sr # relocs dg\<rparr>) rs g = g\<lparr>relocs := rev rs @ relocs g\<rparr>" for rs and g :: lr_global
    by (induction rs arbitrary: g) simp_all
  then show ?thesis by (simp add: merge_copy_global_data_def)
qed

lemma copied_global_view:
  "init_data dg = None \<Longrightarrow> relocs dg = [] \<Longrightarrow> map_option erase (g_type dg) = map_option erase (g_type sg) \<Longrightarrow> g_is_const dg = g_is_const sg \<Longrightarrow>
    is_external dg = is_external sg \<Longrightarrow> is_local dg = is_local sg \<Longrightarrow> is_weak dg = is_weak sg \<Longrightarrow>
    global_view (merge_copy_global_data dg sg) = global_view sg"
  by (simp add: copy_global_data global_view_def global_bytes_def split: option.splits)

lemma external_view [simp]: "gv_external (global_view g) = is_external g"
  by (simp add: global_view_def)

lemma blank_view: "gv_blank (global_view g) \<longleftrightarrow> merge_global_init_all_zero g \<and> relocs g = []"
  by (simp add: gv_blank_def global_view_def merge_global_init_all_zero_def)

lemma linkable_globals:
  assumes "linkable m" and "map g_name gs = map g_name (globals m)" and "map g_id gs = map g_id (globals m)"
  shows "linkable (m\<lparr>globals := gs\<rparr>)"
proof -
  have "length gs = length (globals m)" using assms(2) by (rule map_eq_imp_length_eq)
  then show ?thesis using assms by (simp add: linkable_def module_ok_def)
qed

lemma merge_global_ok:
  assumes ok: "linkable dest"
  shows "\<exists>dest' k'. merge_global k dest sg = Some (dest', k') \<and> linkable dest' \<and> sym_names dest' = sym_names dest \<and> funcs dest' = funcs dest \<and>
    variables dest' = (variables dest)(g_name sg := link_var (variables dest (g_name sg)) (Some (global_view sg)))"
proof -
  obtain ty k1 where t: "remap_type_ptr dest k (g_type sg) = (ty, k1)" by fastforce
  then have ty: "map_option erase ty = map_option erase (g_type sg)"
    using remap_erase_opt [of dest k "g_type sg"] ok by (simp add: linkable_def)
  have dg: "distinct (map g_name (globals dest))" using ok by (simp add: linkable_def)
  have find: "variables dest (g_name sg) = map_option (\<lambda>i. global_view (globals dest ! i)) (merge_find_global dest (g_name sg))"
    by (simp add: variables_def merge_find_global_def table_find)
  show ?thesis
  proof (cases "merge_find_global dest (g_name sg)")
    case (Some i)
    let ?d = "globals dest ! i"
    have i: "i < length (globals dest)" "g_name ?d = g_name sg" using find_index_Some [OF Some [unfolded merge_find_global_def]] by auto
    let ?taken = "merge_copy_global_data (?d\<lparr>g_type := ty, g_is_const := g_is_const sg, is_external := False, is_local := is_local sg,
      is_weak := is_weak sg, init_data := None, relocs := []\<rparr>) sg"
    have link: "link_var (variables dest (g_name sg)) (Some (global_view sg)) =
        (if \<not> is_external sg \<and> (is_external ?d \<or> gv_blank (global_view ?d) \<and> \<not> gv_blank (global_view sg)) then Some (global_view sg) else variables dest (g_name sg))"
      by (simp add: find Some)
    show ?thesis
    proof (cases "\<not> is_external sg \<and> (is_external ?d \<or> gv_blank (global_view ?d) \<and> \<not> gv_blank (global_view sg))")
      case True
      let ?m = "dest\<lparr>globals := (globals dest)[i := ?taken]\<rparr>"
      have "merge_global k dest sg = Some (?m, k1)"
        using True t Some by (auto simp: merge_global_def Let_def blank_view merge_global_init_all_zero_def)
      moreover have "global_view ?taken = global_view sg" using True ty by (intro copied_global_view) simp_all
      then have "variables ?m = (variables dest)(g_name sg \<mapsto> global_view sg)"
        using table_update [OF dg i(1), of ?taken global_view] i(2) by (simp add: variables_def copy_global_data)
      moreover have "linkable ?m" using i by (intro linkable_globals ok) (auto simp: copy_global_data map_update list_update_id intro!: nth_equalityI simp: nth_list_update)
      ultimately show ?thesis using True link by simp
    next
      case False
      then have "merge_global k dest sg = Some (dest, k)"
        using t Some by (auto simp: merge_global_def Let_def blank_view merge_global_init_all_zero_def)
      then show ?thesis unfolding link using False ok by auto
    qed
  next
    case None
    let ?g = "\<lparr>g_name = g_name sg, g_type = ty, init_data = None, relocs = [], g_is_const = g_is_const sg,
      is_external = is_external sg, is_local = is_local sg, is_weak = is_weak sg, g_id = num_globals dest\<rparr>"
    let ?m = "dest\<lparr>num_globals := num_globals dest + 1, globals := globals dest @ [merge_copy_global_data ?g sg], local_function_collision_scan_dirty := True\<rparr>"
    have new: "g_name sg \<notin> g_name ` set (globals dest)" using None by (auto simp: merge_find_global_def find_index_None)
    have "merge_global k dest sg = Some (?m, k1)" using None t by (simp add: merge_global_def lr_global_create_def Let_def)
    moreover have "global_view (merge_copy_global_data ?g sg) = global_view sg" using ty by (intro copied_global_view) simp_all
    then have "variables ?m = (variables dest)(g_name sg \<mapsto> global_view sg)"
      using table_append [of g_name "merge_copy_global_data ?g sg" "globals dest" global_view] new by (simp add: variables_def copy_global_data)
    moreover have "linkable ?m" using ok new by (auto simp: linkable_def module_ok_def copy_global_data add.commute)
    ultimately show ?thesis using None by (simp add: find)
  qed
qed

section \<open>The two loops\<close>

text \<open>A loop whose step links one entry into a table by name links a whole list of entries with
  distinct names.\<close>

locale linking =
  fixes step :: "nat \<Rightarrow> 'm \<Rightarrow> 'a \<Rightarrow> ('m \<times> nat) option"
    and ok :: "'m \<Rightarrow> bool"
    and admitted :: "'a \<Rightarrow> bool"
    and table :: "'m \<Rightarrow> string \<Rightarrow> 'v option"
    and key :: "'a \<Rightarrow> string"
    and view :: "'a \<Rightarrow> 'v"
    and link :: "'v option \<Rightarrow> 'v option \<Rightarrow> 'v option"
  assumes step_links: "ok m \<Longrightarrow> admitted x \<Longrightarrow>
      \<exists>m' k'. step k m x = Some (m', k') \<and> ok m' \<and> table m' = (table m)(key x := link (table m (key x)) (Some (view x)))"
    and link_nothing: "link d None = d"
begin

lemma loop_links:
  assumes "ok m" and "list_all admitted xs" and "distinct (map key xs)"
  shows "\<exists>m' k'. merge_loop step k m xs = Some (m', k') \<and> ok m' \<and>
    table m' = (\<lambda>n. link (table m n) (map_of (map (\<lambda>x. (key x, view x)) xs) n))"
  using assms
proof (induction xs arbitrary: k m)
  case (Cons x xs)
  obtain m1 k1 where s: "step k m x = Some (m1, k1)" "ok m1" "table m1 = (table m)(key x := link (table m (key x)) (Some (view x)))"
    using step_links [OF Cons.prems(1), of x k] Cons.prems(2) by auto
  obtain m' k' where l: "merge_loop step k1 m1 xs = Some (m', k')" "ok m'"
    "table m' = (\<lambda>n. link (table m1 n) (map_of (map (\<lambda>x. (key x, view x)) xs) n))"
    using Cons.IH [OF s(2), of k1] Cons.prems by auto
  have "map_of (map (\<lambda>x. (key x, view x)) xs) (key x) = None" using Cons.prems(3) by (auto simp: map_of_eq_None_iff image_iff)
  then have "table m' = (\<lambda>n. link (table m n) (map_of (map (\<lambda>x. (key x, view x)) (x # xs)) n))"
    unfolding l(3) s(3) by (auto simp: fun_eq_iff link_nothing)
  then show ?case using s(1) l(1,2) by auto
qed (simp add: link_nothing)

end

text \<open>While functions are linked, the names, the globals and the table of symbol ids stay.\<close>

definition linking_funcs :: "string list \<Rightarrow> u32 list option \<Rightarrow> string list \<Rightarrow> lr_global list \<Rightarrow> lr_module \<Rightarrow> bool" where
  "linking_funcs names r N G m \<longleftrightarrow> linkable m \<and> sym_names m = N \<and> globals m = G \<and> length N < 2 ^ 30 \<and> remap_ok names N r"

definition linking_globals :: "string list \<Rightarrow> lr_func list \<Rightarrow> lr_module \<Rightarrow> bool" where
  "linking_globals N F m \<longleftrightarrow> linkable m \<and> sym_names m = N \<and> funcs m = F"

lemma link_func_nothing: "link_func d None = d"
  by (cases d) simp_all

interpretation link_funcs: linking "merge_func (\<lambda>_. True) r" "linking_funcs names r N G" "func_linkable names" procedures fn_name "func_view names" link_func
  for names r N G
proof unfold_locales
  show "\<exists>m' k'. merge_func (\<lambda>_. True) r k m x = Some (m', k') \<and> linking_funcs names r N G m' \<and>
      procedures m' = (procedures m)(fn_name x := link_func (procedures m (fn_name x)) (Some (func_view names x)))"
    if ok: "linking_funcs names r N G m" and x: "func_linkable names x" for m x k
  proof (cases "merge_find_func m (fn_name x)")
    case None
    then show ?thesis using merge_func_new [OF _ _ x None, of r k] ok by (auto simp: linking_funcs_def procedures_find)
  next
    case (Some i)
    then show ?thesis using merge_func_found [OF _ _ x Some, of r k] ok by (auto simp: linking_funcs_def)
  qed
qed (rule link_func_nothing)

interpretation link_globals: linking merge_global "linking_globals N F" "\<lambda>_. True" variables g_name global_view link_var
  for N F
proof unfold_locales
  show "\<exists>m' k'. merge_global k m x = Some (m', k') \<and> linking_globals N F m' \<and>
      variables m' = (variables m)(g_name x := link_var (variables m (g_name x)) (Some (global_view x)))"
    if "linking_globals N F m" for m x k
    using merge_global_ok [of m k x] that by (auto simp: linking_globals_def)
  show "link_var d None = d" for d by (cases d) simp_all
qed

section \<open>Interning the symbols of the source\<close>

lemma func_view_more:
  assumes "func_bound names f"
  shows "func_view (names @ new) f = func_view names f"
proof -
  have "opd_view (names @ new) op = opd_view names op" if "opd_bound names op" for op
    using that by (auto simp: opd_view_def opd_bound_def nth_append)
  then have "inst_view (names @ new) i = inst_view names i" if "inst_bound names i" for i
    using that by (auto simp: inst_view_def inst_bound_def)
  then have "block_view (names @ new) b = block_view names b" if "block_bound names b" for b
    using that by (auto simp: block_view_def block_bound_def)
  then show ?thesis using assms by (auto simp: func_view_def func_bound_def)
qed

lemma linkable_more:
  assumes "linkable m" and "sym_inv m1" and "sym_names m1 = sym_names m @ new" and "length (sym_names m1) \<le> 2 ^ 30" and "lr_symtab.more m1 = lr_symtab.more m"
  shows "linkable m1" and "procedures m1 = procedures m" and "variables m1 = variables m"
proof -
  have same: "funcs m1 = funcs m" "globals m1 = globals m" "num_globals m1 = num_globals m" "types_ok m1 = types_ok m"
    using assms(5) by (cases m; cases m1; simp add: types_ok_def)+
  show "linkable m1"
    using assms same by (auto simp: linkable_def module_ok_def list_all_iff func_linkable_more func_ok_more_names)
  have "func_view (sym_names m1) f = func_view (sym_names m) f" if "f \<in> set (funcs m)" for f
    using assms(1,3) that func_view_more by (auto simp: linkable_def list_all_iff func_linkable_def)
  then show "procedures m1 = procedures m" by (simp add: procedures_def same cong: map_cong)
  show "variables m1 = variables m" by (simp add: variables_def same)
qed

lemma intern_all_more:
  "sym_inv m \<Longrightarrow> length (sym_names m) + length ns < 2 ^ 30 \<Longrightarrow> intern_all (lr_module_intern_symbol (\<lambda>_. True)) m ns = Some (is, m') \<Longrightarrow>
    lr_symtab.more m' = lr_symtab.more m"
proof (induction ns arbitrary: m "is")
  case (Cons n ns)
  have few: "length (sym_names m) < 2 ^ 30" and n: "unat (num_symbols m) < 2 ^ 30"
    using Cons.prems(1,2) length_sym_names [of m] by (auto simp: sym_inv_def)
  obtain i m1 where i: "lr_module_intern_symbol (\<lambda>_. True) m n = Some (i, m1)" "sym_inv m1"
    "sym_names m1 = (if n \<in> set (sym_names m) then sym_names m else sym_names m @ [n])"
    using intern_step_total [OF Cons.prems(1) few] by blast
  moreover from this have "lr_symtab.more m1 = lr_symtab.more m" using intern_outcomes [OF Cons.prems(1) n, of "\<lambda>_. True" n] by auto
  ultimately show ?case using Cons.IH [OF i(2)] Cons.prems(2,3) by auto
qed simp

section \<open>Properties\<close>

text \<open>C13: merging a module into another links them by name.  With memory and fewer than \<open>2 ^ 30\<close> symbols the merge
  succeeds; every name then has the function and the global that the specification of linking gives, with the bodies
  of the source referring to the same symbol names as before; and the result is again well formed and linkable.\<close>

theorem module_merge_links:
  assumes "linkable dest" and "linkable src" and "length (sym_names dest) + length (sym_names src) < 2 ^ 30"
  shows "\<exists>dest' k'. lr_module_merge (\<lambda>_. True) k dest (Some src) = Some (0, dest', k') \<and> linkable dest' \<and>
    procedures dest' = (\<lambda>n. link_func (procedures dest n) (procedures src n)) \<and>
    variables dest' = (\<lambda>n. link_var (variables dest n) (variables src n)) \<and>
    (\<exists>new. sym_names dest' = sym_names dest @ new)"
proof -
  have inv: "sym_inv dest" "sym_inv src" using assms(1,2) by (simp_all add: linkable_def module_ok_def)
  obtain r m1 new where i: "(if 0 < num_symbols src
        then map_option (\<lambda>(r, m). (Some r, m)) (intern_all (lr_module_intern_symbol (\<lambda>_. True)) dest (sym_names src))
        else Some (None, dest)) = Some (r, m1)" "remap_ok (sym_names src) (sym_names m1) r"
    "linkable m1" "procedures m1 = procedures dest" "variables m1 = variables dest" "sym_names m1 = sym_names dest @ new" "length (sym_names m1) < 2 ^ 30"
  proof (cases "0 < num_symbols src")
    case True
    obtain "is" m' new where r: "intern_all (lr_module_intern_symbol (\<lambda>_. True)) dest (sym_names src) = Some (is, m')" "sym_inv m'"
      "sym_names m' = sym_names dest @ new" "length new \<le> length (sym_names src)" "remap_ok (sym_names src) (sym_names m') (Some is)"
      using symtab.intern_all_ok [OF inv(1), of "sym_names src"] assms(3) by auto
    then show ?thesis
      using that [of "Some is" m' new] True assms(3) linkable_more [OF assms(1) r(2,3)] intern_all_more [OF inv(1) assms(3) r(1)] by simp
  next
    case False
    then have "num_symbols src = 0" by (simp add: word_gt_0)
    then have "sym_names src = []" using inv(2) length_sym_names [of src] by (simp add: sym_inv_def)
    then show ?thesis using that [of None dest "[]"] False assms by simp
  qed
  have "list_all (func_linkable (sym_names src)) (funcs src)" "distinct (map fn_name (funcs src))" "distinct (map g_name (globals src))"
    using assms(2) by (simp_all add: linkable_def)
  moreover obtain m2 k2 where g: "merge_loop merge_global k m1 (globals src) = Some (m2, k2)" "linking_globals (sym_names m1) (funcs m1) m2"
    "variables m2 = (\<lambda>n. link_var (variables m1 n) (variables src n))"
    using link_globals.loop_links [of "sym_names m1" "funcs m1" m1 "globals src" k] i(3) calculation(3)
    by (auto simp: linking_globals_def variables_def list_all_iff)
  moreover from g(2) have p2: "procedures m2 = procedures m1" "linking_funcs (sym_names src) r (sym_names m1) (globals m2) m2"
    using i(2,7) by (simp_all add: linking_globals_def procedures_def linking_funcs_def)
  ultimately obtain m3 k3 where f: "merge_loop (merge_func (\<lambda>_. True) r) k2 m2 (funcs src) = Some (m3, k3)"
    "linking_funcs (sym_names src) r (sym_names m1) (globals m2) m3" "procedures m3 = (\<lambda>n. link_func (procedures m2 n) (procedures src n))"
    using link_funcs.loop_links [of "sym_names src" r "sym_names m1" "globals m2" m2 "funcs src" k2] by (auto simp: procedures_def)
  have "variables m3 = variables m2" using f(2) by (simp add: linking_funcs_def variables_def)
  then show ?thesis using i g f p2 by (intro exI [of _ m3] exI [of _ k3]) (auto simp: lr_module_merge_def linking_funcs_def)
qed

text \<open>A module that declares a function, and one that defines it.\<close>

lemma demo_modules:
  "\<exists>m. linkable m \<and> sym_names m = [''f''] \<and> procedures m ''f'' =
     Some (if b then Defined (Some (TScalar 0 SVoid), [], False, False) [] 0 [(''entry'', 0, [])] else Declared (Some (TScalar 0 SVoid), [], False, False))"
proof -
  let ?m = "lr_module_create id"
  have e: "funcs ?m = []" "globals ?m = []" "sym_names ?m = []" by (simp_all add: lr_module_create_def sym_names_def)
  have "types_ok ?m" by (simp add: types_ok_def lr_module_create_def)
  then have "linkable ?m" by (simp add: linkable_def e module_ok_create)
  then obtain m f where m: "linkable m" "sym_names m = [''f'']" "funcs m = [f]" "func_linkable (sym_names m) f"
    and f: "fn_name f = ''f''" "ret_type f = Some (TScalar 5 SVoid)" "param_types f = []" "param_vregs f = []" "\<not> fn_vararg f" "blocks f = []"
    using func_create_linkable [of ?m "''f''" "[]" 1 "TScalar 5 SVoid" False] e by auto
  define g where "g = (if b then (snd (lr_block_create f ''entry''))\<lparr>uses_llvm_abi := False, next_vreg := 0, num_blocks := 1,
    blocks := [\<lparr>blk_name = ''entry'', blk_id = 0, blk_insts = [], inst_array = None, num_insts = 0\<rparr>], is_decl := False\<rparr> else f\<lparr>uses_llvm_abi := False\<rparr>)"
  have "func_linkable (sym_names m) g" "fn_name g = ''f''"
    using m(4) f by (auto simp: g_def func_linkable_def func_ok_def func_bound_def block_bound_def lr_block_create_def Let_def)
  moreover have "func_view [''f''] g = (if b then Defined (Some (TScalar 0 SVoid), [], False, False) [] 0 [(''entry'', 0, [])]
      else Declared (Some (TScalar 0 SVoid), [], False, False))"
    using f by (simp add: g_def func_view_def sig_view_def block_view_def lr_block_create_def Let_def)
  ultimately show ?thesis
    using linkable_update [of m 0 g] procedures_update [of m 0 g] m f(1)
    by (intro exI [of _ "m\<lparr>funcs := (funcs m)[0 := g]\<rparr>"]) (simp add: linkable_def)
qed

theorem module_merge_links_witness:
  "\<exists>dest src dest' k'. lr_module_merge (\<lambda>_. True) 0 dest (Some src) = Some (0, dest', k') \<and>
    procedures dest ''f'' = Some (Declared (Some (TScalar 0 SVoid), [], False, False)) \<and>
    procedures dest' ''f'' = Some (Defined (Some (TScalar 0 SVoid), [], False, False) [] 0 [(''entry'', 0, [])])"
proof -
  obtain dest where d: "linkable dest" "sym_names dest = [''f'']" "procedures dest ''f'' = Some (Declared (Some (TScalar 0 SVoid), [], False, False))"
    using demo_modules [of False] by auto
  obtain src where s: "linkable src" "sym_names src = [''f'']"
    "procedures src ''f'' = Some (Defined (Some (TScalar 0 SVoid), [], False, False) [] 0 [(''entry'', 0, [])])"
    using demo_modules [of True] by auto
  obtain dest' k' where "lr_module_merge (\<lambda>_. True) 0 dest (Some src) = Some (0, dest', k')"
    "procedures dest' = (\<lambda>n. link_func (procedures dest n) (procedures src n))"
    using module_merge_links [OF d(1) s(1), of 0] d(2) s(2) by auto
  then show ?thesis using d(3) s(3) by (intro exI [of _ dest] exI [of _ src] exI [of _ dest'] exI [of _ k']) simp
qed

end
