(* ===== verification/Obj_Build.thy ===== *)
theory Obj_Build
  imports Elf_Object Target_Compile
begin

text \<open>
  Building an object file from a module (\<^verbatim>\<open>src/src/objfile.c\<close>): the code of the functions, the stubs of
  the intrinsics, the data of the globals, with the symbols and relocations of all of them, and the
  choice of the writer.

  The code generator of the target is the parameter \<open>gen\<close>: for the position of a function, the module, the
  object context and the rest of the code buffer it gives the status, the number of bytes needed, and the
  buffer, module and context afterwards.  \<open>stub\<close> gives the machine code of an assembled intrinsic by its
  label.  A result \<open>Some None\<close> is the return value -1, after which the build is destroyed; \<open>None\<close> stands for a
  run that does not return or writes outside a buffer.  The branches for Linux are the ones modelled.
\<close>

unbundle bit_operations_syntax

section \<open>The build under construction\<close>

record lr_obj_build_result =
  code_buf :: bytes
  data_buf :: bytes
  code_pos :: u64
  data_pos :: u64
  ob_has_data :: bool
  ob_ctx :: lr_objfile_ctx

record obj_memory =
  om_calloc :: "u32 \<Rightarrow> bool"
  om_realloc :: "u32 \<Rightarrow> bool"
  om_buffer :: "u64 \<Rightarrow> bool"
  om_symbols :: "u32 \<Rightarrow> bool"
  om_disambiguate :: "dis_alloc \<Rightarrow> bool"
  om_arena :: bool

definition OBJ_INITIAL_CODE_BUF_CAP :: u64 where "OBJ_INITIAL_CODE_BUF_CAP = 256 * 1024"
definition OBJ_INITIAL_DATA_BUF_CAP :: u64 where "OBJ_INITIAL_DATA_BUF_CAP = 64 * 1024"

definition obj_ensure_code_capacity :: "obj_memory \<Rightarrow> lr_obj_build_result \<Rightarrow> u64 \<Rightarrow> (int \<times> lr_obj_build_result) option" where
  "obj_ensure_code_capacity mem out need =
     map_option (\<lambda>(rc, buf). (rc, out\<lparr>code_buf := buf\<rparr>)) (obj_grow_buffer (om_buffer mem) (code_buf out) need)"

definition obj_ensure_data_capacity :: "obj_memory \<Rightarrow> lr_obj_build_result \<Rightarrow> u64 \<Rightarrow> (int \<times> lr_obj_build_result) option" where
  "obj_ensure_data_capacity mem out need =
     map_option (\<lambda>(rc, buf). (rc, out\<lparr>data_buf := buf\<rparr>)) (obj_grow_buffer (om_buffer mem) (data_buf out) need)"

definition zero_build :: lr_obj_build_result where
  "zero_build = \<lparr>code_buf = [], data_buf = [], code_pos = 0, data_pos = 0, ob_has_data = False, ob_ctx = empty_objfile\<rparr>"

definition obj_build_result_init :: "obj_memory \<Rightarrow> lr_obj_build_result option option" where
  "obj_build_result_init mem =
     (case obj_ensure_code_capacity mem zero_build OBJ_INITIAL_CODE_BUF_CAP of None \<Rightarrow> None
      | Some (rc, out) \<Rightarrow>
          if rc \<noteq> 0 then Some None
          else (case obj_ensure_data_capacity mem out OBJ_INITIAL_DATA_BUF_CAP of None \<Rightarrow> None
                | Some (rc2, out2) \<Rightarrow> Some (if rc2 \<noteq> 0 then None else Some out2)))"

text \<open>\<^verbatim>\<open>memcpy\<close> into a buffer at an offset.\<close>

definition memcpy_at :: "bytes \<Rightarrow> nat \<Rightarrow> bytes \<Rightarrow> bytes option" where
  "memcpy_at buf off bs = (if off + length bs \<le> length buf then Some (overwrite buf off bs) else None)"

section \<open>The cache of module symbols\<close>

definition sym_score :: "lr_func \<Rightarrow> int" where
  "sym_score f = (if blocks f \<noteq> [] then 4 else 0) + (if uses_llvm_abi f then 2 else 0) + (if \<not> is_decl f then 1 else 0)"

fun cache_funcs :: "(u32 \<Rightarrow> bool) \<Rightarrow> lr_func list \<Rightarrow> nat list \<Rightarrow> lr_module \<Rightarrow> lr_objfile_ctx \<Rightarrow> (lr_module \<times> lr_objfile_ctx) option" where
  "cache_funcs mem fs [] m oc = Some (m, oc)"
| "cache_funcs mem fs (i # is) m oc =
     (if fn_name (fs ! i) = [] then cache_funcs mem fs is m oc
      else case lr_module_intern_symbol mem m (fn_name (fs ! i)) of None \<Rightarrow> None
           | Some (sid, m1) \<Rightarrow>
               if module_sym_count oc \<le> sid then cache_funcs mem fs is m1 oc
               else let better = (case module_sym_funcs oc ! unat sid of None \<Rightarrow> True
                                  | Some prev \<Rightarrow> sym_score (fs ! i) > sym_score (fs ! prev) - 1)
                    in cache_funcs mem fs is m1
                         (oc\<lparr>module_sym_funcs := (if better then (module_sym_funcs oc)[unat sid := Some i] else module_sym_funcs oc),
                             module_sym_defined := (if blocks (fs ! i) \<noteq> [] then (module_sym_defined oc)[unat sid := True]
                                                    else module_sym_defined oc)\<rparr>))"

fun cache_globals :: "(u32 \<Rightarrow> bool) \<Rightarrow> lr_global list \<Rightarrow> lr_module \<Rightarrow> lr_objfile_ctx \<Rightarrow> (lr_module \<times> lr_objfile_ctx) option" where
  "cache_globals mem [] m oc = Some (m, oc)"
| "cache_globals mem (g # gs) m oc =
     (if g_name g = [] \<or> is_external g then cache_globals mem gs m oc
      else case lr_module_intern_symbol mem m (g_name g) of None \<Rightarrow> None
           | Some (sid, m1) \<Rightarrow>
               cache_globals mem gs m1
                 (if sid < module_sym_count oc then oc\<lparr>module_sym_defined := (module_sym_defined oc)[unat sid := True]\<rparr> else oc))"

definition lr_obj_build_symbol_cache :: "obj_memory \<Rightarrow> lr_objfile_ctx \<Rightarrow> lr_module \<Rightarrow> (int \<times> lr_module \<times> lr_objfile_ctx) option" where
  "lr_obj_build_symbol_cache mem oc m =
     (case intern_all (lr_module_intern_symbol (om_symbols mem)) m
             (filter (\<lambda>n. n \<noteq> []) (map fn_name (funcs m)) @ filter (\<lambda>n. n \<noteq> []) (map g_name (globals m))) of None \<Rightarrow> None
      | Some (_, m1) \<Rightarrow>
          if num_symbols m1 = 0 then Some (0, m1, oc\<lparr>module_sym_count := 0\<rparr>)
          else if \<not> om_calloc mem (num_symbols m1)
               then Some (-1, m1, oc\<lparr>module_sym_defined := [], module_sym_funcs := [], module_sym_count := 0\<rparr>)
          else let oc1 = oc\<lparr>module_sym_count := num_symbols m1, module_sym_defined := replicate (unat (num_symbols m1)) False,
                            module_sym_funcs := replicate (unat (num_symbols m1)) None\<rparr>
               in case cache_funcs (om_symbols mem) (funcs m1) [0..<length (funcs m1)] m1 oc1 of None \<Rightarrow> None
                  | Some (m2, oc2) \<Rightarrow>
                      map_option (\<lambda>(m3, oc3). (0, m3, oc3)) (cache_globals (om_symbols mem) (globals m2) m2 oc2))"

section \<open>Code\<close>

type_synonym code_gen = "nat \<Rightarrow> lr_module \<Rightarrow> lr_objfile_ctx \<Rightarrow> bytes \<Rightarrow> (int \<times> nat \<times> bytes \<times> lr_module \<times> lr_objfile_ctx) option"

text \<open>The retry loop of \<^verbatim>\<open>obj_compile_function\<close>.  Every round at least doubles the capacity, which is bounded
  by 4 GB, so 34 rounds are enough.\<close>

fun compile_rounds ::
  "nat \<Rightarrow> obj_memory \<Rightarrow> code_gen \<Rightarrow> lr_obj_build_result \<Rightarrow> nat \<Rightarrow> lr_module \<Rightarrow> u64 \<Rightarrow> nat \<Rightarrow>
     (nat \<times> lr_obj_build_result \<times> lr_module) option option" where
  "compile_rounds 0 mem gen out i m code_off saved_relocs = None"
| "compile_rounds (Suc n) mem gen out i m code_off saved_relocs =
     (case obj_ensure_code_capacity mem out (code_off + 1) of None \<Rightarrow> None
      | Some (rc0, out1) \<Rightarrow>
          if rc0 \<noteq> 0 then Some None
          else (case gen i m (ob_ctx out1) (drop (unat code_off) (code_buf out1)) of None \<Rightarrow> None
                | Some (rc, need, buf, m1, oc) \<Rightarrow>
                    let out2 = out1\<lparr>code_buf := take (unat code_off) (code_buf out1) @ buf, ob_ctx := oc\<rparr>
                    in if rc = 0 then Some (Some (need, out2, m1))
                       else if need \<le> length (code_buf out1) - unat code_off then Some None
                       else (case obj_ensure_code_capacity mem (out2\<lparr>ob_ctx := oc\<lparr>oc_relocs := take saved_relocs (oc_relocs oc)\<rparr>\<rparr>)
                                    (code_off + of_nat need) of None \<Rightarrow> None
                             | Some (rc3, out3) \<Rightarrow>
                                 if rc3 \<noteq> 0 then Some None else compile_rounds n mem gen out3 i m1 code_off saved_relocs)))"

definition obj_compile_function ::
  "obj_memory \<Rightarrow> code_gen \<Rightarrow> lr_obj_build_result \<Rightarrow> nat \<Rightarrow> lr_module \<Rightarrow> u64 \<Rightarrow> (nat \<times> lr_obj_build_result \<times> lr_module) option option" where
  "obj_compile_function mem gen out i m code_off = compile_rounds 34 mem gen out i m code_off (length (oc_relocs (ob_ctx out)))"

definition obj_ensure :: "obj_memory \<Rightarrow> lr_obj_build_result \<Rightarrow> string \<Rightarrow> bool \<Rightarrow> u8 \<Rightarrow> u32 \<Rightarrow> (u32 \<times> lr_obj_build_result) option" where
  "obj_ensure mem out name d sec off =
     map_option (\<lambda>(i, oc). (i, out\<lparr>ob_ctx := oc\<rparr>)) (lr_obj_ensure_symbol (om_calloc mem) (om_realloc mem) (ob_ctx out) name d sec off)"

definition shift_relocs :: "nat \<Rightarrow> u32 \<Rightarrow> lr_objfile_ctx \<Rightarrow> lr_objfile_ctx" where
  "shift_relocs base pos oc =
     oc\<lparr>oc_relocs := take base (oc_relocs oc) @ map (\<lambda>r. r\<lparr>or_offset := or_offset r + pos\<rparr>) (drop base (oc_relocs oc))\<rparr>"

fun emit_funcs :: "obj_memory \<Rightarrow> code_gen \<Rightarrow> nat list \<Rightarrow> lr_obj_build_result \<Rightarrow> lr_module \<Rightarrow> (lr_obj_build_result \<times> lr_module) option option" where
  "emit_funcs mem gen [] out m = Some (Some (out, m))"
| "emit_funcs mem gen (i # is) out m =
     (let f = funcs m ! i
      in if is_decl f \<or> blocks f = [] then emit_funcs mem gen is out m
         else case obj_ensure mem out (fn_name f) True 1 (ucast (code_pos out)) of None \<Rightarrow> None
              | Some (sym_idx, out1) \<Rightarrow>
                  if sym_idx = UINT32_MAX then Some None
                  else let reloc_base = length (oc_relocs (ob_ctx out1))
                       in case obj_compile_function mem gen out1 i m (code_pos out1) of
                            None \<Rightarrow> None | Some None \<Rightarrow> Some None
                          | Some (Some (func_len, out2, m1)) \<Rightarrow>
                              emit_funcs mem gen is
                                (out2\<lparr>ob_ctx := shift_relocs reloc_base (ucast (code_pos out2)) (ob_ctx out2), code_pos := code_pos out2 + of_nat func_len\<rparr>) m1)"

fun declare_funcs :: "obj_memory \<Rightarrow> lr_func list \<Rightarrow> lr_obj_build_result \<Rightarrow> lr_obj_build_result option option" where
  "declare_funcs mem [] out = Some (Some out)"
| "declare_funcs mem (f # fs) out =
     (if \<not> is_decl f \<and> blocks f \<noteq> [] then declare_funcs mem fs out
      else case obj_ensure mem out (fn_name f) False 0 0 of None \<Rightarrow> None
           | Some (i, out1) \<Rightarrow> if i = UINT32_MAX then Some None else declare_funcs mem fs out1)"

text \<open>The intrinsic stubs: for every undefined symbol that the platform supports, in the order of the table.\<close>

fun define_stubs :: "obj_memory \<Rightarrow> (string \<Rightarrow> bool) \<Rightarrow> (string \<Rightarrow> bytes) \<Rightarrow> string \<Rightarrow> nat list \<Rightarrow> lr_obj_build_result \<Rightarrow> lr_obj_build_result option option" where
  "define_stubs mem avail stub tname [] out = Some (Some out)"
| "define_stubs mem avail stub tname (i # is) out =
     (let sym = oc_symbols (ob_ctx out) ! i
      in if os_defined sym \<or> os_name sym = [] \<or> \<not> lr_platform_intrinsic_supported_for_target avail (os_name sym) tname
         then define_stubs mem avail stub tname is out
         else case lr_platform_intrinsic_blob_lookup_for_target avail (os_name sym) tname of None \<Rightarrow> Some None
              | Some label \<Rightarrow>
                  if stub label = [] then Some None
                  else let pos = obj_align_up (code_pos out) 16; n = length (stub label)
                       in case obj_ensure_code_capacity mem (out\<lparr>code_pos := pos\<rparr>) (pos + of_nat n) of None \<Rightarrow> None
                          | Some (rc, out1) \<Rightarrow>
                              if rc \<noteq> 0 then Some None
                              else case memcpy_at (code_buf out1) (unat pos) (stub label) of None \<Rightarrow> None
                                   | Some buf \<Rightarrow>
                                       define_stubs mem avail stub tname is
                                         (out1\<lparr>code_buf := buf, code_pos := pos + of_nat n,
                                               ob_ctx := (ob_ctx out1)\<lparr>oc_symbols := (oc_symbols (ob_ctx out1))[i :=
                                                 sym\<lparr>os_defined := True, os_section := 1, os_offset := ucast pos\<rparr>]\<rparr>\<rparr>))"

definition obj_define_intrinsic_stubs ::
  "obj_memory \<Rightarrow> (string \<Rightarrow> bool) \<Rightarrow> (string \<Rightarrow> bytes) \<Rightarrow> string \<Rightarrow> lr_obj_build_result \<Rightarrow> lr_obj_build_result option option" where
  "obj_define_intrinsic_stubs mem avail stub tname out = define_stubs mem avail stub tname [0..<length (oc_symbols (ob_ctx out))] out"

section \<open>Data\<close>

definition abs64_reloc :: "string \<Rightarrow> u8" where
  "abs64_reloc tname = (if tname = ''aarch64'' then LR_RELOC_ARM64_ABS64 else LR_RELOC_X86_64_64)"

fun emit_global_relocs :: "obj_memory \<Rightarrow> string \<Rightarrow> u64 \<Rightarrow> lr_reloc list \<Rightarrow> lr_obj_build_result \<Rightarrow> lr_obj_build_result option option" where
  "emit_global_relocs mem tname gsize [] out = Some (Some out)"
| "emit_global_relocs mem tname gsize (rel # rels) out =
     (case obj_ensure mem out (reloc_symbol_name rel) False 0 0 of None \<Rightarrow> None
      | Some (sym_idx, out1) \<Rightarrow>
          if sym_idx = UINT32_MAX then Some None
          else case (if reloc_offset rel + 8 \<le> gsize
                     then memcpy_at (data_buf out1) (unat (data_pos out1 + reloc_offset rel)) (le_split 8 (reloc_addend rel))
                     else Some (data_buf out1)) of None \<Rightarrow> None
               | Some buf \<Rightarrow>
                   emit_global_relocs mem tname gsize rels
                     (out1\<lparr>data_buf := buf,
                           ob_ctx := lr_obj_add_data_reloc (om_realloc mem) (ob_ctx out1) (ucast (data_pos out1 + reloc_offset rel)) sym_idx (abs64_reloc tname)\<rparr>))"

definition global_size :: "lr_global \<Rightarrow> u64" where
  "global_size g = (if lr_type_size (g_type g) = 0 then 8 else lr_type_size (g_type g))"

definition global_align :: "lr_global \<Rightarrow> u64" where
  "global_align g =
     (let a = (if lr_type_align (g_type g) = 0 then 8 else lr_type_align (g_type g)) in if relocs g \<noteq> [] \<and> a < 8 then 8 else a)"

definition mark_symbol :: "u32 \<Rightarrow> lr_global \<Rightarrow> lr_objfile_ctx \<Rightarrow> lr_objfile_ctx" where
  "mark_symbol gsym g oc =
     oc\<lparr>oc_symbols := (oc_symbols oc)[unat gsym := (oc_symbols oc ! unat gsym)
          \<lparr>os_local := is_local g, os_weak := (os_weak (oc_symbols oc ! unat gsym) \<or> is_weak g)\<rparr>]\<rparr>"

definition init_bytes :: "lr_global \<Rightarrow> bytes" where
  "init_bytes g = (case init_data g of None \<Rightarrow> [] | Some d \<Rightarrow> take (unat (global_size g)) d)"

definition emit_global :: "obj_memory \<Rightarrow> string \<Rightarrow> lr_global \<Rightarrow> lr_obj_build_result \<Rightarrow> lr_obj_build_result option option" where
  "emit_global mem tname g out =
     (if is_external g
      then (case obj_ensure mem out (g_name g) False 0 0 of None \<Rightarrow> None
            | Some (i, out1) \<Rightarrow> Some (if i = UINT32_MAX then None else Some out1))
      else
        let gsize = global_size g; pos = obj_align_up (data_pos out) (global_align g)
        in case obj_ensure_data_capacity mem (out\<lparr>data_pos := pos\<rparr>) (pos + gsize) of None \<Rightarrow> None
           | Some (rc, out1) \<Rightarrow>
               if rc \<noteq> 0 then Some None
               else case (if init_bytes g = [] then Some (data_buf out1) else memcpy_at (data_buf out1) (unat pos) (init_bytes g)) of None \<Rightarrow> None
                    | Some buf \<Rightarrow>
                        (case obj_ensure mem (out1\<lparr>data_buf := buf\<rparr>) (g_name g) True 2 (ucast pos) of None \<Rightarrow> None
                         | Some (gsym, out2) \<Rightarrow>
                             if gsym = UINT32_MAX then Some None
                             else (case emit_global_relocs mem tname gsize (relocs g) (out2\<lparr>ob_ctx := mark_symbol gsym g (ob_ctx out2)\<rparr>) of
                                     None \<Rightarrow> None | Some None \<Rightarrow> Some None
                                   | Some (Some out3) \<Rightarrow> Some (Some (out3\<lparr>data_pos := data_pos out3 + gsize, ob_has_data := True\<rparr>)))))"

fun emit_globals :: "obj_memory \<Rightarrow> string \<Rightarrow> lr_global list \<Rightarrow> lr_obj_build_result \<Rightarrow> lr_obj_build_result option option" where
  "emit_globals mem tname [] out = Some (Some out)"
| "emit_globals mem tname (g # gs) out =
     (case emit_global mem tname g out of None \<Rightarrow> None | Some None \<Rightarrow> Some None | Some (Some out1) \<Rightarrow> emit_globals mem tname gs out1)"

section \<open>The module\<close>

definition then_build :: "'a option option \<Rightarrow> ('a \<Rightarrow> 'b option option) \<Rightarrow> 'b option option" where
  "then_build r next = (case r of None \<Rightarrow> None | Some None \<Rightarrow> Some None | Some (Some x) \<Rightarrow> next x)"

definition obj_build_module ::
  "obj_memory \<Rightarrow> code_gen \<Rightarrow> (string \<Rightarrow> bool) \<Rightarrow> (string \<Rightarrow> bytes) \<Rightarrow> lr_module \<Rightarrow> string \<Rightarrow> bool \<Rightarrow> (lr_obj_build_result \<times> lr_module) option option" where
  "obj_build_module mem gen avail stub m tname preserve =
     then_build (obj_build_result_init mem) (\<lambda>out.
       if \<not> om_arena mem then Some None
       else case lr_module_disambiguate_local_function_collisions_if_dirty (om_disambiguate mem) (om_symbols mem) m of None \<Rightarrow> None
            | Some (_, m1) \<Rightarrow>
                (case lr_obj_build_symbol_cache mem ((ob_ctx out)\<lparr>preserve_symbol_names := preserve\<rparr>) m1 of None \<Rightarrow> None
                 | Some (rc, m2, oc) \<Rightarrow>
                     if rc \<noteq> 0 then Some None
                     else
                       then_build (emit_funcs mem gen [0..<length (funcs m2)] (out\<lparr>ob_ctx := oc\<rparr>) m2) (\<lambda>(out1, m3).
                       then_build (declare_funcs mem (funcs m3) out1) (\<lambda>out2.
                       then_build (obj_define_intrinsic_stubs mem avail stub tname out2) (\<lambda>out3.
                       then_build (emit_globals mem tname (globals m3) out3) (\<lambda>out4. Some (Some (out4, m3))))))))"

definition build_code :: "lr_obj_build_result \<Rightarrow> bytes" where
  "build_code b = take (unat (code_pos b)) (code_buf b)"

definition build_data :: "lr_obj_build_result \<Rightarrow> bytes" where
  "build_data b = (if ob_has_data b then take (unat (data_pos b)) (data_buf b) else [])"

definition write_object_payload :: "(u64 \<Rightarrow> bool) \<Rightarrow> file_sink \<Rightarrow> string \<Rightarrow> lr_obj_build_result \<Rightarrow> (int \<times> file_sink) option" where
  "write_object_payload mem out tname b =
     (if tname = ''x86_64'' then write_elf mem out (build_code b) (build_data b) (ob_ctx b) 62 elf_reloc_x86_64
      else if tname = ''aarch64'' then write_elf mem out (build_code b) (build_data b) (ob_ctx b) 183 elf_reloc_aarch64
      else Some (- 1, out))"

definition lr_emit_object ::
  "obj_memory \<Rightarrow> (u64 \<Rightarrow> bool) \<Rightarrow> code_gen \<Rightarrow> (string \<Rightarrow> bool) \<Rightarrow> (string \<Rightarrow> bytes) \<Rightarrow> lr_module \<Rightarrow> string \<Rightarrow> file_sink \<Rightarrow> (int \<times> file_sink) option" where
  "lr_emit_object mem wmem gen avail stub m tname out =
     (case obj_build_module mem gen avail stub m tname False of None \<Rightarrow> None
      | Some None \<Rightarrow> Some (- 1, out)
      | Some (Some (b, _)) \<Rightarrow> write_object_payload wmem out tname b)"

text \<open>\<open>dynamic\<close> is the writer of dynamically linked x86-64 executables.\<close>

type_synonym exec_writer = "file_sink \<Rightarrow> bytes \<Rightarrow> bytes \<Rightarrow> lr_objfile_ctx \<Rightarrow> string \<Rightarrow> int \<times> file_sink"

definition lr_emit_executable ::
  "obj_memory \<Rightarrow> (u64 \<Rightarrow> bool) \<Rightarrow> exec_writer \<Rightarrow> code_gen \<Rightarrow> (string \<Rightarrow> bool) \<Rightarrow> (string \<Rightarrow> bytes) \<Rightarrow> lr_module \<Rightarrow> string \<Rightarrow> file_sink \<Rightarrow> string option \<Rightarrow>
     (int \<times> file_sink) option" where
  "lr_emit_executable mem wmem dynamic gen avail stub m tname out entry_symbol =
     (let entry = (case entry_symbol of None \<Rightarrow> ''main'' | Some e \<Rightarrow> if e = [] then ''main'' else e)
      in case obj_build_module mem gen avail stub m tname True of None \<Rightarrow> None
         | Some None \<Rightarrow> Some (- 1, out)
         | Some (Some (b, _)) \<Rightarrow>
             let ctx = obj_finalize_undefined_symbol_names (ob_ctx b); code = build_code b; data = build_data b
             in Some (if tname = ''x86_64''
                      then (if \<exists>s \<in> set (oc_symbols ctx). \<not> os_defined s then dynamic out code data ctx entry
                            else write_elf_executable_x86_64 wmem out code data ctx entry)
                      else if tname = ''aarch64'' then write_elf_executable_aarch64 wmem out code data ctx entry
                      else if take 7 tname = ''riscv64'' then write_elf_executable_riscv64 wmem out code data ctx entry
                      else (- 1, out)))"

end
