(* ===== verification/Obj_Data.thy ===== *)
theory Obj_Data
  imports Obj_Build
begin

text \<open>
  The data section of a built object: every global lies at an aligned place of its own, holds its
  initial value, is named by a symbol, and its relocations are recorded against the symbols they name.
\<close>

unbundle bit_operations_syntax

section \<open>Symbols\<close>

definition plenty :: obj_memory where
  "plenty = \<lparr>om_calloc = \<lambda>_. True, om_realloc = \<lambda>_. True, om_buffer = \<lambda>_. True, om_symbols = \<lambda>_. True, om_disambiguate = \<lambda>_. True, om_arena = True\<rparr>"

lemma plenty_sel [simp]:
  "om_calloc plenty = (\<lambda>_. True)" "om_realloc plenty = (\<lambda>_. True)" "om_buffer plenty = (\<lambda>_. True)" "om_symbols plenty = (\<lambda>_. True)"
  "om_disambiguate plenty = (\<lambda>_. True)" "om_arena plenty"
  by (simp_all add: plenty_def)




text \<open>A later symbol table has the old symbols at their indices, and their definitions.\<close>

definition sym_extends :: "lr_obj_symbol list \<Rightarrow> lr_obj_symbol list \<Rightarrow> bool" where
  "sym_extends ss ss' \<longleftrightarrow> length ss \<le> length ss' \<and>
     (\<forall>i < length ss. os_name (ss' ! i) = os_name (ss ! i) \<and>
        (os_defined (ss ! i) \<longrightarrow> os_defined (ss' ! i) \<and> os_section (ss' ! i) = os_section (ss ! i) \<and> os_offset (ss' ! i) = os_offset (ss ! i) \<and>
           os_local (ss' ! i) = os_local (ss ! i) \<and> (os_weak (ss ! i) \<longrightarrow> os_weak (ss' ! i))))"

lemma sym_extends_refl [simp]: "sym_extends ss ss"
  by (simp add: sym_extends_def)







lemma add_data_reloc_plenty [simp]:
  "data_relocs (lr_obj_add_data_reloc (\<lambda>_. True) oc off i t) = data_relocs oc @ [\<lparr>or_offset = off, or_symbol_idx = i, or_type = t\<rparr>]"
  "oc_symbols (lr_obj_add_data_reloc (\<lambda>_. True) oc off i t) = oc_symbols oc"
  "oc_relocs (lr_obj_add_data_reloc (\<lambda>_. True) oc off i t) = oc_relocs oc"
  "preserve_symbol_names (lr_obj_add_data_reloc (\<lambda>_. True) oc off i t) = preserve_symbol_names oc"
  by (simp_all add: lr_obj_add_data_reloc_def reloc_append_def Let_def split: prod.splits if_splits)

lemma obj_inv_add_data_reloc [simp]: "obj_inv (lr_obj_add_data_reloc (\<lambda>_. True) oc off i t) = obj_inv oc"
  by (simp add: lr_obj_add_data_reloc_def obj_inv_def obj_arrays_ok_def obj_index_ok_def obj_names_def split: prod.splits)

section \<open>Relocations of one global\<close>




text \<open>The initial value of a global: its bytes cut or padded to its size, with the addends in place.\<close>

definition store_addend :: "lr_reloc \<Rightarrow> bytes \<Rightarrow> bytes" where
  "store_addend rel img = overwrite img (unat (reloc_offset rel)) (le_split 8 (reloc_addend rel))"



lemma length_store_addend: "unat (reloc_offset rel) + 8 \<le> length img \<Longrightarrow> length (store_addend rel img) = length img"
  by (simp add: store_addend_def)






section \<open>One global\<close>










lemma obj_inv_mark [simp]: "obj_inv (mark_symbol i g oc) = obj_inv oc"
proof -
  have "map os_name (oc_symbols (mark_symbol i g oc)) = map os_name (oc_symbols oc)" "map os_hash (oc_symbols (mark_symbol i g oc)) = map os_hash (oc_symbols oc)"
    "length (oc_symbols (mark_symbol i g oc)) = length (oc_symbols oc)"
    by (cases "unat i < length (oc_symbols oc)"; auto simp: mark_symbol_def map_update intro!: nth_equalityI simp: nth_list_update)+
  moreover from this have "oc_symbols (mark_symbol i g oc) = [] \<longleftrightarrow> oc_symbols oc = []" by (metis length_0_conv)
  moreover have "oc_index (mark_symbol i g oc) = oc_index oc" "oc_index_cap (mark_symbol i g oc) = oc_index_cap oc" "oc_symbol_cap (mark_symbol i g oc) = oc_symbol_cap oc"
    by (simp_all add: mark_symbol_def)
  ultimately show ?thesis by (simp add: obj_inv_def obj_arrays_ok_def obj_index_ok_def obj_names_def)
qed





section \<open>All globals\<close>















section \<open>Properties\<close>






end
