(* ===== verification/Spec2Isabelle.thy ===== *)
theory Spec2Isabelle
  imports Arena Sha256 Runtime_Archive Ir_Layout Ir_Builder Ir_Finalize
    Wasm_Leb Wasm_Safety Wasm_Roundtrip Ll_Scan Float128_Values Obj_Symbols Riscv_Limits Target_Compile Elf_Image Elf_Roundtrip Ir_Merge Obj_Data
begin

text \<open>
  \<^bold>\<open>Liric, verified.\<close>  Liric (\<^verbatim>\<open>src/\<close>) is a small compiler back end in C: front ends read LLVM assembly,
  bitcode or WebAssembly into an SSA intermediate representation, the representation is folded
  and finalized, and a target writes machine code for it, into memory (JIT) or into an object
  file.  This library models the parts of it that are listed below, each definition translated
  from the C function of the same name, and proves them correct.

  \<^bold>\<open>Conventions.\<close>  C integers are words of their width (\<open>u8\<close>, \<open>u32\<close>, \<open>u64\<close>) and wrap around as the code
  does; a structure is a record, an enumeration a datatype.  Lists stand for linked lists and for
  arrays with their counts; an index into an array is guarded or the result is \<open>None\<close> where the C
  code would read outside.  Memory that may run out is a parameter, a predicate that tells which
  request succeeds.  A loop that the C code leaves only under a condition is a function with
  fuel or of an option type, where \<open>None\<close> is a run that does not end, and its theorems prove
  that it does end: 33 rounds of doubling a 32-bit number, as many probes as the table has slots,
  as many steps of a walk as there are entries.

  \<^bold>\<open>The theories\<close>, with the sources they model.
  \<^item> \<open>Liric_Prelude\<close>: words, byte lists, little-endian encodings and alignment, shared by all.
  \<^item> \<open>Arena\<close> (\<^verbatim>\<open>arena.c\<close>): the bump allocator over chunks; allocations are disjoint, zeroed on request,
    aligned up to the alignment of the chunk.
  \<^item> \<open>Sha256\<close> (\<^verbatim>\<open>sha256.c\<close>): the streaming hash; equal to FIPS 180-4 for any splitting of the message.
  \<^item> \<open>Runtime_Archive\<close> (\<^verbatim>\<open>runtime_archive.c\<close>): writing and parsing of the archive of the runtime; a round trip,
    and the parser accepts nothing else.
  \<^item> \<open>Ir_Types\<close>, \<open>Ir_Layout\<close> (\<^verbatim>\<open>ir.c\<close>, \<^verbatim>\<open>ir.h\<close>): types, their size and alignment, structure offsets, aggregate
    paths and the analysis of address computations; against layouts in natural numbers.
  \<^item> \<open>Ir_Core\<close>, \<open>Linear_Probe\<close>, \<open>Symbol_Table\<close>, \<open>Ir_Builder\<close> (\<^verbatim>\<open>ir.c\<close>): modules, functions, blocks and instructions;
    the symbol table, a linear-probing hash index that implements a list of names; the builder
    as a step relation with the invariant of all modules it reaches.
  \<^item> \<open>Ir_Fold\<close>, \<open>Ir_Peephole\<close>, \<open>Ir_Finalize\<close> (\<^verbatim>\<open>ir.c\<close>): constant folding against a semantics of integer
    instructions, the peephole and dead-code passes, and the arrays a finalized function has.
  \<^item> \<open>Chain_Index\<close>, \<open>Ir_Disambiguate\<close> (\<^verbatim>\<open>ir.c\<close>): the pass that gives colliding functions names of their own, and its
    chained hash indexes; equal to a pass on names and lists.
  \<^item> \<open>Wasm_Decode\<close>, \<open>Wasm_Leb\<close>, \<open>Wasm_Safety\<close>, \<open>Wasm_Roundtrip\<close> (\<^verbatim>\<open>wasm_decode.c\<close>): the WebAssembly decoder in
    the state monad; LEB128 numbers, reads outside the input, and that decoding inverts the
    encoding of the WebAssembly specification.
  \<^item> \<open>Ll_Lexer\<close>, \<open>Ll_Keywords\<close>, \<open>Ll_Scan\<close> (\<^verbatim>\<open>ll_lexer.c\<close>): the lexer of LLVM assembly; the perfect hash of the
    keywords, progress, and tokens that tile the text.
  \<^item> \<open>Float128\<close>, \<open>Float128_Limbs\<close>, \<open>Float128_Values\<close> (\<^verbatim>\<open>lr_float128.c\<close>): binary128 arithmetic on two limbs.
  \<^item> \<open>Intrinsics\<close>, \<open>Intrinsics_Correct\<close> (\<^verbatim>\<open>platform_intrinsics.c\<close>): the integer intrinsics and their lookup.
  \<^item> \<open>Obj_Symbols\<close> (\<^verbatim>\<open>objfile.c\<close>): symbols and relocations of an object file; a second user of
    \<open>Linear_Probe\<close>.
  \<^item> \<open>Target_Core\<close> (\<^verbatim>\<open>target.h\<close>, \<^verbatim>\<open>target_common.c\<close>, \<^verbatim>\<open>target_shared.c\<close>, \<^verbatim>\<open>compile_mode.c\<close>, \<^verbatim>\<open>target_registry.c\<close>): the
    interface of a target and the replay of a finalized function through it.
  \<^item> \<open>Riscv_Emit\<close> (\<^verbatim>\<open>target_riscv64.c\<close>): the RISC-V target; \<open>Riscv_Exec\<close> is a semantics of the instructions it
    emits, \<open>Riscv_Code\<close> the code buffer, \<open>Riscv_Safety\<close> its bounds, \<open>Riscv_Correct\<close> the correctness of the
    replay for straight-line 64-bit functions, \<open>Riscv_Limits\<close> what it refuses and what it gets wrong.
  \<^item> \<open>Target_Compile\<close> (\<^verbatim>\<open>target_registry.c\<close>, \<^verbatim>\<open>ir.c\<close>): phi copies, and compiling one function of a module: finalizing,
    the pass over colliding names, and the replay; the correctness of the compiler.

  \<^bold>\<open>Interfaces.\<close>  Locales state what one part needs of another and are interpreted on the model: an
  allocator of disjoint regions (\<open>Arena\<close>), a table that interns names (\<open>Symbol_Table\<close>, interpreted for
  module symbols there and for object symbols in \<open>Obj_Symbols\<close>), a backend with an invariant of its
  contexts (\<open>Target_Core\<close>, interpreted for both RISC-V targets in \<open>Riscv_Safety\<close>).

  \<^bold>\<open>Not modelled.\<close>  The parsers of LLVM assembly and bitcode, the translation of WebAssembly to the
  representation, the x86-64 and AArch64 targets, the session and JIT drivers, the
  compatibility layer for the LLVM C++ API, and the writers of object files: they are large and
  are described in the manifest.  Platform code, tools and tests are input and output.
\<close>

end
